(* ===== verification/Rust_Std.thy ===== *)
theory Rust_Std
  imports Prelude
begin

text \<open>
  The parts of the Rust standard library that the program's string handling uses, as
  executable functions on byte strings: UTF-8 validation (\<open>str::from_utf8\<close>,
  \<open>from_utf8_lossy\<close>), character boundaries (slicing panics off a boundary), integer
  parsing (\<open>from_str_radix\<close>, \<open>parse\<close>), ASCII lower-casing, \<open>Path::extension\<close>, and the
  decimal printing used by \<open>format!\<close>.
\<close>

section \<open>UTF-8\<close>

definition is_cont :: "byte \<Rightarrow> bool" where
  "is_cont b \<longleftrightarrow> 0x80 \<le> b \<and> b \<le> 0xBF"

text \<open>
  One decoding step of \<open>core::str\<close>: the flag says whether a well-formed character starts
  here, the number how many bytes it takes, or how many bytes of an ill-formed sequence
  are replaced together by U+FFFD.
\<close>

definition second_ok :: "byte \<Rightarrow> byte \<Rightarrow> bool" where
  "second_ok b c \<longleftrightarrow>
     (if b = 0xE0 then 0xA0 \<le> c \<and> c \<le> 0xBF
      else if b = 0xED then 0x80 \<le> c \<and> c \<le> 0x9F
      else if b = 0xF0 then 0x90 \<le> c \<and> c \<le> 0xBF
      else if b = 0xF4 then 0x80 \<le> c \<and> c \<le> 0x8F
      else is_cont c)"

definition at_or_0 :: "bytes \<Rightarrow> nat \<Rightarrow> byte" where
  "at_or_0 bs i = (if i < length bs then bs ! i else 0)"

definition utf8_step :: "byte \<Rightarrow> bytes \<Rightarrow> bool \<times> nat" where
  "utf8_step b rest =
     (if b < 0x80 then (True, 1)
      else if 0xC2 \<le> b \<and> b \<le> 0xDF then
        (if is_cont (at_or_0 rest 0) then (True, 2) else (False, 1))
      else if 0xE0 \<le> b \<and> b \<le> 0xEF then
        (if \<not> second_ok b (at_or_0 rest 0) then (False, 1)
         else if \<not> is_cont (at_or_0 rest 1) then (False, 2) else (True, 3))
      else if 0xF0 \<le> b \<and> b \<le> 0xF4 then
        (if \<not> second_ok b (at_or_0 rest 0) then (False, 1)
         else if \<not> is_cont (at_or_0 rest 1) then (False, 2)
         else if \<not> is_cont (at_or_0 rest 2) then (False, 3) else (True, 4))
      else (False, 1))"

lemma utf8_step_pos: "0 < snd (utf8_step b rest)"
  by (simp add: utf8_step_def)

function utf8_valid :: "bytes \<Rightarrow> bool" where
  "utf8_valid [] = True"
| "utf8_valid (b # rest) =
     (fst (utf8_step b rest) \<and> utf8_valid (drop (snd (utf8_step b rest) - 1) rest))"
  by pat_completeness auto
termination
  by (relation "measure length") auto

definition from_utf8 :: "bytes \<Rightarrow> string option" where
  "from_utf8 bs = (if utf8_valid bs then Some (bytes_str bs) else None)"

text \<open>The replacement character U+FFFD in UTF-8.\<close>

definition replacement :: bytes where
  "replacement = [0xEF, 0xBF, 0xBD]"

function lossy :: "bytes \<Rightarrow> bytes" where
  "lossy [] = []"
| "lossy (b # rest) =
     (let (ok, k) = utf8_step b rest
      in (if ok then b # take (k - 1) rest else replacement) @ lossy (drop (k - 1) rest))"
  by pat_completeness auto
termination
  by (relation "measure length") auto

definition from_utf8_lossy :: "bytes \<Rightarrow> string" where
  "from_utf8_lossy bs = bytes_str (lossy bs)"

definition ascii_str :: "string \<Rightarrow> bool" where
  "ascii_str s \<longleftrightarrow> list_all (\<lambda>c. byte_of c < 0x80) s"

lemma byte_of_ascii: "of_char c < (128::nat) \<Longrightarrow> byte_of c < 0x80"
  by (simp add: byte_of_def word_less_nat_alt unat_word_of_nat_byte)

lemma ascii_str_simps [simp]:
  "ascii_str []" "ascii_str (c # s) \<longleftrightarrow> byte_of c < 0x80 \<and> ascii_str s"
  "ascii_str (s @ t) \<longleftrightarrow> ascii_str s \<and> ascii_str t"
  by (auto simp: ascii_str_def)

lemma utf8_valid_ascii: "list_all (\<lambda>b. b < 0x80) bs \<Longrightarrow> utf8_valid bs"
  by (induction bs) (auto simp: utf8_step_def)

lemma utf8_valid_ascii_str: "ascii_str s \<Longrightarrow> utf8_valid (str_bytes s)"
  by (rule utf8_valid_ascii) (simp add: ascii_str_def str_bytes_def list.pred_map comp_def)

definition valid_str :: "string \<Rightarrow> bool" where
  "valid_str s \<longleftrightarrow> utf8_valid (str_bytes s)"

lemma from_utf8_str [codec]: "valid_str s \<Longrightarrow> from_utf8 (str_bytes s) = Some s"
  by (simp add: from_utf8_def valid_str_def)

lemma valid_str_ascii: "ascii_str s \<Longrightarrow> valid_str s"
  by (simp add: valid_str_def utf8_valid_ascii_str)

lemma from_utf8_ascii: "ascii_str s \<Longrightarrow> from_utf8 (str_bytes s) = Some s"
  by (simp add: from_utf8_str valid_str_ascii)

lemma from_utf8_SomeD: "from_utf8 bs = Some s \<Longrightarrow> str_bytes s = bs \<and> valid_str s"
  by (auto simp: from_utf8_def valid_str_def split: if_splits)

section \<open>Integer parsing\<close>

text \<open>
  \<open>to_digit(radix)\<close> on an ASCII character. \<open>from_str_radix\<close> on an unsigned type takes an
  optional leading \<open>+\<close> (but not a lone sign), then at least one digit; overflow and any
  other character are errors.
\<close>

definition to_digit :: "nat \<Rightarrow> char \<Rightarrow> nat option" where
  "to_digit radix c =
     (let n = of_char c;
          d = (if 48 \<le> n \<and> n \<le> 57 then n - 48
               else if 97 \<le> n \<and> n \<le> 122 then n - 87
               else if 65 \<le> n \<and> n \<le> 90 then n - 55 else 255)
      in if d < radix then Some d else None)"

fun digits_val :: "nat \<Rightarrow> nat \<Rightarrow> nat \<Rightarrow> string \<Rightarrow> nat option" where
  "digits_val radix bound acc [] = Some acc"
| "digits_val radix bound acc (c # s) =
     (case to_digit radix c of
        None \<Rightarrow> None
      | Some d \<Rightarrow> (if acc * radix + d < bound then digits_val radix bound (acc * radix + d) s
                   else None))"

definition from_str_radix :: "nat \<Rightarrow> nat \<Rightarrow> string \<Rightarrow> nat option" where
  "from_str_radix radix bound s =
     (case s of [] \<Rightarrow> None
      | c # rest \<Rightarrow>
          (if (c = CHR ''+'' \<or> c = CHR ''-'') \<and> rest = [] then None
           else if c = CHR ''+'' then digits_val radix bound 0 rest
           else digits_val radix bound 0 s))"

definition parse_uint :: "nat \<Rightarrow> string \<Rightarrow> nat option" where
  "parse_uint bits s = from_str_radix 10 (2 ^ bits) s"

lemma to_digit_less: "to_digit radix c = Some d \<Longrightarrow> d < radix"
  by (auto simp: to_digit_def Let_def split: if_splits)

lemma digits_val_less: "digits_val radix bound acc s = Some v \<Longrightarrow> acc < bound \<Longrightarrow> v < bound"
  by (induction s arbitrary: acc) (auto split: option.splits if_splits)

lemma from_str_radix_less: "from_str_radix radix bound s = Some v \<Longrightarrow> 0 < bound \<Longrightarrow> v < bound"
  by (auto simp: from_str_radix_def simp del: digits_val.simps split: list.splits if_splits
      dest: digits_val_less)

section \<open>Lower case\<close>

definition lower_char :: "char \<Rightarrow> char" where
  "lower_char c = (let n = of_char c in if 65 \<le> n \<and> n \<le> 90 then char_of (n + 32 :: nat) else c)"

text \<open>
  \<open>str::to_lowercase\<close> maps ASCII letters bytewise; on a string with other characters it
  follows the Unicode tables, which are the argument \<open>uni\<close>.
\<close>

definition to_lowercase :: "(string \<Rightarrow> string) \<Rightarrow> string \<Rightarrow> string" where
  "to_lowercase uni s = (if ascii_str s then map lower_char s else uni s)"

lemma to_lowercase_ascii: "ascii_str s \<Longrightarrow> to_lowercase uni s = map lower_char s"
  by (simp add: to_lowercase_def)

section \<open>Decimal printing, suffixes, file name extension\<close>

fun dec_digits :: "nat \<Rightarrow> string" where
  "dec_digits n = (if n < 10 then [char_of (48 + n)] else dec_digits (n div 10) @ [char_of (48 + n mod 10)])"

declare dec_digits.simps [simp del]

definition ends_with :: "string \<Rightarrow> string \<Rightarrow> bool" where
  "ends_with s suf \<longleftrightarrow> length suf \<le> length s \<and> drop (length s - length suf) s = suf"

definition starts_with :: "string \<Rightarrow> string \<Rightarrow> bool" where
  "starts_with s pre \<longleftrightarrow> take (length pre) s = pre"

lemma ends_with_append [simp]: "ends_with (s @ t) t"
  by (simp add: ends_with_def)

lemma ends_withD: "ends_with s t \<Longrightarrow> \<exists>u. s = u @ t"
  unfolding ends_with_def by (metis append_take_drop_id)

text \<open>
  \<open>str::trim_end_matches\<close> strips the suffix as often as it occurs.
\<close>

function trim_end_matches :: "string \<Rightarrow> string \<Rightarrow> string" where
  "trim_end_matches suf s =
     (if suf \<noteq> [] \<and> ends_with s suf
      then trim_end_matches suf (take (length s - length suf) s) else s)"
  by pat_completeness auto
termination
  by (relation "measure (\<lambda>(suf, s). length s)") (auto simp: ends_with_def
      intro!: diff_less)

declare trim_end_matches.simps [simp del]

text \<open>
  \<open>Path::extension\<close> of a file name: what follows the last dot, unless there is none or
  the only one is the first character.
\<close>

definition path_extension :: "string \<Rightarrow> string option" where
  "path_extension name =
     (let r = rev name; ext = takeWhile (\<lambda>c. c \<noteq> CHR ''.'') r;
          pre = drop (length ext + 1) r
      in if CHR ''.'' \<in> set name \<and> pre \<noteq> [] \<and> name \<noteq> ''..'' then Some (rev ext) else None)"

end
