(* ===== verification/Externals.thy ===== *)
theory Externals
  imports Rust_Std "HOL-Library.Char_ord" "HOL-Library.List_Lexorder"
begin

text \<open>
  The third-party crates the program links (sha2, hex, serde_json) are parameters of the
  model: one record \<open>ext\<close> of functions, handed to every definition that calls them. Their
  documented behaviour, where a theorem relies on it, is a named predicate over that
  record (\<open>hex_law\<close>, \<open>sha_law\<close>), and \<open>demo_ext\<close> is a concrete instance that meets
  them. The data type of \<open>serde_json::Value\<close>, which the code matches on, is here too.
\<close>

section \<open>serde_json values\<close>

datatype number = PosInt u64 | NegInt int | Float string

datatype json =
    Null
  | Bool bool
  | Number number
  | String string
  | Array "json list"
  | Object "(string \<times> json) list"

text \<open>
  An object is a \<open>BTreeMap\<close>: an association list with strictly increasing keys (the crate
  is built without \<open>preserve_order\<close>), and insertion replaces an equal key.
\<close>

fun obj_insert :: "string \<Rightarrow> json \<Rightarrow> (string \<times> json) list \<Rightarrow> (string \<times> json) list" where
  "obj_insert k v [] = [(k, v)]"
| "obj_insert k v (e # m) =
     (if k < fst e then (k, v) # e # m
      else if k = fst e then (k, v) # m
      else e # obj_insert k v m)"

definition obj_of :: "(string \<times> json) list \<Rightarrow> (string \<times> json) list" where
  "obj_of kvs = fold (\<lambda>(k, v) m. obj_insert k v m) kvs []"

fun as_str :: "json \<Rightarrow> string option" where
  "as_str (String s) = Some s"
| "as_str _ = None"

fun as_u64 :: "json \<Rightarrow> u64 option" where
  "as_u64 (Number (PosInt n)) = Some n"
| "as_u64 _ = None"

fun as_array :: "json \<Rightarrow> json list option" where
  "as_array (Array xs) = Some xs"
| "as_array _ = None"

fun as_object :: "json \<Rightarrow> (string \<times> json) list option" where
  "as_object (Object m) = Some m"
| "as_object _ = None"

fun jget :: "json \<Rightarrow> string \<Rightarrow> json option" where
  "jget (Object m) k = map_of m k"
| "jget _ k = None"

text \<open>\<open>v.get(k).and_then(|x| x.as_str())\<close> and the unsigned variant.\<close>

definition get_str :: "json \<Rightarrow> string \<Rightarrow> string option" where
  "get_str v k = Option.bind (jget v k) as_str"

definition get_u64 :: "json \<Rightarrow> string \<Rightarrow> u64 option" where
  "get_u64 v k = Option.bind (jget v k) as_u64"

definition str_or :: "string option \<Rightarrow> string \<Rightarrow> string" where
  "str_or o1 d = (case o1 of Some s \<Rightarrow> s | None \<Rightarrow> d)"

definition u64_or :: "u64 option \<Rightarrow> u64 \<Rightarrow> u64" where
  "u64_or o1 d = (case o1 of Some s \<Rightarrow> s | None \<Rightarrow> d)"

lemma str_or_simps [simp]: "str_or (Some s) d = s" "str_or None d = d"
  by (simp_all add: str_or_def)

lemma u64_or_simps [simp]: "u64_or (Some s) d = s" "u64_or None d = d"
  by (simp_all add: u64_or_def)

lemma get_str_Object [simp]: "get_str (Object m) k = Option.bind (map_of m k) as_str"
  by (simp add: get_str_def)

lemma get_u64_Object [simp]: "get_u64 (Object m) k = Option.bind (map_of m k) as_u64"
  by (simp add: get_u64_def)

abbreviation keys_sorted :: "(string \<times> json) list \<Rightarrow> bool" where
  "keys_sorted m \<equiv> sorted_wrt (<) (map fst m)"

lemma map_of_obj_insert [simp]: "map_of (obj_insert k v m) = (map_of m)(k \<mapsto> v)"
  by (induction m) auto

lemma fst_obj_insert: "fst ` set (obj_insert k v m) = insert k (fst ` set m)"
  by (induction m) auto

lemma obj_insert_sorted: "keys_sorted m \<Longrightarrow> keys_sorted (obj_insert k v m)"
proof (induction m)
  case (Cons e m)
  then show ?case
    using fst_obj_insert [of k v m] by auto
qed simp

lemma obj_insert_last: "\<forall>e\<in>set m. fst e < k \<Longrightarrow> obj_insert k v m = m @ [(k, v)]"
  by (induction m) auto

lemma obj_of_sorted: "keys_sorted m \<Longrightarrow> obj_of m = m"
proof (induction m rule: rev_induct)
  case (snoc e m)
  then have "\<forall>x\<in>set m. fst x < fst e" by (auto simp: sorted_wrt_append)
  with snoc show ?case
    by (cases e) (simp add: obj_of_def sorted_wrt_append obj_insert_last)
qed (simp add: obj_of_def)

lemma keys_sorted_obj_of: "keys_sorted (obj_of kvs)"
proof -
  have "keys_sorted m \<Longrightarrow> keys_sorted (fold (\<lambda>(k, v) m. obj_insert k v m) kvs m)" for m
    by (induction kvs arbitrary: m) (auto simp: obj_insert_sorted)
  then show ?thesis by (simp add: obj_of_def)
qed

section \<open>The crates\<close>

record ext =
  sha256 :: "bytes \<Rightarrow> bytes" \<comment> \<open>sha2: \<open>Sha256::digest\<close>\<close>
  hex_encode :: "bytes \<Rightarrow> string" \<comment> \<open>hex: \<open>hex::encode\<close>\<close>
  hex_crate_decode :: "string \<Rightarrow> string + bytes" \<comment> \<open>hex: \<open>hex::decode\<close>, with its error text\<close>
  json_from_slice :: "bytes \<Rightarrow> json option" \<comment> \<open>serde_json: \<open>from_slice\<close>\<close>
  json_to_string :: "json \<Rightarrow> string" \<comment> \<open>serde_json: \<open>Value::to_string\<close>\<close>
  uni_lower :: "string \<Rightarrow> string" \<comment> \<open>\<open>str::to_lowercase\<close> outside ASCII (Unicode tables)\<close>

definition hexdig :: "nat \<Rightarrow> char" where
  "hexdig d = (if d < 10 then char_of (48 + d) else char_of (87 + d))"

fun hexs :: "bytes \<Rightarrow> string" where
  "hexs [] = []"
| "hexs (b # bs) = hexdig (unat b div 16) # hexdig (unat b mod 16) # hexs bs"

fun unhexs :: "string \<Rightarrow> bytes option" where
  "unhexs [] = Some []"
| "unhexs [c] = None"
| "unhexs (c # d # s) =
     (case (to_digit 16 c, to_digit 16 d, unhexs s) of
        (Some h, Some l, Some bs) \<Rightarrow> Some (word_of_nat (16 * h + l) # bs)
      | _ \<Rightarrow> None)"

text \<open>
  What the hex crate documents: lower case output, two digits per byte, most significant
  first; decoding accepts exactly the even-length strings of hex digits of either case.
\<close>

definition hex_law :: "ext \<Rightarrow> bool" where
  "hex_law X \<longleftrightarrow> (\<forall>b. hex_encode X b = hexs b) \<and>
     (\<forall>s b. hex_crate_decode X s = Inr b \<longleftrightarrow> unhexs s = Some b)"

text \<open>A SHA-256 digest is 32 bytes.\<close>

definition sha_law :: "ext \<Rightarrow> bool" where
  "sha_law X \<longleftrightarrow> (\<forall>b. length (sha256 X b) = 32)"

lemma hex_law_encode: "hex_law X \<Longrightarrow> hex_encode X b = hexs b"
  by (simp add: hex_law_def)

lemma hex_law_decode: "hex_law X \<Longrightarrow> hex_crate_decode X s = Inr b \<longleftrightarrow> unhexs s = Some b"
  by (simp add: hex_law_def)

lemma sha_law_length: "sha_law X \<Longrightarrow> length (sha256 X b) = 32"
  by (simp add: sha_law_def)

lemma length_hexs [simp]: "length (hexs b) = 2 * length b"
  by (induction b) auto

lemma of_char_hexdig: "d < 16 \<Longrightarrow> (of_char (hexdig d) :: nat) = (if d < 10 then 48 + d else 87 + d)"
  by (simp add: hexdig_def of_char_of)

lemma hexdig_facts:
  assumes "d < 16"
  shows "to_digit 16 (hexdig d) = Some d" "lower_char (hexdig d) = hexdig d"
    "byte_of (hexdig d) < 0x80" "hexdig d \<noteq> CHR ''+''" "hexdig d \<noteq> CHR ''/''"
    "hexdig d \<noteq> CHR ''.''"
proof -
  note n = of_char_hexdig [OF assms]
  show "to_digit 16 (hexdig d) = Some d" "lower_char (hexdig d) = hexdig d"
    using assms by (simp_all add: to_digit_def lower_char_def n Let_def)
  show "byte_of (hexdig d) < 0x80"
    using assms by (simp add: byte_of_def n word_less_nat_alt unat_word_of_nat_byte)
  have "hexdig d \<noteq> c" if "of_char c < (48::nat)" for c
    using that n by (auto split: if_splits)
  then show "hexdig d \<noteq> CHR ''+''" "hexdig d \<noteq> CHR ''/''" "hexdig d \<noteq> CHR ''.''"
    by simp_all
qed

lemma unat_div_16 [simp]: "unat (b :: byte) div 16 < 16"
  by (rule less_mult_imp_div_less) simp

lemma unhexs_hexs [codec]: "unhexs (hexs b) = Some b"
  by (induction b) (auto simp: hexdig_facts)

lemma ascii_hexs [simp]: "ascii_str (hexs b)"
  by (induction b) (auto simp: hexdig_facts)

lemma lower_hexs [simp]: "map lower_char (hexs b) = hexs b"
  by (induction b) (auto simp: hexdig_facts)

lemma hexs_inj [simp]: "hexs a = hexs b \<longleftrightarrow> a = b"
  by (metis option.inject unhexs_hexs)

lemma set_hexs: "c \<in> set (hexs b) \<Longrightarrow> \<exists>d<16. c = hexdig d"
  by (induction b) (auto, blast intro: unat_div_16 mod_less_divisor, metis mod_less_divisor zero_less_numeral)

lemma unhexs_length: "unhexs s = Some b \<Longrightarrow> length s = 2 * length b"
  by (induction s arbitrary: b rule: unhexs.induct) (auto split: option.splits)

section \<open>A concrete instance\<close>

text \<open>
  Instance for the witnesses: a digest of the last 32 bytes, padded, the documented hex
  functions, and a JSON printer and parser that know only what a witness gives them.
\<close>

definition demo_ext :: ext where
  "demo_ext = \<lparr> sha256 = (\<lambda>b. take 32 (rev b @ replicate 32 1)), hex_encode = hexs,
     hex_crate_decode = (\<lambda>s. case unhexs s of None \<Rightarrow> Inl ''bad hex'' | Some b \<Rightarrow> Inr b),
     json_from_slice = (\<lambda>b. None), json_to_string = (\<lambda>v. ''{}''), uni_lower = id \<rparr>"

lemma demo_ext_simps [simp]:
  "sha256 demo_ext = (\<lambda>b. take 32 (rev b @ replicate 32 1))"
  "hex_encode demo_ext = hexs" "uni_lower demo_ext = id"
  "json_from_slice demo_ext = (\<lambda>b. None)" "json_to_string demo_ext = (\<lambda>v. ''{}'')"
  by (simp_all add: demo_ext_def)

lemma hex_law_demo [simp]: "hex_law demo_ext"
  by (auto simp: hex_law_def demo_ext_def split: option.splits)

lemma sha_law_demo [simp]: "sha_law demo_ext"
  by (auto simp: sha_law_def min_def)

end
