(* ===== verification/Cbor.thy ===== *)
theory Cbor
  imports Externals
begin

text \<open>
  The wire codec of \<open>src/p2p.rs\<close>: the CBOR encoders of \<open>mod cbor\<close>, the payload builders of
  the rpc2 sync subset, and the hardened decoder \<open>decode_value\<close> / \<open>decode_message\<close>. The
  decoder is total: its recursion is bounded by the nesting cap and the item counts. It
  may panic only where the code slices, and \<open>decode_no_panic\<close> shows that it never does.
\<close>

section \<open>Encoders\<close>

definition cbor_head :: "byte \<Rightarrow> u64 \<Rightarrow> bytes" where
  "cbor_head major n =
     (if n < 24 then [push_bit 5 major OR ucast n]
      else if n \<le> 0xff then [push_bit 5 major OR 24, ucast n]
      else if n \<le> 0xffff then (push_bit 5 major OR 25) # be_bytes 2 (unat (ucast n :: u16))
      else if n \<le> 0xffffffff then (push_bit 5 major OR 26) # be_bytes 4 (unat (ucast n :: u32))
      else (push_bit 5 major OR 27) # be_bytes 8 (unat n))"

definition cbor_text :: "string \<Rightarrow> bytes" where
  "cbor_text s = cbor_head 3 (word_of_nat (length s)) @ str_bytes s"

definition cbor_uint :: "u64 \<Rightarrow> bytes" where
  "cbor_uint v = cbor_head 0 v"

definition cbor_bytes :: "bytes \<Rightarrow> bytes" where
  "cbor_bytes b = cbor_head 2 (word_of_nat (length b)) @ b"

definition cbor_array :: "nat \<Rightarrow> bytes" where
  "cbor_array n = cbor_head 4 (word_of_nat n)"

definition cbor_map :: "nat \<Rightarrow> bytes" where
  "cbor_map n = cbor_head 5 (word_of_nat n)"

definition cbor_kv :: "string \<Rightarrow> bytes \<Rightarrow> bytes" where
  "cbor_kv key val = cbor_text key @ val"

definition cbor_hash32 :: "bytes \<Rightarrow> bytes" where
  "cbor_hash32 h = cbor_bytes h"

definition cbor_header :: "string \<Rightarrow> u64 \<Rightarrow> string \<Rightarrow> bytes" where
  "cbor_header method sq err =
     cbor_map 3 @ cbor_kv ''M'' (cbor_text method) @ cbor_kv ''S'' (cbor_uint sq)
     @ cbor_kv ''E'' (cbor_text err)"

definition cbor_message :: "string \<Rightarrow> u64 \<Rightarrow> string \<Rightarrow> bytes \<Rightarrow> bytes" where
  "cbor_message method sq err body = cbor_header method sq err @ body"

section \<open>The decoder\<close>

record rpc2_message =
  rm_method :: string
  rm_seq :: u64
  rm_error :: string
  rm_payload :: json

definition MAX_DEPTH :: nat where
  "MAX_DEPTH = 64"

text \<open>The argument of an item's head: the value and the number of bytes of the head.\<close>

definition decode_head :: "byte \<Rightarrow> bytes \<Rightarrow> (u64 \<times> nat) option" where
  "decode_head info rest =
     (if info \<le> 23 then Some (ucast info, 1)
      else if info = 24 then (case rest of [] \<Rightarrow> None | b # _ \<Rightarrow> Some (ucast b, 2))
      else if info = 25 then
        map_option (\<lambda>b. (ucast (word_of_nat (be_nat b) :: u16), 3)) (get_range rest 0 2)
      else if info = 26 then
        map_option (\<lambda>b. (ucast (word_of_nat (be_nat b) :: u32), 5)) (get_range rest 0 4)
      else if info = 27 then map_option (\<lambda>b. (word_of_nat (be_nat b), 9)) (get_range rest 0 8)
      else None)"

text \<open>
  \<open>decode_items\<close> and \<open>decode_pairs\<close> are the two \<open>for _ in 0..n\<close> loops of the array and map
  arms, with the loop's remaining count, the offset \<open>at\<close> and what was collected so far;
  they decode their children one level deeper.
\<close>

function decode_value :: "ext \<Rightarrow> bytes \<Rightarrow> nat \<Rightarrow> (json \<times> nat) option run"
  and decode_items :: "ext \<Rightarrow> bytes \<Rightarrow> nat \<Rightarrow> nat \<Rightarrow> nat \<Rightarrow> json list \<Rightarrow> (json list \<times> nat) option run"
  and decode_pairs :: "ext \<Rightarrow> bytes \<Rightarrow> nat \<Rightarrow> nat \<Rightarrow> nat \<Rightarrow> (string \<times> json) list \<Rightarrow>
    ((string \<times> json) list \<times> nat) option run"
where
  "decode_value X buf depth =
     (if depth > MAX_DEPTH then Ret None
      else case buf of [] \<Rightarrow> Ret None
      | ib # rest \<Rightarrow>
          let major = drop_bit 5 ib; info = ib AND 0x1f in
          (case decode_head info rest of None \<Rightarrow> Ret None
           | Some (n, pos) \<Rightarrow>
              if major = 0 then Ret (Some (Number (PosInt n), pos))
              else if major = 1 then
                (let neg = - 1 - uint n in
                 if neg < - (2 ^ 63) then Ret None else Ret (Some (Number (NegInt neg), pos)))
              else if major = 2 \<or> major = 3 then
                (case checked_add pos (unat n) of None \<Rightarrow> Ret None
                 | Some end \<Rightarrow>
                    (case get_range buf pos end of None \<Rightarrow> Ret None
                     | Some b \<Rightarrow>
                        if major = 3 then
                          (case from_utf8 b of None \<Rightarrow> Ret None
                           | Some s \<Rightarrow> Ret (Some (String s, end)))
                        else Ret (Some (String (hex_encode X b), end))))
              else if major = 4 then
                and_then (decode_items X buf (depth + 1) (unat n) pos [])
                  (\<lambda>(out, at). Ret (Some (Array out, at)))
              else if major = 5 then
                and_then (decode_pairs X buf (depth + 1) (unat n) pos [])
                  (\<lambda>(m, at). Ret (Some (Object m, at)))
              else if major = 7 \<and> info = 20 then Ret (Some (Bool False, pos))
              else if major = 7 \<and> info = 21 then Ret (Some (Bool True, pos))
              else Ret (Some (Null, pos))))"
| "decode_items X buf depth n at out =
     (if n = 0 then Ret (Some (out, at))
      else run_bind (slice_from buf at) (\<lambda>b.
        and_then (decode_value X b depth) (\<lambda>(v, used).
          if used = 0 then Ret None
          else case checked_add at used of None \<Rightarrow> Ret None
               | Some at' \<Rightarrow> decode_items X buf depth (n - 1) at' (out @ [v]))))"
| "decode_pairs X buf depth n at m =
     (if n = 0 then Ret (Some (m, at))
      else run_bind (slice_from buf at) (\<lambda>b.
        and_then (decode_value X b depth) (\<lambda>(k, used).
          if used = 0 then Ret None
          else case checked_add at used of None \<Rightarrow> Ret None
               | Some at1 \<Rightarrow>
                  run_bind (slice_from buf at1) (\<lambda>b1.
                    and_then (decode_value X b1 depth) (\<lambda>(v, used1).
                      if used1 = 0 then Ret None
                      else case checked_add at1 used1 of None \<Rightarrow> Ret None
                           | Some at2 \<Rightarrow>
                              decode_pairs X buf depth (n - 1) at2
                                (case as_str k of Some ks \<Rightarrow> obj_insert ks v m | None \<Rightarrow> m))))))"
  by pat_completeness auto
termination
  by (relation "measures
      [\<lambda>x. case x of Inl (X, buf, d) \<Rightarrow> 2 * (66 - d)
           | Inr (Inl (X, buf, d, n, at, out)) \<Rightarrow> 2 * (66 - d) + 1
           | Inr (Inr (X, buf, d, n, at, m)) \<Rightarrow> 2 * (66 - d) + 1,
       \<lambda>x. case x of Inl (X, buf, d) \<Rightarrow> 0
           | Inr (Inl (X, buf, d, n, at, out)) \<Rightarrow> n
           | Inr (Inr (X, buf, d, n, at, m)) \<Rightarrow> n]")
    (auto simp: MAX_DEPTH_def)

declare decode_value.simps [simp del] decode_items.simps [simp del] decode_pairs.simps [simp del]

definition decode_message :: "ext \<Rightarrow> bytes \<Rightarrow> rpc2_message option run" where
  "decode_message X buf =
     and_then (decode_value X buf 0) (\<lambda>(head_v, used).
       case as_object head_v of None \<Rightarrow> Ret None
       | Some obj \<Rightarrow>
          let mk = (\<lambda>p. \<lparr> rm_method = str_or (get_str (Object obj) ''M'') [],
                          rm_seq = u64_or (get_u64 (Object obj) ''S'') 0,
                          rm_error = str_or (get_str (Object obj) ''E'') [],
                          rm_payload = p \<rparr>) in
          if length buf > used then
            run_bind (slice_from buf used) (\<lambda>b.
              and_then (decode_value X b 0) (\<lambda>(v, used2).
                if used2 = 0 then Ret None else Ret (Some (mk v))))
          else Ret (Some (mk Null)))"

section \<open>Safety of the decoder\<close>

text \<open>
  One induction over the three mutually recursive functions: nothing panics, a decoded
  value consumed at least one byte and no more than there are, and the loops advance.
\<close>

lemma get_range_Some: "get_range xs a b = Some ys \<longleftrightarrow> a \<le> b \<and> b \<le> length xs \<and> ys = take (b - a) (drop a xs)"
  by (auto simp: get_range_def)

lemma decode_head_pos: "decode_head info rest = Some (n, pos) \<Longrightarrow> 0 < pos \<and> pos \<le> Suc (length rest)"
  by (auto simp: decode_head_def get_range_Some split: if_splits list.splits)

lemma checked_add_Some: "checked_add a b = Some c \<longleftrightarrow> c = a + b \<and> a + b < 2 ^ 64"
  by (auto simp: checked_add_def)

lemma decode_value_Cons:
  "depth \<le> MAX_DEPTH \<Longrightarrow> decode_head (ib AND 0x1f) rest = Some (n, pos) \<Longrightarrow>
   decode_value X (ib # rest) depth =
    (if drop_bit 5 ib = 0 then Ret (Some (Number (PosInt n), pos))
              else if drop_bit 5 ib = 1 then
                (let neg = - 1 - uint n in
                 if neg < - (2 ^ 63) then Ret None else Ret (Some (Number (NegInt neg), pos)))
              else if drop_bit 5 ib = 2 \<or> drop_bit 5 ib = 3 then
                (case checked_add pos (unat n) of None \<Rightarrow> Ret None
                 | Some end \<Rightarrow>
                    (case get_range (ib # rest) pos end of None \<Rightarrow> Ret None
                     | Some b \<Rightarrow>
                        if drop_bit 5 ib = 3 then
                          (case from_utf8 b of None \<Rightarrow> Ret None
                           | Some s \<Rightarrow> Ret (Some (String s, end)))
                        else Ret (Some (String (hex_encode X b), end))))
              else if drop_bit 5 ib = 4 then
                and_then (decode_items X (ib # rest) (depth + 1) (unat n) pos [])
                  (\<lambda>(out, at). Ret (Some (Array out, at)))
              else if drop_bit 5 ib = 5 then
                and_then (decode_pairs X (ib # rest) (depth + 1) (unat n) pos [])
                  (\<lambda>(m, at). Ret (Some (Object m, at)))
              else if drop_bit 5 ib = 7 \<and> ib AND 0x1f = 20 then Ret (Some (Bool False, pos))
              else if drop_bit 5 ib = 7 \<and> ib AND 0x1f = 21 then Ret (Some (Bool True, pos))
              else Ret (Some (Null, pos)))"
  by (subst decode_value.simps) (simp add: Let_def)

lemma decode_safe:
  "decode_value X buf d \<noteq> Panic \<and>
   (\<forall>v used. decode_value X buf d = Ret (Some (v, used)) \<longrightarrow> 0 < used \<and> used \<le> length buf)"
  "at \<le> length buf \<longrightarrow> decode_items X buf d n at out \<noteq> Panic \<and>
   (\<forall>vs at'. decode_items X buf d n at out = Ret (Some (vs, at')) \<longrightarrow>
      at + n \<le> at' \<and> at' \<le> length buf \<and> length vs = length out + n)"
  "at \<le> length buf \<longrightarrow> decode_pairs X buf d n at m \<noteq> Panic \<and>
   (\<forall>m' at'. decode_pairs X buf d n at m = Ret (Some (m', at')) \<longrightarrow>
      at + 2 * n \<le> at' \<and> at' \<le> length buf)"
proof (induction X buf d and X buf d n at out and X buf d n at m rule: decode_value_decode_items_decode_pairs.induct)
  case (1 X buf depth)
  show ?case
  proof (cases buf)
    case Nil then show ?thesis by (simp add: decode_value.simps)
  next
    case (Cons ib rest)
    show ?thesis
    proof (cases "decode_head (ib AND 0x1f) rest")
      case None with Cons show ?thesis by (simp add: decode_value.simps Let_def)
    next
      case (Some a)
      obtain n pos where a: "a = (n, pos)" by (cases a)
      have pos: "0 < pos" "pos \<le> length buf" using decode_head_pos[of "ib AND 0x1f" rest n pos] Some a Cons by auto
      show ?thesis
      proof (cases "depth > MAX_DEPTH")
        case True then show ?thesis by (simp add: decode_value.simps)
      next
        case False
        note I4 = "1.IH"(1) [OF False Cons refl refl Some a [symmetric]]
          and I5 = "1.IH"(2) [OF False Cons refl refl Some a [symmetric]]
        have d: "depth \<le> MAX_DEPTH" using False by simp
        note E = decode_value_Cons [OF d Some [unfolded a], of X, folded Cons]
        show ?thesis
        proof (cases "drop_bit 5 ib = 4 \<or> drop_bit 5 ib = 5")
          case True
          then show ?thesis using I4 I5 pos
            by (elim disjE) (simp add: E and_then_Some_conv and_then_Panic_conv, fastforce)+
        next
          case F: False
          then have "decode_value X buf depth \<noteq> Panic"
            by (simp add: E Let_def split: option.split)
          moreover have "0 < used \<and> used \<le> length buf"
            if "decode_value X buf depth = Ret (Some (v, used))" for v used
            using that F pos unfolding E
            by (simp add: Let_def get_range_Some checked_add_Some
                split: if_splits option.splits)
          ultimately show ?thesis by blast
        qed
      qed
    qed
  qed
next
  case (2 X buf depth n at out)
  show ?case
  proof (cases "n = 0 \<or> at > length buf")
    case True
    then show ?thesis by (auto simp: decode_items.simps [of X buf depth n at])
  next
    case False
    then have sl: "slice_from buf at = Ret (drop at buf)" and n: "n \<noteq> 0"
      by (auto simp: slice_from_def)
    have le: "at \<le> length buf" using False by simp
    note V = "2.IH"(1) [OF n sl]
    show ?thesis
    proof (cases "\<exists>v u a1. decode_value X (drop at buf) depth = Ret (Some (v, u)) \<and> checked_add at u = Some a1")
      case F: False
      then show ?thesis using V n sl
        by (subst (1 2) decode_items.simps)
          (auto simp: and_then_Some_conv and_then_Panic_conv split: option.splits if_splits)
    next
      case True
      then obtain v u a1 where v: "decode_value X (drop at buf) depth = Ret (Some (v, u))"
        and a1: "checked_add at u = Some a1" by blast
      from v V le have u: "0 < u" "at + u \<le> length buf" by auto
      then have u0: "u \<noteq> 0" by simp
      from a1 have a1': "a1 = at + u" by (simp add: checked_add_Some)
      have E: "decode_items X buf depth n at out = decode_items X buf depth (n - 1) a1 (out @ [v])"
        using n sl v u0 a1 by (subst decode_items.simps) simp
      show ?thesis using "2.IH"(2) [OF n sl v refl u0 a1] u n a1' unfolding E by auto
    qed
  qed
next
  case (3 X buf depth n at m)
  show ?case
  proof (cases "n = 0 \<or> at > length buf")
    case True
    then show ?thesis by (auto simp: decode_pairs.simps [of X buf depth n at])
  next
    case False
    then have sl: "slice_from buf at = Ret (drop at buf)" and n: "n \<noteq> 0" and le: "at \<le> length buf"
      by (auto simp: slice_from_def)
    note V = "3.IH"(1) [OF n sl]
    show ?thesis
    proof (cases "\<exists>k u a1. decode_value X (drop at buf) depth = Ret (Some (k, u)) \<and> checked_add at u = Some a1")
      case F: False
      then show ?thesis using V n sl
        by (subst (1 2) decode_pairs.simps)
          (auto simp: and_then_Some_conv and_then_Panic_conv split: option.splits if_splits)
    next
      case True
      then obtain k u a1 where k: "decode_value X (drop at buf) depth = Ret (Some (k, u))"
        and a1: "checked_add at u = Some a1" by blast
      from k V le have u: "0 < u" "at + u \<le> length buf" by auto
      then have u0: "u \<noteq> 0" by simp
      from a1 have a1': "a1 = at + u" by (simp add: checked_add_Some)
      with u have sl1: "slice_from buf a1 = Ret (drop a1 buf)" by (simp add: slice_from_def)
      note W = "3.IH"(2) [OF n sl k refl u0 a1 sl1] and J = "3.IH"(3) [OF n sl k refl u0 a1 sl1 _ refl]
      have E: "decode_pairs X buf depth n at m = and_then (decode_value X (drop a1 buf) depth)
          (\<lambda>(v, used1). if used1 = 0 then Ret None else case checked_add a1 used1 of None \<Rightarrow> Ret None
             | Some at2 \<Rightarrow> decode_pairs X buf depth (n - 1) at2
                 (case as_str k of Some ks \<Rightarrow> obj_insert ks v m | None \<Rightarrow> m))"
        using n sl k u0 a1 sl1 by (subst decode_pairs.simps) simp
      show ?thesis
      proof (cases "\<exists>v u1 a2. decode_value X (drop a1 buf) depth = Ret (Some (v, u1)) \<and> checked_add a1 u1 = Some a2")
        case F: False
        then show ?thesis using W n unfolding E
          by (auto simp: and_then_Some_conv and_then_Panic_conv split: option.splits if_splits)
      next
        case True
        then obtain v u1 a2 where v: "decode_value X (drop a1 buf) depth = Ret (Some (v, u1))"
          and a2: "checked_add a1 u1 = Some a2" by blast
        from v W u a1' have u1: "0 < u1" "a1 + u1 \<le> length buf" by auto
        then have u10: "u1 \<noteq> 0" by simp
        from a2 have a2': "a2 = a1 + u1" by (simp add: checked_add_Some)
        have E2: "decode_pairs X buf depth n at m = decode_pairs X buf depth (n - 1) a2
            (case as_str k of Some ks \<Rightarrow> obj_insert ks v m | None \<Rightarrow> m)"
          unfolding E using v u10 a2 by simp
        show ?thesis using J [OF v u10 a2] u u1 n a1' a2' unfolding E2 by auto
      qed
    qed
  qed
qed
section \<open>Heads\<close>

lemma bit_ge_False: 
  assumes "(i :: 'a::len word) < 2 ^ k" "k < LENGTH('a)" "k \<le> j" shows "\<not> bit i j"
proof -
  have "i AND mask k = i" using assms(1) by (rule less_mask_eq)
  then show ?thesis using assms by (metis bit_and_iff bit_mask_iff leD)
qed

lemma head_byte:
  fixes major i :: byte
  assumes "major < 8" "i < 32"
  shows "drop_bit 5 (push_bit 5 major OR i) = major" "(push_bit 5 major OR i) AND 0x1f = i"
proof -
  have m: "\<not> bit major j" if "3 \<le> j" for j using bit_ge_False[of major 3 j] assms that by simp
  have i: "\<not> bit i j" if "5 \<le> j" for j using bit_ge_False[of i 5 j] assms that by simp
  have *: "(0x1f::byte) = mask 5" by (simp add: mask_eq_decr_exp)
  show "drop_bit 5 (push_bit 5 major OR i) = major"
    using m i by (auto intro!: bit_word_eqI simp: bit_simps) (meson nat_le_linear order_trans not_less)+
  show "(push_bit 5 major OR i) AND 0x1f = i"
    unfolding * using i by (auto intro!: bit_word_eqI simp: bit_simps) (meson not_less)
qed

lemma take_bit_word_less: "(n :: 'a::len word) < 2 ^ k \<Longrightarrow> take_bit k n = n"
  by (simp add: take_bit_eq_mask less_mask_eq)

lemma ucast_ucast_le:
  "(n :: u64) \<le> 0xff \<Longrightarrow> ucast (ucast n :: byte) = n"
  "n \<le> 0xffff \<Longrightarrow> ucast (ucast n :: u16) = n"
  "n \<le> 0xffffffff \<Longrightarrow> ucast (ucast n :: u32) = n"
proof -
  have "take_bit 8 n = n" if "n \<le> 0xff"
    by (rule take_bit_word_less) (use that in \<open>simp add: word_le_nat_alt word_less_nat_alt\<close>)
  then show "n \<le> 0xff \<Longrightarrow> ucast (ucast n :: byte) = n" by (simp add: unsigned_ucast_eq)
  have "take_bit 16 n = n" if "n \<le> 0xffff"
    by (rule take_bit_word_less) (use that in \<open>simp add: word_le_nat_alt word_less_nat_alt\<close>)
  then show "n \<le> 0xffff \<Longrightarrow> ucast (ucast n :: u16) = n" by (simp add: unsigned_ucast_eq)
  have "take_bit 32 n = n" if "n \<le> 0xffffffff"
    by (rule take_bit_word_less) (use that in \<open>simp add: word_le_nat_alt word_less_nat_alt\<close>)
  then show "n \<le> 0xffffffff \<Longrightarrow> ucast (ucast n :: u32) = n" by (simp add: unsigned_ucast_eq)
qed

lemma word_of_be: "word_of_nat (be_nat (be_bytes 2 (unat (w :: u16)))) = w"
  "word_of_nat (be_nat (be_bytes 4 (unat (x :: u32)))) = x"
  "word_of_nat (be_nat (be_bytes 8 (unat (y :: u64)))) = y"
  using unsigned_less[of w, where ?'a=nat] unsigned_less[of x, where ?'a=nat] unsigned_less[of y, where ?'a=nat]
  by (simp_all add: be_nat_inverse)

lemma take_be [simp]: "k = length bs \<Longrightarrow> take k (bs @ t) = bs"
  by simp

lemma head_decode:
  assumes "major < 8"
  obtains ib tl where "cbor_head major n = ib # tl" "drop_bit 5 ib = major"
    "\<And>t. decode_head (ib AND 0x1f) (tl @ t) = Some (n, Suc (length tl))"
proof -
  have low: "n < 24 \<Longrightarrow> (ucast n :: byte) < 32 \<and> ucast (ucast n :: byte) = n \<and> (ucast n :: byte) \<le> 23"
    using ucast_ucast_le(1)[of n] 
    by (auto simp: word_le_nat_alt word_less_nat_alt unsigned_ucast_eq take_bit_nat_eq_self)
  show thesis
  proof (cases "n < 24")
    case True
    with low assms show thesis
      by (intro that[of "push_bit 5 major OR ucast n" "[]"]) (auto simp: cbor_head_def head_byte decode_head_def simp del: drop_bit_or)
  next
    case F: False
    consider "n \<le> 0xff" | "\<not> n \<le> 0xff" "n \<le> 0xffff" | "\<not> n \<le> 0xffff" "n \<le> 0xffffffff" | "\<not> n \<le> 0xffffffff"
      by blast
    then show thesis
    proof cases
      case 1 with F assms show thesis
        by (intro that[of "push_bit 5 major OR 24" "[ucast n]"])
          (auto simp: cbor_head_def head_byte decode_head_def ucast_ucast_le simp del: drop_bit_or)
    next
      case 2 with F assms show thesis
        by (intro that[of "push_bit 5 major OR 25" "be_bytes 2 (unat (ucast n :: u16))"])
          (auto simp: cbor_head_def head_byte decode_head_def get_range_def word_of_be ucast_ucast_le simp del: drop_bit_or)
    next
      case 3 then have "\<not> n \<le> 0xff" by (auto simp: word_le_nat_alt)
      with 3 F assms show thesis
        by (intro that[of "push_bit 5 major OR 26" "be_bytes 4 (unat (ucast n :: u32))"])
          (auto simp: cbor_head_def head_byte decode_head_def get_range_def word_of_be ucast_ucast_le simp del: drop_bit_or)
    next
      case 4 then have "\<not> n \<le> 0xff" "\<not> n \<le> 0xffff" by (auto simp: word_le_nat_alt)
      with 4 F assms show thesis
        by (intro that[of "push_bit 5 major OR 27" "be_bytes 8 (unat n)"])
          (auto simp: cbor_head_def head_byte decode_head_def get_range_def word_of_be ucast_ucast_le simp del: drop_bit_or)
    qed
  qed
qed

lemma length_cbor_head: "length (cbor_head major n) \<le> 9" "0 < length (cbor_head major n)"
  by (auto simp: cbor_head_def)


definition decodes :: "ext \<Rightarrow> nat \<Rightarrow> bytes \<Rightarrow> json \<Rightarrow> bool" where
  "decodes X h bs v \<longleftrightarrow> bs \<noteq> [] \<and> (\<forall>rest depth. depth + h \<le> MAX_DEPTH \<longrightarrow> length (bs @ rest) < 2 ^ 64 \<longrightarrow>
     decode_value X (bs @ rest) depth = Ret (Some (v, length bs)))"

lemma decodesI:
  "bs \<noteq> [] \<Longrightarrow> (\<And>rest depth. depth + h \<le> MAX_DEPTH \<Longrightarrow> length (bs @ rest) < 2 ^ 64 \<Longrightarrow>
     decode_value X (bs @ rest) depth = Ret (Some (v, length bs))) \<Longrightarrow> decodes X h bs v"
  by (simp add: decodes_def)

lemma decodesD:
  "decodes X h bs v \<Longrightarrow> depth + h \<le> MAX_DEPTH \<Longrightarrow> length (bs @ rest) < 2 ^ 64 \<Longrightarrow>
     decode_value X (bs @ rest) depth = Ret (Some (v, length bs))"
  by (simp add: decodes_def)

lemma decodes_mono: "decodes X h bs v \<Longrightarrow> h \<le> h' \<Longrightarrow> decodes X h' bs v"
  by (simp add: decodes_def)

lemma unat_of_len: "n < 2 ^ 64 \<Longrightarrow> unat (word_of_nat n :: u64) = n"
  by (simp add: unat_of_nat)

lemma decodes_uint [codec]: "decodes X 0 (cbor_uint n) (Number (PosInt n))"
proof (rule decodesI)
  show "cbor_uint n \<noteq> []" using length_cbor_head(2) [of 0 n] by (auto simp: cbor_uint_def)
next
  fix rest and depth :: nat
  assume d: "depth + 0 \<le> MAX_DEPTH"
  have "(0::byte) < 8" by simp
  then obtain ib tl where h: "cbor_head 0 n = ib # tl" "drop_bit 5 ib = (0::byte)"
    "\<And>t. decode_head (ib AND 0x1f) (tl @ t) = Some (n, Suc (length tl))"
    using head_decode by blast
  then show "decode_value X (cbor_uint n @ rest) depth = Ret (Some (Number (PosInt n), length (cbor_uint n)))"
    using d by (simp add: cbor_uint_def decode_value_Cons)
qed

lemma take_drop_mid: "take (length b) (drop (length a) (a @ b @ c)) = b" by simp

lemma decodes_str:
  assumes "length s < 2 ^ 64" "major = 2 \<or> major = 3"
    "major = 3 \<Longrightarrow> from_utf8 s = Some t" "major = 2 \<Longrightarrow> t = hex_encode X s"
  shows "decodes X 0 (cbor_head major (word_of_nat (length s)) @ s) (String t)"
proof (rule decodesI)
  show "cbor_head major (word_of_nat (length s)) @ s \<noteq> []"
    using length_cbor_head(2) [of major "word_of_nat (length s)"] by auto
next
  fix rest and depth :: nat
  assume d: "depth + 0 \<le> MAX_DEPTH" and len: "length ((cbor_head major (word_of_nat (length s)) @ s) @ rest) < 2 ^ 64"
  have "major < (8::byte)" using assms(2) by auto
  then obtain ib tl where h: "cbor_head major (word_of_nat (length s)) = ib # tl" "drop_bit 5 ib = major"
    "\<And>t. decode_head (ib AND 0x1f) (tl @ t) = Some (word_of_nat (length s), Suc (length tl))"
    using head_decode by blast
  have g: "get_range (ib # tl @ s @ rest) (Suc (length tl)) (Suc (length tl) + length s) = Some s"
    by (simp add: get_range_def)
  have c: "checked_add (Suc (length tl)) (length s) = Some (Suc (length tl) + length s)"
    using len h by (simp add: checked_add_def)
  show "decode_value X ((cbor_head major (word_of_nat (length s)) @ s) @ rest) depth =
    Ret (Some (String t, length (cbor_head major (word_of_nat (length s)) @ s)))"
    using d assms g c h
    by (simp add: decode_value_Cons unat_of_len) auto
qed

lemma decodes_text [codec]: "valid_str s \<Longrightarrow> length s < 2 ^ 64 \<Longrightarrow> decodes X 0 (cbor_text s) (String s)"
  unfolding cbor_text_def using decodes_str[of "str_bytes s" 3 s] by (simp add: from_utf8_str)

lemma decodes_bytes [codec]: "length b < 2 ^ 64 \<Longrightarrow> decodes X 0 (cbor_bytes b) (String (hex_encode X b))"
  unfolding cbor_bytes_def by (rule decodes_str) auto


lemma decode_items_ok:
  "list_all2 (decodes X h) bss vs \<Longrightarrow> depth + h \<le> MAX_DEPTH \<Longrightarrow>
   length (pre @ concat bss @ rest) < 2 ^ 64 \<Longrightarrow>
   decode_items X (pre @ concat bss @ rest) depth (length bss) (length pre) out =
     Ret (Some (out @ vs, length pre + length (concat bss)))"
proof (induction bss vs arbitrary: pre out rule: list_all2_induct)
  case Nil
  then show ?case by (simp add: decode_items.simps)
next
  case (Cons bs bss v vs)
  have s: "slice_from (pre @ bs @ concat bss @ rest) (length pre) = Ret (bs @ concat bss @ rest)"
    by (simp add: slice_from_def)
  have d: "decode_value X (bs @ concat bss @ rest) depth = Ret (Some (v, length bs))"
    using Cons by (intro decodesD) auto
  have c: "checked_add (length pre) (length bs) = Some (length pre + length bs)"
    using Cons by (simp add: checked_add_def)
  have ne: "bs \<noteq> []" using Cons by (simp add: decodes_def)
  have "decode_items X ((pre @ bs) @ concat bss @ rest) depth (length bss) (length (pre @ bs)) (out @ [v]) =
     Ret (Some ((out @ [v]) @ vs, length (pre @ bs) + length (concat bss)))"
    using Cons by (intro Cons.IH) auto
  then show ?case
    using s d c ne by (subst decode_items.simps) simp
qed

lemma decodes_array [codec]:
  assumes "list_all2 (decodes X h) bss vs" "length bss < 2 ^ 64"
  shows "decodes X (Suc h) (cbor_array (length bss) @ concat bss) (Array vs)"
proof (rule decodesI)
  show "cbor_array (length bss) @ concat bss \<noteq> []"
    using length_cbor_head(2) [of 4 "word_of_nat (length bss)"] by (auto simp: cbor_array_def)
next
  fix rest and depth :: nat
  assume d: "depth + Suc h \<le> MAX_DEPTH" and len: "length ((cbor_array (length bss) @ concat bss) @ rest) < 2 ^ 64"
  have "4 < (8::byte)" by simp
  then obtain ib tl where h: "cbor_head 4 (word_of_nat (length bss)) = ib # tl" "drop_bit 5 ib = 4"
    "\<And>t. decode_head (ib AND 0x1f) (tl @ t) = Some (word_of_nat (length bss), Suc (length tl))"
    using head_decode by blast
  have "decode_items X ((ib # tl) @ concat bss @ rest) (depth + 1) (length bss) (length (ib # tl)) [] =
    Ret (Some ([] @ vs, length (ib # tl) + length (concat bss)))"
    using assms d len h by (intro decode_items_ok[of X h]) (auto simp: cbor_array_def)
  then show "decode_value X ((cbor_array (length bss) @ concat bss) @ rest) depth =
    Ret (Some (Array vs, length (cbor_array (length bss) @ concat bss)))"
    using d h assms by (simp add: cbor_array_def decode_value_Cons unat_of_len)
qed

abbreviation kvs_bytes :: "(string \<times> bytes \<times> json) list \<Rightarrow> bytes" where
  "kvs_bytes kvs \<equiv> concat (map (\<lambda>(k, bs, v). cbor_kv k bs) kvs)"

definition kv_ok :: "ext \<Rightarrow> nat \<Rightarrow> string \<times> bytes \<times> json \<Rightarrow> bool" where
  "kv_ok X h e \<longleftrightarrow> (case e of (k, bs, v) \<Rightarrow> valid_str k \<and> length k < 2 ^ 64 \<and> decodes X h bs v)"

lemma decode_pairs_ok:
  "list_all (kv_ok X h) kvs \<Longrightarrow> depth + h \<le> MAX_DEPTH \<Longrightarrow>
   length (pre @ kvs_bytes kvs @ rest) < 2 ^ 64 \<Longrightarrow>
   decode_pairs X (pre @ kvs_bytes kvs @ rest) depth (length kvs) (length pre) m =
     Ret (Some (fold (\<lambda>(k, bs, v) m. obj_insert k v m) kvs m, length pre + length (kvs_bytes kvs)))"
proof (induction kvs arbitrary: pre m)
  case Nil
  then show ?case by (simp add: decode_pairs.simps)
next
  case (Cons e kvs)
  obtain k bs v where e: "e = (k, bs, v)" by (cases e)
  let ?t = "kvs_bytes kvs @ rest"
  have s: "slice_from (pre @ cbor_text k @ bs @ ?t) (length pre) = Ret (cbor_text k @ bs @ ?t)"
    and s1: "slice_from (pre @ cbor_text k @ bs @ ?t) (length pre + length (cbor_text k)) = Ret (bs @ ?t)"
    by (simp_all add: slice_from_def)
  have "decodes X h (cbor_text k) (String k)"
    using Cons.prems by (intro decodes_mono [OF decodes_text]) (auto simp: kv_ok_def e)
  then have d: "decode_value X (cbor_text k @ bs @ ?t) depth = Ret (Some (String k, length (cbor_text k)))"
    using Cons.prems by (intro decodesD) (auto simp: e cbor_kv_def)
  have "decodes X h bs v" using Cons.prems by (auto simp: kv_ok_def e)
  then have d1: "decode_value X (bs @ ?t) depth = Ret (Some (v, length bs))" and ne: "bs \<noteq> []"
    using Cons.prems by (auto simp: e cbor_kv_def decodes_def)
  have c: "checked_add (length pre) (length (cbor_text k)) = Some (length pre + length (cbor_text k))"
    "checked_add (length pre + length (cbor_text k)) (length bs) = Some (length pre + length (cbor_text k) + length bs)"
    using Cons.prems by (simp_all add: checked_add_def e cbor_kv_def)
  have ne1: "cbor_text k \<noteq> []" using length_cbor_head(2) [of 3] by (auto simp: cbor_text_def)
  have "decode_pairs X ((pre @ cbor_text k @ bs) @ ?t) depth (length kvs) (length (pre @ cbor_text k @ bs)) (obj_insert k v m) =
     Ret (Some (fold (\<lambda>(k, bs, v) m. obj_insert k v m) kvs (obj_insert k v m), length (pre @ cbor_text k @ bs) + length (kvs_bytes kvs)))"
    using Cons.prems by (intro Cons.IH) (auto simp: e cbor_kv_def)
  then show ?case
    using s s1 d d1 c ne ne1 by (subst decode_pairs.simps) (simp add: e cbor_kv_def add.assoc)
qed

lemma decodes_map [codec]:
  assumes "list_all (kv_ok X h) kvs" "length kvs < 2 ^ 64"
  shows "decodes X (Suc h) (cbor_map (length kvs) @ kvs_bytes kvs)
    (Object (obj_of (map (\<lambda>(k, bs, v). (k, v)) kvs)))"
proof (rule decodesI)
  show "cbor_map (length kvs) @ kvs_bytes kvs \<noteq> []"
    using length_cbor_head(2) [of 5 "word_of_nat (length kvs)"] by (auto simp: cbor_map_def)
next
  fix rest and depth :: nat
  assume d: "depth + Suc h \<le> MAX_DEPTH" and len: "length ((cbor_map (length kvs) @ kvs_bytes kvs) @ rest) < 2 ^ 64"
  have "5 < (8::byte)" by simp
  then obtain ib tl where h: "cbor_head 5 (word_of_nat (length kvs)) = ib # tl" "drop_bit 5 ib = 5"
    "\<And>t. decode_head (ib AND 0x1f) (tl @ t) = Some (word_of_nat (length kvs), Suc (length tl))"
    using head_decode by blast
  have o: "fold (\<lambda>(k, bs, v) m. obj_insert k v m) kvs [] = obj_of (map (\<lambda>(k, bs, v). (k, v)) kvs)"
    by (simp add: obj_of_def fold_map comp_def split_def)
  have "decode_pairs X ((ib # tl) @ kvs_bytes kvs @ rest) (depth + 1) (length kvs) (length (ib # tl)) [] =
    Ret (Some (fold (\<lambda>(k, bs, v) m. obj_insert k v m) kvs [], length (ib # tl) + length (kvs_bytes kvs)))"
    using assms d len h by (intro decode_pairs_ok[of X h]) (auto simp: cbor_map_def)
  then show "decode_value X ((cbor_map (length kvs) @ kvs_bytes kvs) @ rest) depth =
    Ret (Some (Object (obj_of (map (\<lambda>(k, bs, v). (k, v)) kvs)), length (cbor_map (length kvs) @ kvs_bytes kvs)))"
    using d h assms unfolding o by (simp add: cbor_map_def decode_value_Cons unat_of_len)
qed

section \<open>Payload builders\<close>

definition handshake_request :: "u64 \<Rightarrow> bytes" where
  "handshake_request version = cbor_map 1 @ cbor_kv ''N'' (cbor_uint version)"

definition handshake_response :: "u64 \<Rightarrow> u64 \<Rightarrow> bytes" where
  "handshake_response height version =
     cbor_map 2 @ cbor_kv ''H'' (cbor_uint height) @ cbor_kv ''N'' (cbor_uint version)"

definition chain_request :: "u64 \<Rightarrow> u64 \<Rightarrow> bytes" where
  "chain_request tp n = cbor_map 2 @ cbor_kv ''TOP'' (cbor_uint tp) @ cbor_kv ''N'' (cbor_uint n)"

definition chain_response :: "(u64 \<times> bytes) list \<Rightarrow> bytes" where
  "chain_response pairs =
     cbor_array (length pairs)
     @ concat (map (\<lambda>(h, blid). cbor_array 2 @ cbor_uint h @ cbor_hash32 blid) pairs)"

definition getobject_request :: "bytes \<Rightarrow> bytes" where
  "getobject_request blid = cbor_map 1 @ cbor_kv ''BLID'' (cbor_hash32 blid)"

definition getobject_response :: "bytes \<Rightarrow> bytes" where
  "getobject_response body = cbor_bytes body"

definition putobject_request :: "bytes \<Rightarrow> bytes \<Rightarrow> string \<Rightarrow> bytes" where
  "putobject_request blid body token =
     (let n = (2 :: nat); n = (if token \<noteq> [] then n + 1 else n) in
      cbor_map n @ cbor_kv ''BLID'' (cbor_hash32 blid) @ cbor_kv ''BODY'' (cbor_bytes body)
      @ (if token \<noteq> [] then cbor_kv ''TOKEN'' (cbor_text token) else []))"

definition putobject_response :: "bytes \<Rightarrow> bytes" where
  "putobject_response blid = cbor_map 1 @ cbor_kv ''BLID'' (cbor_hash32 blid)"

definition error_response :: "u64 \<Rightarrow> string \<Rightarrow> bytes" where
  "error_response sq msg = cbor_message [] sq msg []"

section \<open>What the builders decode to\<close>

lemma literal_valid: "list_all (\<lambda>c. of_char c < (128::nat)) s \<Longrightarrow> valid_str s"
  by (intro valid_str_ascii) (auto simp: ascii_str_def list_all_iff byte_of_ascii)

lemma decodes_uint' [codec]: "decodes X h (cbor_uint n) (Number (PosInt n))"
  by (rule decodes_mono [OF decodes_uint]) simp

lemma decodes_text' [codec]: "valid_str s \<Longrightarrow> length s < 2 ^ 64 \<Longrightarrow> decodes X h (cbor_text s) (String s)"
  by (rule decodes_mono [OF decodes_text]) simp_all

lemma decodes_bytes' [codec]: "length b < 2 ^ 64 \<Longrightarrow> decodes X h (cbor_bytes b) (String (hex_encode X b))"
  by (rule decodes_mono [OF decodes_bytes]) simp_all

lemma kv_okI: "valid_str k \<Longrightarrow> length k < 2 ^ 64 \<Longrightarrow> decodes X h bs v \<Longrightarrow> kv_ok X h (k, bs, v)"
  by (simp add: kv_ok_def)

lemma key_valid [simp]:
  "valid_str ''M''" "valid_str ''S''" "valid_str ''E''" "valid_str ''N''" "valid_str ''H''"
  "valid_str ''TOP''" "valid_str ''BLID''" "valid_str ''BODY''" "valid_str ''TOKEN''"
  by (rule literal_valid, simp)+

lemma small_counts [simp]:
  "cbor_map (Suc (Suc 0)) = cbor_map 2" "cbor_map (Suc (Suc (Suc 0))) = cbor_map 3"
  "cbor_array (Suc (Suc 0)) = cbor_array 2"
  by (simp_all add: numeral_2_eq_2 numeral_3_eq_3)

lemma cbor_header_decodes:
  assumes "valid_str method" "valid_str err" "length method < 2 ^ 64" "length err < 2 ^ 64"
  shows "decodes X 1 (cbor_header method sq err)
    (Object [(''E'', String err), (''M'', String method), (''S'', Number (PosInt sq))])"
proof -
  let ?kvs = "[(''M'', cbor_text method, String method), (''S'', cbor_uint sq, Number (PosInt sq)),
    (''E'', cbor_text err, String err)]"
  have "decodes X (Suc 0) (cbor_map (length ?kvs) @ kvs_bytes ?kvs)
     (Object (obj_of (map (\<lambda>(k, bs, v). (k, v)) ?kvs)))"
    using assms by (intro decodes_map) (auto intro!: kv_okI codec)
  then show ?thesis by (simp add: cbor_header_def obj_of_def)
qed

lemma handshake_request_decodes [codec]:
  "decodes X 1 (handshake_request n) (Object [(''N'', Number (PosInt n))])"
  using decodes_map [of X 0 "[(''N'', cbor_uint n, Number (PosInt n))]"]
  by (simp add: handshake_request_def obj_of_def kv_okI codec)

lemma handshake_response_decodes [codec]:
  "decodes X 1 (handshake_response h n) (Object [(''H'', Number (PosInt h)), (''N'', Number (PosInt n))])"
  using decodes_map [of X 0 "[(''H'', cbor_uint h, Number (PosInt h)), (''N'', cbor_uint n, Number (PosInt n))]"]
  by (simp add: handshake_response_def obj_of_def kv_okI codec)

lemma chain_request_decodes [codec]:
  "decodes X 1 (chain_request t n) (Object [(''N'', Number (PosInt n)), (''TOP'', Number (PosInt t))])"
  using decodes_map [of X 0 "[(''TOP'', cbor_uint t, Number (PosInt t)), (''N'', cbor_uint n, Number (PosInt n))]"]
  by (simp add: chain_request_def obj_of_def kv_okI codec)

lemma getobject_request_decodes [codec]:
  "length b < 2 ^ 64 \<Longrightarrow> decodes X 1 (getobject_request b) (Object [(''BLID'', String (hex_encode X b))])"
  using decodes_map [of X 0 "[(''BLID'', cbor_bytes b, String (hex_encode X b))]"]
  by (simp add: getobject_request_def cbor_hash32_def obj_of_def kv_okI codec)

lemma getobject_response_decodes [codec]:
  "length b < 2 ^ 64 \<Longrightarrow> decodes X h (getobject_response b) (String (hex_encode X b))"
  by (simp add: getobject_response_def codec)

lemma putobject_response_decodes [codec]:
  "length b < 2 ^ 64 \<Longrightarrow> decodes X 1 (putobject_response b) (Object [(''BLID'', String (hex_encode X b))])"
  using getobject_request_decodes [of b X] by (simp add: getobject_request_def putobject_response_def)

lemma putobject_request_decodes [codec]:
  assumes "length blid < 2 ^ 64" "length body < 2 ^ 64" "length token < 2 ^ 64" "valid_str token"
  shows "decodes X 1 (putobject_request blid body token)
    (Object ([(''BLID'', String (hex_encode X blid)), (''BODY'', String (hex_encode X body))]
      @ (if token = [] then [] else [(''TOKEN'', String token)])))"
proof (cases "token = []")
  case True
  then show ?thesis
    using assms decodes_map [of X 0 "[(''BLID'', cbor_bytes blid, String (hex_encode X blid)),
      (''BODY'', cbor_bytes body, String (hex_encode X body))]"]
    by (simp add: putobject_request_def cbor_hash32_def obj_of_def kv_okI codec Let_def)
next
  case False
  then show ?thesis
    using assms decodes_map [of X 0 "[(''BLID'', cbor_bytes blid, String (hex_encode X blid)),
      (''BODY'', cbor_bytes body, String (hex_encode X body)), (''TOKEN'', cbor_text token, String token)]"]
    by (simp add: putobject_request_def cbor_hash32_def obj_of_def kv_okI codec Let_def)
qed

lemma chain_response_decodes [codec]:
  assumes "length pairs < 2 ^ 64" "\<forall>(h, b)\<in>set pairs. length b < 2 ^ 64"
  shows "decodes X (Suc 1) (chain_response pairs)
    (Array (map (\<lambda>(h, b). Array [Number (PosInt h), String (hex_encode X b)]) pairs))"
proof -
  let ?bs = "\<lambda>(h, b). cbor_array 2 @ cbor_uint h @ cbor_hash32 b"
  have pair: "decodes X 1 (cbor_array 2 @ cbor_uint h @ cbor_hash32 b)
      (Array [Number (PosInt h), String (hex_encode X b)])" if "length b < 2 ^ 64" for h b
    using decodes_array [of X 0 "[cbor_uint h, cbor_bytes b]" "[Number (PosInt h), String (hex_encode X b)]"] that
    by (simp add: cbor_hash32_def codec)
  have "list_all2 (decodes X 1) (map ?bs pairs)
      (map (\<lambda>(h, b). Array [Number (PosInt h), String (hex_encode X b)]) pairs)"
    unfolding list_all2_map1 list_all2_map2 using assms(2)
    by (intro list_all2_same [THEN iffD2]) (auto intro!: pair [unfolded One_nat_def])
  from decodes_array [OF this] assms(1) show ?thesis
    by (simp add: chain_response_def)
qed

section \<open>Messages\<close>

lemma decode_message_no_payload:
  assumes "valid_str method" "valid_str err" "length (cbor_header method sq err) < 2 ^ 64"
    "length method < 2 ^ 64" "length err < 2 ^ 64"
  shows "decode_message X (cbor_header method sq err) =
    Ret (Some \<lparr> rm_method = method, rm_seq = sq, rm_error = err, rm_payload = Null \<rparr>)"
proof -
  from assms have "decode_value X (cbor_header method sq err @ []) 0 = Ret (Some
    (Object [(''E'', String err), (''M'', String method), (''S'', Number (PosInt sq))], length (cbor_header method sq err)))"
    by (intro decodesD [OF cbor_header_decodes]) (auto simp: MAX_DEPTH_def)
  then show ?thesis by (simp add: decode_message_def Let_def)
qed

lemma decode_message_payload:
  assumes "valid_str method" "valid_str err" "length (cbor_message method sq err body) < 2 ^ 64"
    "length method < 2 ^ 64" "length err < 2 ^ 64" "decodes X h body v" "h \<le> MAX_DEPTH"
  shows "decode_message X (cbor_message method sq err body) =
    Ret (Some \<lparr> rm_method = method, rm_seq = sq, rm_error = err, rm_payload = v \<rparr>)"
proof -
  from assms have h: "decode_value X (cbor_header method sq err @ body) 0 = Ret (Some
    (Object [(''E'', String err), (''M'', String method), (''S'', Number (PosInt sq))], length (cbor_header method sq err)))"
    by (intro decodesD [OF cbor_header_decodes]) (auto simp: MAX_DEPTH_def cbor_message_def)
  have b: "decode_value X (body @ []) 0 = Ret (Some (v, length body))"
    using assms by (intro decodesD) (auto simp: cbor_message_def)
  have "body \<noteq> []" using assms(6) by (simp add: decodes_def)
  with h b show ?thesis by (simp add: decode_message_def cbor_message_def Let_def slice_from_def)
qed

lemma decode_message_no_panic: "decode_message X buf \<noteq> Panic"
  using decode_safe(1) [of X buf 0] decode_safe(1) [of X _ 0]
  by (auto simp: decode_message_def and_then_Panic_conv slice_from_def Let_def split: option.splits if_splits)

lemma decode_value_object:
  "decode_value X buf d = Ret (Some (v, used)) \<Longrightarrow> as_object v \<noteq> None \<Longrightarrow>
   \<exists>ib rest. buf = ib # rest \<and> drop_bit 5 ib = 5"
  by (subst (asm) decode_value.simps)
    (auto simp: Let_def and_then_Some_conv split: if_splits list.splits option.splits)

lemma decode_message_map_byte:
  assumes "decode_message X buf = Ret (Some m)"
  shows "\<exists>ib rest. buf = ib # rest \<and> drop_bit 5 ib = 5"
proof -
  from assms obtain v used where "decode_value X buf 0 = Ret (Some (v, used))" "as_object v \<noteq> None"
    by (auto simp: decode_message_def and_then_Some_conv split: option.splits)
  then show ?thesis by (rule decode_value_object)
qed
end
