(* ===== verification/Framing.thy ===== *)
theory Framing
  imports Cbor
begin

text \<open>
  The transport of \<open>src/p2p.rs\<close>: length-prefixed frames over a TCP stream
  (\<open>write_frame\<close>, \<open>read_frame\<close>) and one request/response exchange (\<open>rpc2_call\<close>). A
  stream holds the bytes that have arrived, the bytes written, and the remote side as a
  state with a reaction: what it sends back after each frame it receives.
\<close>

section \<open>Streams\<close>

datatype io_error = UnexpectedEof | BrokenPipe | InvalidData string

fun io_text :: "io_error \<Rightarrow> string" where
  "io_text UnexpectedEof = ''failed to fill whole buffer''"
| "io_text BrokenPipe = ''Broken pipe (os error 32)''"
| "io_text (InvalidData s) = s"

record 'p stream =
  s_in :: bytes
  s_out :: bytes
  s_broken :: bool
  s_peer :: 'p
  s_react :: "'p \<Rightarrow> bytes \<Rightarrow> 'p \<times> bytes"

text \<open>A write of a whole frame; on a broken connection nothing is written.\<close>

definition write_all :: "'p stream \<Rightarrow> bytes \<Rightarrow> 'p stream \<times> (io_error + unit)" where
  "write_all s b =
     (if s_broken s then (s, Inl BrokenPipe)
      else let (p, ans) = s_react s (s_peer s) b in
        (s\<lparr>s_out := s_out s @ b, s_peer := p, s_in := s_in s @ ans\<rparr>, Inr ()))"

text \<open>\<open>Read::read_exact\<close>: a short read consumes what there is and fails.\<close>

definition read_exact :: "'p stream \<Rightarrow> nat \<Rightarrow> 'p stream \<times> (io_error + bytes)" where
  "read_exact s n =
     (if n \<le> length (s_in s) then (s\<lparr>s_in := drop n (s_in s)\<rparr>, Inr (take n (s_in s)))
      else (s\<lparr>s_in := []\<rparr>, Inl UnexpectedEof))"

section \<open>Frames\<close>

definition MAX_FRAME :: nat where
  "MAX_FRAME = 192 * 1024 * 1024"

definition frame_bytes :: "bytes \<Rightarrow> bytes" where
  "frame_bytes payload = le_bytes 4 (unat (word_of_nat (length payload) :: u32)) @ payload"

definition write_frame :: "'p stream \<Rightarrow> bytes \<Rightarrow> 'p stream \<times> (io_error + unit)" where
  "write_frame w payload = write_all w (frame_bytes payload)"

definition read_frame :: "'p stream \<Rightarrow> 'p stream \<times> (io_error + bytes)" where
  "read_frame r =
     (case read_exact r 4 of
        (r1, Inl e) \<Rightarrow> (r1, Inl e)
      | (r1, Inr len_buf) \<Rightarrow>
          let len = le_nat len_buf in
          if len = 0 \<or> len > MAX_FRAME then (r1, Inl (InvalidData ''bad frame length''))
          else read_exact r1 len)"

definition rpc2_call :: "ext \<Rightarrow> 'p stream \<Rightarrow> string \<Rightarrow> u64 \<Rightarrow> bytes \<Rightarrow>
    'p stream \<times> (io_error + rpc2_message) run" where
  "rpc2_call X s method sq body =
     (case write_frame s (cbor_message method sq [] body) of
        (s1, Inl e) \<Rightarrow> (s1, Ret (Inl e))
      | (s1, Inr _) \<Rightarrow>
          (case read_frame s1 of
             (s2, Inl e) \<Rightarrow> (s2, Ret (Inl e))
           | (s2, Inr resp) \<Rightarrow>
               (s2, run_bind (decode_message X resp) (\<lambda>m.
                 Ret (case m of Some m \<Rightarrow> Inr m
                      | None \<Rightarrow> Inl (InvalidData ''undecodable rpc2 response''))))))"

section \<open>Frame lemmas\<close>

definition sendable :: "bytes \<Rightarrow> bool" where
  "sendable p \<longleftrightarrow> p \<noteq> [] \<and> length p \<le> MAX_FRAME"

lemma length_frame_bytes [simp]: "length (frame_bytes p) = 4 + length p"
  by (simp add: frame_bytes_def)

lemma frame_prefix: "length p < 2 ^ 32 \<Longrightarrow> le_nat (take 4 (frame_bytes p @ rest)) = length p"
  by (simp add: frame_bytes_def le_nat_inverse unat_of_nat)

lemma read_frame_frame_bytes [codec]:
  assumes "sendable p" "s_in r = frame_bytes p @ rest"
  shows "read_frame r = (r\<lparr>s_in := rest\<rparr>, Inr p)"
proof -
  have lt: "length p < 2 ^ 32" using assms by (simp add: sendable_def MAX_FRAME_def)
  have "read_exact r 4 = (r\<lparr>s_in := p @ rest\<rparr>, Inr (take 4 (frame_bytes p @ rest)))"
    using assms(2) by (simp add: read_exact_def frame_bytes_def)
  then show ?thesis
    using assms(1) frame_prefix [OF lt, of rest]
    by (simp add: read_frame_def sendable_def read_exact_def)
qed

lemma read_exact_in: "read_exact s n = (s', Inr b) \<Longrightarrow> s_in s = b @ s_in s' \<and> length b = n"
  by (auto simp: read_exact_def split: if_splits)

lemma read_frame_progress:
  "read_frame r = (r', Inr b) \<Longrightarrow> length (s_in r) = 4 + length b + length (s_in r') \<and> sendable b"
  by (auto simp: read_frame_def sendable_def Let_def dest!: read_exact_in
      split: prod.splits sum.splits if_splits)

text \<open>Reading never touches the written bytes or the remote side.\<close>

lemma read_frame_keeps [keeps]:
  "read_frame r = (r', x) \<Longrightarrow>
     s_out r' = s_out r \<and> s_broken r' = s_broken r \<and> s_peer r' = s_peer r \<and> s_react r' = s_react r"
  by (auto simp: read_frame_def read_exact_def Let_def split: prod.splits sum.splits if_splits)

lemma write_frame_ok:
  "\<not> s_broken s \<Longrightarrow> s_react s (s_peer s) (frame_bytes p) = (q, ans) \<Longrightarrow>
   write_frame s p = (s\<lparr>s_out := s_out s @ frame_bytes p, s_peer := q, s_in := s_in s @ ans\<rparr>, Inr ())"
  by (simp add: write_frame_def write_all_def)

section \<open>The framing interface\<close>

text \<open>
  What the connection loops rely on: a sent payload is read back and nothing behind it is
  touched. The client lemma: a pipelined sequence of frames is read back in order.
\<close>

fun read_seq :: "('b \<Rightarrow> ('f \<times> 'b) option) \<Rightarrow> nat \<Rightarrow> 'b \<Rightarrow> ('f list \<times> 'b) option" where
  "read_seq rd 0 b = Some ([], b)"
| "read_seq rd (Suc n) b =
     (case rd b of None \<Rightarrow> None
      | Some (f, b') \<Rightarrow> map_option (\<lambda>(fs, b''). (f # fs, b'')) (read_seq rd n b'))"

locale framed =
  fixes wr :: "'f \<Rightarrow> 'c list"
    and rd :: "'c list \<Rightarrow> ('f \<times> 'c list) option"
    and ok :: "'f \<Rightarrow> bool"
  assumes rd_wr: "ok p \<Longrightarrow> rd (wr p @ rest) = Some (p, rest)"
begin

lemma read_seq_wr: "list_all ok ps \<Longrightarrow> read_seq rd (length ps) (concat (map wr ps) @ rest) = Some (ps, rest)"
  by (induction ps) (auto simp: rd_wr)

lemma wr_inj:
  assumes "ok p" "ok q" and eq: "wr p @ r = wr q @ t"
  shows "p = q \<and> r = t"
proof -
  have "Some (p, r) = rd (wr q @ t)" using rd_wr [OF assms(1), of r] by (simp only: eq)
  also have "\<dots> = Some (q, t)" using assms(2) by (rule rd_wr)
  finally show ?thesis by simp
qed

lemma streams_inj:
  assumes "list_all ok ps" "list_all ok qs" "length ps = length qs"
    "concat (map wr ps) = concat (map wr qs)"
  shows "ps = qs"
proof -
  have "Some (ps, []) = read_seq rd (length ps) (concat (map wr ps) @ [])"
    using assms(1) by (rule read_seq_wr [symmetric])
  also have "\<dots> = read_seq rd (length qs) (concat (map wr qs) @ [])"
    by (simp only: assms(3,4))
  also have "\<dots> = Some (qs, [])"
    using assms(2) by (rule read_seq_wr)
  finally show ?thesis by simp
qed

end

definition read_bytes :: "bytes \<Rightarrow> (bytes \<times> bytes) option" where
  "read_bytes b =
     (case read_frame \<lparr>s_in = b, s_out = [], s_broken = False, s_peer = (), s_react = (\<lambda>p _. (p, []))\<rparr> of
        (s, Inr p) \<Rightarrow> Some (p, s_in s)
      | (s, Inl e) \<Rightarrow> None)"

interpretation tcp: framed frame_bytes read_bytes sendable
  by unfold_locales (simp add: read_bytes_def read_frame_frame_bytes)

end
