(* ===== verification/Cbor_Frames.thy ===== *)
theory Cbor_Frames
  imports Framing
begin

text \<open>
  The decoder against appended bytes: what it decoded from a buffer does
  not change when bytes are appended (the decoder never reads past the item), and the
  content-drift oracle of the fuzz target \<open>fuzz/fuzz_targets/fuzz_p2p_decode.rs\<close>.
\<close>

section \<open>Appended bytes\<close>

lemma get_range_append: "get_range xs a b = Some ys \<Longrightarrow> get_range (xs @ t) a b = Some ys"
  by (auto simp: get_range_Some)

lemma decode_head_append:
  "decode_head info rest = Some r \<Longrightarrow> decode_head info (rest @ t) = Some r"
  by (auto simp: decode_head_def get_range_append split: if_splits list.splits)

lemma slice_from_append:
  "at \<le> length buf \<Longrightarrow> slice_from (buf @ t) at = Ret (drop at buf @ t)"
  by (simp add: slice_from_def)

lemma slice_from_Ret: "slice_from buf at = Ret b \<longleftrightarrow> at \<le> length buf \<and> b = drop at buf"
  by (auto simp: slice_from_def)

text \<open>One decoded child, and one turn of each loop, when it goes on.\<close>

lemma child_conv:
  "and_then m (\<lambda>(v, used). if used = 0 then Ret None
     else case checked_add at used of None \<Rightarrow> Ret None | Some a \<Rightarrow> g v a) = Ret (Some r) \<longleftrightarrow>
   (\<exists>v u. m = Ret (Some (v, u)) \<and> u \<noteq> 0 \<and> at + u < 2 ^ 64 \<and> g v (at + u) = Ret (Some r))"
proof -
  have "(if u = 0 then Ret None else case checked_add at u of None \<Rightarrow> Ret None | Some a \<Rightarrow> g v a)
      = Ret (Some r) \<longleftrightarrow> u \<noteq> 0 \<and> at + u < 2 ^ 64 \<and> g v (at + u) = Ret (Some r)" for v u
    by (simp add: checked_add_def)
  then show ?thesis by (auto simp: and_then_Some_conv)
qed

lemma decode_items_step:
  "n \<noteq> 0 \<Longrightarrow> decode_items X buf d n at out = Ret (Some r) \<longleftrightarrow>
    at \<le> length buf \<and> (\<exists>v u. decode_value X (drop at buf) d = Ret (Some (v, u)) \<and> u \<noteq> 0 \<and>
      at + u < 2 ^ 64 \<and> decode_items X buf d (n - 1) (at + u) (out @ [v]) = Ret (Some r))"
  by (subst decode_items.simps) (auto simp only: run_bind_Ret_conv slice_from_Ret child_conv if_False)

lemma decode_pairs_step:
  "n \<noteq> 0 \<Longrightarrow> decode_pairs X buf d n at m = Ret (Some r) \<longleftrightarrow>
    at \<le> length buf \<and> (\<exists>k u. decode_value X (drop at buf) d = Ret (Some (k, u)) \<and> u \<noteq> 0 \<and>
      at + u < 2 ^ 64 \<and> at + u \<le> length buf \<and>
      (\<exists>v w. decode_value X (drop (at + u) buf) d = Ret (Some (v, w)) \<and> w \<noteq> 0 \<and> at + u + w < 2 ^ 64 \<and>
        decode_pairs X buf d (n - 1) (at + u + w)
          (case as_str k of Some ks \<Rightarrow> obj_insert ks v m | None \<Rightarrow> m) = Ret (Some r)))"
  by (subst decode_pairs.simps) (simp only: run_bind_Ret_conv slice_from_Ret child_conv if_False, blast)

lemma decode_append:
  "decode_value X buf d = Ret (Some r) \<longrightarrow> decode_value X (buf @ t) d = Ret (Some r)"
  "decode_items X buf d n at out = Ret (Some q) \<longrightarrow> decode_items X (buf @ t) d n at out = Ret (Some q)"
  "decode_pairs X buf d n at m = Ret (Some p) \<longrightarrow> decode_pairs X (buf @ t) d n at m = Ret (Some p)"
proof (induction X buf d and X buf d n at out and X buf d n at m arbitrary: r and q and p
    rule: decode_value_decode_items_decode_pairs.induct)
  case (1 X buf depth)
  show ?case
  proof
    assume run: "decode_value X buf depth = Ret (Some r)"
    then have d: "\<not> depth > MAX_DEPTH" by (auto simp: decode_value.simps)
    from run d obtain ib rest n pos where b: "buf = ib # rest" and h: "decode_head (ib AND 0x1f) rest = Some (n, pos)"
      by (auto simp: decode_value.simps Let_def split: list.splits option.splits)
    have d': "depth \<le> MAX_DEPTH" using d by simp
    note E = decode_value_Cons [OF d' h, of X]
      and E' = decode_value_Cons [OF d' decode_head_append [OF h, of t], of X]
    note I4 = "1.IH"(1) [OF d b refl refl h refl]
      and I5 = "1.IH"(2) [OF d b refl refl h refl]
    have g: "get_range buf pos e = Some ys \<Longrightarrow> get_range (ib # rest @ t) pos e = Some ys" for e ys
      using get_range_append [of buf pos e ys t] by (simp add: b)
    show "decode_value X (buf @ t) depth = Ret (Some r)"
    proof (cases "drop_bit 5 ib = 4 \<or> drop_bit 5 ib = 5")
      case True
      then show ?thesis using run I4 I5
        by (elim disjE) (auto simp: E E' b and_then_Some_conv)
    next
      case False
      then show ?thesis using run
        by (auto simp: E E' b Let_def g [unfolded b] split: if_splits option.splits)
    qed
  qed
next
  case (2 X buf depth n at out)
  show ?case
  proof (cases "n = 0")
    case True then show ?thesis by (simp add: decode_items.simps [of _ _ _ 0])
  next
    case False
    show ?thesis
    proof
      assume "decode_items X buf depth n at out = Ret (Some q)"
      then obtain v u where le: "at \<le> length buf" and v: "decode_value X (drop at buf) depth = Ret (Some (v, u))"
        and u: "u \<noteq> 0" "at + u < 2 ^ 64" and rec: "decode_items X buf depth (n - 1) (at + u) (out @ [v]) = Ret (Some q)"
        using decode_items_step [OF False] by blast
      have sl: "slice_from buf at = Ret (drop at buf)" using le by (simp add: slice_from_Ret)
      have ca: "checked_add at u = Some (at + u)" using u by (simp add: checked_add_def)
      show "decode_items X (buf @ t) depth n at out = Ret (Some q)"
        unfolding decode_items_step [OF False]
        using le u v "2.IH"(1) [OF False sl] "2.IH"(2) [OF False sl v refl u(1) ca] rec by auto
    qed
  qed
next
  case (3 X buf depth n at m)
  show ?case
  proof (cases "n = 0")
    case True then show ?thesis by (simp add: decode_pairs.simps [of _ _ _ 0])
  next
    case False
    show ?thesis
    proof
      assume "decode_pairs X buf depth n at m = Ret (Some p)"
      then obtain k u v w where le: "at \<le> length buf" and k: "decode_value X (drop at buf) depth = Ret (Some (k, u))"
        and u: "u \<noteq> 0" "at + u < 2 ^ 64" and le1: "at + u \<le> length buf"
        and v: "decode_value X (drop (at + u) buf) depth = Ret (Some (v, w))"
        and w: "w \<noteq> 0" "at + u + w < 2 ^ 64"
        and rec: "decode_pairs X buf depth (n - 1) (at + u + w)
          (case as_str k of Some ks \<Rightarrow> obj_insert ks v m | None \<Rightarrow> m) = Ret (Some p)"
        using decode_pairs_step [OF False] by blast
      have sl: "slice_from buf at = Ret (drop at buf)" "slice_from buf (at + u) = Ret (drop (at + u) buf)"
        using le le1 by (simp_all add: slice_from_Ret)
      have ca: "checked_add at u = Some (at + u)" "checked_add (at + u) w = Some (at + u + w)"
        using u w by (simp_all add: checked_add_def)
      show "decode_pairs X (buf @ t) depth n at m = Ret (Some p)"
        unfolding decode_pairs_step [OF False]
        using le le1 u w k v rec "3.IH"(1) [OF False sl(1)]
          "3.IH"(2) [OF False sl(1) k refl u(1) ca(1) sl(2)]
          "3.IH"(3) [OF False sl(1) k refl u(1) ca(1) sl(2) v refl w(1) ca(2)] by auto
    qed
  qed
qed

lemmas decode_value_append = decode_append(1) [rule_format]

text \<open>A message keeps its content, or is refused, whatever is appended.\<close>

lemma decode_message_SomeE:
  assumes "decode_message X buf = Ret (Some m)"
  obtains obj used where "decode_value X buf 0 = Ret (Some (Object obj, used))"
    "m = \<lparr> rm_method = str_or (get_str (Object obj) ''M'') [], rm_seq = u64_or (get_u64 (Object obj) ''S'') 0,
           rm_error = str_or (get_str (Object obj) ''E'') [], rm_payload = rm_payload m \<rparr>"
    "if used < length buf
     then \<exists>used2. decode_value X (drop used buf) 0 = Ret (Some (rm_payload m, used2)) \<and> used2 \<noteq> 0
     else rm_payload m = Null"
proof -
  from assms obtain v used where v: "decode_value X buf 0 = Ret (Some (v, used))"
    by (auto simp: decode_message_def and_then_Some_conv)
  with assms obtain obj where "v = Object obj"
    by (cases v) (auto simp: decode_message_def)
  with v assms that [of obj used] show thesis
    by (cases "used < length buf")
      (auto simp: decode_message_def and_then_Some_conv run_bind_Ret_conv slice_from_Ret Let_def split: if_splits)
qed

lemma decode_message_append:
  assumes dec: "decode_message X buf = Ret (Some m)" and tail: "decode_value X t 0 = Ret None"
  shows "decode_message X (buf @ t) \<in> {Ret None, Ret (Some m)}"
proof (cases "decode_message X (buf @ t)")
  case Panic then show ?thesis using decode_message_no_panic by blast
next
  case (Ret r)
  show ?thesis
  proof (cases r)
    case None with Ret show ?thesis by simp
  next
    case (Some m')
    obtain obj used where v: "decode_value X buf 0 = Ret (Some (Object obj, used))"
      and m: "m = \<lparr> rm_method = str_or (get_str (Object obj) ''M'') [], rm_seq = u64_or (get_u64 (Object obj) ''S'') 0,
            rm_error = str_or (get_str (Object obj) ''E'') [], rm_payload = rm_payload m \<rparr>"
      and p: "if used < length buf
       then \<exists>used2. decode_value X (drop used buf) 0 = Ret (Some (rm_payload m, used2)) \<and> used2 \<noteq> 0
       else rm_payload m = Null"
      using dec by (rule decode_message_SomeE)
    have le: "used \<le> length buf" using decode_safe(1) v by blast
    from Ret Some have dec': "decode_message X (buf @ t) = Ret (Some m')" by simp
    obtain obj' used' where v': "decode_value X (buf @ t) 0 = Ret (Some (Object obj', used'))"
      and m': "m' = \<lparr> rm_method = str_or (get_str (Object obj') ''M'') [], rm_seq = u64_or (get_u64 (Object obj') ''S'') 0,
            rm_error = str_or (get_str (Object obj') ''E'') [], rm_payload = rm_payload m' \<rparr>"
      and p': "if used' < length (buf @ t)
       then \<exists>used2. decode_value X (drop used' (buf @ t)) 0 = Ret (Some (rm_payload m', used2)) \<and> used2 \<noteq> 0
       else rm_payload m' = Null"
      using dec' by (rule decode_message_SomeE)
    from v' decode_value_append [OF v, of t] have same: "obj' = obj" "used' = used" by auto
    have "rm_payload m' = rm_payload m"
    proof (cases "used < length buf")
      case True
      then obtain w where "decode_value X (drop used buf) 0 = Ret (Some (rm_payload m, w))" using p by auto
      from decode_value_append [OF this, of t] p' same le True show ?thesis by auto
    next
      case False
      with le have "used = length buf" by simp
      with p' p same tail show ?thesis by (cases t) auto
    qed
    with m m' same Ret Some show ?thesis by simp
  qed
qed

section \<open>The fuzz target\<close>

definition fuzz_tail :: bytes where
  "fuzz_tail = [0xff, 0xff, 0xff, 0xff] @ [0x9b, 0xff, 0xff, 0xff, 0xff, 0xff, 0xff, 0xff, 0xff] @ str_bytes ''tail''"

text \<open>A failed \<open>assert_eq!\<close> is a panic.\<close>

definition fuzz_p2p_decode :: "ext \<Rightarrow> bytes \<Rightarrow> unit run" where
  "fuzz_p2p_decode X data =
     run_bind (decode_message X data) (\<lambda>msg.
       case msg of None \<Rightarrow> Ret ()
       | Some m \<Rightarrow>
           run_bind (decode_message X (data @ fuzz_tail)) (\<lambda>r.
             case r of None \<Rightarrow> Ret ()
             | Some again \<Rightarrow>
                 if rm_method again = rm_method m \<and> rm_seq again = rm_seq m \<and>
                    rm_error again = rm_error m \<and> rm_payload again = rm_payload m
                 then Ret () else Panic))"

lemma decode_fuzz_tail: "decode_value X fuzz_tail 0 = Ret None"
  unfolding fuzz_tail_def by (subst decode_value.simps) (simp add: decode_head_def)

end
