(* ===== verification/Wire_Sizes.thy ===== *)
theory Wire_Sizes
  imports Cbor_Frames
begin

text \<open>
  How long the encoders' output is, and the round trip of a whole message: a message that
  fits a frame is sent as one frame and decoded to what the builder was given.
\<close>

section \<open>Sizes\<close>

lemma length_text_le: "length (cbor_text s) \<le> 9 + length s"
  using length_cbor_head(1) [of 3 "word_of_nat (length s)"] by (simp add: cbor_text_def)

lemma length_bytes_le: "length (cbor_bytes b) \<le> 9 + length b"
  using length_cbor_head(1) [of 2 "word_of_nat (length b)"] by (simp add: cbor_bytes_def)

lemma length_uint_le: "length (cbor_uint n) \<le> 9"
  using length_cbor_head(1) [of 0 n] by (simp add: cbor_uint_def)

lemma length_map_le: "length (cbor_map n) \<le> 9" "length (cbor_array n) \<le> 9"
  using length_cbor_head(1) [of 5 "word_of_nat n"] length_cbor_head(1) [of 4 "word_of_nat n"]
  by (simp_all add: cbor_map_def cbor_array_def)

lemma length_kv_le: "length (cbor_kv k v) \<le> 9 + length k + length v"
  using length_text_le [of k] by (simp add: cbor_kv_def)

lemma length_header_le: "length (cbor_header meth sq err) \<le> 66 + length meth + length err"
proof -
  note k = length_kv_le [of "''M''" "cbor_text meth"] length_kv_le [of "''S''" "cbor_uint sq"]
    length_kv_le [of "''E''" "cbor_text err"]
  show ?thesis
    using k length_map_le(1) [of 3] length_text_le [of meth] length_text_le [of err] length_uint_le [of sq]
    unfolding cbor_header_def by simp
qed

lemma length_putobject_le:
  "length (putobject_request blid body token) \<le> 77 + length blid + length body + length token"
proof -
  note k = length_kv_le [of "''BLID''" "cbor_hash32 blid"] length_kv_le [of "''BODY''" "cbor_bytes body"]
    length_kv_le [of "''TOKEN''" "cbor_text token"]
  show ?thesis
    using k length_map_le(1) [of 2] length_map_le(1) [of 3] length_bytes_le [of blid] length_bytes_le [of body]
      length_text_le [of token]
    by (simp add: putobject_request_def cbor_hash32_def del: small_counts)
qed

lemma length_chain_le:
  "\<forall>(h, b)\<in>set pairs. length b = 32 \<Longrightarrow> length (chain_response pairs) \<le> 9 + 59 * length pairs"
proof -
  have "length (concat (map (\<lambda>(h, blid). cbor_array 2 @ cbor_uint h @ cbor_hash32 blid) pairs))
      \<le> 59 * length pairs" if "\<forall>(h, b)\<in>set pairs. length b = 32"
    using that
  proof (induction pairs)
    case (Cons p ps)
    then show ?case
      using length_map_le(2) [of 2] length_uint_le [of "fst p"] length_bytes_le [of "snd p"]
      by (cases p) (simp add: cbor_hash32_def del: small_counts)
  qed simp
  then show "\<forall>(h, b)\<in>set pairs. length b = 32 \<Longrightarrow> ?thesis"
    using length_map_le(2) [of "length pairs"] by (simp add: chain_response_def)
qed

lemma length_getobject_le:
  "length (getobject_request b) \<le> 32 + length b" "length (getobject_response b) \<le> 9 + length b"
proof -
  show "length (getobject_request b) \<le> 32 + length b"
    using length_kv_le [of "''BLID''" "cbor_hash32 b"] length_bytes_le [of b] length_map_le(1) [of 1]
    by (simp add: getobject_request_def cbor_hash32_def)
  show "length (getobject_response b) \<le> 9 + length b"
    using length_bytes_le [of b] by (simp add: getobject_response_def)
qed

lemma length_small_requests:
  "length (handshake_request n) \<le> 40" "length (handshake_response h n) \<le> 60" "length (chain_request t n) \<le> 60"
  using length_kv_le [of "''N''" "cbor_uint n"] length_kv_le [of "''H''" "cbor_uint h"]
    length_kv_le [of "''TOP''" "cbor_uint t"] length_uint_le [of n] length_uint_le [of h] length_uint_le [of t]
    length_map_le(1) [of 1] length_map_le(1) [of 2]
  by (simp_all add: handshake_request_def handshake_response_def chain_request_def del: small_counts)

section \<open>Messages\<close>

lemma message_decodes:
  assumes "valid_str meth" "valid_str err" "length meth + length err + length body \<le> MAX_FRAME - 66"
    "decodes X h body v" "h \<le> MAX_DEPTH"
  shows "sendable (cbor_message meth sq err body)"
    "decode_message X (cbor_message meth sq err body) =
       Ret (Some \<lparr>rm_method = meth, rm_seq = sq, rm_error = err, rm_payload = v\<rparr>)"
proof -
  have len: "length (cbor_message meth sq err body) \<le> MAX_FRAME"
    using length_header_le [of meth sq err] assms(3) by (simp add: cbor_message_def MAX_FRAME_def)
  then show "sendable (cbor_message meth sq err body)"
    by (simp add: sendable_def cbor_message_def cbor_header_def cbor_map_def length_cbor_head(2)
        flip: length_greater_0_conv)
  show "decode_message X (cbor_message meth sq err body) =
       Ret (Some \<lparr>rm_method = meth, rm_seq = sq, rm_error = err, rm_payload = v\<rparr>)"
    by (rule decode_message_payload [OF assms(1,2) _ _ _ assms(4,5)])
      (use len assms(3) in \<open>simp_all add: MAX_FRAME_def\<close>)
qed

end
