(* ===== verification/Filesystem.thy ===== *)
theory Filesystem
  imports Rust_Std
begin

text \<open>
  The file operations the program calls (\<open>std::fs\<close>) over an explicit file system: path to
  contents and modification time, in directory order. Every operation can fail: the record
  \<open>faults\<close> says which calls the operating system refuses, with the error text, and what a
  failed write leaves in the file (it may be cut short). Directories are implicit.
\<close>

record fnode =
  f_data :: bytes
  f_mtime :: int

record faults =
  flt_read :: "path \<Rightarrow> string option"
  flt_stat :: "path \<Rightarrow> bool"
  flt_readdir :: "path \<Rightarrow> bool"
  flt_write :: "path \<Rightarrow> (string \<times> bytes option) option"
  flt_rename :: "path \<Rightarrow> path \<Rightarrow> string option"
  flt_remove :: "path \<Rightarrow> bool"
  flt_mkdir :: "path \<Rightarrow> string option"
  txt_enoent :: string

record fsys =
  fs_files :: "(path \<times> fnode) list"
  fs_now :: int
  fs_faults :: faults

definition no_faults :: faults where
  "no_faults = \<lparr> flt_read = (\<lambda>_. None), flt_stat = (\<lambda>_. False), flt_readdir = (\<lambda>_. False),
     flt_write = (\<lambda>_. None), flt_rename = (\<lambda>_ _. None), flt_remove = (\<lambda>_. False),
     flt_mkdir = (\<lambda>_. None), txt_enoent = ''No such file or directory (os error 2)'' \<rparr>"

abbreviation fs_lookup :: "fsys \<Rightarrow> path \<Rightarrow> fnode option" where
  "fs_lookup fs p \<equiv> map_of (fs_files fs) p"

text \<open>\<open>fs::read\<close>, \<open>fs::metadata(..).is_ok()\<close> and its \<open>len()\<close>.\<close>

definition fs_read :: "path \<Rightarrow> fsys \<Rightarrow> string + bytes" where
  "fs_read p fs =
     (case flt_read (fs_faults fs) p of Some e \<Rightarrow> Inl e
      | None \<Rightarrow> (case fs_lookup fs p of None \<Rightarrow> Inl (txt_enoent (fs_faults fs))
                | Some f \<Rightarrow> Inr (f_data f)))"

definition fs_metadata :: "path \<Rightarrow> fsys \<Rightarrow> fnode option" where
  "fs_metadata p fs = (if flt_stat (fs_faults fs) p then None else fs_lookup fs p)"

text \<open>\<open>fs::write\<close> creates or truncates; a failed write may leave a partial file.\<close>

definition fs_put :: "path \<Rightarrow> bytes \<Rightarrow> fsys \<Rightarrow> fsys" where
  "fs_put p d fs = fs\<lparr>fs_files := AList.update p \<lparr>f_data = d, f_mtime = fs_now fs\<rparr> (fs_files fs)\<rparr>"

definition fs_write :: "path \<Rightarrow> bytes \<Rightarrow> fsys \<Rightarrow> fsys \<times> (string + unit)" where
  "fs_write p d fs =
     (case flt_write (fs_faults fs) p of
        None \<Rightarrow> (fs_put p d fs, Inr ())
      | Some (e, None) \<Rightarrow> (fs, Inl e)
      | Some (e, Some part) \<Rightarrow> (fs_put p part fs, Inl e))"

text \<open>\<open>fs::rename\<close> replaces the target atomically; \<open>fs::remove_file\<close>.\<close>

definition fs_rename :: "path \<Rightarrow> path \<Rightarrow> fsys \<Rightarrow> fsys \<times> (string + unit)" where
  "fs_rename a b fs =
     (case flt_rename (fs_faults fs) a b of
        Some e \<Rightarrow> (fs, Inl e)
      | None \<Rightarrow>
          (case fs_lookup fs a of None \<Rightarrow> (fs, Inl (txt_enoent (fs_faults fs)))
           | Some f \<Rightarrow> (fs\<lparr>fs_files := AList.update b f (AList.delete a (fs_files fs))\<rparr>, Inr ())))"

definition fs_remove :: "path \<Rightarrow> fsys \<Rightarrow> fsys" where
  "fs_remove p fs =
     (if flt_remove (fs_faults fs) p then fs else fs\<lparr>fs_files := AList.delete p (fs_files fs)\<rparr>)"

definition fs_create_dir_all :: "path \<Rightarrow> fsys \<Rightarrow> string + unit" where
  "fs_create_dir_all d fs = (case flt_mkdir (fs_faults fs) d of Some e \<Rightarrow> Inl e | None \<Rightarrow> Inr ())"

text \<open>\<open>fs::read_dir\<close>: the names of the entries directly below a directory.\<close>

definition entry_name :: "path \<Rightarrow> path \<Rightarrow> string option" where
  "entry_name dir p =
     (let pre = dir @ ''/''; name = drop (length pre) p in
      if starts_with p pre \<and> name \<noteq> [] \<and> CHR ''/'' \<notin> set name then Some name else None)"

definition fs_read_dir :: "path \<Rightarrow> fsys \<Rightarrow> string list option" where
  "fs_read_dir dir fs =
     (if flt_readdir (fs_faults fs) dir then None
      else Some (List.map_filter (\<lambda>(p, f). entry_name dir p) (fs_files fs)))"

definition fs_wf :: "fsys \<Rightarrow> bool" where
  "fs_wf fs \<longleftrightarrow> distinct (map fst (fs_files fs))"

definition file_path :: "path \<Rightarrow> string \<Rightarrow> path" where
  "file_path dir name = dir @ ''/'' @ name"

section \<open>Lookups after each operation\<close>

lemma fs_put_lookup [simp]:
  "fs_lookup (fs_put p d fs) = (fs_lookup fs)(p \<mapsto> \<lparr>f_data = d, f_mtime = fs_now fs\<rparr>)"
  by (simp add: fs_put_def update_conv' fun_upd_def)

lemma fs_put_keeps [simp, keeps]:
  "fs_faults (fs_put p d fs) = fs_faults fs" "fs_now (fs_put p d fs) = fs_now fs"
  by (simp_all add: fs_put_def)

lemma fs_remove_keeps [simp, keeps]:
  "fs_faults (fs_remove p fs) = fs_faults fs" "fs_now (fs_remove p fs) = fs_now fs"
  by (simp_all add: fs_remove_def)

lemma fs_write_keeps [keeps]:
  "fs_write p d fs = (fs', r) \<Longrightarrow> fs_faults fs' = fs_faults fs \<and> fs_now fs' = fs_now fs"
  by (auto simp: fs_write_def split: option.splits)

lemma fs_rename_keeps [keeps]:
  "fs_rename a b fs = (fs', r) \<Longrightarrow> fs_faults fs' = fs_faults fs \<and> fs_now fs' = fs_now fs"
  by (auto simp: fs_rename_def split: option.splits)

lemma fs_write_ok:
  "fs_write p d fs = (fs', Inr u) \<Longrightarrow>
     fs_lookup fs' = (fs_lookup fs)(p \<mapsto> \<lparr>f_data = d, f_mtime = fs_now fs\<rparr>)"
  by (auto simp: fs_write_def split: option.splits)

lemma fs_write_other: "fs_write p d fs = (fs', r) \<Longrightarrow> q \<noteq> p \<Longrightarrow> fs_lookup fs' q = fs_lookup fs q"
  by (auto simp: fs_write_def split: option.splits)

lemma fs_rename_ok:
  "fs_rename a b fs = (fs', Inr u) \<Longrightarrow> \<exists>f. fs_lookup fs a = Some f \<and>
     fs_lookup fs' = (fs_lookup fs)(a := None, b \<mapsto> f)"
  by (auto simp: fs_rename_def update_conv' delete_conv' split: option.splits)

lemma fs_rename_other:
  "fs_rename a b fs = (fs', r) \<Longrightarrow> q \<noteq> a \<Longrightarrow> q \<noteq> b \<Longrightarrow> fs_lookup fs' q = fs_lookup fs q"
  by (auto simp: fs_rename_def update_conv' delete_conv' split: option.splits)

lemma fs_rename_err: "fs_rename a b fs = (fs', Inl e) \<Longrightarrow> fs' = fs"
  by (auto simp: fs_rename_def split: option.splits)

lemma fs_remove_other: "q \<noteq> p \<Longrightarrow> fs_lookup (fs_remove p fs) q = fs_lookup fs q"
  by (simp add: fs_remove_def delete_conv')

lemma fs_remove_sub: "fs_lookup (fs_remove p fs) q = Some f \<Longrightarrow> fs_lookup fs q = Some f"
  by (auto simp: fs_remove_def delete_conv' split: if_splits)

lemma fs_remove_gone: "\<not> flt_remove (fs_faults fs) p \<Longrightarrow> fs_lookup (fs_remove p fs) p = None"
  by (simp add: fs_remove_def delete_conv')

section \<open>Well-formedness\<close>

lemma fs_wf_put [simp]: "fs_wf fs \<Longrightarrow> fs_wf (fs_put p d fs)"
  by (simp add: fs_wf_def fs_put_def distinct_update)

lemma fs_wf_remove [simp]: "fs_wf fs \<Longrightarrow> fs_wf (fs_remove p fs)"
  by (simp add: fs_wf_def fs_remove_def distinct_delete)

lemma fs_wf_write: "fs_write p d fs = (fs', r) \<Longrightarrow> fs_wf fs \<Longrightarrow> fs_wf fs'"
  by (auto simp: fs_write_def split: option.splits)

lemma fs_wf_rename: "fs_rename a b fs = (fs', r) \<Longrightarrow> fs_wf fs \<Longrightarrow> fs_wf fs'"
  by (auto simp: fs_rename_def fs_wf_def distinct_update distinct_delete split: option.splits)

section \<open>Directory listings\<close>

lemma entry_name_Some:
  "entry_name dir p = Some n \<longleftrightarrow> p = file_path dir n \<and> n \<noteq> [] \<and> CHR ''/'' \<notin> set n"
proof -
  have "starts_with p (dir @ ''/'') \<longleftrightarrow> (\<exists>n. p = dir @ ''/'' @ n)"
    unfolding starts_with_def by (metis append.assoc append_eq_conv_conj append_take_drop_id)
  then show ?thesis by (auto simp: entry_name_def file_path_def Let_def)
qed

lemma mem_map_filter: "y \<in> set (List.map_filter f xs) \<longleftrightarrow> (\<exists>x\<in>set xs. f x = Some y)"
  by (induction xs) (auto simp: List.map_filter_simps split: option.splits)

lemma fs_read_dir_mem:
  "fs_read_dir dir fs = Some ns \<Longrightarrow>
     n \<in> set ns \<longleftrightarrow> n \<noteq> [] \<and> CHR ''/'' \<notin> set n \<and> fs_lookup fs (file_path dir n) \<noteq> None"
  by (force simp: fs_read_dir_def mem_map_filter entry_name_Some map_of_eq_None_iff image_iff
      split: if_splits)

lemma file_path_inj [simp]: "file_path dir a = file_path dir b \<longleftrightarrow> a = b"
  by (simp add: file_path_def)

end
