(* ===== verification/Hold.thy ===== *)
theory Hold
  imports Filesystem Externals
begin

text \<open>
  The body store of \<open>src/spore_peer.rs\<close>: the content-addressed hold directory
  (\<open>store_body\<close>, \<open>serve_body\<close>, \<open>chain_view\<close>, \<open>store_bytes\<close>), the program's own
  \<open>hex_decode\<close>, the status-prefixed response frames and the client's hash-based
  classifier \<open>parse_fetch_response\<close>. The store's invariant is \<open>hold_ok\<close>: every file a
  request can name holds bytes that hash to its name.
\<close>

section \<open>hex_decode\<close>

text \<open>Slicing a string panics off a character boundary.\<close>

definition is_char_boundary :: "string \<Rightarrow> nat \<Rightarrow> bool" where
  "is_char_boundary s i \<longleftrightarrow>
     i = 0 \<or> i = length s \<or> (i < length s \<and> \<not> is_cont (byte_of (s ! i)))"

definition str_slice :: "string \<Rightarrow> nat \<Rightarrow> nat \<Rightarrow> string run" where
  "str_slice s a b =
     (if a \<le> b \<and> b \<le> length s \<and> is_char_boundary s a \<and> is_char_boundary s b
      then Ret (take (b - a) (drop a s)) else Panic)"

text \<open>The \<open>map\<close>/\<open>collect\<close> over \<open>(0..s.len()).step_by(2)\<close>: it stops at the first \<open>None\<close>.\<close>

function hex_pairs :: "string \<Rightarrow> nat \<Rightarrow> bytes option run" where
  "hex_pairs s i =
     (if i < length s then
        run_bind (str_slice s i (i + 2)) (\<lambda>p.
          case from_str_radix 16 256 p of None \<Rightarrow> Ret None
          | Some v \<Rightarrow> and_then (hex_pairs s (i + 2)) (\<lambda>vs. Ret (Some (word_of_nat v # vs))))
      else Ret (Some []))"
  by pat_completeness auto
termination
  by (relation "measure (\<lambda>(s, i). length s - i)") auto

declare hex_pairs.simps [simp del]

definition hex_decode :: "string \<Rightarrow> bytes option run" where
  "hex_decode s = (if \<not> even (length s) then Ret None else hex_pairs s 0)"

section \<open>The hold\<close>

definition MAX_BODY_BYTES :: nat where
  "MAX_BODY_BYTES = 32 * 1024 * 1024"

definition body_path :: "path \<Rightarrow> string \<Rightarrow> path" where
  "body_path dir cid_hex = dir @ ''/'' @ cid_hex @ ''.body''"

definition store_bytes :: "path \<Rightarrow> fsys \<Rightarrow> u64" where
  "store_bytes dir fs =
     (case fs_read_dir dir fs of None \<Rightarrow> 0
      | Some names \<Rightarrow>
          fold (\<lambda>name total.
            if path_extension name = Some ''body'' then
              (case fs_metadata (file_path dir name) fs of None \<Rightarrow> total
               | Some f \<Rightarrow> sat_add total (word_of_nat (length (f_data f))))
            else total) names 0)"

definition store_body :: "ext \<Rightarrow> path \<Rightarrow> bytes \<Rightarrow> fsys \<Rightarrow> fsys \<times> (string + string)" where
  "store_body X dir body fs =
     (if body = [] then (fs, Inl ''400 empty body'')
      else if length body > MAX_BODY_BYTES then (fs, Inl ''413 body too large'')
      else
        let cid_hex = hex_encode X (sha256 X body);
            final_path = body_path dir cid_hex in
        if fs_metadata final_path fs \<noteq> None then (fs, Inr cid_hex)
        else
          (case fs_create_dir_all dir fs of
             Inl e \<Rightarrow> (fs, Inl (''dir '' @ dir @ '': '' @ e))
           | Inr _ \<Rightarrow>
               let tmp_path = dir @ ''/.incoming-'' @ cid_hex @ ''.part'' in
               (case fs_write tmp_path body fs of
                  (fs1, Inl e) \<Rightarrow> (fs1, Inl (''write '' @ tmp_path @ '': '' @ e))
                | (fs1, Inr _) \<Rightarrow>
                    (case fs_rename tmp_path final_path fs1 of
                       (fs2, Inl e) \<Rightarrow>
                         (fs_remove tmp_path fs2, Inl (''rename '' @ tmp_path @ '': '' @ e))
                     | (fs2, Inr _) \<Rightarrow> (fs2, Inr cid_hex)))))"

definition serve_body :: "ext \<Rightarrow> path \<Rightarrow> string \<Rightarrow> fsys \<Rightarrow> (string + bytes) run" where
  "serve_body X dir cid_hex fs =
     run_bind (hex_decode cid_hex) (\<lambda>r.
       case r of None \<Rightarrow> Ret (Inl ''400 bad cid'')
       | Some raw \<Rightarrow>
           if length raw \<noteq> 32 then Ret (Inl ''400 bad cid'')
           else
             (case fs_read (body_path dir cid_hex) fs of
                Inl _ \<Rightarrow> Ret (Inl ''404 not found'')
              | Inr data \<Rightarrow>
                  if sha256 X data \<noteq> raw then Ret (Inl ''500 cid mismatch'')
                  else Ret (Inr data)))"

text \<open>One directory entry of \<open>chain_view\<close>: \<open>None\<close> is \<open>continue\<close>.\<close>

definition chain_entry :: "path \<Rightarrow> fsys \<Rightarrow> string \<Rightarrow> (int \<times> bytes) option run" where
  "chain_entry dir fs raw_name =
     (let name = from_utf8_lossy (str_bytes raw_name) in
      if length name \<noteq> 64 + 5 \<or> \<not> ends_with name ''.body'' then Ret None
      else run_bind (str_slice name 0 64) (\<lambda>h.
        and_then (hex_decode h) (\<lambda>c.
          if length c \<noteq> 32 then Ret None
          else
            let mt = (case fs_metadata (file_path dir raw_name) fs of None \<Rightarrow> 0
                      | Some f \<Rightarrow> f_mtime f)
            in Ret (Some (mt, c)))))"

fun chain_entries :: "path \<Rightarrow> fsys \<Rightarrow> string list \<Rightarrow> (int \<times> bytes) list run" where
  "chain_entries dir fs [] = Ret []"
| "chain_entries dir fs (n # ns) =
     run_bind (chain_entry dir fs n) (\<lambda>e.
       run_bind (chain_entries dir fs ns) (\<lambda>es.
         Ret (case e of None \<Rightarrow> es | Some x \<Rightarrow> x # es)))"

definition chain_view :: "path \<Rightarrow> fsys \<Rightarrow> (u64 \<times> bytes) list run" where
  "chain_view dir fs =
     (case fs_read_dir dir fs of None \<Rightarrow> Ret []
      | Some names \<Rightarrow>
          run_bind (chain_entries dir fs names) (\<lambda>entries.
            Ret (map (\<lambda>(i, (_, c)). (word_of_nat i, c)) (enumerate 0 (sort_key fst entries)))))"

section \<open>Response frames\<close>

definition STATUS_OK :: byte where "STATUS_OK = 0x00"
definition STATUS_ERR :: byte where "STATUS_ERR = 0x01"

definition frame_ok :: "bytes \<Rightarrow> bytes" where
  "frame_ok body = STATUS_OK # body"

definition frame_err :: "string \<Rightarrow> bytes" where
  "frame_err msg = STATUS_ERR # str_bytes msg"

definition parse_fetch_response :: "ext \<Rightarrow> bytes \<Rightarrow> string \<Rightarrow> (string + bytes) run" where
  "parse_fetch_response X resp cid =
     run_bind (hex_decode cid) (\<lambda>r.
       case r of None \<Rightarrow> Ret (Inl ''bad cid hex'')
       | Some expected \<Rightarrow>
           if length expected \<noteq> 32 then Ret (Inl ''bad cid hex'')
           else if sha256 X resp = expected then Ret (Inr resp)
           else
             (case resp of
                [] \<Rightarrow> Ret (Inl ''body sha256 does not match cid (tampered)'')
              | st # body \<Rightarrow>
                  if st = STATUS_OK then
                    (if sha256 X body \<noteq> expected
                     then Ret (Inl ''body sha256 does not match cid (tampered)'')
                     else Ret (Inr body))
                  else if st = STATUS_ERR then Ret (Inl (from_utf8_lossy body))
                  else Ret (Inl ''body sha256 does not match cid (tampered)'')))"

section \<open>hex_decode: results, panics, inverse\<close>

definition hexish :: "char \<Rightarrow> bool" where
  "hexish c \<longleftrightarrow> to_digit 16 c \<noteq> None \<or> c = CHR ''+''"

lemma to_digit_char_bounds:
  "to_digit 16 c = Some d \<Longrightarrow> (48::nat) \<le> of_char c \<and> (of_char c :: nat) < 103"
  by (auto simp: to_digit_def Let_def split: if_splits)

lemma hexish_char: "hexish c \<Longrightarrow> (43::nat) \<le> of_char c \<and> (of_char c :: nat) < 128 \<and> of_char c \<noteq> (46::nat) \<and> of_char c \<noteq> (47::nat)"
  by (auto simp: hexish_def dest!: to_digit_char_bounds)

lemma hexish_ascii: "hexish c \<Longrightarrow> byte_of c < 0x80"
  by (auto intro: byte_of_ascii dest!: hexish_char)

lemma hexish_not_path: "hexish c \<Longrightarrow> c \<noteq> CHR ''/'' \<and> c \<noteq> CHR ''.''"
  by (auto dest!: hexish_char)

lemma from_str_radix_pair:
  "from_str_radix 16 256 [c, d] = Some v \<Longrightarrow> hexish c \<and> hexish d \<and> v < 256"
  by (auto simp: from_str_radix_def hexish_def dest: from_str_radix_less split: if_splits option.splits)

lemma from_str_radix_digits:
  "to_digit 16 c = Some h \<Longrightarrow> to_digit 16 d = Some l \<Longrightarrow>
   from_str_radix 16 256 [c, d] = Some (16 * h + l)"
  using to_digit_less [of 16 c h] to_digit_less [of 16 d l]
  by (auto simp: from_str_radix_def mult.commute dest!: to_digit_char_bounds)

lemma str_slice_Ret:
  "str_slice s a b = Ret t \<Longrightarrow> a \<le> b \<and> b \<le> length s \<and> t = take (b - a) (drop a s)"
  by (auto simp: str_slice_def split: if_splits)

lemma str_slice_ascii:
  "ascii_str s \<Longrightarrow> a \<le> b \<Longrightarrow> b \<le> length s \<Longrightarrow> str_slice s a b = Ret (take (b - a) (drop a s))"
  by (auto simp: str_slice_def is_char_boundary_def is_cont_def ascii_str_def list_all_length simp flip: not_less)

lemma take2: "i + 2 \<le> length s \<Longrightarrow> take 2 (drop i s) = [s ! i, s ! Suc i]"
  by (simp add: numeral_2_eq_2 take_Suc_conv_app_nth)

lemma hex_pairs_Some:
  "hex_pairs s i = Ret (Some c) \<Longrightarrow> i \<le> length s \<Longrightarrow>
     length s = i + 2 * length c \<and> (\<forall>x\<in>set (drop i s). hexish x)"
proof (induction s i arbitrary: c rule: hex_pairs.induct)
  case (1 s i)
  show ?case
  proof (cases "i < length s")
    case False
    with 1 show ?thesis by (simp add: hex_pairs.simps [of s i])
  next
    case True
    with 1 obtain p v vs where p: "str_slice s i (i + 2) = Ret p"
      and v: "from_str_radix 16 256 p = Some v" and vs: "hex_pairs s (i + 2) = Ret (Some vs)"
      and c: "c = word_of_nat v # vs"
      by (auto simp: hex_pairs.simps [of s i] run_bind_Ret_conv and_then_Some_conv split: option.splits)
    from p have i2: "i + 2 \<le> length s" and pp: "p = [s ! i, s ! Suc i]"
      by (auto dest!: str_slice_Ret simp: take2)
    from "1.IH" [OF True p v vs] i2 have IH: "length s = i + 2 + 2 * length vs" "\<forall>x\<in>set (drop (i + 2) s). hexish x"
      by auto
    have d: "drop i s = s ! i # s ! Suc i # drop (i + 2) s"
      using i2 by (simp add: Cons_nth_drop_Suc)
    from v pp have "hexish (s ! i)" "hexish (s ! Suc i)" by (auto dest: from_str_radix_pair)
    with IH c show ?thesis by (simp add: d)
  qed
qed

lemma hex_pairs_ascii:
  "ascii_str s \<Longrightarrow> even (length s - i) \<Longrightarrow> hex_pairs s i \<noteq> Panic"
proof (induction s i rule: hex_pairs.induct)
  case (1 s i)
  show ?case
  proof (cases "i < length s")
    case False then show ?thesis by (simp add: hex_pairs.simps [of s i])
  next
    case True
    with 1 have i2: "i + 2 \<le> length s" by (cases "length s - i") (auto elim: oddE)
    have sl: "str_slice s i (i + 2) = Ret (take 2 (drop i s))"
      using str_slice_ascii [OF "1.prems"(1), of i "i + 2"] i2 by simp
    show ?thesis
    proof (cases "from_str_radix 16 256 (take 2 (drop i s))")
      case None then show ?thesis using sl True by (simp add: hex_pairs.simps [of s i])
    next
      case (Some v)
      with "1.IH" [OF True sl Some] "1.prems" show ?thesis
        using sl True by (auto simp: hex_pairs.simps [of s i] and_then_Panic_conv)
    qed
  qed
qed

lemma hex_pairs_hexs:
  "ascii_str s \<Longrightarrow> drop i s = hexs b \<Longrightarrow> i \<le> length s \<Longrightarrow> hex_pairs s i = Ret (Some b)"
proof (induction b arbitrary: i)
  case Nil
  then show ?case by (simp add: hex_pairs.simps [of s i])
next
  case (Cons x b)
  have len: "length s = i + 2 + 2 * length b"
    using Cons.prems(2,3) by (metis (no_types, lifting) add.assoc add_diff_cancel_left' le_add_diff_inverse length_drop length_hexs list.size(4) mult_Suc_right add_2_eq_Suc' length_Cons)
  have t: "take 2 (drop i s) = [hexdig (unat x div 16), hexdig (unat x mod 16)]"
    using Cons.prems(2) by (simp add: numeral_2_eq_2)
  have d: "drop (i + 2) s = hexs b"
    using Cons.prems(2) by (metis add.commute drop_drop drop_Suc_Cons drop0 hexs.simps(2) numeral_2_eq_2)
  have sl: "str_slice s i (i + 2) = Ret (take 2 (drop i s))"
    using str_slice_ascii [OF Cons.prems(1), of i "i + 2"] len by simp
  have v: "from_str_radix 16 256 [hexdig (unat x div 16), hexdig (unat x mod 16)] = Some (16 * (unat x div 16) + unat x mod 16)"
    by (rule from_str_radix_digits) (simp_all add: hexdig_facts)
  show ?case
    using sl t v len Cons.IH [of "i + 2"] d Cons.prems
    by (simp add: hex_pairs.simps [of s i])
qed

lemma hex_decode_hexs [codec]: "hex_decode (hexs b) = Ret (Some b)"
  by (simp add: hex_decode_def hex_pairs_hexs)

lemma hex_decode_ascii: "ascii_str s \<Longrightarrow> hex_decode s \<noteq> Panic"
  using hex_pairs_ascii [of s 0] by (auto simp: hex_decode_def)

lemma hex_decode_Some:
  "hex_decode s = Ret (Some c) \<Longrightarrow> length s = 2 * length c \<and> (\<forall>x\<in>set s. hexish x)"
  using hex_pairs_Some [of s 0 c] by (auto simp: hex_decode_def split: if_splits)

lemma hex_decode_no_slash:
  assumes "hex_decode s = Ret (Some c)"
  shows "CHR ''/'' \<notin> set s" "CHR ''.'' \<notin> set s" "ascii_str s"
proof -
  have "\<forall>x\<in>set s. hexish x" using hex_decode_Some [OF assms] by simp
  then show "CHR ''/'' \<notin> set s" "CHR ''.'' \<notin> set s" "ascii_str s"
    unfolding ascii_str_def list_all_iff using hexish_not_path hexish_ascii by blast+
qed

section \<open>The store invariant\<close>

text \<open>
  Content addressing: a file that a request can name (its stem decodes to 32 bytes) holds
  bytes that hash to that name.
\<close>

definition hold_ok :: "ext \<Rightarrow> path \<Rightarrow> fsys \<Rightarrow> bool" where
  "hold_ok X dir fs \<longleftrightarrow>
     (\<forall>h f c. fs_lookup fs (body_path dir h) = Some f \<longrightarrow> hex_decode h = Ret (Some c) \<longrightarrow>
        length c = 32 \<longrightarrow> sha256 X (f_data f) = c)"

lemma hold_okI:
  "(\<And>h f c. fs_lookup fs (body_path dir h) = Some f \<Longrightarrow> hex_decode h = Ret (Some c) \<Longrightarrow>
      length c = 32 \<Longrightarrow> sha256 X (f_data f) = c) \<Longrightarrow> hold_ok X dir fs"
  by (auto simp: hold_ok_def)

lemma hold_okD:
  "hold_ok X dir fs \<Longrightarrow> fs_lookup fs (body_path dir h) = Some f \<Longrightarrow>
   hex_decode h = Ret (Some c) \<Longrightarrow> length c = 32 \<Longrightarrow> sha256 X (f_data f) = c"
  by (auto simp: hold_ok_def)

lemma body_path_inj [simp]: "body_path dir a = body_path dir b \<longleftrightarrow> a = b"
  by (simp add: body_path_def)

lemma body_path_file_path: "body_path dir h = file_path dir (h @ ''.body'')"
  by (simp add: body_path_def file_path_def)

definition tmp_body_path :: "path \<Rightarrow> string \<Rightarrow> path" where
  "tmp_body_path dir cid_hex = dir @ ''/.incoming-'' @ cid_hex @ ''.part''"

lemma tmp_not_body [simp]: "tmp_body_path dir a \<noteq> body_path dir b" "body_path dir b \<noteq> tmp_body_path dir a"
proof -
  have "last (tmp_body_path dir a) \<noteq> last (body_path dir b)"
    by (simp add: tmp_body_path_def body_path_def)
  then show "tmp_body_path dir a \<noteq> body_path dir b" "body_path dir b \<noteq> tmp_body_path dir a" by metis+
qed

text \<open>
  The outcomes of \<open>store_body\<close>: refused, already there, written, or failed with the final
  path untouched.
\<close>

lemma store_body_cases:
  assumes "store_body X dir body fs = (fs', r)"
  obtains (refused) e where "fs' = fs" "r = Inl e" "body = [] \<or> MAX_BODY_BYTES < length body"
  | (present) "fs' = fs" "r = Inr (hex_encode X (sha256 X body))" "body \<noteq> []" "length body \<le> MAX_BODY_BYTES"
      "fs_metadata (body_path dir (hex_encode X (sha256 X body))) fs \<noteq> None"
  | (failed) e where "r = Inl e" "body \<noteq> []" "length body \<le> MAX_BODY_BYTES"
      "\<And>q. q \<noteq> tmp_body_path dir (hex_encode X (sha256 X body)) \<Longrightarrow> fs_lookup fs' q = fs_lookup fs q"
  | (written) "r = Inr (hex_encode X (sha256 X body))" "body \<noteq> []" "length body \<le> MAX_BODY_BYTES"
      "fs_metadata (body_path dir (hex_encode X (sha256 X body))) fs = None"
      "fs_lookup fs' (body_path dir (hex_encode X (sha256 X body))) = Some \<lparr>f_data = body, f_mtime = fs_now fs\<rparr>"
      "\<And>q. q \<noteq> tmp_body_path dir (hex_encode X (sha256 X body)) \<Longrightarrow>
         q \<noteq> body_path dir (hex_encode X (sha256 X body)) \<Longrightarrow> fs_lookup fs' q = fs_lookup fs q"
proof -
  let ?c = "hex_encode X (sha256 X body)"
  let ?t = "tmp_body_path dir ?c" and ?p = "body_path dir ?c"
  show thesis
  proof (cases "body = [] \<or> MAX_BODY_BYTES < length body")
    case True
    then show thesis using assms refused by (auto simp: store_body_def split: if_splits)
  next
    case False
    then have b: "body \<noteq> []" "length body \<le> MAX_BODY_BYTES" by auto
    show thesis
    proof (cases "fs_metadata ?p fs \<noteq> None")
      case True
      then show thesis using assms b present by (auto simp: store_body_def Let_def)
    next
      case F: False
      then have m: "fs_metadata ?p fs = None" by simp
      show thesis
      proof (cases "fs_create_dir_all dir fs")
        case (Inl e)
        then show thesis using assms b m failed by (auto simp: store_body_def Let_def)
      next
        case (Inr u)
        obtain fs1 w where w: "fs_write ?t body fs = (fs1, w)" by (cases "fs_write ?t body fs")
        have k1: "\<And>q. q \<noteq> ?t \<Longrightarrow> fs_lookup fs1 q = fs_lookup fs q"
          using fs_write_other [OF w] by blast
        show thesis
        proof (cases w)
          case (Inl e)
          then have "fs' = fs1" "\<exists>e. r = Inl e" using assms b m Inr w
            by (auto simp: store_body_def Let_def tmp_body_path_def)
          then show thesis using failed b k1 by auto
        next
          case w2: (Inr u2)
          obtain fs2 n where n: "fs_rename ?t ?p fs1 = (fs2, n)" by (cases "fs_rename ?t ?p fs1")
          show thesis
          proof (cases n)
            case (Inl e)
            then have e: "fs' = fs_remove ?t fs2" "\<exists>e. r = Inl e" "fs2 = fs1"
              using assms b m Inr w w2 n fs_rename_err
              by (auto simp: store_body_def Let_def tmp_body_path_def)
            then show thesis using failed b k1 by (auto simp: fs_remove_other)
          next
            case n2: (Inr u3)
            have e: "fs' = fs2" "r = Inr ?c"
              using assms b m Inr w w2 n n2 by (auto simp: store_body_def Let_def tmp_body_path_def)
            from fs_rename_ok [OF n [unfolded n2]] obtain f where f: "fs_lookup fs1 ?t = Some f"
              "fs_lookup fs2 = (fs_lookup fs1)(?t := None, ?p \<mapsto> f)" by blast
            from fs_write_ok [OF w [unfolded w2]] f(1) have "f = \<lparr>f_data = body, f_mtime = fs_now fs\<rparr>"
              by simp
            then show thesis using written [OF e(2) b m] f(2) k1 e(1) by simp
          qed
        qed
      qed
    qed
  qed
qed

lemma store_body_result: "store_body X dir body fs = (fs', Inr cid) \<Longrightarrow> cid = hex_encode X (sha256 X body)"
  by (erule store_body_cases) auto

lemma store_body_hold_ok:
  assumes law: "hex_law X" and st: "store_body X dir body fs = (fs', r)" and ok: "hold_ok X dir fs"
  shows "hold_ok X dir fs'"
  using st
proof (cases rule: store_body_cases)
  case (failed e)
  then show ?thesis using ok by (simp add: hold_ok_def)
next
  case written
  show ?thesis
  proof (rule hold_okI)
    fix h f c
    assume l: "fs_lookup fs' (body_path dir h) = Some f" and d: "hex_decode h = Ret (Some c)"
      and c: "length c = 32"
    show "sha256 X (f_data f) = c"
    proof (cases "h = hex_encode X (sha256 X body)")
      case True
      with l d written(5) law show ?thesis by (auto simp: hex_law_encode hex_decode_hexs)
    next
      case False
      with written(6) [of "body_path dir h"] l have "fs_lookup fs (body_path dir h) = Some f" by simp
      from hold_okD [OF ok this d c] show ?thesis .
    qed
  qed
qed (use ok in simp_all)

lemma store_body_keeps:
  assumes "store_body X dir body fs = (fs', r)" "q \<noteq> tmp_body_path dir (hex_encode X (sha256 X body))"
    "q \<noteq> body_path dir (hex_encode X (sha256 X body))"
  shows "fs_lookup fs' q = fs_lookup fs q"
  using assms(1) by (cases rule: store_body_cases) (use assms(2,3) in auto)

section \<open>Serving\<close>

lemma serve_body_Ok:
  "serve_body X dir cid fs = Ret (Inr data) \<longleftrightarrow>
     hex_decode cid = Ret (Some (sha256 X data)) \<and> length (sha256 X data) = 32 \<and>
     fs_read (body_path dir cid) fs = Inr data"
proof (cases "hex_decode cid")
  case (Ret r)
  show ?thesis
  proof (cases r)
    case (Some raw)
    then show ?thesis using Ret
      by (cases "fs_read (body_path dir cid) fs") (auto simp: serve_body_def)
  qed (simp add: serve_body_def Ret)
qed (simp add: serve_body_def)

lemma serve_body_no_panic: "ascii_str cid \<Longrightarrow> serve_body X dir cid fs \<noteq> Panic"
  using hex_decode_ascii [of cid]
  by (auto simp: serve_body_def run_bind_Panic_conv split: option.splits if_splits sum.splits)

lemma serve_body_hold:
  assumes "hold_ok X dir fs" "hex_decode cid = Ret (Some c)" "length c = 32"
    "fs_lookup fs (body_path dir cid) = Some f" "flt_read (fs_faults fs) (body_path dir cid) = None"
  shows "serve_body X dir cid fs = Ret (Inr (f_data f))"
  using assms hold_okD [OF assms(1,4,2,3)] by (simp add: serve_body_Ok fs_read_def)

lemma frames_keep_faults:
  assumes "store_body X dir body fs = (fs', r)"
  shows "fs_faults fs' = fs_faults fs"
  using assms
  by (auto simp: store_body_def Let_def dest!: fs_write_keeps fs_rename_keeps
      split: if_splits sum.splits prod.splits)

section \<open>The fetch classifier\<close>

lemma parse_fetch_Ok:
  "parse_fetch_response X resp cid = Ret (Inr b) \<longleftrightarrow>
     (\<exists>c. hex_decode cid = Ret (Some c) \<and> length c = 32 \<and> sha256 X b = c \<and>
        (b = resp \<or> (resp = STATUS_OK # b \<and> sha256 X resp \<noteq> c)))"
proof (cases "hex_decode cid")
  case (Ret r)
  show ?thesis
  proof (cases r)
    case (Some raw)
    then show ?thesis using Ret
      by (cases "sha256 X resp = raw"; cases resp) (auto simp: parse_fetch_response_def STATUS_OK_def STATUS_ERR_def)
  qed (simp add: parse_fetch_response_def Ret)
qed (simp add: parse_fetch_response_def)

section \<open>The chain view\<close>

lemma chain_entry_Some:
  assumes "chain_entry dir fs n = Ret (Some (mt, c))"
  shows "length c = 32 \<and> ends_with (from_utf8_lossy (str_bytes n)) ''.body'' \<and>
     hex_decode (take 64 (from_utf8_lossy (str_bytes n))) = Ret (Some c) \<and>
     mt = (case fs_metadata (file_path dir n) fs of None \<Rightarrow> 0 | Some f \<Rightarrow> f_mtime f)"
  using assms by (auto simp: chain_entry_def Let_def run_bind_Ret_conv and_then_Some_conv
      dest!: str_slice_Ret split: if_splits)

lemma chain_entries_Ret:
  "chain_entries dir fs ns = Ret es \<longleftrightarrow>
     list_all (\<lambda>n. chain_entry dir fs n \<noteq> Panic) ns \<and>
     es = List.map_filter (\<lambda>n. case chain_entry dir fs n of Ret e \<Rightarrow> e | Panic \<Rightarrow> None) ns"
proof (induction ns arbitrary: es)
  case (Cons n ns)
  then show ?case
    by (cases "chain_entry dir fs n")
      (auto simp: run_bind_Ret_conv List.map_filter_simps split: option.splits)
qed (auto simp: List.map_filter_simps)

lemma chain_view_Ret:
  assumes "chain_view dir fs = Ret xs"
  obtains ns es where "xs = map (\<lambda>(i, (_, c)). (word_of_nat i, c)) (enumerate 0 (sort_key fst es))"
    "chain_entries dir fs ns = Ret es" "ns = (case fs_read_dir dir fs of None \<Rightarrow> [] | Some ns \<Rightarrow> ns)"
proof (cases "fs_read_dir dir fs")
  case None
  with assms show thesis by (intro that [of "[]" "[]"]) (simp_all add: chain_view_def)
next
  case (Some ns)
  with assms obtain es where "chain_entries dir fs ns = Ret es"
    "xs = map (\<lambda>(i, (_, c)). (word_of_nat i, c)) (enumerate 0 (sort_key fst es))"
    by (auto simp: chain_view_def run_bind_Ret_conv)
  with Some show thesis by (intro that [of es ns]) simp_all
qed

lemma fst_chain_list:
  "map fst (map (\<lambda>(i, (_, c)). (word_of_nat i :: u64, c)) (enumerate 0 xs)) = map word_of_nat [0..<length xs]"
  and snd_chain_list: "map snd (map (\<lambda>(i, (_, c)). (word_of_nat i :: u64, c)) (enumerate 0 xs)) = map snd xs"
  by (rule nth_equalityI; auto simp: nth_enumerate_eq split: prod.split)+

lemma chain_view_heights:
  "chain_view dir fs = Ret xs \<Longrightarrow> map fst xs = map word_of_nat [0..<length xs]"
  by (erule chain_view_Ret) (simp only: fst_chain_list length_map length_enumerate length_sort)

lemma run_opt_Some: "(case r of Panic \<Rightarrow> None | Ret e \<Rightarrow> e) = Some x \<longleftrightarrow> r = Ret (Some x)"
  by (cases r) auto

lemma chain_view_mem:
  assumes "chain_view dir fs = Ret xs"
  shows "c \<in> snd ` set xs \<longleftrightarrow>
    (\<exists>ns n mt. fs_read_dir dir fs = Some ns \<and> n \<in> set ns \<and> chain_entry dir fs n = Ret (Some (mt, c)))"
  using assms
proof (rule chain_view_Ret)
  fix ns es
  assume xs: "xs = map (\<lambda>(i, (_, c)). (word_of_nat i, c)) (enumerate 0 (sort_key fst es))"
    and es: "chain_entries dir fs ns = Ret es"
    and ns: "ns = (case fs_read_dir dir fs of None \<Rightarrow> [] | Some ns \<Rightarrow> ns)"
  have "set (map snd xs) = set (map snd es)"
    unfolding xs snd_chain_list by simp
  then have "c \<in> snd ` set xs \<longleftrightarrow> (\<exists>mt. (mt, c) \<in> set es)" by force
  also have "\<dots> \<longleftrightarrow> (\<exists>n\<in>set ns. \<exists>mt. chain_entry dir fs n = Ret (Some (mt, c)))"
    using es unfolding chain_entries_Ret by (auto simp: mem_map_filter run_opt_Some)
  also have "\<dots> \<longleftrightarrow> (\<exists>ns n mt. fs_read_dir dir fs = Some ns \<and> n \<in> set ns \<and> chain_entry dir fs n = Ret (Some (mt, c)))"
    unfolding ns by (cases "fs_read_dir dir fs") auto
  finally show ?thesis .
qed

end
