(* ===== verification/Policy.thy ===== *)
theory Policy
  imports Hold
begin

text \<open>
  The write policy of \<open>src/spore_peer.rs\<close>: the fixed-window per-IP rate limiter, the
  comparison \<open>ct_eq\<close>, and the gate \<open>enforce_write_policy\<close> in front of every push. What the
  callers need from a limiter is the locale \<open>rate_gate\<close>: within one window of one client
  no more than the configured number of calls is granted.
\<close>

section \<open>RateLimiter\<close>

record rate_limiter =
  rl_max :: u32
  rl_wins :: "(string \<times> (u64 \<times> u32)) list"

definition rl_new :: "u32 \<Rightarrow> rate_limiter" where
  "rl_new mx = \<lparr>rl_max = mx, rl_wins = []\<rparr>"

definition rl_allow :: "rate_limiter \<Rightarrow> string \<Rightarrow> u64 \<Rightarrow> rate_limiter \<times> bool" where
  "rl_allow l ip now_sec =
     (if rl_max l = 0 then (l, True)
      else
        let w = rl_wins l;
            (w, e) = (case map_of w ip of Some e \<Rightarrow> (w, e)
                      | None \<Rightarrow> (AList.update ip (now_sec, 0) w, (now_sec, 0))) in
        if fst e \<noteq> now_sec then (l\<lparr>rl_wins := AList.update ip (now_sec, 1) w\<rparr>, True)
        else if snd e \<ge> rl_max l then (l\<lparr>rl_wins := w\<rparr>, False)
        else (l\<lparr>rl_wins := AList.update ip (fst e, snd e + 1) w\<rparr>, True))"

text \<open>How many calls of a client the limiter has granted in a window.\<close>

definition rl_used :: "rate_limiter \<Rightarrow> string \<Rightarrow> u64 \<Rightarrow> nat" where
  "rl_used l ip t =
     (case map_of (rl_wins l) ip of Some (t', n) \<Rightarrow> (if t' = t then unat n else 0) | None \<Rightarrow> 0)"

section \<open>ct_eq\<close>

fun ct_fold :: "byte \<Rightarrow> bytes \<Rightarrow> bytes \<Rightarrow> byte" where
  "ct_fold d (x # xs) (y # ys) = ct_fold (d OR (x XOR y)) xs ys"
| "ct_fold d _ _ = d"

definition ct_eq :: "string \<Rightarrow> string \<Rightarrow> bool" where
  "ct_eq a b = (if length a \<noteq> length b then False else ct_fold 0 (str_bytes a) (str_bytes b) = 0)"

section \<open>The write gate\<close>

record serve_config =
  sc_max_store_bytes :: u64
  sc_put_rate :: u32
  sc_token :: "string option"

definition enforce_write_policy ::
  "serve_config \<Rightarrow> string \<Rightarrow> path \<Rightarrow> fsys \<Rightarrow> nat \<Rightarrow> rate_limiter \<Rightarrow> u64 \<Rightarrow> json \<Rightarrow> rate_limiter \<times> (string + unit)" where
  "enforce_write_policy cfg ip dir fs body_len limiter now payload =
     (case rl_allow limiter ip now of (limiter, allowed) \<Rightarrow>
       if \<not> allowed then (limiter, Inl ''429 put rate limit exceeded'')
       else if (case sc_token cfg of
                  Some tok \<Rightarrow> \<not> ct_eq (str_or (get_str payload ''TOKEN'') []) tok
                | None \<Rightarrow> False)
         then (limiter, Inl ''401 bad write token'')
       else if sc_max_store_bytes cfg > 0 \<and>
               sat_add (store_bytes dir fs) (word_of_nat body_len) > sc_max_store_bytes cfg
         then (limiter, Inl ''507 store full'')
       else (limiter, Inr ()))"

section \<open>The limiter interface\<close>

text \<open>
  A gate counts what it has granted a client \<open>k\<close> in the window \<open>t\<close>. The run lemma is the
  promise to the callers: over requests whose times do not go back for \<open>k\<close>, no window of
  \<open>k\<close> is granted more than the cap.
\<close>

fun gate_run :: "('l \<Rightarrow> 'k \<Rightarrow> 't \<Rightarrow> 'l \<times> bool) \<Rightarrow> 'l \<Rightarrow> ('k \<times> 't) list \<Rightarrow> bool list" where
  "gate_run allow l [] = []"
| "gate_run allow l ((k, t) # rs) = (case allow l k t of (l', b) \<Rightarrow> b # gate_run allow l' rs)"

definition grants :: "('k \<times> 't) list \<Rightarrow> bool list \<Rightarrow> 'k \<Rightarrow> 't \<Rightarrow> nat" where
  "grants rs bs k t = length (filter (\<lambda>(r, b). b \<and> r = (k, t)) (zip rs bs))"

abbreviation times_of :: "'k \<Rightarrow> ('k \<times> 't) list \<Rightarrow> 't list" where
  "times_of k rs \<equiv> map snd (filter (\<lambda>r. fst r = k) rs)"

lemma grants_simps [simp]:
  "grants [] bs k t = 0"
  "grants (r # rs) (b # bs) k t = (if b \<and> r = (k, t) then 1 else 0) + grants rs bs k t"
  by (auto simp: grants_def)

lemma grants_none: "(k, t) \<notin> set rs \<Longrightarrow> grants rs bs k t = 0"
  by (auto simp: grants_def filter_empty_conv dest: set_zip_leftD)

locale rate_gate =
  fixes allow :: "'l \<Rightarrow> 'k \<Rightarrow> 't :: linorder \<Rightarrow> 'l \<times> bool"
    and used :: "'l \<Rightarrow> 'k \<Rightarrow> 't \<Rightarrow> nat"
    and cap :: "'l \<Rightarrow> nat"
  assumes allow_cap: "allow l k t = (l', b) \<Longrightarrow> cap l' = cap l"
    and allow_granted: "allow l k t = (l', True) \<Longrightarrow> 0 < cap l \<Longrightarrow>
      used l' k t = Suc (used l k t) \<and> used l' k t \<le> cap l"
    and allow_refused: "allow l k t = (l', False) \<Longrightarrow> used l' k t = used l k t \<and> 0 < cap l \<and> cap l \<le> used l k t"
    and allow_window: "allow l k t = (l', b) \<Longrightarrow> t' \<noteq> t \<Longrightarrow> used l' k t' \<le> used l k t'"
    and allow_other: "allow l k t = (l', b) \<Longrightarrow> k' \<noteq> k \<Longrightarrow> used l' k' t' = used l k' t'"
begin

lemma window_grants:
  "0 < cap l \<Longrightarrow> sorted (times_of k rs) \<Longrightarrow> \<forall>t'\<in>set (times_of k rs). t \<le> t' \<Longrightarrow> used l k t \<le> cap l \<Longrightarrow>
   used l k t + grants rs (gate_run allow l rs) k t \<le> cap l"
proof (induction rs arbitrary: l)
  case (Cons r rs)
  obtain k1 t1 where r: "r = (k1, t1)" by (cases r)
  obtain l' b where a: "allow l k1 t1 = (l', b)" by (cases "allow l k1 t1")
  have c: "cap l' = cap l" using allow_cap [OF a] .
  consider (other) "k1 \<noteq> k" | (later) "k1 = k" "t < t1" | (now) "k1 = k" "t1 = t"
    using Cons.prems(3) r by fastforce
  then show ?case
  proof cases
    case other
    then show ?thesis using Cons.IH [of l'] Cons.prems r a c allow_other [OF a, of k t] by auto
  next
    case later
    then have "(k, t) \<notin> set rs" using Cons.prems(2) r by force
    then show ?thesis using later Cons.prems r a by (auto simp: grants_none)
  next
    case now
    have IH: "used l' k t \<le> cap l \<Longrightarrow> used l' k t + grants rs (gate_run allow l' rs) k t \<le> cap l"
      using Cons.IH [of l'] Cons.prems r c now by auto
    show ?thesis
    proof (cases b)
      case True
      with allow_granted [of l k t l'] a now Cons.prems(1)
      have "used l' k t = Suc (used l k t)" "used l' k t \<le> cap l" by auto
      with IH show ?thesis using r a now True by simp
    next
      case False
      with allow_refused [of l k t l'] a now have "used l' k t = used l k t" by auto
      with IH Cons.prems(4) show ?thesis using r a now False by simp
    qed
  qed
qed simp

lemma used_le_cap:
  assumes "allow l k t = (l', b)" "0 < cap l" "\<And>k t. used l k t \<le> cap l"
  shows "used l' k' t' \<le> cap l"
proof (cases "k' = k")
  case True
  show ?thesis
  proof (cases "t' = t")
    case t: True
    show ?thesis
      using assms allow_granted [of l k t l'] allow_refused [of l k t l'] True t
      by (cases b) auto
  next
    case False
    then show ?thesis using allow_window [OF assms(1) False] assms(3) [of k t'] True by auto
  qed
next
  case False
  then show ?thesis using allow_other [OF assms(1) False] assms(3) [of k' t'] by auto
qed

lemma window_cap:
  "0 < cap l \<Longrightarrow> sorted (times_of k rs) \<Longrightarrow> (\<And>k t. used l k t \<le> cap l) \<Longrightarrow>
   grants rs (gate_run allow l rs) k t \<le> cap l"
proof (induction rs arbitrary: l)
  case (Cons r rs)
  obtain k1 t1 where r: "r = (k1, t1)" by (cases r)
  obtain l' b where a: "allow l k1 t1 = (l', b)" by (cases "allow l k1 t1")
  have c: "cap l' = cap l" using allow_cap [OF a] .
  have u: "used l' k' t' \<le> cap l'" for k' t'
    using used_le_cap [OF a Cons.prems(1) Cons.prems(3)] c by simp
  show ?case
  proof (cases "r = (k, t)")
    case True
    then have "\<forall>t'\<in>set (times_of k (r # rs)). t \<le> t'" using Cons.prems(2) by auto
    from window_grants [OF Cons.prems(1,2) this Cons.prems(3)] show ?thesis by simp
  next
    case False
    have "grants rs (gate_run allow l' rs) k t \<le> cap l'"
      using Cons.prems(1,2) c r by (intro Cons.IH u) (auto split: if_splits)
    then show ?thesis using False r a c by auto
  qed
qed simp

end

lemma rl_allow_update:
  "map_of (AList.update ip v w) ip' = (if ip' = ip then Some v else map_of w ip')"
  by (simp add: update_conv')

lemma unat_Suc_below: "\<not> unat (m :: u32) \<le> unat (a :: u32) \<Longrightarrow> unat (a + 1) = Suc (unat a)"
proof -
  assume "\<not> unat m \<le> unat a"
  moreover have "unat m < 4294967296"
    by (rule order_less_le_trans [OF unsigned_less]) simp
  ultimately show ?thesis by (simp add: unat_word_ariths)
qed

interpretation rl: rate_gate rl_allow rl_used "\<lambda>l. unat (rl_max l)"
proof (unfold_locales, goal_cases)
  case (1 l k t l' b)
  then show ?case by (auto simp: rl_allow_def Let_def split: if_splits option.splits)
next
  case (2 l k t l')
  then show ?case
    by (auto simp: rl_allow_def rl_used_def Let_def rl_allow_update word_le_nat_alt unat_Suc_below
      Suc_le_eq unat_gt_0 split: if_splits option.splits)
next
  case (3 l k t l')
  then show ?case
    by (auto simp: rl_allow_def rl_used_def Let_def rl_allow_update word_le_nat_alt unat_Suc_below
      Suc_le_eq unat_gt_0 split: if_splits option.splits)
next
  case (4 l k t l' b t')
  then show ?case
    by (auto simp: rl_allow_def rl_used_def Let_def rl_allow_update
      split: if_splits option.splits)
next
  case (5 l k t l' b k' t')
  then show ?case
    by (auto simp: rl_allow_def rl_used_def Let_def rl_allow_update
      split: if_splits option.splits)
qed

lemma rl_new_used [simp]: "rl_used (rl_new m) ip t = 0"
  by (simp add: rl_new_def rl_used_def)

lemma rl_allow_unlimited: "rl_max l = 0 \<Longrightarrow> rl_allow l ip t = (l, True)"
  by (simp add: rl_allow_def)

section \<open>ct_eq is equality\<close>

lemma xor_0_iff: "(x :: byte) XOR y = 0 \<longleftrightarrow> x = y"
  by (auto simp: bit_eq_iff bit_xor_iff)

lemma ct_fold_0: "length xs = length ys \<Longrightarrow> ct_fold d xs ys = 0 \<longleftrightarrow> d = 0 \<and> xs = ys"
  by (induction d xs ys rule: ct_fold.induct) (auto simp: or_eq_0_iff xor_0_iff)

lemma ct_eq_iff [simp]: "ct_eq a b \<longleftrightarrow> a = b"
  by (auto simp: ct_eq_def ct_fold_0)

section \<open>What the write gate admits\<close>

lemma enforce_write_policy_Ok:
  assumes "enforce_write_policy cfg ip dir fs n l now payload = (l', Inr u)"
  shows "rl_allow l ip now = (l', True)"
    "\<And>tok. sc_token cfg = Some tok \<Longrightarrow> str_or (get_str payload ''TOKEN'') [] = tok"
    "sc_max_store_bytes cfg \<noteq> 0 \<Longrightarrow> sat_add (store_bytes dir fs) (word_of_nat n) \<le> sc_max_store_bytes cfg"
  using assms
  by (auto simp: enforce_write_policy_def word_neq_0_conv not_less split: prod.splits if_splits option.splits)

lemma enforce_write_policy_limiter:
  "enforce_write_policy cfg ip dir fs n l now payload = (l', r) \<Longrightarrow> l' = fst (rl_allow l ip now)"
  by (auto simp: enforce_write_policy_def split: prod.splits if_splits)

end
