(* ===== verification/Interfaces.thy ===== *)
theory Interfaces
  imports Prelude
begin

text \<open>
  The interfaces between the components, as locales: a system with an invariant, a system
  that refines a specification event by event, a strict codec and a content-addressed store.
  Each is interpreted, in the theory of the component that provides it, on that component's
  own definitions.
\<close>

section \<open>Systems with an invariant\<close>

locale invariant_system =
  fixes step :: "'s \<Rightarrow> 's \<Rightarrow> bool"
    and ok :: "'s \<Rightarrow> bool"
  assumes step_ok: "step s s' \<Longrightarrow> ok s \<Longrightarrow> ok s'"
begin

lemma reach_ok: "step\<^sup>*\<^sup>* s s' \<Longrightarrow> ok s \<Longrightarrow> ok s'"
  by (induction rule: rtranclp_induct) (auto intro: step_ok)

end

section \<open>Refinement\<close>

text \<open>The runs of a system whose steps carry events.\<close>

inductive trace :: "('s \<Rightarrow> 'e \<Rightarrow> 's \<Rightarrow> bool) \<Rightarrow> 's \<Rightarrow> 'e list \<Rightarrow> 's \<Rightarrow> bool" for does s where
  none: "trace does s [] s"
| snoc: "trace does s evs s1 \<Longrightarrow> does s1 ev s2 \<Longrightarrow> trace does s (evs @ [ev]) s2"

inductive_simps trace_simps: "trace does s [] s'" "trace does s (evs @ [ev]) s'"

lemma trace_reach: "trace does s evs s' \<Longrightarrow> (\<lambda>s s'. \<exists>ev. does s ev s')\<^sup>*\<^sup>* s s'"
proof (induction rule: trace.induct)
  case (snoc evs s1 ev s2)
  then show ?case by (blast intro: rtranclp.rtrancl_into_rtrancl)
qed simp

text \<open>Steps from the front of a run.\<close>

lemma trace_Cons:
  assumes "does s ev s1"
  shows "trace does s1 evs s2 \<Longrightarrow> trace does s (ev # evs) s2"
proof (induction rule: trace.induct)
  case none
  have "trace does s ([] @ [ev]) s1" using trace.snoc [of does s "[]" s ev s1] trace.none assms by metis
  then show ?case by simp
next
  case (snoc evs t ev' t')
  from trace.snoc [OF snoc.IH snoc.hyps(2)] show ?case by simp
qed

lemma trace_trans: "trace does s2 evs' s3 \<Longrightarrow> trace does s1 evs s2 \<Longrightarrow> trace does s1 (evs @ evs') s3"
proof (induction rule: trace.induct)
  case (snoc evs' s3 ev s4)
  from trace.snoc [OF snoc.IH [OF snoc.prems] snoc.hyps(2)] show ?case by simp
qed simp

locale refinement =
  fixes does :: "'s \<Rightarrow> 'e \<Rightarrow> 's \<Rightarrow> bool"
    and ok :: "'s \<Rightarrow> bool"
    and spec :: "'a \<Rightarrow> 'e \<Rightarrow> 'a \<Rightarrow> bool"
    and abs :: "'s \<Rightarrow> 'a"
  assumes does_ok: "does s ev s' \<Longrightarrow> ok s \<Longrightarrow> ok s'"
    and does_spec: "does s ev s' \<Longrightarrow> ok s \<Longrightarrow> spec (abs s) ev (abs s')"

sublocale refinement \<subseteq> invariant_system "\<lambda>s s'. \<exists>ev. does s ev s'" ok
  by unfold_locales (auto intro: does_ok)

context refinement
begin

lemma trace_ok: "trace does s evs s' \<Longrightarrow> ok s \<Longrightarrow> ok s'"
  by (rule reach_ok [OF trace_reach])

lemma trace_spec: "trace does s evs s' \<Longrightarrow> ok s \<Longrightarrow> trace spec (abs s) evs (abs s')"
proof (induction rule: trace.induct)
  case (snoc evs s1 ev s2)
  then show ?case using does_spec [OF snoc.hyps(2)] trace_ok [OF snoc.hyps(1)] by (auto intro: trace.snoc)
qed (rule trace.none)

text \<open>What every trace of the specification keeps holds of the traces of the system.\<close>

lemma trace_keeps:
  assumes "trace does s evs s'" "ok s" "\<And>a b. trace spec a evs b \<Longrightarrow> P a evs b"
  shows "P (abs s) evs (abs s')"
  by (rule assms(3) [OF trace_spec [OF assms(1,2)]])

end

section \<open>Codecs\<close>

locale strict_codec =
  fixes enc :: "'a \<Rightarrow> 'b"
    and dec :: "'b \<Rightarrow> 'a option"
    and ok :: "'a \<Rightarrow> bool"
  assumes dec_enc: "ok a \<Longrightarrow> dec (enc a) = Some a"
    and dec_ok: "dec b = Some a \<Longrightarrow> ok a \<and> enc a = b"
begin

lemma dec_iff: "dec b = Some a \<longleftrightarrow> ok a \<and> b = enc a"
  using dec_enc dec_ok by blast

lemma enc_inj: "ok a \<Longrightarrow> ok a' \<Longrightarrow> enc a = enc a' \<longleftrightarrow> a = a'"
  by (metis dec_enc option.inject)

lemma dec_None: "dec b = None \<longleftrightarrow> (\<forall>a. ok a \<longrightarrow> b \<noteq> enc a)"
  by (cases "dec b") (auto simp: dec_iff dest: dec_enc)

end

section \<open>Content-addressed stores\<close>

text \<open>
  What the request handlers and the clients rely on: a stored body is named by its digest,
  what is stored stays stored, and what is stored is served with the digest in its name.
\<close>

fun put_all :: "('b \<Rightarrow> 's \<Rightarrow> 's \<times> ('e + 'n)) \<Rightarrow> 'b list \<Rightarrow> 's \<Rightarrow> 's \<times> ('e + 'n) list" where
  "put_all put [] s = (s, [])"
| "put_all put (b # bs) s = (case put b s of (s, r) \<Rightarrow> case put_all put bs s of (s, rs) \<Rightarrow> (s, r # rs))"

locale content_store =
  fixes ok :: "'s \<Rightarrow> bool"
    and stored :: "'n \<Rightarrow> 's \<Rightarrow> bool"
    and put :: "'b \<Rightarrow> 's \<Rightarrow> 's \<times> ('e + 'n)"
    and get :: "'n \<Rightarrow> 's \<Rightarrow> ('e + 'b) run"
    and digest :: "'b \<Rightarrow> 'd"
    and name_of :: "'d \<Rightarrow> 'n"
  assumes put_ok: "put b s = (s', r) \<Longrightarrow> ok s \<Longrightarrow> ok s'"
    and put_keeps: "put b s = (s', r) \<Longrightarrow> stored n s \<Longrightarrow> stored n s'"
    and put_stored: "put b s = (s', Inr n) \<Longrightarrow> ok s \<Longrightarrow> n = name_of (digest b) \<and> stored n s'"
    and stored_served: "ok s \<Longrightarrow> stored (name_of d) s \<Longrightarrow> \<exists>b. get (name_of d) s = Ret (Inr b) \<and> digest b = d"
begin

lemma put_all_ok: "put_all put bs s = (s', rs) \<Longrightarrow> ok s \<Longrightarrow> ok s' \<and> length rs = length bs"
  by (induction bs arbitrary: s rs) (auto split: prod.splits dest: put_ok)

lemma put_all_keeps: "put_all put bs s = (s', rs) \<Longrightarrow> stored n s \<Longrightarrow> stored n s'"
  by (induction bs arbitrary: s rs) (auto split: prod.splits dest: put_keeps)

lemma put_all_stored:
  "put_all put bs s = (s', rs) \<Longrightarrow> ok s \<Longrightarrow> i < length bs \<Longrightarrow> rs ! i = Inr n \<Longrightarrow>
   n = name_of (digest (bs ! i)) \<and> stored n s'"
proof (induction bs arbitrary: s rs i)
  case (Cons b bs)
  obtain s1 r where p: "put b s = (s1, r)" by (cases "put b s")
  obtain s2 rs1 where q: "put_all put bs s1 = (s2, rs1)" by (cases "put_all put bs s1")
  from Cons.prems(1) p q have e: "s2 = s'" "rs = r # rs1" by auto
  have ok1: "ok s1" by (rule put_ok [OF p Cons.prems(2)])
  show ?case
  proof (cases i)
    case 0
    then have "r = Inr n" using Cons.prems(4) e by simp
    with put_stored [of b s s1 n] p Cons.prems(2) put_all_keeps [OF q] e 0 show ?thesis by auto
  next
    case (Suc j)
    have "n = name_of (digest (bs ! j)) \<and> stored n s'"
      by (rule Cons.IH [OF q [unfolded e(1)] ok1]) (use Suc e(2) Cons.prems(3,4) in simp_all)
    then show ?thesis unfolding Suc by auto
  qed
qed simp

lemma put_all_served:
  assumes "put_all put bs s = (s', rs)" "ok s" "i < length bs" "rs ! i = Inr n"
  shows "n = name_of (digest (bs ! i)) \<and> (\<exists>b. get n s' = Ret (Inr b) \<and> digest b = digest (bs ! i))"
  using put_all_stored [OF assms] put_all_ok [OF assms(1,2)] stored_served by metis

end

end
