(* ===== verification/Envelope.thy ===== *)
theory Envelope
  imports Externals Interfaces
begin

text \<open>
  The derivations and the envelope codec of \<open>src/fabric.rs\<close>: HMAC-SHA256 and HKDF on top
  of the digest parameter, the lookup handle, the possession token, and the 115-byte
  envelope with its structural parser.
\<close>

section \<open>Constants\<close>

definition LABEL_HANDLE :: bytes where
  "LABEL_HANDLE = str_bytes ''spore/fabric/v1/handle''"

definition LABEL_REG :: bytes where
  "LABEL_REG = str_bytes ''spore/fabric/v1/reg''"

definition ENVELOPE_V1 :: byte where "ENVELOPE_V1 = 1"

definition POINTER_LEN :: nat where "POINTER_LEN = 74"

definition ENVELOPE_LEN :: nat where "ENVELOPE_LEN = 1 + 32 + POINTER_LEN + 8"

section \<open>HMAC and HKDF\<close>

text \<open>\<open>xs[..ys.len()].copy_from_slice(ys)\<close> into a zeroed array.\<close>

definition copy_into :: "bytes \<Rightarrow> bytes \<Rightarrow> bytes" where
  "copy_into xs ys = ys @ drop (length ys) xs"

definition hmac_sha256 :: "ext \<Rightarrow> bytes \<Rightarrow> bytes \<Rightarrow> bytes" where
  "hmac_sha256 X key data =
     (let k = copy_into (replicate 64 0) (if length key > 64 then sha256 X key else key);
          ipad = map2 (\<lambda>p x. p XOR x) (replicate 64 0x36) k;
          opad = map2 (\<lambda>p x. p XOR x) (replicate 64 0x5c) k;
          ih = sha256 X (ipad @ data)
      in sha256 X (opad @ ih))"

definition hkdf_prk :: "ext \<Rightarrow> bytes \<Rightarrow> bytes" where
  "hkdf_prk X ikm = hmac_sha256 X (replicate 32 0) ikm"

text \<open>
  The \<open>while okm.len() < n\<close> loop. It makes progress only because a digest is not empty, so
  it is a partial function: \<open>None\<close> is not returning. The counter is a wrapping byte.
\<close>

partial_function (option) hkdf_loop ::
  "ext \<Rightarrow> bytes \<Rightarrow> bytes \<Rightarrow> nat \<Rightarrow> bytes \<Rightarrow> bytes \<Rightarrow> byte \<Rightarrow> bytes option" where
  "hkdf_loop X prk info n okm t counter =
     (if length okm < n then
        (let msg = t @ info @ [counter];
             t' = hmac_sha256 X prk msg
         in hkdf_loop X prk info n (okm @ t') t' (counter + 1))
      else Some (take n okm))"

definition hkdf_expand :: "ext \<Rightarrow> bytes \<Rightarrow> bytes \<Rightarrow> nat \<Rightarrow> bytes option" where
  "hkdf_expand X prk info n = hkdf_loop X prk info n [] [] 1"

definition fabric_handle :: "ext \<Rightarrow> bytes \<Rightarrow> u32 \<Rightarrow> bytes \<Rightarrow> bytes option" where
  "fabric_handle X seed epoch sid =
     (let prk = hkdf_prk X seed;
          info = LABEL_HANDLE @ be_bytes 4 (unat epoch) @ sid
      in hkdf_expand X prk info 32)"

definition reg_token_hex :: "ext \<Rightarrow> bytes \<Rightarrow> bytes \<Rightarrow> string \<Rightarrow> string" where
  "reg_token_hex X seed handle server_nonce =
     hex_encode X (hmac_sha256 X seed (LABEL_REG @ handle @ str_bytes server_nonce))"

section \<open>Envelopes\<close>

record envelope =
  e_handle :: bytes
  e_pointer :: bytes
  e_received_at :: u64

definition marshal_envelope :: "envelope \<Rightarrow> bytes" where
  "marshal_envelope e =
     [ENVELOPE_V1] @ e_handle e @ e_pointer e @ le_bytes 8 (unat (e_received_at e))"

definition parse_envelope :: "bytes \<Rightarrow> string + envelope" where
  "parse_envelope b =
     (if length b \<noteq> ENVELOPE_LEN then
        Inl (''400 bad envelope length '' @ dec_digits (length b) @ '' != '' @ dec_digits ENVELOPE_LEN)
      else if b ! 0 \<noteq> ENVELOPE_V1 then
        Inl (''400 bad envelope version '' @ dec_digits (unat (b ! 0)))
      else
        let handle = take 32 (drop 1 b);
            pointer = take POINTER_LEN (drop 33 b) in
        if pointer ! 0 \<noteq> 1 \<or> pointer ! 1 \<noteq> 0 then Inl ''400 bad pointer payload header''
        else Inr \<lparr>e_handle = handle, e_pointer = pointer,
                  e_received_at = word_of_nat (le_nat (drop (33 + POINTER_LEN) b))\<rparr>)"

text \<open>\<open>u64::from_le_bytes(pointer[66..74])\<close>.\<close>

definition pointer_deadline :: "bytes \<Rightarrow> u64" where
  "pointer_deadline p = word_of_nat (le_nat (take 8 (drop 66 p)))"

section \<open>Derivation lemmas\<close>

lemma length_hmac: "sha_law X \<Longrightarrow> length (hmac_sha256 X k d) = 32"
  by (simp add: hmac_sha256_def Let_def sha_law_length)

lemma hkdf_loop_stop: "n \<le> length okm \<Longrightarrow> hkdf_loop X prk info n okm t c = Some (take n okm)"
  by (subst hkdf_loop.simps) simp

lemma hkdf_loop_step:
  "length okm < n \<Longrightarrow> hkdf_loop X prk info n okm t c =
     hkdf_loop X prk info n (okm @ hmac_sha256 X prk (t @ info @ [c]))
       (hmac_sha256 X prk (t @ info @ [c])) (c + 1)"
  by (subst hkdf_loop.simps) (simp add: Let_def)

lemma hkdf_loop_terminates:
  assumes "sha_law X"
  shows "\<exists>out. hkdf_loop X prk info n okm t c = Some out \<and> length out = n"
proof (induction "n - length okm" arbitrary: okm t c rule: less_induct)
  case less
  show ?case
  proof (cases "length okm < n")
    case True
    let ?t = "hmac_sha256 X prk (t @ info @ [c])"
    have "n - length (okm @ ?t) < n - length okm"
      using True length_hmac [OF assms, of prk "t @ info @ [c]"] by simp
    from less [OF this] show ?thesis by (simp only: hkdf_loop_step [OF True])
  qed (simp add: hkdf_loop_stop)
qed

lemma hkdf_expand_block:
  assumes "sha_law X" "0 < n" "n \<le> 32"
  shows "hkdf_expand X prk info n = Some (take n (hmac_sha256 X prk (info @ [1])))"
  using assms length_hmac [OF assms(1), of prk "info @ [1]"]
  by (simp add: hkdf_expand_def hkdf_loop_step hkdf_loop_stop)

section \<open>Envelope lemmas\<close>

definition env_wf :: "envelope \<Rightarrow> bool" where
  "env_wf e \<longleftrightarrow> length (e_handle e) = 32 \<and> length (e_pointer e) = POINTER_LEN \<and>
     e_pointer e ! 0 = 1 \<and> e_pointer e ! 1 = 0"

lemma unat_u64_less: "unat (w :: u64) < 2 ^ 64"
proof -
  have "unat w < 2 ^ LENGTH(64)" by (rule unsigned_less)
  then show ?thesis by simp
qed

lemma u64_le_roundtrip [codec]: "word_of_nat (le_nat (le_bytes 8 (unat (w :: u64)))) = w"
  using unat_u64_less [of w] by (simp add: le_nat_inverse)

lemma length_marshal: "env_wf e \<Longrightarrow> length (marshal_envelope e) = ENVELOPE_LEN"
  by (simp add: env_wf_def marshal_envelope_def ENVELOPE_LEN_def)

lemma parse_marshal [codec]: "env_wf e \<Longrightarrow> parse_envelope (marshal_envelope e) = Inr e"
  by (simp add: parse_envelope_def length_marshal Let_def)
    (simp add: env_wf_def marshal_envelope_def POINTER_LEN_def u64_le_roundtrip)

lemma parse_envelope_Inr:
  assumes "parse_envelope b = Inr e"
  shows "env_wf e \<and> marshal_envelope e = b"
proof -
  from assms have len: "length b = 115" and v: "b ! 0 = ENVELOPE_V1"
    and e: "e = \<lparr>e_handle = take 32 (drop 1 b), e_pointer = take 74 (drop 33 b),
        e_received_at = word_of_nat (le_nat (drop 107 b))\<rparr>"
    and h: "take 74 (drop 33 b) ! 0 = 1" "take 74 (drop 33 b) ! 1 = 0"
    by (auto simp: parse_envelope_def ENVELOPE_LEN_def POINTER_LEN_def Let_def split: if_splits)
  have l8: "length (drop 107 b) = 8" using len by simp
  have "le_nat (drop 107 b) < 2 ^ 64" using le_nat_less [of "drop 107 b"] l8 by simp
  then have tail: "le_bytes 8 (unat (word_of_nat (le_nat (drop 107 b)) :: u64)) = drop 107 b"
    using l8 by (simp add: unat_of_nat le_bytes_le_nat')
  have "b = [b ! 0] @ take 32 (drop 1 b) @ take 74 (drop 33 b) @ drop 107 b"
  proof -
    have "b = [b ! 0] @ drop 1 b" using len by (cases b) auto
    moreover have "drop 1 b = take 32 (drop 1 b) @ drop 33 b"
      using append_take_drop_id [of 32 "drop 1 b"] by simp
    moreover have "drop 33 b = take 74 (drop 33 b) @ drop 107 b"
      using append_take_drop_id [of 74 "drop 33 b"] by simp
    ultimately show ?thesis by argo
  qed
  then show ?thesis
    using len v h tail by (simp add: e env_wf_def marshal_envelope_def POINTER_LEN_def)
qed

text \<open>The envelope format is a strict codec.\<close>

interpretation envelopes: strict_codec marshal_envelope
    "\<lambda>b. case parse_envelope b of Inl _ \<Rightarrow> None | Inr e \<Rightarrow> Some e" env_wf
  by unfold_locales (auto simp: parse_marshal split: sum.splits dest: parse_envelope_Inr)

lemma parse_envelope_iff: "parse_envelope b = Inr e \<longleftrightarrow> env_wf e \<and> b = marshal_envelope e"
  using envelopes.dec_iff [of b e] by (cases "parse_envelope b") auto

lemmas marshal_inj = envelopes.enc_inj

end
