(* ===== verification/Fabric.thy ===== *)
theory Fabric
  imports Policy Envelope Framing "HOL-Library.Product_Lexorder"
begin

text \<open>
  The relay of \<open>src/fabric.rs\<close>: registrations, per-handle pointer queues with their
  envelope files, the verbs freg, fput and fpop, the rebuild from disk, and the two faces
  of the verbs (legacy JSON and rpc2/CBOR). A handler's clock is a function from the
  position of the \<open>now_sec()\<close> call in the handler to the reading there.
\<close>

section \<open>State\<close>

record fabric_config =
  fc_enabled :: bool
  fc_max_per_handle :: nat
  fc_max_lease_sec :: u64
  fc_fput_rate :: u32
  fc_max_regs :: nat
  fc_max_deadline_horizon_sec :: u64

definition fabric_config_default :: fabric_config where
  "fabric_config_default = \<lparr> fc_enabled = False, fc_max_per_handle = 32,
     fc_max_lease_sec = 7 * 24 * 3600, fc_fput_rate = 60, fc_max_regs = 50000,
     fc_max_deadline_horizon_sec = 7 * 24 * 3600 \<rparr>"

record registration =
  reg_token :: string
  reg_expires :: u64

record queued =
  q_pointer :: bytes
  q_env_cid_hex :: string
  q_deadline :: u64
  q_received_at :: u64

record fabric_state =
  fab_cfg :: fabric_config
  fab_fput_limiter :: rate_limiter
  fab_reg :: "(string \<times> registration) list"
  fab_queues :: "(string \<times> queued list) list"
  fab_last_sweep_sec :: u64

type_synonym clock = "nat \<Rightarrow> u64"

section \<open>Envelope files\<close>

definition fenv_path :: "path \<Rightarrow> string \<Rightarrow> path" where
  "fenv_path dir env_cid_hex = dir @ ''/'' @ env_cid_hex @ ''.fenv''"

definition fenv_tmp_path :: "path \<Rightarrow> string \<Rightarrow> path" where
  "fenv_tmp_path dir env_cid_hex = dir @ ''/'' @ env_cid_hex @ ''.tmp''"

definition persist_envelope :: "path \<Rightarrow> string \<Rightarrow> bytes \<Rightarrow> fsys \<Rightarrow> fsys \<times> (string + unit)" where
  "persist_envelope dir env_cid_hex raw fs =
     (let tmp = fenv_tmp_path dir env_cid_hex; fin = fenv_path dir env_cid_hex in
      case fs_write tmp raw fs of
        (fs1, Inl e) \<Rightarrow> (fs1, Inl (''500 envelope write: '' @ e))
      | (fs1, Inr _) \<Rightarrow>
          (case fs_rename tmp fin fs1 of
             (fs2, Inl e) \<Rightarrow> (fs2, Inl (''500 envelope rename: '' @ e))
           | (fs2, Inr _) \<Rightarrow> (fs2, Inr ())))"

definition drop_envelope :: "path \<Rightarrow> string \<Rightarrow> fsys \<Rightarrow> fsys" where
  "drop_envelope dir env_cid_hex fs = fs_remove (fenv_path dir env_cid_hex) fs"

section \<open>Rebuild from disk\<close>

definition queue_of :: "(string \<times> queued list) list \<Rightarrow> string \<Rightarrow> queued list" where
  "queue_of qs h = (case map_of qs h of None \<Rightarrow> [] | Some q \<Rightarrow> q)"

text \<open>One directory entry of the \<open>open\<close> loop; \<open>t1\<close>, \<open>t2\<close> are the two clock readings.\<close>

definition open_entry :: "ext \<Rightarrow> path \<Rightarrow> fabric_config \<Rightarrow> u64 \<Rightarrow> u64 \<Rightarrow> string \<Rightarrow>
    fsys \<times> (string \<times> queued list) list \<Rightarrow> fsys \<times> (string \<times> queued list) list" where
  "open_entry X dir cfg t1 t2 name st =
     (case st of (fs, queues) \<Rightarrow>
        let p = file_path dir name in
        if path_extension name \<noteq> Some ''fenv'' then (fs, queues)
        else
          (case fs_read p fs of
             Inl _ \<Rightarrow> (fs, queues)
           | Inr raw \<Rightarrow>
               (case parse_envelope raw of
                  Inl _ \<Rightarrow> (fs_remove p fs, queues)
                | Inr env \<Rightarrow>
                    let env_cid_hex = trim_end_matches ''.fenv'' (from_utf8_lossy (str_bytes name));
                        deadline = pointer_deadline (e_pointer env) in
                    if deadline \<le> t1 \<or> deadline > t2 + fc_max_deadline_horizon_sec cfg
                    then (fs_remove p fs, queues)
                    else
                      let h = hex_encode X (e_handle env) in
                      (fs, AList.update h
                         (queue_of queues h @
                            [\<lparr>q_pointer = e_pointer env, q_env_cid_hex = env_cid_hex,
                              q_deadline = deadline, q_received_at = e_received_at env\<rparr>]) queues))))"

fun open_loop :: "ext \<Rightarrow> path \<Rightarrow> fabric_config \<Rightarrow> clock \<Rightarrow> nat \<Rightarrow> string list \<Rightarrow>
    fsys \<times> (string \<times> queued list) list \<Rightarrow> fsys \<times> (string \<times> queued list) list" where
  "open_loop X dir cfg clk i [] st = st"
| "open_loop X dir cfg clk i (n # ns) st =
     open_loop X dir cfg clk (i + 2) ns (open_entry X dir cfg (clk i) (clk (i + 1)) n st)"

abbreviation q_key :: "queued \<Rightarrow> u64 \<times> string" where
  "q_key x \<equiv> (q_received_at x, q_env_cid_hex x)"

definition fabric_open :: "ext \<Rightarrow> path \<Rightarrow> fabric_config \<Rightarrow> clock \<Rightarrow> fsys \<Rightarrow> fsys \<times> fabric_state" where
  "fabric_open X dir cfg clk fs =
     (let (fs', queues) =
        (case fs_read_dir dir fs of None \<Rightarrow> (fs, [])
         | Some names \<Rightarrow> open_loop X dir cfg clk 0 names (fs, [])) in
      (fs', \<lparr> fab_cfg = cfg, fab_fput_limiter = rl_new (fc_fput_rate cfg), fab_reg = [],
              fab_queues = map (\<lambda>(h, q). (h, sort_key q_key q)) queues,
              fab_last_sweep_sec = 0 \<rparr>))"

section \<open>freg\<close>

definition run_freg :: "ext \<Rightarrow> fabric_state \<Rightarrow> json \<Rightarrow> clock \<Rightarrow> fabric_state \<times> (string + json)" where
  "run_freg X st req clk =
     (case get_str req ''handle'' of
        None \<Rightarrow> (st, Inl ''400 freg needs handle'')
      | Some h0 \<Rightarrow>
          if \<not> (case hex_crate_decode X h0 of Inr b \<Rightarrow> length b = 32 | Inl _ \<Rightarrow> False)
          then (st, Inl ''400 handle must be 32-byte hex'')
          else
            let h = to_lowercase (uni_lower X) h0 in
            (case get_str req ''token'' of
               None \<Rightarrow> (st, Inl ''400 freg needs token'')
             | Some token \<Rightarrow>
                 if \<not> (16 \<le> length token \<and> length token \<le> 128)
                 then (st, Inl ''400 token must be 16..=128 bytes'')
                 else
                   let now = clk 0;
                       lease = u64_or (get_u64 req ''lease'') 3600;
                       expires = now + min lease (fc_max_lease_sec (fab_cfg st));
                       st = (if now > fab_last_sweep_sec st
                             then st\<lparr>fab_reg := filter (\<lambda>(_, r). reg_expires r > now) (fab_reg st),
                                     fab_last_sweep_sec := now\<rparr>
                             else st);
                       reg = fab_reg st;
                       live = (case map_of reg h of Some cur \<Rightarrow> reg_expires cur > now | None \<Rightarrow> False);
                       cur_token = (case map_of reg h of Some cur \<Rightarrow> reg_token cur | None \<Rightarrow> []) in
                   if live \<and> \<not> ct_eq cur_token (str_or (get_str req ''prev_token'') [])
                   then (st, Inl ''403 live registration: prev_token required'')
                   else if \<not> live \<and> length reg \<ge> fc_max_regs (fab_cfg st)
                   then (st, Inl ''503 fabric registry full'')
                   else
                     (st\<lparr>fab_reg := AList.update h \<lparr>reg_token = token, reg_expires = expires\<rparr> reg\<rparr>,
                      Inr (Object [(''expires'', Number (PosInt expires)), (''token'', String token)]))))"

section \<open>fput\<close>

text \<open>
  The dedupe branch: the first entry with the same pointer is refreshed in place; the
  second component is the superseded file, when its name changed.
\<close>

fun refresh_first :: "bytes \<Rightarrow> u64 \<Rightarrow> string \<Rightarrow> queued list \<Rightarrow> (queued list \<times> string option) option" where
  "refresh_first ptr dl cid [] = None"
| "refresh_first ptr dl cid (x # q) =
     (if q_pointer x = ptr then
        Some (x\<lparr>q_deadline := dl, q_env_cid_hex := cid\<rparr> # q,
              if q_env_cid_hex x \<noteq> cid then Some (q_env_cid_hex x) else None)
      else map_option (\<lambda>(q', old). (x # q', old)) (refresh_first ptr dl cid q))"

text \<open>\<open>while q.len() > max_per_handle\<close>: drop the oldest, with its file.\<close>

fun evict :: "path \<Rightarrow> nat \<Rightarrow> queued list \<Rightarrow> fsys \<Rightarrow> queued list \<times> fsys" where
  "evict dir mx [] fs = ([], fs)"
| "evict dir mx (x # q) fs =
     (if length (x # q) > mx then evict dir mx q (drop_envelope dir (q_env_cid_hex x) fs)
      else (x # q, fs))"

text \<open>The \<open>retain\<close> at the end of fput: entries past their deadline go, with their files.\<close>

fun compost :: "path \<Rightarrow> u64 \<Rightarrow> queued list \<Rightarrow> fsys \<Rightarrow> queued list \<times> fsys" where
  "compost dir now [] fs = ([], fs)"
| "compost dir now (x # q) fs =
     (if q_deadline x \<le> now then compost dir now q (drop_envelope dir (q_env_cid_hex x) fs)
      else (case compost dir now q fs of (q', fs') \<Rightarrow> (x # q', fs')))"

text \<open>The critical section of fput under the queue lock.\<close>

definition fput_enqueue :: "path \<Rightarrow> nat \<Rightarrow> bytes \<Rightarrow> string \<Rightarrow> u64 \<Rightarrow> u64 \<Rightarrow> queued list \<Rightarrow> fsys \<Rightarrow> queued list \<times> fsys" where
  "fput_enqueue dir mx ptr cid dl received q fs =
     (case refresh_first ptr dl cid q of
        Some (q', Some old) \<Rightarrow> (q', drop_envelope dir old fs)
      | Some (q', None) \<Rightarrow> (q', fs)
      | None \<Rightarrow>
          evict dir mx (q @ [\<lparr>q_pointer = ptr, q_env_cid_hex = cid, q_deadline = dl,
                              q_received_at = received\<rparr>]) fs)"

definition run_fput :: "ext \<Rightarrow> fabric_state \<Rightarrow> json \<Rightarrow> path \<Rightarrow> string \<Rightarrow> clock \<Rightarrow> fsys \<Rightarrow>
    fabric_state \<times> fsys \<times> (string + json) run" where
  "run_fput X st req dir ip clk fs =
     (case get_str req ''handle'' of
        None \<Rightarrow> (st, fs, Ret (Inl ''400 fput needs handle''))
      | Some h0 \<Rightarrow>
          if length h0 \<noteq> 64 then (st, fs, Ret (Inl ''400 handle must be 32-byte hex''))
          else
            let h = to_lowercase (uni_lower X) h0 in
            (case map_of (fab_reg st) h of
               None \<Rightarrow> (st, fs, Ret (Inl ''404 unknown handle''))
             | Some r \<Rightarrow>
                 if reg_expires r \<le> clk 0 then (st, fs, Ret (Inl ''404 handle lease expired''))
                 else
                   (case rl_allow (fab_fput_limiter st) ip (clk 1) of (lim, allowed) \<Rightarrow>
                    let st = st\<lparr>fab_fput_limiter := lim\<rparr> in
                    if \<not> allowed then (st, fs, Ret (Inl ''429 fput rate''))
                    else
                      (case get_str req ''pointer_hex'' of
                         None \<Rightarrow> (st, fs, Ret (Inl ''400 fput needs pointer_hex''))
                       | Some ptr_hex \<Rightarrow>
                           if length ptr_hex \<noteq> 2 * POINTER_LEN
                           then (st, fs, Ret (Inl ''400 pointer must be 74-byte hex''))
                           else
                             (case hex_crate_decode X ptr_hex of
                                Inl _ \<Rightarrow> (st, fs, Ret (Inl ''400 pointer must be 74-byte hex''))
                              | Inr pointer \<Rightarrow>
                                  if length pointer \<noteq> POINTER_LEN
                                  then (st, fs, Ret (Inl ''400 pointer must be 74-byte hex''))
                                  else if pointer ! 0 \<noteq> 1 \<or> pointer ! 1 \<noteq> 0
                                  then (st, fs, Ret (Inl ''400 bad pointer payload header''))
                                  else
                                    let deadline = pointer_deadline pointer in
                                    if deadline = 0
                                    then (st, fs, Ret (Inl ''400 zero pointer deadline''))
                                    else
                                      let now = clk 2 in
                                      if deadline \<le> now then (st, fs, Ret (Inl ''410 gone''))
                                      else if deadline > now + fc_max_deadline_horizon_sec (fab_cfg st)
                                      then (st, fs, Ret (Inl ''400 deadline beyond horizon cap''))
                                      else
                                        (case hex_crate_decode X h of
                                           Inl _ \<Rightarrow> (st, fs, Panic)
                                         | Inr hb \<Rightarrow>
                                             if length hb \<noteq> 32 then (st, fs, Panic)
                                             else
                                               let env = \<lparr>e_handle = hb, e_pointer = pointer,
                                                          e_received_at = clk 3\<rparr>;
                                                   raw = marshal_envelope env;
                                                   env_cid_hex = hex_encode X (sha256 X raw) in
                                               (case persist_envelope dir env_cid_hex raw fs of
                                                  (fs1, Inl e) \<Rightarrow> (st, fs1, Ret (Inl e))
                                                | (fs1, Inr _) \<Rightarrow>
                                                    (case fput_enqueue dir (fc_max_per_handle (fab_cfg st))
                                                        pointer env_cid_hex deadline (e_received_at env)
                                                        (queue_of (fab_queues st) h) fs1 of
                                                      (q1, fs2) \<Rightarrow>
                                                        (case compost dir (clk 4) q1 fs2 of
                                                          (q2, fs3) \<Rightarrow>
                                                            (st\<lparr>fab_queues := AList.update h q2 (fab_queues st)\<rparr>,
                                                             fs3,
                                                             Ret (Inr (Object [(''queued'', Bool True)]))))))))))))"

section \<open>fpop\<close>

text \<open>The drain loop: oldest first, every taken entry loses its file, burned ones are skipped.\<close>

fun drain :: "ext \<Rightarrow> path \<Rightarrow> u64 \<Rightarrow> nat \<Rightarrow> queued list \<Rightarrow> fsys \<Rightarrow> string list \<Rightarrow>
    queued list \<times> fsys \<times> string list" where
  "drain X dir now mx [] fs out = ([], fs, out)"
| "drain X dir now mx (x # q) fs out =
     (if length out < mx then
        drain X dir now mx q (drop_envelope dir (q_env_cid_hex x) fs)
          (if q_deadline x > now then out @ [hex_encode X (q_pointer x)] else out)
      else (x # q, fs, out))"

definition run_fpop :: "ext \<Rightarrow> fabric_state \<Rightarrow> json \<Rightarrow> path \<Rightarrow> string \<Rightarrow> clock \<Rightarrow> fsys \<Rightarrow>
    fabric_state \<times> fsys \<times> (string + json)" where
  "run_fpop X st req dir ip clk fs =
     (case get_str req ''handle'' of
        None \<Rightarrow> (st, fs, Inl ''400 fpop needs handle'')
      | Some h0 \<Rightarrow>
          if length h0 \<noteq> 64 then (st, fs, Inl ''400 handle must be 32-byte hex'')
          else
            let h = to_lowercase (uni_lower X) h0;
                token = str_or (get_str req ''token'') [];
                mx = unat (min (u64_or (get_u64 req ''max'') 8) 64) in
            (case rl_allow (fab_fput_limiter st) ip (clk 0) of (lim, allowed) \<Rightarrow>
             let st = st\<lparr>fab_fput_limiter := lim\<rparr> in
             if \<not> allowed then (st, fs, Inl ''429 fpop rate'')
             else
               (case map_of (fab_reg st) h of
                  None \<Rightarrow> (st, fs, Inl ''404 unknown handle'')
                | Some r \<Rightarrow>
                    if reg_expires r \<le> clk 1 \<or> \<not> ct_eq (reg_token r) token
                    then (st, fs, Inl ''403 wrong token'')
                    else
                      (case map_of (fab_queues st) h of
                         None \<Rightarrow> (st, fs, Inr (Object [(''pointers'', Array [])]))
                       | Some q \<Rightarrow>
                           (case drain X dir (clk 2) mx q fs [] of (q', fs', out) \<Rightarrow>
                             (st\<lparr>fab_queues := AList.update h q' (fab_queues st)\<rparr>, fs',
                              Inr (Object [(''pointers'', Array (map String out))])))))))"

section \<open>The two faces\<close>

fun json_to_cbor :: "json \<Rightarrow> bytes" where
  "json_to_cbor (Object m) = cbor_map (length m) @ concat (map (\<lambda>(k, item). cbor_kv k (json_to_cbor item)) m)"
| "json_to_cbor (Array a) = cbor_array (length a) @ concat (map json_to_cbor a)"
| "json_to_cbor (String t) = cbor_text t"
| "json_to_cbor (Number n) = cbor_uint (u64_or (as_u64 (Number n)) 0)"
| "json_to_cbor (Bool b) = (if b then cbor_head 7 20 else cbor_head 7 19)"
| "json_to_cbor Null = cbor_head 7 22"

definition reply :: "ext \<Rightarrow> 'p stream \<Rightarrow> (string + json) \<Rightarrow> 'p stream" where
  "reply X s r =
     fst (write_frame s (case r of Inr body \<Rightarrow> frame_ok (str_bytes (json_to_string X body))
                         | Inl e \<Rightarrow> frame_err e))"

text \<open>The relay part of a server's shared state, and the disk.\<close>

definition handle_verb :: "ext \<Rightarrow> 'p stream \<Rightarrow> json \<Rightarrow> path \<Rightarrow> fabric_state option \<Rightarrow> string \<Rightarrow> clock \<Rightarrow> fsys \<Rightarrow>
    'p stream \<times> fabric_state option \<times> fsys \<times> unit run" where
  "handle_verb X s req dir fab ip clk fs =
     (case fab of
        None \<Rightarrow> (fst (write_frame s (frame_err ''501 fabric disabled'')), fab, fs, Ret ())
      | Some st \<Rightarrow>
          let verb = get_str req ''verb'' in
          if verb = Some ''freg'' then
            (case run_freg X st req clk of (st', r) \<Rightarrow> (reply X s r, Some st', fs, Ret ()))
          else if verb = Some ''fput'' then
            (case run_fput X st req dir ip clk fs of
               (st', fs', Panic) \<Rightarrow> (s, Some st', fs', Panic)
             | (st', fs', Ret r) \<Rightarrow> (reply X s r, Some st', fs', Ret ()))
          else if verb = Some ''fpop'' then
            (case run_fpop X st req dir ip clk fs of (st', fs', r) \<Rightarrow>
              (reply X s r, Some st', fs', Ret ()))
          else (fst (write_frame s (frame_err ''400 bad fabric verb'')), fab, fs, Ret ()))"

definition rpc2_answer :: "rpc2_message \<Rightarrow> (string + json) \<Rightarrow> bytes" where
  "rpc2_answer msg r =
     (case r of Inr body \<Rightarrow> cbor_message [] (rm_seq msg) [] (json_to_cbor body)
      | Inl e \<Rightarrow> error_response (rm_seq msg) e)"

definition handle_rpc2_fabric :: "ext \<Rightarrow> 'p stream \<Rightarrow> rpc2_message \<Rightarrow> path \<Rightarrow> fabric_state option \<Rightarrow> string \<Rightarrow>
    clock \<Rightarrow> fsys \<Rightarrow> 'p stream \<times> fabric_state option \<times> fsys \<times> unit run" where
  "handle_rpc2_fabric X s msg dir fab ip clk fs =
     (case fab of
        None \<Rightarrow> (fst (write_frame s (error_response (rm_seq msg) ''501 fabric disabled'')), fab, fs, Ret ())
      | Some st \<Rightarrow>
          let m = rm_method msg; req = rm_payload msg in
          if m = ''Peer.FabricReg'' then
            (case run_freg X st req clk of (st', r) \<Rightarrow>
              (fst (write_frame s (rpc2_answer msg r)), Some st', fs, Ret ()))
          else if m = ''Peer.FabricPut'' then
            (case run_fput X st req dir ip clk fs of
               (st', fs', Panic) \<Rightarrow> (s, Some st', fs', Panic)
             | (st', fs', Ret r) \<Rightarrow> (fst (write_frame s (rpc2_answer msg r)), Some st', fs', Ret ()))
          else if m = ''Peer.FabricPop'' then
            (case run_fpop X st req dir ip clk fs of (st', fs', r) \<Rightarrow>
              (fst (write_frame s (rpc2_answer msg r)), Some st', fs', Ret ()))
          else
            (fst (write_frame s (error_response (rm_seq msg) (''400 bad fabric rpc2 method '' @ m))),
             fab, fs, Ret ()))"

end
