(* ===== verification/Fabric_Registry.thy ===== *)
theory Fabric_Registry
  imports Fabric
begin

text \<open>
  The registry of the relay: what \<open>run_freg\<close> does to registrations. A live registration
  is only replaced with its own token, other live registrations are never displaced, and
  the registry stays within its budget. \<open>reg_wf\<close> is the shape every verb keeps; with the
  documented hex decoder it rules out the panicking branches of \<open>run_fput\<close>.
\<close>

section \<open>Live registrations\<close>

definition live_reg :: "fabric_state \<Rightarrow> string \<Rightarrow> u64 \<Rightarrow> registration option" where
  "live_reg st h now =
     (case map_of (fab_reg st) h of Some r \<Rightarrow> (if reg_expires r > now then Some r else None)
      | None \<Rightarrow> None)"

definition reg_key_ok :: "ext \<Rightarrow> string \<Rightarrow> bool" where
  "reg_key_ok X k \<longleftrightarrow> (case hex_crate_decode X k of Inr b \<Rightarrow> length b = 32 | Inl _ \<Rightarrow> False)"

definition handle_canon :: "ext \<Rightarrow> string \<Rightarrow> bool" where
  "handle_canon X k \<longleftrightarrow>
     (case hex_crate_decode X k of Inr b \<Rightarrow> length b = 32 \<and> hex_encode X b = k | Inl _ \<Rightarrow> False)"

definition reg_wf :: "ext \<Rightarrow> fabric_state \<Rightarrow> bool" where
  "reg_wf X st \<longleftrightarrow> distinct (map fst (fab_reg st)) \<and> length (fab_reg st) \<le> fc_max_regs (fab_cfg st) \<and>
     list_all (\<lambda>(k, r). handle_canon X k) (fab_reg st)"

section \<open>Lower-casing a valid handle\<close>

lemma to_digit_lower: "to_digit 16 c = Some d \<Longrightarrow> to_digit 16 (lower_char c) = Some d"
  by (auto simp: to_digit_def lower_char_def Let_def of_char_of split: if_splits)

lemma unhexs_lower: "unhexs s = Some b \<Longrightarrow> unhexs (map lower_char s) = Some b"
proof (induction s arbitrary: b rule: unhexs.induct)
  case (3 c d s)
  from "3.prems" obtain h l bs where *: "to_digit 16 c = Some h" "to_digit 16 d = Some l"
    "unhexs s = Some bs" "b = word_of_nat (16 * h + l) # bs"
    by (auto split: option.splits)
  then show ?case using "3.IH" [OF *(3)] by (simp add: to_digit_lower)
qed auto

lemma unhexs_ascii: "unhexs s = Some b \<Longrightarrow> ascii_str s"
proof (induction s arbitrary: b rule: unhexs.induct)
  case (3 c d s)
  then show ?case
    by (auto simp: ascii_str_def list_all_iff intro!: byte_of_ascii dest!: to_digit_char_bounds
        split: option.splits)
qed (auto simp: ascii_str_def)

lemma to_lowercase_hex: 
  assumes "unhexs s = Some b" shows "to_lowercase u s = map lower_char s" "unhexs (to_lowercase u s) = Some b"
proof -
  show *: "to_lowercase u s = map lower_char s"
    using unhexs_ascii [OF assms] by (simp add: to_lowercase_def)
  show "unhexs (to_lowercase u s) = Some b" using assms by (simp add: * unhexs_lower)
qed

lemma reg_key_ok_hex: "hex_law X \<Longrightarrow> reg_key_ok X k \<longleftrightarrow> (\<exists>b. unhexs k = Some b \<and> length b = 32)"
  by (auto simp: reg_key_ok_def hex_law_decode split: sum.splits)
    (metis hex_law_decode sum.exhaust old.sum.distinct)

lemma hexdig_to_digit: "to_digit 16 c = Some d \<Longrightarrow> hexdig d = lower_char c"
  by (auto simp: to_digit_def lower_char_def hexdig_def Let_def split: if_splits)

lemma hexs_unhexs: "unhexs s = Some b \<Longrightarrow> hexs b = map lower_char s"
proof (induction s arbitrary: b rule: unhexs.induct)
  case (3 c d s)
  from "3.prems" obtain h l bs where *: "to_digit 16 c = Some h" "to_digit 16 d = Some l"
    "unhexs s = Some bs" "b = word_of_nat (16 * h + l) # bs"
    by (auto split: option.splits)
  have hl: "h < 16" "l < 16" using to_digit_less [OF *(1)] to_digit_less [OF *(2)] by simp_all
  then have "unat (word_of_nat (16 * h + l) :: byte) = 16 * h + l"
    by (intro unat_word_of_nat_byte) simp
  then show ?case using hl "3.IH" [OF *(3)] by (simp add: *(4) hexdig_to_digit [OF *(1)] hexdig_to_digit [OF *(2)])
qed auto

lemma handle_canon_hex: "hex_law X \<Longrightarrow> handle_canon X k \<longleftrightarrow> (\<exists>b. k = hexs b \<and> length b = 32)"
  by (auto simp: handle_canon_def hex_law_decode hex_law_encode unhexs_hexs split: sum.splits)
    (metis hex_law_decode unhexs_hexs sum.exhaust old.sum.distinct(1))+

lemma handle_canon_lower: "hex_law X \<Longrightarrow> reg_key_ok X k \<Longrightarrow> handle_canon X (to_lowercase u k)"
  unfolding reg_key_ok_hex handle_canon_hex using to_lowercase_hex(1) hexs_unhexs by metis

section \<open>The steps of freg\<close>

text \<open>The expiry sweep, and the registry it leaves.\<close>

definition sweep :: "u64 \<Rightarrow> fabric_state \<Rightarrow> fabric_state" where
  "sweep now st =
     (if now > fab_last_sweep_sec st
      then st\<lparr>fab_reg := filter (\<lambda>(_, r). reg_expires r > now) (fab_reg st), fab_last_sweep_sec := now\<rparr>
      else st)"

lemma map_of_filter_distinct:
  "distinct (map fst m) \<Longrightarrow>
   map_of (filter (\<lambda>(k, v). P v) m) k = (case map_of m k of Some v \<Rightarrow> (if P v then Some v else None) | None \<Rightarrow> None)"
proof (induction m)
  case (Cons e m)
  obtain a b where e: "e = (a, b)" by (cases e)
  have "map_of m a = None" using Cons.prems by (simp add: e map_of_eq_None_iff)
  then show ?case using Cons by (auto simp: e)
qed simp

lemma sweep_keeps [simp]:
  "fab_cfg (sweep now st) = fab_cfg st" "fab_queues (sweep now st) = fab_queues st"
  "fab_fput_limiter (sweep now st) = fab_fput_limiter st"
  by (simp_all add: sweep_def)

lemma sweep_live [simp]:
  "distinct (map fst (fab_reg st)) \<Longrightarrow> live_reg (sweep now st) h now = live_reg st h now"
  by (auto simp: sweep_def live_reg_def map_of_filter_distinct split: option.splits)

lemma sweep_wf: "reg_wf X st \<Longrightarrow> reg_wf X (sweep now st)"
  by (auto simp: reg_wf_def sweep_def distinct_map_filter list_all_iff
      intro: order_trans [OF length_filter_le])

text \<open>Every run of freg leaves the state alone, sweeps, or sweeps and registers.\<close>

lemma run_freg_cases:
  assumes "run_freg X st req clk = (st', r)"
  obtains (bad) e where "st' = st" "r = Inl e"
  | (refused) e h0 where "st' = sweep (clk 0) st" "r = Inl e" "get_str req ''handle'' = Some h0"
  | (registered) h0 token h rg where "get_str req ''handle'' = Some h0" "reg_key_ok X h0"
      "h = to_lowercase (uni_lower X) h0" "get_str req ''token'' = Some token"
      "16 \<le> length token" "length token \<le> 128"
      "rg = \<lparr>reg_token = token,
             reg_expires = clk 0 + min (u64_or (get_u64 req ''lease'') 3600) (fc_max_lease_sec (fab_cfg st))\<rparr>"
      "st' = (sweep (clk 0) st)\<lparr>fab_reg := AList.update h rg (fab_reg (sweep (clk 0) st))\<rparr>"
      "r = Inr (Object [(''expires'', Number (PosInt (reg_expires rg))), (''token'', String token)])"
      "\<And>cur. live_reg (sweep (clk 0) st) h (clk 0) = Some cur \<Longrightarrow>
         reg_token cur = str_or (get_str req ''prev_token'') []"
      "live_reg (sweep (clk 0) st) h (clk 0) = None \<Longrightarrow>
         length (fab_reg (sweep (clk 0) st)) < fc_max_regs (fab_cfg st)"
proof (cases "get_str req ''handle''")
  case None
  then show thesis using assms by (intro bad) (auto simp: run_freg_def)
next
  case h0: (Some h0)
  show thesis
  proof (cases "reg_key_ok X h0")
    case False
    then show thesis using assms h0 by (intro bad) (auto simp: run_freg_def reg_key_ok_def)
  next
    case k: True
    then have k': "\<not> \<not> (case hex_crate_decode X h0 of Inr b \<Rightarrow> length b = 32 | Inl _ \<Rightarrow> False)"
      by (simp add: reg_key_ok_def)
    show thesis
    proof (cases "get_str req ''token''")
      case None
      then show thesis using assms h0 k' by (intro bad) (auto simp: run_freg_def)
    next
      case tk: (Some token)
      show thesis
      proof (cases "16 \<le> length token \<and> length token \<le> 128")
        case False
        then show thesis using assms h0 k' tk by (intro bad) (auto simp: run_freg_def)
      next
        case len: True
        let ?st = "sweep (clk 0) st" and ?h = "to_lowercase (uni_lower X) h0"
        let ?live = "live_reg ?st ?h (clk 0)"
        let ?exp = "clk 0 + min (u64_or (get_u64 req ''lease'') 3600) (fc_max_lease_sec (fab_cfg st))"
        have E: "run_freg X st req clk =
          (if ?live \<noteq> None \<and> reg_token (the ?live) \<noteq> str_or (get_str req ''prev_token'') []
           then (?st, Inl ''403 live registration: prev_token required'')
           else if ?live = None \<and> length (fab_reg ?st) \<ge> fc_max_regs (fab_cfg st)
           then (?st, Inl ''503 fabric registry full'')
           else (?st\<lparr>fab_reg := AList.update ?h \<lparr>reg_token = token, reg_expires = ?exp\<rparr> (fab_reg ?st)\<rparr>,
             Inr (Object [(''expires'', Number (PosInt ?exp)), (''token'', String token)])))"
          using h0 k' tk len
          by (simp add: run_freg_def Let_def live_reg_def flip: sweep_def split: option.split)
        consider (tok) "?live \<noteq> None \<and> reg_token (the ?live) \<noteq> str_or (get_str req ''prev_token'') []"
          | (full) "?live = None" "length (fab_reg ?st) \<ge> fc_max_regs (fab_cfg st)"
          | (ok) "?live \<noteq> None \<Longrightarrow> reg_token (the ?live) = str_or (get_str req ''prev_token'') []"
              "?live = None \<Longrightarrow> length (fab_reg ?st) < fc_max_regs (fab_cfg st)"
          by fastforce
        then show thesis
        proof cases
          case tok
          with assms E have "st' = ?st" "r = Inl ''403 live registration: prev_token required''" by simp_all
          then show thesis using h0 by (rule refused)
        next
          case full
          with assms E have "st' = ?st" "r = Inl ''503 fabric registry full''" by simp_all
          then show thesis using h0 by (rule refused)
        next
          case ok
          with assms E have "st' = ?st\<lparr>fab_reg := AList.update ?h \<lparr>reg_token = token, reg_expires = ?exp\<rparr> (fab_reg ?st)\<rparr>"
            "r = Inr (Object [(''expires'', Number (PosInt ?exp)), (''token'', String token)])"
            by (cases ?live; simp)+
          then show thesis
            by (intro registered [OF h0 k refl tk]) (use len ok in auto)
        qed
      qed
    qed
  qed
qed

section \<open>What freg preserves\<close>

lemma run_freg_keeps [keeps]:
  assumes "run_freg X st req clk = (st', r)"
  shows "fab_cfg st' = fab_cfg st" "fab_queues st' = fab_queues st"
    "fab_fput_limiter st' = fab_fput_limiter st"
  using assms by (cases rule: run_freg_cases; simp)+

lemma live_reg_mem: "live_reg st h now = Some r \<Longrightarrow> map_of (fab_reg st) h = Some r"
  by (auto simp: live_reg_def split: option.splits if_splits)

lemma length_update: "length (AList.update k v m) = (if k \<in> fst ` set m then length m else Suc (length m))"
  by (induction m) auto

lemma run_freg_wf:
  assumes law: "hex_law X" and run: "run_freg X st req clk = (st', r)" and wf: "reg_wf X st"
  shows "reg_wf X st'"
  using run
proof (cases rule: run_freg_cases)
  case (registered h0 token h rg)
  let ?st = "sweep (clk 0) st"
  have w: "reg_wf X ?st" using wf by (rule sweep_wf)
  have "length (AList.update h rg (fab_reg ?st)) \<le> fc_max_regs (fab_cfg st)"
  proof (cases "live_reg ?st h (clk 0)")
    case None
    then show ?thesis using registered(11) by (simp add: length_update)
  next
    case (Some cur)
    then have "h \<in> fst ` set (fab_reg ?st)" by (force dest: live_reg_mem map_of_SomeD)
    then show ?thesis using w by (simp add: length_update reg_wf_def)
  qed
  moreover have "handle_canon X h" using handle_canon_lower [OF law registered(2)] registered(3) by simp
  moreover have "list_all (\<lambda>(k, r). P k) (AList.update h rg m) \<longleftrightarrow> P h \<and> list_all (\<lambda>(k, r). P k) m" for P m
    by (induction m) auto
  ultimately show ?thesis using w
    by (simp add: registered(8) reg_wf_def distinct_update)
qed (use wf sweep_wf in simp_all)

lemma live_reg_update:
  "live_reg (st\<lparr>fab_reg := AList.update h rg (fab_reg st)\<rparr>) k now =
     (if k = h then (if reg_expires rg > now then Some rg else None) else live_reg st k now)"
  by (simp add: live_reg_def update_conv')

lemma run_freg_live:
  assumes "reg_wf X st" "run_freg X st req clk = (st', r)" "live_reg st h (clk 0) = Some cur"
  shows "live_reg st' h (clk 0) = Some cur \<or>
    (\<exists>h0. get_str req ''handle'' = Some h0 \<and> h = to_lowercase (uni_lower X) h0 \<and>
       str_or (get_str req ''prev_token'') [] = reg_token cur)"
proof -
  have sl: "live_reg (sweep (clk 0) st) k (clk 0) = live_reg st k (clk 0)" for k
    using assms(1) by (simp add: reg_wf_def)
  from assms(2) show ?thesis
  proof (cases rule: run_freg_cases)
    case (registered h0 token k rg)
    then show ?thesis using assms(3)
      by (cases "h = k") (auto simp: live_reg_update sl)
  qed (use assms(3) sl in simp_all)
qed

lemma run_freg_Ok:
  assumes "run_freg X st req clk = (st', Inr v)"
  obtains h0 token where "get_str req ''handle'' = Some h0" "get_str req ''token'' = Some token"
    "reg_key_ok X h0"
    "map_of (fab_reg st') (to_lowercase (uni_lower X) h0) = Some \<lparr>reg_token = token,
       reg_expires = clk 0 + min (u64_or (get_u64 req ''lease'') 3600) (fc_max_lease_sec (fab_cfg st))\<rparr>"
    "v = Object [(''expires'', Number (PosInt (clk 0 + min (u64_or (get_u64 req ''lease'') 3600)
           (fc_max_lease_sec (fab_cfg st))))), (''token'', String token)]"
  using assms by (cases rule: run_freg_cases) (auto simp: update_conv' intro: that)

lemma lease_bounds:
  fixes now lease cap :: u64
  assumes "unat now + unat cap < 2 ^ 64"
  shows "now \<le> now + min lease cap" "unat (now + min lease cap) \<le> unat now + unat cap"
proof -
  have "unat (min lease cap) \<le> unat cap" by (simp add: word_le_nat_alt flip: word_le_nat_alt)
  then have "unat (now + min lease cap) = unat now + unat (min lease cap)"
    using assms by (simp add: unat_word_ariths)
  then show "now \<le> now + min lease cap" "unat (now + min lease cap) \<le> unat now + unat cap"
    using \<open>unat (min lease cap) \<le> unat cap\<close> by (simp_all add: word_le_nat_alt)
qed

end
