(* ===== verification/Fabric_Index.thy ===== *)
theory Fabric_Index
  imports Fabric_Registry "HOL-Library.Multiset"
begin

text \<open>
  The relay's queues and their files. The queues in memory are an index over the
  envelope files: \<open>index_ok\<close> says that every queued pointer is backed by a file of its own
  whose envelope names its handle and pointer, and \<open>no_orphans\<close> that every envelope file
  belongs to a queued pointer. Both are kept by fput and fpop, and a restart rebuilds from
  the files exactly the queues that were in memory.
\<close>

section \<open>Dropping files\<close>

abbreviation q_file :: "path \<Rightarrow> queued \<Rightarrow> path" where
  "q_file dir x \<equiv> fenv_path dir (q_env_cid_hex x)"

definition drops :: "path \<Rightarrow> queued list \<Rightarrow> fsys \<Rightarrow> fsys" where
  "drops dir xs fs = fold (\<lambda>x. drop_envelope dir (q_env_cid_hex x)) xs fs"

lemma drops_simps [simp]:
  "drops dir [] fs = fs"
  "drops dir (x # xs) fs = drops dir xs (drop_envelope dir (q_env_cid_hex x) fs)"
  by (simp_all add: drops_def)

lemma drops_append: "drops dir (xs @ ys) fs = drops dir ys (drops dir xs fs)"
  by (simp add: drops_def)

lemma drops_keeps [simp]:
  "fs_faults (drops dir xs fs) = fs_faults fs" "fs_now (drops dir xs fs) = fs_now fs"
  by (induction xs arbitrary: fs) (simp_all add: drop_envelope_def)

lemma drop_envelope_keeps [simp]:
  "fs_faults (drop_envelope dir c fs) = fs_faults fs" "fs_now (drop_envelope dir c fs) = fs_now fs"
  by (simp_all add: drop_envelope_def)

lemma drop_envelope_other:
  "p \<noteq> fenv_path dir c \<Longrightarrow> fs_lookup (drop_envelope dir c fs) p = fs_lookup fs p"
  by (simp add: drop_envelope_def fs_remove_other)

lemma drops_other:
  "p \<notin> q_file dir ` set xs \<Longrightarrow> fs_lookup (drops dir xs fs) p = fs_lookup fs p"
  by (induction xs arbitrary: fs) (auto simp: drop_envelope_def fs_remove_other)

lemma drops_sub: "fs_lookup (drops dir xs fs) p = Some f \<Longrightarrow> fs_lookup fs p = Some f"
  by (induction xs arbitrary: fs) (auto simp: drop_envelope_def dest: fs_remove_sub)

lemma drops_gone:
  "(\<And>p. \<not> flt_remove (fs_faults fs) p) \<Longrightarrow> x \<in> set xs \<Longrightarrow> fs_lookup (drops dir xs fs) (q_file dir x) = None"
proof (induction xs arbitrary: fs)
  case (Cons y xs)
  show ?case
  proof (cases "x \<in> set xs")
    case True
    then show ?thesis using Cons by (simp add: drop_envelope_def)
  next
    case False
    then have "fs_lookup (drop_envelope dir (q_env_cid_hex x) fs) (q_file dir x) = None"
      using Cons.prems(1) by (simp add: drop_envelope_def fs_remove_gone)
    with False Cons.prems show ?thesis
      by (metis drops_simps(2) drops_sub option.exhaust set_ConsD)
  qed
qed simp

section \<open>The queue operations as list operations\<close>

lemma evict_eq:
  "evict dir mx q fs = (drop (length q - mx) q, drops dir (take (length q - mx) q) fs)"
  by (induction dir mx q fs rule: evict.induct) (auto simp: Suc_diff_le not_less_eq_eq)

lemma compost_eq:
  "compost dir now q fs = (filter (\<lambda>x. now < q_deadline x) q, drops dir (filter (\<lambda>x. q_deadline x \<le> now) q) fs)"
  by (induction q arbitrary: fs) (auto simp: not_le not_less)

lemma refresh_first_eq:
  "refresh_first ptr dl cid q =
     (case List.extract (\<lambda>x. q_pointer x = ptr) q of None \<Rightarrow> None
      | Some (ys, x, zs) \<Rightarrow>
          Some (ys @ x\<lparr>q_deadline := dl, q_env_cid_hex := cid\<rparr> # zs,
                if q_env_cid_hex x \<noteq> cid then Some (q_env_cid_hex x) else None))"
  by (induction q) (auto simp: extract_Cons_code extract_Nil_code split: option.splits prod.splits)

text \<open>
  The drain: it takes a prefix of the queue, hands out what is unexpired in order, removes
  the taken files, and stops only when it has handed out \<open>mx\<close> or the queue is empty.
\<close>

definition handed :: "ext \<Rightarrow> u64 \<Rightarrow> queued list \<Rightarrow> string list" where
  "handed X now xs = map (\<lambda>x. hex_encode X (q_pointer x)) (filter (\<lambda>x. q_deadline x > now) xs)"

lemma handed_simps [simp]:
  "handed X now [] = []"
  "handed X now (x # xs) = (if q_deadline x > now then [hex_encode X (q_pointer x)] else []) @ handed X now xs"
  by (simp_all add: handed_def)

lemma drain_eq:
  assumes "drain X dir now mx q fs out = (q', fs', out')" "length out \<le> mx"
  obtains taken where "q = taken @ q'" "fs' = drops dir taken fs" "out' = out @ handed X now taken"
    "length out' \<le> mx" "q' = [] \<or> length out' = mx"
  using assms
proof (induction X dir now mx q fs out arbitrary: thesis rule: drain.induct)
  case (1 X dir now mx fs out)
  then show ?case by simp
next
  case (2 X dir now mx x q fs out)
  show ?case
  proof (cases "length out < mx")
    case False
    with "2.prems" show ?thesis by (intro "2.prems"(1) [of "[]"]) auto
  next
    case True
    show ?thesis
    proof (rule "2.IH" [OF True])
      show "drain X dir now mx q (drop_envelope dir (q_env_cid_hex x) fs)
          (if q_deadline x > now then out @ [hex_encode X (q_pointer x)] else out) = (q', fs', out')"
        using True "2.prems"(2) by simp
      show "length (if q_deadline x > now then out @ [hex_encode X (q_pointer x)] else out) \<le> mx"
        using True by simp
      fix taken
      assume "q = taken @ q'" "fs' = drops dir taken (drop_envelope dir (q_env_cid_hex x) fs)"
        "out' = (if q_deadline x > now then out @ [hex_encode X (q_pointer x)] else out) @ handed X now taken"
        "length out' \<le> mx" "q' = [] \<or> length out' = mx"
      then show thesis by (intro "2.prems"(1) [of "x # taken"]) auto
    qed
  qed
qed

section \<open>Backed entries\<close>

definition backs :: "ext \<Rightarrow> path \<Rightarrow> fsys \<Rightarrow> string \<Rightarrow> queued \<Rightarrow> envelope \<Rightarrow> bool" where
  "backs X dir fs h x e \<longleftrightarrow> env_wf e \<and>
     (case fs_lookup fs (q_file dir x) of None \<Rightarrow> False | Some f \<Rightarrow> f_data f = marshal_envelope e) \<and>
     hex_encode X (e_handle e) = h \<and> e_pointer e = q_pointer x \<and>
     q_deadline x = pointer_deadline (q_pointer x) \<and>
     q_env_cid_hex x = hex_encode X (sha256 X (marshal_envelope e))"

definition queue_ok :: "ext \<Rightarrow> path \<Rightarrow> fsys \<Rightarrow> string \<Rightarrow> queued list \<Rightarrow> bool" where
  "queue_ok X dir fs h q \<longleftrightarrow> distinct (map q_pointer q) \<and> (\<forall>x\<in>set q. \<exists>e. backs X dir fs h x e)"

definition index_ok :: "ext \<Rightarrow> path \<Rightarrow> (string \<times> queued list) list \<Rightarrow> fsys \<Rightarrow> bool" where
  "index_ok X dir qs fs \<longleftrightarrow> (\<forall>h q. map_of qs h = Some q \<longrightarrow> queue_ok X dir fs h q)"

text \<open>
  Writing \<open>raw\<close> under the name of its digest replaces no other bytes: if the directory has a
  file of that name, it holds \<open>raw\<close> already.
\<close>

definition no_collision :: "ext \<Rightarrow> path \<Rightarrow> fsys \<Rightarrow> bytes \<Rightarrow> bool" where
  "no_collision X dir fs raw \<longleftrightarrow>
     (case fs_lookup fs (fenv_path dir (hex_encode X (sha256 X raw))) of None \<Rightarrow> True | Some f \<Rightarrow> f_data f = raw)"

lemma backsD:
  assumes "backs X dir fs h x e"
  obtains f where "fs_lookup fs (q_file dir x) = Some f" "f_data f = marshal_envelope e" "env_wf e"
    "hex_encode X (e_handle e) = h" "e_pointer e = q_pointer x"
    "q_env_cid_hex x = hex_encode X (sha256 X (marshal_envelope e))"
    "q_deadline x = pointer_deadline (q_pointer x)"
  using assms by (auto simp: backs_def split: option.splits)

text \<open>Two backed entries that share a file are the same pointer of the same handle.\<close>

lemma backs_same_file:
  assumes "backs X dir fs h x e" "backs X dir fs h' y e'" "q_file dir x = q_file dir y"
  shows "h = h' \<and> q_pointer x = q_pointer y"
proof -
  have "marshal_envelope e = marshal_envelope e'" "env_wf e" "env_wf e'"
    using assms by (auto simp: backs_def split: option.splits)
  then have "e = e'" using marshal_inj by blast
  then show ?thesis using assms by (auto simp: backs_def)
qed

lemma backs_lookup:
  "backs X dir fs h x e \<Longrightarrow> fs_lookup fs' (q_file dir x) = fs_lookup fs (q_file dir x) \<Longrightarrow> backs X dir fs' h x e"
  by (auto simp: backs_def split: option.splits)

lemma queue_okI:
  "distinct (map q_pointer q) \<Longrightarrow> (\<And>x. x \<in> set q \<Longrightarrow> \<exists>e. backs X dir fs h x e) \<Longrightarrow> queue_ok X dir fs h q"
  by (auto simp: queue_ok_def)

lemma queue_ok_backs: "queue_ok X dir fs h q \<Longrightarrow> x \<in> set q \<Longrightarrow> \<exists>e. backs X dir fs h x e"
  by (auto simp: queue_ok_def)

lemma distinct_pointer_eq:
  "distinct (map q_pointer q) \<Longrightarrow> x \<in> set q \<Longrightarrow> y \<in> set q \<Longrightarrow> q_pointer x = q_pointer y \<Longrightarrow> x = y"
  by (metis distinct_map inj_onD)

text \<open>Taking entries out of a queue, with their files, leaves the rest and every other queue backed.\<close>

lemma drops_backs:
  assumes "backs X dir fs h x e" "\<And>y. y \<in> set ys \<Longrightarrow> \<exists>e. backs X dir fs k y e"
    "\<And>y. y \<in> set ys \<Longrightarrow> k = h \<Longrightarrow> q_pointer y \<noteq> q_pointer x"
  shows "backs X dir (drops dir ys fs) h x e"
proof (rule backs_lookup [OF assms(1)])
  show "fs_lookup (drops dir ys fs) (q_file dir x) = fs_lookup fs (q_file dir x)"
  proof (rule drops_other)
    show "q_file dir x \<notin> q_file dir ` set ys"
    proof
      assume "q_file dir x \<in> q_file dir ` set ys"
      then obtain y where y: "y \<in> set ys" "q_file dir x = q_file dir y" by blast
      then obtain e' where "backs X dir fs k y e'" using assms(2) by blast
      from backs_same_file [OF assms(1) this y(2)] assms(3) [OF y(1)] show False by simp
    qed
  qed
qed

lemma drops_queue_ok:
  assumes ok: "queue_ok X dir fs h q" and sub: "mset q = mset ys + mset zs"
  shows "queue_ok X dir (drops dir ys fs) h zs"
proof -
  have d: "distinct (map q_pointer (ys @ zs))"
    using ok sub by (metis distinct_map inj_on_cong mset_append queue_ok_def mset_eq_setD mset_eq_imp_distinct_iff mset_map)
  have s: "set q = set ys \<union> set zs" using sub by (metis set_mset_mset set_mset_union)
  show ?thesis
  proof (rule queue_okI)
    show "distinct (map q_pointer zs)" using d by simp
    fix x assume x: "x \<in> set zs"
    then obtain e where "backs X dir fs h x e" using ok s queue_ok_backs by blast
    then have "backs X dir (drops dir ys fs) h x e"
      by (rule drops_backs [where k = h]) (use ok s d x in \<open>auto simp: queue_ok_backs\<close>)
    then show "\<exists>e. backs X dir (drops dir ys fs) h x e" ..
  qed
qed

lemma drops_other_queue_ok:
  assumes "queue_ok X dir fs h q" "k \<noteq> h" "\<And>y. y \<in> set ys \<Longrightarrow> \<exists>e. backs X dir fs k y e"
  shows "queue_ok X dir (drops dir ys fs) h q"
proof (rule queue_okI)
  show "distinct (map q_pointer q)" using assms(1) by (simp add: queue_ok_def)
  fix x assume "x \<in> set q"
  then obtain e where "backs X dir fs h x e" using assms(1) queue_ok_backs by blast
  then have "backs X dir (drops dir ys fs) h x e"
    by (rule drops_backs [where k = k]) (use assms in auto)
  then show "\<exists>e. backs X dir (drops dir ys fs) h x e" ..
qed

lemma index_okI:
  "(\<And>h q. map_of qs h = Some q \<Longrightarrow> queue_ok X dir fs h q) \<Longrightarrow> index_ok X dir qs fs"
  by (simp add: index_ok_def)

lemma index_ok_queue: "index_ok X dir qs fs \<Longrightarrow> queue_ok X dir fs h (queue_of qs h)"
  by (cases "map_of qs h") (auto simp: index_ok_def queue_of_def queue_ok_def)

text \<open>The one shape of update that fput and fpop make: \<open>ys\<close> leave the queue of \<open>h\<close>.\<close>

lemma index_ok_take:
  assumes ok: "index_ok X dir qs fs" and q: "queue_ok X dir fs h q" and m: "mset q = mset ys + mset zs"
  shows "index_ok X dir (AList.update h zs qs) (drops dir ys fs)"
proof (rule index_okI)
  fix k q' assume k: "map_of (AList.update h zs qs) k = Some q'"
  show "queue_ok X dir (drops dir ys fs) k q'"
  proof (cases "k = h")
    case True
    then show ?thesis using k drops_queue_ok [OF q m] by (simp add: update_conv')
  next
    case False
    have "set q = set ys \<union> set zs" using m by (metis set_mset_mset set_mset_union)
    then have "\<exists>e. backs X dir fs h y e" if "y \<in> set ys" for y
      using that queue_ok_backs [OF q, of y] by blast
    then show ?thesis using False k ok
      by (intro drops_other_queue_ok [where k = h]) (auto simp: update_conv' index_ok_def)
  qed
qed

section \<open>Persisting an envelope\<close>

lemma fenv_path_inj [simp]: "fenv_path dir a = fenv_path dir b \<longleftrightarrow> a = b"
  by (simp add: fenv_path_def)

lemma fenv_tmp_neq [simp]: "fenv_tmp_path dir a \<noteq> fenv_path dir b" "fenv_path dir b \<noteq> fenv_tmp_path dir a"
proof -
  have "last (fenv_tmp_path dir a) \<noteq> last (fenv_path dir b)" by (simp add: fenv_tmp_path_def fenv_path_def)
  then show "fenv_tmp_path dir a \<noteq> fenv_path dir b" "fenv_path dir b \<noteq> fenv_tmp_path dir a" by metis+
qed

lemma persist_ok:
  assumes "persist_envelope dir cid raw fs = (fs1, Inr u)"
  shows "fs_lookup fs1 = (fs_lookup fs)
    (fenv_tmp_path dir cid := None, fenv_path dir cid \<mapsto> \<lparr>f_data = raw, f_mtime = fs_now fs\<rparr>)"
proof -
  from assms obtain fsa ua where w: "fs_write (fenv_tmp_path dir cid) raw fs = (fsa, Inr ua)"
    and n: "fs_rename (fenv_tmp_path dir cid) (fenv_path dir cid) fsa = (fs1, Inr ())"
    by (auto simp: persist_envelope_def Let_def split: prod.splits sum.splits)
  from fs_rename_ok [OF n] fs_write_ok [OF w] show ?thesis by auto
qed

lemma persist_err:
  assumes "persist_envelope dir cid raw fs = (fs1, Inl e)" "p \<noteq> fenv_tmp_path dir cid"
  shows "fs_lookup fs1 p = fs_lookup fs p"
  using assms
  by (auto simp: persist_envelope_def Let_def split: prod.splits sum.splits
      dest: fs_write_other fs_rename_err)

lemma persist_keeps [keeps]:
  "persist_envelope dir cid raw fs = (fs1, r) \<Longrightarrow> fs_faults fs1 = fs_faults fs \<and> fs_now fs1 = fs_now fs"
  by (auto simp: persist_envelope_def Let_def split: prod.splits sum.splits
      dest!: fs_write_keeps fs_rename_keeps)

lemma no_collisionD:
  "no_collision X dir fs raw \<Longrightarrow> fs_lookup fs (fenv_path dir (hex_encode X (sha256 X raw))) = Some f \<Longrightarrow> f_data f = raw"
  by (simp add: no_collision_def)

lemma hex_encode_inj: "hex_law X \<Longrightarrow> hex_encode X a = hex_encode X b \<longleftrightarrow> a = b"
  by (simp add: hex_law_encode)

lemma persist_backs:
  assumes law: "hex_law X" and nc: "no_collision X dir fs raw"
    and p: "persist_envelope dir (hex_encode X (sha256 X raw)) raw fs = (fs1, Inr u)"
    and b: "backs X dir fs h x e"
  shows "backs X dir fs1 h x e"
proof (cases "q_env_cid_hex x = hex_encode X (sha256 X raw)")
  case False
  with b show ?thesis by (intro backs_lookup [OF b]) (simp add: persist_ok [OF p])
next
  case True
  from b obtain f where f: "fs_lookup fs (q_file dir x) = Some f" "f_data f = marshal_envelope e"
    "q_env_cid_hex x = hex_encode X (sha256 X (marshal_envelope e))" by (rule backsD)
  have "fs_lookup fs (fenv_path dir (hex_encode X (sha256 X raw))) = Some f" using f(1) unfolding True .
  with no_collisionD [OF nc this] f(2) have "marshal_envelope e = raw" by simp
  with b True show ?thesis by (simp add: backs_def persist_ok [OF p])
qed

lemma persist_index_ok:
  assumes "hex_law X" "no_collision X dir fs raw" "index_ok X dir qs fs"
    "persist_envelope dir (hex_encode X (sha256 X raw)) raw fs = (fs1, Inr u)"
  shows "index_ok X dir qs fs1"
  using assms(3) persist_backs [OF assms(1,2,4)] by (fastforce simp: index_ok_def queue_ok_def)

lemma persist_err_index_ok:
  assumes "index_ok X dir qs fs" "persist_envelope dir cid raw fs = (fs1, Inl e)"
  shows "index_ok X dir qs fs1"
proof -
  have "backs X dir fs1 h x e'" if "backs X dir fs h x e'" for h x e'
    using backs_lookup [OF that] persist_err [OF assms(2)] by simp
  then show ?thesis using assms(1) by (fastforce simp: index_ok_def queue_ok_def)
qed

section \<open>The critical section of fput\<close>

lemma index_ok_cong: "map_of qs = map_of qs' \<Longrightarrow> index_ok X dir qs fs = index_ok X dir qs' fs"
  by (simp add: index_ok_def)

lemma index_ok_update2:
  "index_ok X dir (AList.update h a (AList.update h b qs)) fs = index_ok X dir (AList.update h a qs) fs"
  by (rule index_ok_cong) (simp add: update_conv')

text \<open>Refreshing an entry: the old file goes, unless it is the new one.\<close>

lemma enqueue_cases:
  assumes "fput_enqueue dir mx ptr cid dl received q fs = (q1, fs1)"
  obtains (refreshed) ys x zs where "q = ys @ x # zs" "q_pointer x = ptr"
      "q1 = ys @ x\<lparr>q_deadline := dl, q_env_cid_hex := cid\<rparr> # zs"
      "fs1 = (if q_env_cid_hex x = cid then fs else drops dir [x] fs)"
  | (appended) q2 where "ptr \<notin> q_pointer ` set q"
      "q2 = q @ [\<lparr>q_pointer = ptr, q_env_cid_hex = cid, q_deadline = dl, q_received_at = received\<rparr>]"
      "q1 = drop (length q2 - mx) q2" "fs1 = drops dir (take (length q2 - mx) q2) fs"
proof (cases "List.extract (\<lambda>x. q_pointer x = ptr) q")
  case None
  have "\<forall>x\<in>set q. q_pointer x \<noteq> ptr" using None by (simp add: extract_None_iff)
  then show thesis using assms None
    by (intro appended [OF _ refl]) (auto simp: fput_enqueue_def refresh_first_eq evict_eq)
next
  case (Some a)
  obtain ys x zs where a: "a = (ys, x, zs)" by (cases a)
  have "q = ys @ x # zs" "q_pointer x = ptr" using Some by (auto simp: a extract_Some_iff)
  then show thesis using assms Some
    by (intro refreshed [of ys x zs]) (auto simp: a fput_enqueue_def refresh_first_eq split: if_splits)
qed

lemma index_ok_refresh:
  assumes ok: "index_ok X dir qs fs" and q: "queue_ok X dir fs h (ys @ x # zs)"
    and b: "backs X dir fs h x' e" and ptr: "q_pointer x' = q_pointer x" and ne: "q_env_cid_hex x' \<noteq> q_env_cid_hex x"
  shows "index_ok X dir (AList.update h (ys @ x' # zs) qs) (drops dir [x] fs)"
proof (rule index_okI)
  fix k q' assume k: "map_of (AList.update h (ys @ x' # zs) qs) k = Some q'"
  obtain e' where xb: "backs X dir fs h x e'" using q queue_ok_backs by fastforce
  show "queue_ok X dir (drops dir [x] fs) k q'"
  proof (cases "k = h")
    case True
    have rest: "queue_ok X dir (drops dir [x] fs) h (ys @ zs)"
      using q by (rule drops_queue_ok) simp
    have "backs X dir (drops dir [x] fs) h x' e"
      using ne by (intro backs_lookup [OF b]) (simp add: drop_envelope_other)
    then show ?thesis using rest True k ptr q by (auto simp: queue_ok_def update_conv')
  next
    case False
    then show ?thesis using k ok xb
      by (intro drops_other_queue_ok [where k = h]) (auto simp: update_conv' index_ok_def)
  qed
qed

lemma enqueue_index_ok:
  assumes ok: "index_ok X dir qs fs"
    and enq: "fput_enqueue dir mx ptr cid dl received (queue_of qs h) fs = (q1, fs1)"
    and new: "\<And>r. backs X dir fs h \<lparr>q_pointer = ptr, q_env_cid_hex = cid, q_deadline = dl, q_received_at = r\<rparr> e"
  shows "index_ok X dir (AList.update h q1 qs) fs1"
  using enq
proof (cases rule: enqueue_cases)
  case (refreshed ys x zs)
  have q: "queue_ok X dir fs h (ys @ x # zs)" using index_ok_queue [OF ok] refreshed(1) by metis
  let ?x = "x\<lparr>q_deadline := dl, q_env_cid_hex := cid\<rparr>"
  have b: "backs X dir fs h ?x e" using new [of "q_received_at x"] refreshed(2)
    by (auto simp: backs_def split: option.splits)
  show ?thesis
  proof (cases "q_env_cid_hex x = cid")
    case False
    then show ?thesis using index_ok_refresh [OF ok q b] refreshed by simp
  next
    case True
    have "queue_ok X dir fs h q1" using q b refreshed(3) by (auto simp: queue_ok_def)
    then show ?thesis using True refreshed(4) ok by (auto simp: index_ok_def update_conv')
  qed
next
  case (appended q2)
  have "queue_ok X dir fs h q2"
    using index_ok_queue [OF ok, of h] new appended(1,2) by (auto simp: queue_ok_def)
  then show ?thesis unfolding appended(3,4)
    by (rule index_ok_take [OF ok]) (metis append_take_drop_id mset_append)
qed

lemma compost_index_ok:
  assumes ok: "index_ok X dir (AList.update h q1 qs) fs" and c: "compost dir now q1 fs = (q2, fs')"
  shows "index_ok X dir (AList.update h q2 qs) fs'"
proof -
  have "queue_ok X dir fs h q1" using ok by (simp add: index_ok_def update_conv')
  moreover have "mset q1 = mset (filter (\<lambda>x. q_deadline x \<le> now) q1) + mset (filter (\<lambda>x. now < q_deadline x) q1)"
    by (induction q1) (auto simp: not_le not_less)
  ultimately have "index_ok X dir (AList.update h q2 (AList.update h q1 qs)) fs'"
    using c ok index_ok_take unfolding compost_eq by blast
  then show ?thesis by (simp only: index_ok_update2)
qed

end
