(* ===== verification/Fabric_Verbs.thy ===== *)
theory Fabric_Verbs
  imports Fabric_Index
begin

text \<open>
  The verbs fput and fpop as a whole: the outcomes of each (\<open>run_fput_cases\<close>,
  \<open>run_fpop_cases\<close>), absence of panics, who may enqueue and who may drain, the bounds on
  a queue, and preservation of the registry shape and of the index over the disk.
\<close>

section \<open>Admission by freg\<close>

definition req_handle :: "ext \<Rightarrow> json \<Rightarrow> string" where
  "req_handle X req = to_lowercase (uni_lower X) (str_or (get_str req ''handle'') [])"

lemma run_freg_ok_iff:
  assumes "hex_law X" "distinct (map fst (fab_reg st))" and run: "run_freg X st req clk = (st', r)"
  shows "(\<exists>v. r = Inr v) \<longleftrightarrow>
    (\<exists>b. unhexs (str_or (get_str req ''handle'') []) = Some b \<and> length b = 32) \<and>
    16 \<le> length (str_or (get_str req ''token'') []) \<and> length (str_or (get_str req ''token'') []) \<le> 128 \<and>
    (case live_reg st (req_handle X req) (clk 0) of
       Some cur \<Rightarrow> reg_token cur = str_or (get_str req ''prev_token'') []
     | None \<Rightarrow> length (fab_reg (sweep (clk 0) st)) < fc_max_regs (fab_cfg st))"
proof (cases "reg_key_ok X (str_or (get_str req ''handle'') []) \<and>
    16 \<le> length (str_or (get_str req ''token'') []) \<and> length (str_or (get_str req ''token'') []) \<le> 128")
  case False
  have "reg_key_ok X [] = False" using assms(1) by (simp add: reg_key_ok_hex)
  with False run have "\<exists>e. r = Inl e"
    by (auto simp: run_freg_def reg_key_ok_def Let_def split: option.splits sum.splits if_splits)
  with False assms(1) show ?thesis by (auto simp: reg_key_ok_hex)
next
  case True
  then obtain h0 token where f: "get_str req ''handle'' = Some h0" "get_str req ''token'' = Some token"
    using reg_key_ok_hex [OF assms(1), of "[]"] by (cases "get_str req ''handle''"; cases "get_str req ''token''") auto
  let ?h = "to_lowercase (uni_lower X) h0" and ?st = "sweep (clk 0) st"
  have live: "live_reg st (req_handle X req) (clk 0) =
      (case map_of (fab_reg ?st) ?h of Some cur \<Rightarrow> if reg_expires cur > clk 0 then Some cur else None | None \<Rightarrow> None)"
    using sweep_live [OF assms(2), of "clk 0" ?h] f by (simp add: live_reg_def req_handle_def)
  show ?thesis
    using run True f unfolding live reg_key_ok_hex [OF assms(1), symmetric]
    by (simp add: run_freg_def Let_def ct_eq_iff flip: sweep_def reg_key_ok_def split: option.splits if_splits)
       (auto split: option.splits if_splits)
qed

section \<open>The outcomes of fput\<close>

definition req_bytes :: "ext \<Rightarrow> string \<Rightarrow> bytes" where
  "req_bytes X s = (case hex_crate_decode X s of Inr b \<Rightarrow> b | Inl _ \<Rightarrow> [])"

text \<open>The one envelope an fput writes, when its checks let it.\<close>

definition new_envelope :: "ext \<Rightarrow> json \<Rightarrow> u64 \<Rightarrow> envelope" where
  "new_envelope X req t =
     \<lparr>e_handle = req_bytes X (req_handle X req),
      e_pointer = req_bytes X (str_or (get_str req ''pointer_hex'') []), e_received_at = t\<rparr>"

definition pointer_ok :: "bytes \<Rightarrow> u64 \<Rightarrow> u64 \<Rightarrow> bool" where
  "pointer_ok p now horizon \<longleftrightarrow> length p = POINTER_LEN \<and> p ! 0 = 1 \<and> p ! 1 = 0 \<and>
     now < pointer_deadline p \<and> pointer_deadline p \<le> now + horizon"

text \<open>The guards, in order: the request, the registration, the limiter, the pointer's hex.\<close>

lemma run_fput_front:
  assumes run: "run_fput X st req dir ip clk fs = (st', fs', r)"
  obtains (refused) lim e where "st' = st\<lparr>fab_fput_limiter := lim\<rparr>" "fs' = fs" "r = Ret (Inl e)"
  | (front) h0 rg lim ptr_hex p where "get_str req ''handle'' = Some h0" "length h0 = 64"
      "map_of (fab_reg st) (to_lowercase (uni_lower X) h0) = Some rg" "\<not> reg_expires rg \<le> clk 0"
      "rl_allow (fab_fput_limiter st) ip (clk 1) = (lim, True)"
      "get_str req ''pointer_hex'' = Some ptr_hex" "length ptr_hex = 2 * POINTER_LEN"
      "hex_crate_decode X ptr_hex = Inr p"
proof -
  have ref: "st' = st\<lparr>fab_fput_limiter := lim\<rparr> \<Longrightarrow> fs' = fs \<Longrightarrow> r = Ret (Inl e) \<Longrightarrow> thesis" for lim e
    by (rule refused)
  have keep: "st = st\<lparr>fab_fput_limiter := fab_fput_limiter st\<rparr>" by simp
  obtain lim b where al: "rl_allow (fab_fput_limiter st) ip (clk 1) = (lim, b)"
    by (cases "rl_allow (fab_fput_limiter st) ip (clk 1)")
  show thesis
  proof (cases "\<exists>h0 rg. get_str req ''handle'' = Some h0 \<and> length h0 = 64 \<and>
      map_of (fab_reg st) (to_lowercase (uni_lower X) h0) = Some rg \<and> \<not> reg_expires rg \<le> clk 0")
    case False
    then have "st' = st \<and> fs' = fs \<and> (\<exists>e. r = Ret (Inl e))"
      using run by (auto simp: run_fput_def Let_def split: option.splits if_splits)
    then show thesis using keep refused by metis
  next
    case True
    then obtain h0 rg where pre: "get_str req ''handle'' = Some h0" "length h0 = 64"
      "map_of (fab_reg st) (to_lowercase (uni_lower X) h0) = Some rg" "\<not> reg_expires rg \<le> clk 0" by blast
    consider (limited) "\<not> b" | (none) b "get_str req ''pointer_hex'' = None"
      | (len) ph where b "get_str req ''pointer_hex'' = Some ph" "length ph \<noteq> 2 * POINTER_LEN"
      | (hex) ph e where b "get_str req ''pointer_hex'' = Some ph" "length ph = 2 * POINTER_LEN"
          "hex_crate_decode X ph = Inl e"
      | (ok) ph p where b "get_str req ''pointer_hex'' = Some ph" "length ph = 2 * POINTER_LEN"
          "hex_crate_decode X ph = Inr p"
      by (metis not_None_eq sum.exhaust)
    then show thesis
    proof cases
      case ok
      with pre al front show thesis by auto
    qed (use run pre al in \<open>auto simp: run_fput_def intro: ref\<close>)
  qed
qed

text \<open>The pointer's structure and deadline, then the registered handle.\<close>

lemma run_fput_checked:
  assumes run: "run_fput X st req dir ip clk fs = (st', fs', r)"
    and pre: "get_str req ''handle'' = Some h0" "length h0 = 64"
      "map_of (fab_reg st) (to_lowercase (uni_lower X) h0) = Some rg" "\<not> reg_expires rg \<le> clk 0"
      "rl_allow (fab_fput_limiter st) ip (clk 1) = (lim, True)"
      "get_str req ''pointer_hex'' = Some ptr_hex" "length ptr_hex = 2 * POINTER_LEN"
      "hex_crate_decode X ptr_hex = Inr p"
  obtains (refused) e where "st' = st\<lparr>fab_fput_limiter := lim\<rparr>" "fs' = fs" "r = Ret (Inl e)"
  | (panicked) "st' = st\<lparr>fab_fput_limiter := lim\<rparr>" "fs' = fs" "r = Panic" "\<not> reg_key_ok X (to_lowercase (uni_lower X) h0)"
  | (checked) hb where "pointer_ok p (clk 2) (fc_max_deadline_horizon_sec (fab_cfg st))"
      "length p = POINTER_LEN" "\<not> (p ! 0 \<noteq> 1 \<or> p ! 1 \<noteq> 0)" "pointer_deadline p \<noteq> 0"
      "\<not> pointer_deadline p \<le> clk 2"
      "\<not> pointer_deadline p > clk 2 + fc_max_deadline_horizon_sec (fab_cfg st)"
      "hex_crate_decode X (to_lowercase (uni_lower X) h0) = Inr hb" "length hb = 32"
proof -
  have ref: "st' = st\<lparr>fab_fput_limiter := lim\<rparr> \<Longrightarrow> fs' = fs \<Longrightarrow> r = Ret (Inl e) \<Longrightarrow> thesis" for e
    by (rule refused)
  let ?d = "pointer_deadline p" and ?hz = "clk 2 + fc_max_deadline_horizon_sec (fab_cfg st)"
  consider (c1) "length p \<noteq> POINTER_LEN"
    | (c2) "length p = POINTER_LEN" "p ! 0 \<noteq> 1 \<or> p ! 1 \<noteq> 0"
    | (c3) "length p = POINTER_LEN" "\<not> (p ! 0 \<noteq> 1 \<or> p ! 1 \<noteq> 0)" "?d = 0"
    | (c4) "length p = POINTER_LEN" "\<not> (p ! 0 \<noteq> 1 \<or> p ! 1 \<noteq> 0)" "?d \<noteq> 0" "?d \<le> clk 2"
    | (c5) "length p = POINTER_LEN" "\<not> (p ! 0 \<noteq> 1 \<or> p ! 1 \<noteq> 0)" "?d \<noteq> 0" "\<not> ?d \<le> clk 2" "?d > ?hz"
    | (ok) "length p = POINTER_LEN" "\<not> (p ! 0 \<noteq> 1 \<or> p ! 1 \<noteq> 0)" "?d \<noteq> 0" "\<not> ?d \<le> clk 2" "\<not> ?d > ?hz"
    by blast
  then show thesis
  proof cases
    case ok
    show thesis
    proof (cases "reg_key_ok X (to_lowercase (uni_lower X) h0)")
      case False
      then have "st' = st\<lparr>fab_fput_limiter := lim\<rparr> \<and> fs' = fs \<and> r = Panic" using run pre ok
        by (auto simp: run_fput_def Let_def reg_key_ok_def split: sum.splits if_splits)
      then show thesis using False panicked by blast
    next
      case True
      then show thesis using ok checked
        by (auto simp: reg_key_ok_def pointer_ok_def not_le not_less split: sum.splits)
    qed
  qed (use run pre in \<open>auto simp: run_fput_def Let_def intro: ref\<close>)
qed

lemma run_fput_cases:
  assumes run: "run_fput X st req dir ip clk fs = (st', fs', r)"
  obtains (refused) lim e where "st' = st\<lparr>fab_fput_limiter := lim\<rparr>" "fs' = fs" "r = Ret (Inl e)"
  | (panicked) h0 rg lim where "st' = st\<lparr>fab_fput_limiter := lim\<rparr>" "fs' = fs" "r = Panic" "get_str req ''handle'' = Some h0"
      "map_of (fab_reg st) (to_lowercase (uni_lower X) h0) = Some rg"
      "\<not> reg_key_ok X (to_lowercase (uni_lower X) h0)"
  | (io) lim cid raw e where "st' = st\<lparr>fab_fput_limiter := lim\<rparr>"
      "cid = hex_encode X (sha256 X raw)" "persist_envelope dir cid raw fs = (fs', Inl e)" "r = Ret (Inl e)"
  | (queued) h0 h rg lim ptr_hex env cid fs1 q1 fs2 q2 where
      "get_str req ''handle'' = Some h0" "h = to_lowercase (uni_lower X) h0"
      "map_of (fab_reg st) h = Some rg" "clk 0 < reg_expires rg"
      "rl_allow (fab_fput_limiter st) ip (clk 1) = (lim, True)"
      "get_str req ''pointer_hex'' = Some ptr_hex" "hex_crate_decode X ptr_hex = Inr (e_pointer env)"
      "pointer_ok (e_pointer env) (clk 2) (fc_max_deadline_horizon_sec (fab_cfg st))"
      "hex_crate_decode X h = Inr (e_handle env)" "length (e_handle env) = 32"
      "e_received_at env = clk 3"
      "cid = hex_encode X (sha256 X (marshal_envelope env))"
      "persist_envelope dir cid (marshal_envelope env) fs = (fs1, Inr ())"
      "fput_enqueue dir (fc_max_per_handle (fab_cfg st)) (e_pointer env) cid
         (pointer_deadline (e_pointer env)) (clk 3) (queue_of (fab_queues st) h) fs1 = (q1, fs2)"
      "compost dir (clk 4) q1 fs2 = (q2, fs')"
      "st' = st\<lparr>fab_fput_limiter := lim, fab_queues := AList.update h q2 (fab_queues st)\<rparr>"
      "r = Ret (Inr (Object [(''queued'', Bool True)]))"
  using run
proof (cases rule: run_fput_front)
  case (front h0 rg lim ptr_hex p)
  let ?h = "to_lowercase (uni_lower X) h0"
  from run front show thesis
  proof (cases rule: run_fput_checked)
    case (checked hb)
    let ?env = "\<lparr>e_handle = hb, e_pointer = p, e_received_at = clk 3\<rparr>"
    let ?cid = "hex_encode X (sha256 X (marshal_envelope ?env))"
    obtain fs1 pr where pe: "persist_envelope dir ?cid (marshal_envelope ?env) fs = (fs1, pr)"
      by (cases "persist_envelope dir ?cid (marshal_envelope ?env) fs")
    show thesis
    proof (cases pr)
      case (Inl e)
      then show thesis using run front checked pe
        by (intro io [of lim ?cid "marshal_envelope ?env" e]) (auto simp: run_fput_def Let_def)
    next
      case (Inr u)
      obtain q1 fs2 where en: "fput_enqueue dir (fc_max_per_handle (fab_cfg st)) p ?cid
         (pointer_deadline p) (clk 3) (queue_of (fab_queues st) ?h) fs1 = (q1, fs2)"
        by (cases "fput_enqueue dir (fc_max_per_handle (fab_cfg st)) p ?cid
         (pointer_deadline p) (clk 3) (queue_of (fab_queues st) ?h) fs1")
      obtain q2 fs3 where co: "compost dir (clk 4) q1 fs2 = (q2, fs3)"
        by (cases "compost dir (clk 4) q1 fs2")
      have res: "fs3 = fs'" "r = Ret (Inr (Object [(''queued'', Bool True)]))"
        "st' = st\<lparr>fab_fput_limiter := lim, fab_queues := AList.update ?h q2 (fab_queues st)\<rparr>"
        using run front checked pe Inr en co by (auto simp: run_fput_def Let_def)
      show thesis
        by (rule queued [of h0 ?h rg lim ptr_hex ?env ?cid fs1 q1 fs2 q2])
          (use front checked pe Inr en co res in simp_all)
    qed
  qed (use front refused panicked in blast)+
qed (use refused in blast)

section \<open>fput keeps the relay's invariants\<close>

lemma handle_canon_ok: "handle_canon X k \<Longrightarrow> reg_key_ok X k"
  by (auto simp: handle_canon_def reg_key_ok_def split: sum.splits)

lemma reg_wf_key: "reg_wf X st \<Longrightarrow> map_of (fab_reg st) h = Some rg \<Longrightarrow> handle_canon X h"
  by (auto simp: reg_wf_def list_all_iff dest!: map_of_SomeD)

lemma run_fput_no_panic:
  assumes "reg_wf X st" "run_fput X st req dir ip clk fs = (st', fs', r)"
  shows "r \<noteq> Panic"
  using assms(2)
  by (cases rule: run_fput_cases) (auto dest: reg_wf_key [OF assms(1)] handle_canon_ok)

lemma run_fput_keeps [keeps]:
  assumes "run_fput X st req dir ip clk fs = (st', fs', r)"
  shows "fab_cfg st' = fab_cfg st" "fab_reg st' = fab_reg st" "fab_last_sweep_sec st' = fab_last_sweep_sec st"
  using assms
  by (cases rule: run_fput_cases; simp)+

lemma pointer_ok_env_wf: "pointer_ok (e_pointer e) now hz \<Longrightarrow> length (e_handle e) = 32 \<Longrightarrow> env_wf e"
  by (simp add: pointer_ok_def env_wf_def)

lemma run_fput_index_ok:
  assumes law: "hex_law X" and wf: "reg_wf X st" and ok: "index_ok X dir (fab_queues st) fs"
    and nc: "no_collision X dir fs (marshal_envelope (new_envelope X req (clk 3)))"
    and run: "run_fput X st req dir ip clk fs = (st', fs', r)"
  shows "index_ok X dir (fab_queues st') fs'"
  using run
proof (cases rule: run_fput_cases)
  case (io lim cid raw e)
  then show ?thesis using persist_err_index_ok [OF ok io(3)] by simp
next
  case (queued h0 h rg lim ptr_hex env cid fs1 q1 fs2 q2)
  have wfe: "env_wf env" using queued(8,10) by (rule pointer_ok_env_wf)
  have "handle_canon X h" using reg_wf_key [OF wf queued(3)] .
  then have henc: "hex_encode X (e_handle env) = h" using queued(9) by (simp add: handle_canon_def)
  have "new_envelope X req (clk 3) = env"
    using queued(1,2,6,7,9,11) by (simp add: new_envelope_def req_handle_def req_bytes_def)
  then have idx: "index_ok X dir (fab_queues st) fs1"
    using persist_index_ok [OF law nc ok] queued(12,13) by simp
  have "backs X dir fs1 h \<lparr>q_pointer = e_pointer env, q_env_cid_hex = cid,
      q_deadline = pointer_deadline (e_pointer env), q_received_at = t\<rparr> env" for t
    using wfe henc queued(12) by (simp add: backs_def persist_ok [OF queued(13)])
  then have "index_ok X dir (AList.update h q1 (fab_queues st)) fs2"
    by (rule enqueue_index_ok [OF idx queued(14)])
  from compost_index_ok [OF this queued(15)] show ?thesis using queued(16) by simp
qed (use ok in simp_all)

section \<open>Queue bounds\<close>

definition queues_bounded :: "fabric_state \<Rightarrow> bool" where
  "queues_bounded st \<longleftrightarrow> distinct (map fst (fab_queues st)) \<and>
     list_all (\<lambda>(h, q). length q \<le> fc_max_per_handle (fab_cfg st)) (fab_queues st)"

lemma queues_bounded_of: "queues_bounded st \<Longrightarrow> length (queue_of (fab_queues st) h) \<le> fc_max_per_handle (fab_cfg st)"
  by (auto simp: queues_bounded_def queue_of_def list_all_iff split: option.splits dest!: map_of_SomeD)

lemma list_all_update: "list_all (\<lambda>(k, v). P v) m \<Longrightarrow> P v \<Longrightarrow> list_all (\<lambda>(k, v). P v) (AList.update k v m)"
  by (induction m) auto

lemma enqueue_length:
  assumes "fput_enqueue dir mx ptr cid dl received q fs = (q1, fs1)"
  shows "length q1 \<le> max mx (length q)" "ptr \<notin> q_pointer ` set q \<Longrightarrow> length q1 \<le> mx"
proof -
  show "length q1 \<le> max mx (length q)" using assms by (cases rule: enqueue_cases) auto
  show "ptr \<notin> q_pointer ` set q \<Longrightarrow> length q1 \<le> mx" using assms by (cases rule: enqueue_cases) auto
qed

lemma run_fput_bounded:
  assumes run: "run_fput X st req dir ip clk fs = (st', fs', r)" and b: "queues_bounded st"
  shows "queues_bounded st'"
  using run
proof (cases rule: run_fput_cases)
  case (queued h0 h rg lim ptr_hex env cid fs1 q1 fs2 q2)
  have "length q1 \<le> fc_max_per_handle (fab_cfg st)"
    using enqueue_length(1) [OF queued(14)] queues_bounded_of [OF b, of h] by simp
  then have "length q2 \<le> fc_max_per_handle (fab_cfg st)"
    using queued(15) by (auto simp: compost_eq intro: order_trans [OF length_filter_le])
  then show ?thesis using b queued(16)
    by (auto simp: queues_bounded_def distinct_update intro!: list_all_update)
qed (use b in \<open>simp_all add: queues_bounded_def\<close>)

section \<open>What a successful fput has done\<close>

lemma enqueue_mem:
  assumes "fput_enqueue dir mx ptr cid dl received q fs = (q1, fs1)" "0 < mx"
  obtains x where "x \<in> set q1" "q_pointer x = ptr" "q_deadline x = dl" "q_env_cid_hex x = cid"
  using assms(1)
proof (cases rule: enqueue_cases)
  case (refreshed ys x zs)
  then show thesis by (intro that [of "x\<lparr>q_deadline := dl, q_env_cid_hex := cid\<rparr>"]) simp_all
next
  case (appended q2)
  let ?x = "\<lparr>q_pointer = ptr, q_env_cid_hex = cid, q_deadline = dl, q_received_at = received\<rparr>"
  have "length q2 - mx \<le> length q" using assms(2) by (simp add: appended(2))
  then have "?x \<in> set q1" by (simp add: appended(2,3))
  then show thesis by (rule that) simp_all
qed

lemma run_fput_queued:
  assumes run: "run_fput X st req dir ip clk fs = (st', fs', Ret (Inr v))"
    and mx: "0 < fc_max_per_handle (fab_cfg st)"
  obtains h0 rg p x where "get_str req ''handle'' = Some h0"
    "map_of (fab_reg st) (to_lowercase (uni_lower X) h0) = Some rg" "clk 0 < reg_expires rg"
    "pointer_ok p (clk 2) (fc_max_deadline_horizon_sec (fab_cfg st))"
    "Option.bind (get_str req ''pointer_hex'') (\<lambda>s. case hex_crate_decode X s of Inr b \<Rightarrow> Some b | Inl _ \<Rightarrow> None) = Some p"
    "clk 4 < pointer_deadline p \<Longrightarrow> x \<in> set (queue_of (fab_queues st') (to_lowercase (uni_lower X) h0))"
    "q_pointer x = p" "q_deadline x = pointer_deadline p"
    "\<And>k. k \<noteq> to_lowercase (uni_lower X) h0 \<Longrightarrow> map_of (fab_queues st') k = map_of (fab_queues st) k"
    "v = Object [(''queued'', Bool True)]"
  using run
proof (cases rule: run_fput_cases)
  case (queued h0 h rg lim ptr_hex env cid fs1 q1 fs2 q2)
  obtain x where x: "x \<in> set q1" "q_pointer x = e_pointer env" "q_deadline x = pointer_deadline (e_pointer env)"
    using enqueue_mem [OF queued(14) mx] by metis
  have "x \<in> set (queue_of (fab_queues st') (to_lowercase (uni_lower X) h0))" if "clk 4 < pointer_deadline (e_pointer env)"
    using that x queued(2,15,16) by (auto simp: compost_eq queue_of_def update_conv')
  then show thesis
    using that [of h0 rg "e_pointer env" x] queued x by (auto simp: update_conv')
qed auto

text \<open>The pointer of an accepted fput is queued, and an fput is accepted exactly on the checks.\<close>

lemma run_fput_mem:
  assumes run: "run_fput X st req dir ip clk fs = (st', fs', r)" and ok: "r = Ret (Inr v)"
  shows "0 < fc_max_per_handle (fab_cfg st) \<Longrightarrow> clk 4 < pointer_deadline (req_bytes X (str_or (get_str req ''pointer_hex'') [])) \<Longrightarrow>
      req_bytes X (str_or (get_str req ''pointer_hex'') []) \<in> q_pointer ` set (queue_of (fab_queues st') (req_handle X req))"
    "k \<noteq> req_handle X req \<Longrightarrow> map_of (fab_queues st') k = map_of (fab_queues st) k"
proof -
  show "req_bytes X (str_or (get_str req ''pointer_hex'') []) \<in> q_pointer ` set (queue_of (fab_queues st') (req_handle X req))"
    if "0 < fc_max_per_handle (fab_cfg st)" "clk 4 < pointer_deadline (req_bytes X (str_or (get_str req ''pointer_hex'') []))"
    using run [unfolded ok] that(1)
  proof (rule run_fput_queued)
    fix h0 rg p x
    assume "get_str req ''handle'' = Some h0"
      and d: "Option.bind (get_str req ''pointer_hex'') (\<lambda>s. case hex_crate_decode X s of Inr b \<Rightarrow> Some b | Inl _ \<Rightarrow> None) = Some p"
      and x: "clk 4 < pointer_deadline p \<Longrightarrow> x \<in> set (queue_of (fab_queues st') (to_lowercase (uni_lower X) h0))" "q_pointer x = p"
    moreover have "req_bytes X (str_or (get_str req ''pointer_hex'') []) = p"
      using d by (cases "get_str req ''pointer_hex''") (auto simp: req_bytes_def split: sum.splits)
    ultimately show ?thesis using that(2) by (force simp: req_handle_def)
  qed
  show "map_of (fab_queues st') k = map_of (fab_queues st) k" if "k \<noteq> req_handle X req"
    using run by (cases rule: run_fput_cases) (use that in \<open>auto simp: update_conv' req_handle_def\<close>)
qed

lemma run_fput_ok_iff:
  assumes "hex_law X" "reg_wf X st" and run: "run_fput X st req dir ip clk fs = (st', fs', r)"
  shows "(\<exists>v. r = Ret (Inr v)) \<longleftrightarrow>
    live_reg st (req_handle X req) (clk 0) \<noteq> None \<and> length (str_or (get_str req ''handle'') []) = 64 \<and>
    snd (rl_allow (fab_fput_limiter st) ip (clk 1)) \<and>
    length (str_or (get_str req ''pointer_hex'') []) = 148 \<and>
    pointer_ok (req_bytes X (str_or (get_str req ''pointer_hex'') [])) (clk 2) (fc_max_deadline_horizon_sec (fab_cfg st)) \<and>
    snd (persist_envelope dir (hex_encode X (sha256 X (marshal_envelope (new_envelope X req (clk 3)))))
      (marshal_envelope (new_envelope X req (clk 3))) fs) = Inr ()"
    (is "_ \<longleftrightarrow> ?ok")
proof
  assume "\<exists>v. r = Ret (Inr v)"
  with run show ?ok
  proof (cases rule: run_fput_cases)
    case (queued h0 h rg lim ptr_hex env cid fs1 q1 fs2 q2)
    have "length ptr_hex = 148"
      using unhexs_length [of ptr_hex "e_pointer env"] queued(7,8) assms(1)
      by (simp add: hex_law_decode pointer_ok_def POINTER_LEN_def)
    moreover have "length h0 = 64"
      using run queued(1,17) by (auto simp: run_fput_def split: if_splits)
    moreover have "new_envelope X req (clk 3) = env"
      using queued(1,2,6,7,9,11) by (simp add: new_envelope_def req_handle_def req_bytes_def)
    ultimately show ?ok using queued
      by (auto simp: live_reg_def req_handle_def req_bytes_def)
  qed auto
next
  assume ok: ?ok
  then obtain rg where rg: "map_of (fab_reg st) (req_handle X req) = Some rg" "clk 0 < reg_expires rg"
    by (auto simp: live_reg_def split: option.splits if_splits)
  from ok obtain h0 where h0: "get_str req ''handle'' = Some h0" "length h0 = 64"
    by (cases "get_str req ''handle''") auto
  from ok obtain ph where ph: "get_str req ''pointer_hex'' = Some ph" "length ph = 148"
    by (cases "get_str req ''pointer_hex''") auto
  from ok ph obtain p where p: "hex_crate_decode X ph = Inr p" "pointer_ok p (clk 2) (fc_max_deadline_horizon_sec (fab_cfg st))"
    by (cases "hex_crate_decode X ph") (auto simp: req_bytes_def pointer_ok_def POINTER_LEN_def)
  have "handle_canon X (req_handle X req)" using reg_wf_key [OF assms(2) rg(1)] .
  then obtain hb where hb: "hex_crate_decode X (req_handle X req) = Inr hb" "length hb = 32"
    by (auto simp: handle_canon_def split: sum.splits)
  have key: "to_lowercase (uni_lower X) h0 = req_handle X req" using h0 by (simp add: req_handle_def)
  have d: "clk 2 < pointer_deadline p" "pointer_deadline p \<le> clk 2 + fc_max_deadline_horizon_sec (fab_cfg st)"
    "length p = 74" "p ! 0 = 1" "p ! Suc 0 = 0" using p(2) by (simp_all add: pointer_ok_def POINTER_LEN_def)
  then have d0: "pointer_deadline p \<noteq> 0" by (metis not_less_zero word_zero_le word_le_less_eq leD)
  have env: "new_envelope X req (clk 3) = \<lparr>e_handle = hb, e_pointer = p, e_received_at = clk 3\<rparr>"
    using hb(1) ph(1) p(1) by (simp add: new_envelope_def req_bytes_def)
  let ?raw = "marshal_envelope \<lparr>e_handle = hb, e_pointer = p, e_received_at = clk 3\<rparr>"
  obtain lim where al: "rl_allow (fab_fput_limiter st) ip (clk 1) = (lim, True)"
    using ok by (cases "rl_allow (fab_fput_limiter st) ip (clk 1)") auto
  obtain fs1 where pe: "persist_envelope dir (hex_encode X (sha256 X ?raw)) ?raw fs = (fs1, Inr ())"
    using ok unfolding env by (cases "persist_envelope dir (hex_encode X (sha256 X ?raw)) ?raw fs") auto
  have "\<not> reg_expires rg \<le> clk 0" "\<not> pointer_deadline p \<le> clk 2"
    "\<not> pointer_deadline p > clk 2 + fc_max_deadline_horizon_sec (fab_cfg st)" using rg(2) d(1,2) by auto
  moreover have "p ! 1 = 0" using d(5) by simp
  ultimately show "\<exists>v. r = Ret (Inr v)"
    using run h0 ph p(1) rg(1) hb d(3-5) d0 key al pe
    by (auto simp: run_fput_def POINTER_LEN_def Let_def simp del: One_nat_def split: prod.splits)
qed

text \<open>The other handles' queues are never touched.\<close>

lemma run_fput_other:
  assumes run: "run_fput X st req dir ip clk fs = (st', fs', r)"
    and k: "\<And>h0. get_str req ''handle'' = Some h0 \<Longrightarrow> k \<noteq> to_lowercase (uni_lower X) h0"
  shows "map_of (fab_queues st') k = map_of (fab_queues st) k"
  using run by (cases rule: run_fput_cases) (use k in \<open>auto simp: update_conv'\<close>)

section \<open>fpop\<close>

definition pop_max :: "json \<Rightarrow> nat" where
  "pop_max req = unat (min (u64_or (get_u64 req ''max'') 8) 64)"

lemma pop_max_le: "pop_max req \<le> 64"
proof -
  have "min (u64_or (get_u64 req ''max'') 8) 64 \<le> (64 :: u64)" by simp
  then show ?thesis unfolding pop_max_def word_le_nat_alt by simp
qed

lemma run_fpop_cases:
  assumes run: "run_fpop X st req dir ip clk fs = (st', fs', r)"
  obtains (refused) lim e where "st' = st\<lparr>fab_fput_limiter := lim\<rparr>" "fs' = fs" "r = Inl e"
  | (popped) h0 h rg lim taken rest out where "get_str req ''handle'' = Some h0"
      "h = to_lowercase (uni_lower X) h0" "map_of (fab_reg st) h = Some rg" "clk 1 < reg_expires rg"
      "str_or (get_str req ''token'') [] = reg_token rg"
      "queue_of (fab_queues st) h = taken @ rest" "fs' = drops dir taken fs"
      "out = handed X (clk 2) taken" "length out \<le> pop_max req" "rest = [] \<or> length out = pop_max req"
      "fab_reg st' = fab_reg st" "fab_cfg st' = fab_cfg st" "fab_fput_limiter st' = lim"
      "fab_queues st' = (if h \<in> dom (map_of (fab_queues st)) then AList.update h rest (fab_queues st) else fab_queues st)"
      "r = Inr (Object [(''pointers'', Array (map String out))])"
proof -
  have ref: "st' = st\<lparr>fab_fput_limiter := lim\<rparr> \<Longrightarrow> fs' = fs \<Longrightarrow> r = Inl e \<Longrightarrow> thesis" for lim e
    by (rule refused)
  have ref0: "st' = st \<Longrightarrow> fs' = fs \<Longrightarrow> r = Inl e \<Longrightarrow> thesis" for e
    by (rule refused [of "fab_fput_limiter st"]) simp_all
  obtain lim b where al: "rl_allow (fab_fput_limiter st) ip (clk 0) = (lim, b)"
    by (cases "rl_allow (fab_fput_limiter st) ip (clk 0)")
  consider (none) "get_str req ''handle'' = None"
    | (len) h0 where "get_str req ''handle'' = Some h0" "length h0 \<noteq> 64"
    | (limited) h0 where "get_str req ''handle'' = Some h0" "length h0 = 64" "\<not> b"
    | (unknown) h0 where "get_str req ''handle'' = Some h0" "length h0 = 64" b
        "map_of (fab_reg st) (to_lowercase (uni_lower X) h0) = None"
    | (token) h0 rg where "get_str req ''handle'' = Some h0" "length h0 = 64" b
        "map_of (fab_reg st) (to_lowercase (uni_lower X) h0) = Some rg"
        "reg_expires rg \<le> clk 1 \<or> \<not> ct_eq (reg_token rg) (str_or (get_str req ''token'') [])"
    | (ok) h0 rg where "get_str req ''handle'' = Some h0" "length h0 = 64" b
        "map_of (fab_reg st) (to_lowercase (uni_lower X) h0) = Some rg"
        "\<not> (reg_expires rg \<le> clk 1 \<or> \<not> ct_eq (reg_token rg) (str_or (get_str req ''token'') []))"
    by (metis not_None_eq)
  then show thesis
  proof cases
    case ok
    let ?h = "to_lowercase (uni_lower X) h0"
    note guards = ok(1-4) ok(5)
    show thesis
    proof (cases "map_of (fab_queues st) ?h")
      case None
      with run guards al show thesis
        by (intro popped [OF ok(1) refl ok(4), of "[]" "[]" "[]" lim])
          (auto simp: run_fpop_def queue_of_def)
    next
      case (Some q)
      obtain q' fs1 out where d: "drain X dir (clk 2) (pop_max req) q fs [] = (q', fs1, out)"
        by (cases "drain X dir (clk 2) (pop_max req) q fs []")
      have res: "st' = st\<lparr>fab_fput_limiter := lim, fab_queues := AList.update ?h q' (fab_queues st)\<rparr>"
        "fs' = fs1" "r = Inr (Object [(''pointers'', Array (map String out))])"
        using run guards al Some d by (auto simp: run_fpop_def pop_max_def Let_def)
      from d show thesis
      proof (rule drain_eq)
        fix taken assume "q = taken @ q'" "fs1 = drops dir taken fs" "out = [] @ handed X (clk 2) taken"
          "length out \<le> pop_max req" "q' = [] \<or> length out = pop_max req"
        then show thesis using guards res Some
          by (intro popped [OF ok(1) refl ok(4), of taken q' out lim]) (auto simp: queue_of_def)
      qed simp
    qed
  qed (use run al in \<open>auto simp: run_fpop_def Let_def intro: ref ref0\<close>)
qed

lemma run_fpop_keeps [keeps]:
  assumes "run_fpop X st req dir ip clk fs = (st', fs', r)"
  shows "fab_cfg st' = fab_cfg st" "fab_reg st' = fab_reg st"
  using assms by (cases rule: run_fpop_cases; simp)+

lemma run_fpop_index_ok:
  assumes ok: "index_ok X dir (fab_queues st) fs"
    and run: "run_fpop X st req dir ip clk fs = (st', fs', r)"
  shows "index_ok X dir (fab_queues st') fs'"
  using run
proof (cases rule: run_fpop_cases)
  case (popped h0 h rg lim taken rest out)
  show ?thesis
  proof (cases "h \<in> dom (map_of (fab_queues st))")
    case True
    have "queue_ok X dir fs h (taken @ rest)" using index_ok_queue [OF ok, of h] popped(6) by simp
    then show ?thesis using True popped(7,14) by (auto intro: index_ok_take [OF ok])
  next
    case False
    then have "taken = []" using popped(6) by (simp add: queue_of_def domIff)
    then show ?thesis using False popped(7,14) ok by simp
  qed
qed (use ok in simp_all)

lemma run_fpop_bounded:
  assumes run: "run_fpop X st req dir ip clk fs = (st', fs', r)" and b: "queues_bounded st"
  shows "queues_bounded st'"
  using run
proof (cases rule: run_fpop_cases)
  case (popped h0 h rg lim taken rest out)
  have "length rest \<le> fc_max_per_handle (fab_cfg st)"
    using queues_bounded_of [OF b, of h] popped(6) by simp
  then show ?thesis using b popped(12,14)
    by (auto simp: queues_bounded_def distinct_update intro!: list_all_update)
qed (use b in \<open>simp_all add: queues_bounded_def\<close>)

lemma run_fpop_other:
  assumes run: "run_fpop X st req dir ip clk fs = (st', fs', r)"
    and k: "\<And>h0. get_str req ''handle'' = Some h0 \<Longrightarrow> k \<noteq> to_lowercase (uni_lower X) h0"
  shows "map_of (fab_queues st') k = map_of (fab_queues st) k"
  using run by (cases rule: run_fpop_cases) (use k in \<open>auto simp: update_conv'\<close>)

lemma run_fpop_queue:
  assumes run: "run_fpop X st req dir ip clk fs = (st', fs', Inr v)"
  obtains h0 rg taken where "get_str req ''handle'' = Some h0"
    "map_of (fab_reg st) (to_lowercase (uni_lower X) h0) = Some rg" "clk 1 < reg_expires rg"
    "str_or (get_str req ''token'') [] = reg_token rg"
    "queue_of (fab_queues st) (to_lowercase (uni_lower X) h0) =
       taken @ queue_of (fab_queues st') (to_lowercase (uni_lower X) h0)"
    "fs' = drops dir taken fs"
    "v = Object [(''pointers'', Array (map String (handed X (clk 2) taken)))]"
    "length (handed X (clk 2) taken) \<le> pop_max req"
    "queue_of (fab_queues st') (to_lowercase (uni_lower X) h0) = [] \<or>
       length (handed X (clk 2) taken) = pop_max req"
  using run
proof (cases rule: run_fpop_cases)
  case (popped h0 h rg lim taken rest out)
  have "queue_of (fab_queues st') h = rest"
    using popped(6,14) by (auto simp: queue_of_def update_conv' split: option.splits)
  then show thesis using that [of h0 rg taken] popped by simp
qed simp

end
