(* ===== verification/Fabric_Restart.thy ===== *)
theory Fabric_Restart
  imports Fabric_Verbs
begin

text \<open>
  Restart. \<open>FabricState::open\<close> rebuilds the queues from the envelope files; what it loads
  from one directory entry is \<open>open_item\<close>. \<open>no_orphans\<close> is the other half of the agreement
  between index and disk: every envelope file belongs to a queued pointer.
\<close>

section \<open>Envelope file names\<close>

lemma hexs_no_dot: "CHR ''.'' \<notin> set (hexs b)"
  using hexdig_facts(6) by (fastforce dest: set_hexs)

lemma hexs_no_slash: "CHR ''/'' \<notin> set (hexs b)"
  using hexdig_facts(5) by (fastforce dest: set_hexs)

lemma path_extension_dot:
  assumes "CHR ''.'' \<notin> set e" "s \<noteq> []" "e \<noteq> []"
  shows "path_extension (s @ CHR ''.'' # e) = Some e"
proof -
  have "takeWhile (\<lambda>c. c \<noteq> CHR ''.'') (rev (s @ CHR ''.'' # e)) = rev e"
    using assms(1) by (simp add: takeWhile_append1 takeWhile_append2 takeWhile_eq_all_conv [THEN iffD2])
      (simp add: takeWhile_append)
  moreover have "s @ CHR ''.'' # e \<noteq> ''..''"
  proof
    assume "s @ CHR ''.'' # e = ''..''"
    then have "length s + length e = 1" by (auto dest!: arg_cong [where f = length])
    then show False using assms(2,3) by (cases s; cases e) auto
  qed
  ultimately show ?thesis using assms by (simp add: path_extension_def Let_def)
qed

lemma trim_fenv: "CHR ''.'' \<notin> set s \<Longrightarrow> trim_end_matches ''.fenv'' (s @ ''.fenv'') = s"
proof -
  assume "CHR ''.'' \<notin> set s"
  then have "\<not> ends_with s ''.fenv''" by (auto dest!: ends_withD)
  then show ?thesis
    by (subst trim_end_matches.simps) (simp add: trim_end_matches.simps [of _ s])
qed

lemma lossy_ascii: "list_all (\<lambda>b. b < 0x80) bs \<Longrightarrow> lossy bs = bs"
  by (induction bs) (auto simp: utf8_step_def)

lemma from_utf8_lossy_ascii: "ascii_str s \<Longrightarrow> from_utf8_lossy (str_bytes s) = s"
  by (simp add: from_utf8_lossy_def lossy_ascii ascii_str_def str_bytes_def list.pred_map comp_def)
    (simp flip: str_bytes_def)

lemma fenv_name:
  assumes "b \<noteq> []"
  shows "path_extension (hexs b @ ''.fenv'') = Some ''fenv''"
    "trim_end_matches ''.fenv'' (from_utf8_lossy (str_bytes (hexs b @ ''.fenv''))) = hexs b"
    "fenv_path dir (hexs b) = file_path dir (hexs b @ ''.fenv'')"
    "path_extension (hexs b @ ''.tmp'') = Some ''tmp''"
    "fenv_tmp_path dir (hexs b) = file_path dir (hexs b @ ''.tmp'')"
proof -
  have ne: "hexs b \<noteq> []" using assms by (cases b) auto
  show "path_extension (hexs b @ ''.fenv'') = Some ''fenv''" "path_extension (hexs b @ ''.tmp'') = Some ''tmp''"
    using ne path_extension_dot [of "''fenv''" "hexs b"] path_extension_dot [of "''tmp''" "hexs b"] by simp_all
  have a: "ascii_str (hexs b @ ''.fenv'')"
    unfolding ascii_str_simps(3) using ascii_hexs [of b] by (auto simp: ascii_str_def intro!: byte_of_ascii)
  show "trim_end_matches ''.fenv'' (from_utf8_lossy (str_bytes (hexs b @ ''.fenv''))) = hexs b"
    unfolding from_utf8_lossy_ascii [OF a] by (rule trim_fenv) (rule hexs_no_dot)
  show "fenv_path dir (hexs b) = file_path dir (hexs b @ ''.fenv'')"
    "fenv_tmp_path dir (hexs b) = file_path dir (hexs b @ ''.tmp'')"
    by (simp_all add: fenv_path_def fenv_tmp_path_def file_path_def)
qed

section \<open>What one entry loads\<close>

text \<open>The envelope a directory entry holds, and the queue entry that \<open>open\<close> makes of it.\<close>

definition env_at :: "path \<Rightarrow> fsys \<Rightarrow> string \<Rightarrow> envelope option" where
  "env_at dir fs n =
     (if path_extension n \<noteq> Some ''fenv'' then None
      else case fs_read (file_path dir n) fs of Inl _ \<Rightarrow> None
      | Inr raw \<Rightarrow> (case parse_envelope raw of Inl _ \<Rightarrow> None | Inr e \<Rightarrow> Some e))"

definition open_item :: "ext \<Rightarrow> path \<Rightarrow> fabric_config \<Rightarrow> u64 \<Rightarrow> u64 \<Rightarrow> fsys \<Rightarrow> string \<Rightarrow> (string \<times> queued) option" where
  "open_item X dir cfg t1 t2 fs n =
     (case env_at dir fs n of None \<Rightarrow> None
      | Some e \<Rightarrow>
          let d = pointer_deadline (e_pointer e) in
          if d \<le> t1 \<or> d > t2 + fc_max_deadline_horizon_sec cfg then None
          else Some (hex_encode X (e_handle e),
            \<lparr>q_pointer = e_pointer e,
             q_env_cid_hex = trim_end_matches ''.fenv'' (from_utf8_lossy (str_bytes n)),
             q_deadline = d, q_received_at = e_received_at e\<rparr>))"

fun open_items :: "ext \<Rightarrow> path \<Rightarrow> fabric_config \<Rightarrow> clock \<Rightarrow> nat \<Rightarrow> string list \<Rightarrow> fsys \<Rightarrow> (string \<times> queued) list" where
  "open_items X dir cfg clk i [] fs = []"
| "open_items X dir cfg clk i (n # ns) fs =
     (case open_item X dir cfg (clk i) (clk (i + 1)) fs n of None \<Rightarrow> [] | Some e \<Rightarrow> [e])
     @ open_items X dir cfg clk (i + 2) ns fs"

text \<open>The loop body: what is loaded keeps its file; another file is left alone or removed.\<close>

lemma open_entry_snd:
  "snd (open_entry X dir cfg t1 t2 n (fs, qs)) =
     (case open_item X dir cfg t1 t2 fs n of None \<Rightarrow> qs
      | Some (h, x) \<Rightarrow> AList.update h (queue_of qs h @ [x]) qs)"
  by (auto simp: open_entry_def open_item_def env_at_def Let_def split: sum.splits)

lemma open_entry_fst:
  "fst (open_entry X dir cfg t1 t2 n (fs, qs)) \<in> {fs, fs_remove (file_path dir n) fs}"
  "open_item X dir cfg t1 t2 fs n = Some e \<Longrightarrow> fst (open_entry X dir cfg t1 t2 n (fs, qs)) = fs"
  "open_item X dir cfg t1 t2 fs n = None \<Longrightarrow> env_at dir fs n \<noteq> None \<Longrightarrow>
     fst (open_entry X dir cfg t1 t2 n (fs, qs)) = fs_remove (file_path dir n) fs"
  by (auto simp: open_entry_def open_item_def env_at_def Let_def split: sum.splits if_splits)

lemma env_at_cong:
  "fs_lookup fs (file_path dir n) = fs_lookup fs' (file_path dir n) \<Longrightarrow> fs_faults fs = fs_faults fs' \<Longrightarrow>
   env_at dir fs n = env_at dir fs' n"
  by (auto simp: env_at_def fs_read_def split: option.splits)

lemma open_items_cong:
  "(\<And>n. n \<in> set ns \<Longrightarrow> env_at dir fs n = env_at dir fs' n) \<Longrightarrow>
   open_items X dir cfg clk i ns fs = open_items X dir cfg clk i ns fs'"
  by (induction ns arbitrary: i) (auto simp: open_item_def)

lemma open_entry_frame:
  assumes "fs1 = fst (open_entry X dir cfg t1 t2 n (fs, qs))"
  shows "fs_faults fs1 = fs_faults fs" "p \<noteq> file_path dir n \<Longrightarrow> fs_lookup fs1 p = fs_lookup fs p"
    "fs_lookup fs1 p = Some f \<Longrightarrow> fs_lookup fs p = Some f"
  using open_entry_fst(1) [of X dir cfg t1 t2 n fs qs] unfolding assms
  by (auto simp: fs_remove_other dest: fs_remove_sub)

lemma queue_of_update: "queue_of (AList.update h q qs) k = (if k = h then q else queue_of qs k)"
  by (simp add: queue_of_def update_conv')

lemma open_loop_Cons:
  "open_loop X dir cfg clk i (n # ns) (fs, qs) =
     open_loop X dir cfg clk (i + 2) ns
       (fst (open_entry X dir cfg (clk i) (clk (i + 1)) n (fs, qs)),
        case open_item X dir cfg (clk i) (clk (i + 1)) fs n of None \<Rightarrow> qs
        | Some (h, x) \<Rightarrow> AList.update h (queue_of qs h @ [x]) qs)"
  by (simp flip: open_entry_snd)

lemma open_items_frame:
  assumes "n \<notin> set ns" "fs1 = fst (open_entry X dir cfg t1 t2 n (fs, qs))"
  shows "open_items X dir cfg clk i ns fs1 = open_items X dir cfg clk i ns fs"
proof (rule open_items_cong)
  fix m assume "m \<in> set ns"
  then have "m \<noteq> n" using assms by auto
  then show "env_at dir fs1 m = env_at dir fs m"
    using open_entry_frame(1,2) [OF assms(2)] by (intro env_at_cong) simp_all
qed

lemma open_loop_queue:
  "distinct ns \<Longrightarrow> queue_of (snd (open_loop X dir cfg clk i ns (fs, qs))) h =
     queue_of qs h @ map snd (filter (\<lambda>e. fst e = h) (open_items X dir cfg clk i ns fs))"
proof (induction ns arbitrary: i fs qs)
  case (Cons n ns)
  let ?fs = "fst (open_entry X dir cfg (clk i) (clk (i + 1)) n (fs, qs))"
  have "open_items X dir cfg clk (i + 2) ns ?fs = open_items X dir cfg clk (i + 2) ns fs"
    using Cons.prems by (intro open_items_frame) simp_all
  then show ?case
    using Cons unfolding open_loop_Cons
    by (auto simp: queue_of_update simp del: add_2_eq_Suc' split: option.split)
qed simp

text \<open>The files after the loop: a subset; loaded ones stay, the other readable envelopes go.\<close>

lemma open_loop_sub:
  "fs_lookup (fst (open_loop X dir cfg clk i ns (fs, qs))) p = Some f \<Longrightarrow> fs_lookup fs p = Some f"
proof (induction ns arbitrary: i fs qs)
  case (Cons n ns)
  then show ?case unfolding open_loop_Cons using open_entry_frame(3) [OF refl] by blast
qed simp

lemma open_loop_outside:
  "p \<notin> file_path dir ` set ns \<Longrightarrow>
     fs_lookup (fst (open_loop X dir cfg clk i ns (fs, qs))) p = fs_lookup fs p"
proof (induction ns arbitrary: i fs qs)
  case (Cons n ns)
  then show ?case unfolding open_loop_Cons using open_entry_frame(2) [OF refl] by simp
qed simp

lemma open_loop_faults [simp]: "fs_faults (fst (open_loop X dir cfg clk i ns (fs, qs))) = fs_faults fs"
proof (induction ns arbitrary: i fs qs)
  case (Cons n ns)
  then show ?case unfolding open_loop_Cons using open_entry_frame(1) [OF refl] by simp
qed simp

text \<open>The step for a name further down the list.\<close>

lemma open_entry_later:
  assumes "m \<noteq> n" "fs1 = fst (open_entry X dir cfg t1 t2 n (fs, qs))"
  shows "fs_lookup fs1 (file_path dir m) = fs_lookup fs (file_path dir m)"
    "open_item X dir cfg t1' t2' fs1 m = open_item X dir cfg t1' t2' fs m" "env_at dir fs1 m = env_at dir fs m"
proof -
  note F = open_entry_frame(1,2) [OF assms(2)]
  show "fs_lookup fs1 (file_path dir m) = fs_lookup fs (file_path dir m)" using F(2) assms(1) by simp
  then show e: "env_at dir fs1 m = env_at dir fs m" using F(1) by (intro env_at_cong)
  then show "open_item X dir cfg t1' t2' fs1 m = open_item X dir cfg t1' t2' fs m" by (simp add: open_item_def)
qed

lemma open_loop_kept:
  "distinct ns \<Longrightarrow> j < length ns \<Longrightarrow>
   open_item X dir cfg (clk (i + 2 * j)) (clk (i + 2 * j + 1)) fs (ns ! j) = Some e \<Longrightarrow>
   fs_lookup (fst (open_loop X dir cfg clk i ns (fs, qs))) (file_path dir (ns ! j)) =
     fs_lookup fs (file_path dir (ns ! j))"
proof (induction ns arbitrary: i j fs qs)
  case (Cons n ns)
  show ?case
  proof (cases j)
    case 0
    then have "open_item X dir cfg (clk i) (clk (i + 1)) fs n = Some e" using Cons.prems(3) by simp
    then have "fst (open_entry X dir cfg (clk i) (clk (i + 1)) n (fs, qs)) = fs" by (rule open_entry_fst(2))
    moreover have "file_path dir n \<notin> file_path dir ` set ns" using Cons.prems by auto
    ultimately show ?thesis using 0 open_loop_outside unfolding open_loop_Cons by simp
  next
    case (Suc k)
    then have k: "k < length ns" "distinct ns" "ns ! k \<noteq> n" using Cons.prems by auto
    note L = open_entry_later [OF k(3) refl]
    show ?thesis
      using Cons.IH [OF k(2,1), of "i + 2" "fst (open_entry X dir cfg (clk i) (clk (i + 1)) n (fs, qs))"]
        Cons.prems(3) Suc L unfolding open_loop_Cons by simp
  qed
qed simp

lemma open_loop_removed:
  "distinct ns \<Longrightarrow> j < length ns \<Longrightarrow>
   open_item X dir cfg (clk (i + 2 * j)) (clk (i + 2 * j + 1)) fs (ns ! j) = None \<Longrightarrow>
   env_at dir fs (ns ! j) \<noteq> None \<Longrightarrow> \<not> flt_remove (fs_faults fs) (file_path dir (ns ! j)) \<Longrightarrow>
   fs_lookup (fst (open_loop X dir cfg clk i ns (fs, qs))) (file_path dir (ns ! j)) = None"
proof (induction ns arbitrary: i j fs qs)
  case (Cons n ns)
  let ?fs = "fst (open_entry X dir cfg (clk i) (clk (i + 1)) n (fs, qs))"
  show ?case
  proof (cases j)
    case 0
    then have "?fs = fs_remove (file_path dir n) fs"
      using Cons.prems open_entry_fst(3) by simp
    then have "fs_lookup ?fs (file_path dir n) = None" using Cons.prems 0 by (simp add: fs_remove_gone)
    then have "fs_lookup (fst (open_loop X dir cfg clk i (n # ns) (fs, qs))) (file_path dir n) \<noteq> Some f" for f
      unfolding open_loop_Cons by (auto dest!: open_loop_sub)
    then show ?thesis using 0 not_None_eq by fastforce
  next
    case (Suc k)
    then have k: "k < length ns" "distinct ns" "ns ! k \<noteq> n" using Cons.prems by auto
    note L = open_entry_later [OF k(3) refl]
    have "fs_faults ?fs = fs_faults fs" by (rule open_entry_frame(1) [OF refl])
    then show ?thesis
      using Cons.IH [OF k(2,1), of "i + 2" ?fs] Cons.prems(3-5) Suc L unfolding open_loop_Cons by simp
  qed
qed simp

section \<open>Every envelope file belongs to a queued pointer\<close>

definition no_orphans :: "ext \<Rightarrow> path \<Rightarrow> (string \<times> queued list) list \<Rightarrow> fsys \<Rightarrow> bool" where
  "no_orphans X dir qs fs \<longleftrightarrow>
     (\<forall>n f e. fs_lookup fs (file_path dir n) = Some f \<longrightarrow> path_extension n = Some ''fenv'' \<longrightarrow>
        parse_envelope (f_data f) = Inr e \<longrightarrow>
        (\<exists>x\<in>set (queue_of qs (hex_encode X (e_handle e))). q_file dir x = file_path dir n))"

lemma no_orphansI:
  "(\<And>n f e. fs_lookup fs (file_path dir n) = Some f \<Longrightarrow> path_extension n = Some ''fenv'' \<Longrightarrow>
      parse_envelope (f_data f) = Inr e \<Longrightarrow>
      \<exists>x\<in>set (queue_of qs (hex_encode X (e_handle e))). q_file dir x = file_path dir n) \<Longrightarrow>
   no_orphans X dir qs fs"
  by (auto simp: no_orphans_def)

lemma no_orphansD:
  "no_orphans X dir qs fs \<Longrightarrow> fs_lookup fs (file_path dir n) = Some f \<Longrightarrow> path_extension n = Some ''fenv'' \<Longrightarrow>
   parse_envelope (f_data f) = Inr e \<Longrightarrow>
   \<exists>x\<in>set (queue_of qs (hex_encode X (e_handle e))). q_file dir x = file_path dir n"
  by (auto simp: no_orphans_def)

lemma no_orphans_cong: "map_of qs = map_of qs' \<Longrightarrow> no_orphans X dir qs fs = no_orphans X dir qs' fs"
  by (simp add: no_orphans_def queue_of_def)

text \<open>Taking entries out together with their files; adding the entry of a new file.\<close>

lemma no_orphans_take:
  assumes no: "no_orphans X dir qs fs" and q: "set (queue_of qs h) \<subseteq> set ys \<union> set zs"
    and nf: "\<And>p. \<not> flt_remove (fs_faults fs) p"
  shows "no_orphans X dir (AList.update h zs qs) (drops dir ys fs)"
proof (rule no_orphansI)
  fix n f e
  assume l: "fs_lookup (drops dir ys fs) (file_path dir n) = Some f" and ext: "path_extension n = Some ''fenv''"
    and e: "parse_envelope (f_data f) = Inr e"
  from no_orphansD [OF no drops_sub [OF l] ext e] obtain x
    where x: "x \<in> set (queue_of qs (hex_encode X (e_handle e)))" "q_file dir x = file_path dir n" by blast
  have "x \<notin> set ys" using drops_gone [OF nf, of x ys dir] x(2) l by auto
  then show "\<exists>x\<in>set (queue_of (AList.update h zs qs) (hex_encode X (e_handle e))). q_file dir x = file_path dir n"
    using x q by (auto simp: queue_of_update)
qed

lemma no_orphans_add:
  assumes no: "no_orphans X dir qs fs" and sub: "set (queue_of qs h) \<subseteq> set q" and x: "x \<in> set q"
    and same: "\<And>n. file_path dir n \<noteq> q_file dir x \<Longrightarrow> path_extension n = Some ''fenv'' \<Longrightarrow>
      fs_lookup fs1 (file_path dir n) = fs_lookup fs (file_path dir n)"
    and new: "fs_lookup fs1 (q_file dir x) = Some \<lparr>f_data = marshal_envelope env, f_mtime = t\<rparr>"
    and env: "env_wf env" "hex_encode X (e_handle env) = h"
  shows "no_orphans X dir (AList.update h q qs) fs1"
proof (rule no_orphansI)
  fix n f e
  assume l: "fs_lookup fs1 (file_path dir n) = Some f" and ext: "path_extension n = Some ''fenv''"
    and e: "parse_envelope (f_data f) = Inr e"
  show "\<exists>x\<in>set (queue_of (AList.update h q qs) (hex_encode X (e_handle e))). q_file dir x = file_path dir n"
  proof (cases "file_path dir n = q_file dir x")
    case True
    with l new have "f_data f = marshal_envelope env" by auto
    with e env have "e = env" by (simp add: parse_marshal)
    then show ?thesis using True x env(2) by (force simp: queue_of_update)
  next
    case False
    from no_orphansD [OF no _ ext e] same [OF False ext] l obtain y
      where "y \<in> set (queue_of qs (hex_encode X (e_handle e)))" "q_file dir y = file_path dir n" by auto
    then show ?thesis using sub by (auto simp: queue_of_update)
  qed
qed

lemma run_fpop_no_orphans:
  assumes run: "run_fpop X st req dir ip clk fs = (st', fs', r)"
    and no: "no_orphans X dir (fab_queues st) fs" and nf: "\<And>p. \<not> flt_remove (fs_faults fs) p"
  shows "no_orphans X dir (fab_queues st') fs'"
  using run
proof (cases rule: run_fpop_cases)
  case (popped h0 h rg lim taken rest out)
  have "no_orphans X dir (AList.update h rest (fab_queues st)) fs'"
    unfolding popped(7) by (rule no_orphans_take [OF no _ nf]) (simp add: popped(6))
  moreover have "fab_queues st' = fab_queues st \<Longrightarrow> taken = []" if "h \<notin> dom (map_of (fab_queues st))"
    using that popped(6) by (simp add: queue_of_def domIff)
  ultimately show ?thesis using popped(7,14) no by (auto split: if_splits)
qed (use no in simp_all)

lemma tmp_not_fenv:
  assumes "b \<noteq> []" "path_extension n = Some ''fenv''"
  shows "file_path dir n \<noteq> fenv_tmp_path dir (hexs b)"
  using assms fenv_name(4) [OF assms(1)] by (auto simp: fenv_name(5) [OF assms(1)])

text \<open>The critical section, given that adding the new file's entry to the queue is enough.\<close>

lemma enqueue_no_orphans:
  assumes enq: "fput_enqueue dir mx ptr cid dl received (queue_of qs h) fs = (q1, fs1)"
    and add: "\<And>q x. set (queue_of qs h) \<subseteq> set q \<Longrightarrow> x \<in> set q \<Longrightarrow> q_env_cid_hex x = cid \<Longrightarrow>
      no_orphans X dir (AList.update h q qs) fs"
    and nf: "\<And>p. \<not> flt_remove (fs_faults fs) p"
  shows "no_orphans X dir (AList.update h q1 qs) fs1"
proof -
  have twice: "no_orphans X dir (AList.update h a (AList.update h b qs)) f = no_orphans X dir (AList.update h a qs) f" for a b f
    by (rule no_orphans_cong) (simp add: update_conv')
  show ?thesis
    using enq
  proof (cases rule: enqueue_cases)
    case (refreshed ys x zs)
    let ?x = "x\<lparr>q_deadline := dl, q_env_cid_hex := cid\<rparr>"
    have a: "no_orphans X dir (AList.update h (x # q1) qs) fs"
      using refreshed by (intro add [of _ ?x]) auto
    show ?thesis
    proof (cases "q_env_cid_hex x = cid")
      case False
      have "no_orphans X dir (AList.update h q1 (AList.update h (x # q1) qs)) (drops dir [x] fs)"
        by (rule no_orphans_take [OF a]) (auto simp: queue_of_update nf)
      then show ?thesis using False refreshed(4) by (simp add: twice)
    next
      case True
      have "?x \<in> set q1" "q_file dir ?x = q_file dir x" using refreshed(3) True by simp_all
      then have sub: "q_file dir ` set (queue_of (AList.update h (x # q1) qs) k) \<subseteq>
          q_file dir ` set (queue_of (AList.update h q1 qs) k)" for k
        by (auto simp: queue_of_update image_iff intro!: bexI [of _ ?x])
      have "no_orphans X dir (AList.update h q1 qs) fs"
      proof (rule no_orphansI)
        fix n f e
        assume l: "fs_lookup fs (file_path dir n) = Some f" "path_extension n = Some ''fenv''" "parse_envelope (f_data f) = Inr e"
        from no_orphansD [OF a this]
        have "file_path dir n \<in> q_file dir ` set (queue_of (AList.update h (x # q1) qs) (hex_encode X (e_handle e)))" by force
        with sub have "file_path dir n \<in> q_file dir ` set (queue_of (AList.update h q1 qs) (hex_encode X (e_handle e)))" by blast
        then show "\<exists>x\<in>set (queue_of (AList.update h q1 qs) (hex_encode X (e_handle e))). q_file dir x = file_path dir n" by force
      qed
      then show ?thesis using True refreshed(4) by simp
    qed
  next
    case (appended qq)
    have a: "no_orphans X dir (AList.update h qq qs) fs"
      by (rule add [of _ "\<lparr>q_pointer = ptr, q_env_cid_hex = cid, q_deadline = dl, q_received_at = received\<rparr>"])
        (auto simp: appended(2))
    have "no_orphans X dir (AList.update h q1 (AList.update h qq qs)) fs1"
      unfolding appended(4)
      by (rule no_orphans_take [OF a]) (auto simp: queue_of_update nf appended(3) simp flip: set_append)
    then show ?thesis by (simp add: twice)
  qed
qed

lemma run_fput_no_orphans:
  assumes run: "run_fput X st req dir ip clk fs = (st', fs', r)"
    and no: "no_orphans X dir (fab_queues st) fs" and nf: "\<And>p. \<not> flt_remove (fs_faults fs) p"
    and law: "hex_law X" "sha_law X" and wf: "reg_wf X st"
  shows "no_orphans X dir (fab_queues st') fs'"
proof -
  have ne: "sha256 X raw \<noteq> []" for raw using sha_law_length [OF law(2), of raw] by auto
  show ?thesis
    using run
  proof (cases rule: run_fput_cases)
    case (queued h0 h rg lim ptr_hex env cid fs1 q1 fs2 q2)
    let ?qs = "fab_queues st" and ?b = "sha256 X (marshal_envelope env)"
    have cid: "cid = hexs ?b" using queued(12) law(1) by (simp add: hex_law_encode)
    have wfe: "env_wf env" using queued(8,10) by (rule pointer_ok_env_wf)
    have henc: "hex_encode X (e_handle env) = h"
      using reg_wf_key [OF wf queued(3)] queued(9) by (simp add: handle_canon_def)
    have nf1: "\<not> flt_remove (fs_faults fs1) p" for p using persist_keeps [OF queued(13)] nf by simp
    have same: "fs_lookup fs1 (file_path dir n) = fs_lookup fs (file_path dir n)"
      if "file_path dir n \<noteq> fenv_path dir cid" "path_extension n = Some ''fenv''" for n
      using that tmp_not_fenv [OF ne that(2)] by (simp add: persist_ok [OF queued(13)] cid)
    have add: "no_orphans X dir (AList.update h q ?qs) fs1"
      if "set (queue_of ?qs h) \<subseteq> set q" "x \<in> set q" "q_env_cid_hex x = cid" for q x
      using no that(1,2)
      by (rule no_orphans_add [where env = env and t = "fs_now fs"])
        (use same that(3) wfe henc in \<open>simp_all add: persist_ok [OF queued(13)]\<close>)
    have mid: "no_orphans X dir (AList.update h q1 ?qs) fs2"
      using queued(14) add nf1 by (rule enqueue_no_orphans)
    have "fs_faults fs2 = fs_faults fs1"
      using queued(14) by (cases rule: enqueue_cases) auto
    then have nf2: "\<not> flt_remove (fs_faults fs2) p" for p using nf1 by simp
    have q2: "q2 = filter (\<lambda>x. clk 4 < q_deadline x) q1"
      "fs' = drops dir (filter (\<lambda>x. q_deadline x \<le> clk 4) q1) fs2"
      using queued(15) by (simp_all add: compost_eq)
    have "no_orphans X dir (AList.update h q2 (AList.update h q1 ?qs)) fs'"
      unfolding q2 by (rule no_orphans_take [OF mid _ nf2]) (auto simp: queue_of_update not_le not_less)
    then show ?thesis using queued(16)
      by (simp add: no_orphans_cong [of "AList.update h q2 (AList.update h q1 ?qs)" "AList.update h q2 ?qs"] update_conv')
  next
    case (io lim cid raw e)
    have "fs_lookup fs' (file_path dir n) = fs_lookup fs (file_path dir n)" if "path_extension n = Some ''fenv''" for n
      using persist_err [OF io(3)] tmp_not_fenv [OF ne that] io(2) law(1) by (simp add: hex_law_encode)
    then show ?thesis using io(1) by (intro no_orphansI) (use no_orphansD [OF no] in simp)
  qed (use no in simp_all)
qed

section \<open>The rebuilt index\<close>

lemma open_items_mem:
  "(h, x) \<in> set (open_items X dir cfg clk i ns fs) \<longleftrightarrow>
     (\<exists>j<length ns. open_item X dir cfg (clk (i + 2 * j)) (clk (i + 2 * j + 1)) fs (ns ! j) = Some (h, x))"
proof (induction ns arbitrary: i)
  case (Cons n ns)
  have "(\<exists>j<length (n # ns). open_item X dir cfg (clk (i + 2 * j)) (clk (i + 2 * j + 1)) fs ((n # ns) ! j) = Some (h, x)) \<longleftrightarrow>
    open_item X dir cfg (clk i) (clk (i + 1)) fs n = Some (h, x) \<or>
    (\<exists>j<length ns. open_item X dir cfg (clk (i + 2 + 2 * j)) (clk (i + 2 + 2 * j + 1)) fs (ns ! j) = Some (h, x))"
    by (simp add: Ex_less_Suc2 del: add_2_eq_Suc' add_2_eq_Suc) (simp add: algebra_simps)
  then show ?case using Cons [of "i + 2"] by (auto split: option.split)
qed simp

lemma open_item_Some:
  "open_item X dir cfg t1 t2 fs n = Some (h, x) \<longleftrightarrow>
     (\<exists>e. env_at dir fs n = Some e \<and> h = hex_encode X (e_handle e) \<and> q_pointer x = e_pointer e \<and>
       q_env_cid_hex x = trim_end_matches ''.fenv'' (from_utf8_lossy (str_bytes n)) \<and>
       q_deadline x = pointer_deadline (e_pointer e) \<and> q_received_at x = e_received_at e \<and>
       t1 < q_deadline x \<and> q_deadline x \<le> t2 + fc_max_deadline_horizon_sec cfg)"
  by (cases x) (auto simp: open_item_def Let_def not_le not_less split: option.splits)

lemma fs_read_dir_distinct: "fs_wf fs \<Longrightarrow> fs_read_dir dir fs = Some ns \<Longrightarrow> distinct ns"
proof -
  have "distinct (map fst m) \<Longrightarrow> distinct (List.map_filter (\<lambda>(p, f). entry_name dir p) m)" for m :: "(path \<times> fnode) list"
  proof (induction m)
    case (Cons e m)
    then show ?case
      by (force simp: List.map_filter_simps mem_map_filter entry_name_Some split: option.splits prod.splits)
  qed (simp add: List.map_filter_simps)
  then show "fs_wf fs \<Longrightarrow> fs_read_dir dir fs = Some ns \<Longrightarrow> distinct ns"
    by (auto simp: fs_wf_def fs_read_dir_def split: if_splits)
qed

text \<open>Queue contents up to the receipt time, which a refresh leaves behind the file's.\<close>

definition q_sig :: "queued \<Rightarrow> bytes \<times> string \<times> u64" where
  "q_sig x = (q_pointer x, q_env_cid_hex x, q_deadline x)"

definition readable :: "path \<Rightarrow> fsys \<Rightarrow> bool" where
  "readable dir fs \<longleftrightarrow> fs_wf fs \<and> \<not> flt_readdir (fs_faults fs) dir \<and> (\<forall>p. flt_read (fs_faults fs) p = None)"

lemma fabric_open_queue:
  assumes "readable dir fs" "fabric_open X dir cfg clk fs = (fs', st')"
  obtains ns where "fs_read_dir dir fs = Some ns" "distinct ns"
    "fs' = fst (open_loop X dir cfg clk 0 ns (fs, []))"
    "\<And>h. queue_of (fab_queues st') h =
       sort_key q_key (map snd (filter (\<lambda>e. fst e = h) (open_items X dir cfg clk 0 ns fs)))"
proof -
  obtain ns where ns: "fs_read_dir dir fs = Some ns" using assms(1) by (auto simp: readable_def fs_read_dir_def)
  have d: "distinct ns" using fs_read_dir_distinct ns assms(1) by (auto simp: readable_def)
  have q: "queue_of (map (\<lambda>(h, q). (h, sort_key q_key q)) qs) h = sort_key q_key (queue_of qs h)" for qs :: "(string \<times> queued list) list" and h
    by (induction qs) (auto simp: queue_of_def)
  show thesis
    by (rule that [OF ns d])
      (use assms(2) ns open_loop_queue [OF d, of X dir cfg clk 0 fs "[]"]
        in \<open>auto simp: fabric_open_def split_beta q queue_of_def [of "[]"]\<close>)
qed

text \<open>Nothing is invented: every entry of the rebuilt queue was in the queue before.\<close>

lemma env_at_Some:
  "env_at dir fs n = Some e \<Longrightarrow> \<exists>f. fs_lookup fs (file_path dir n) = Some f \<and>
     path_extension n = Some ''fenv'' \<and> parse_envelope (f_data f) = Inr e"
  by (auto simp: env_at_def fs_read_def split: if_splits option.splits sum.splits)

lemma item_entry:
  assumes law: "hex_law X" "sha_law X" and ok: "index_ok X dir qs fs" and no: "no_orphans X dir qs fs"
    and item: "open_item X dir cfg t1 t2 fs n = Some (h, x)"
  obtains y e where "y \<in> set (queue_of qs h)" "q_sig y = q_sig x" "q_file dir y = file_path dir n"
    "backs X dir fs h y e" "env_at dir fs n = Some e"
proof -
  from item obtain e where e: "env_at dir fs n = Some e" "h = hex_encode X (e_handle e)" "q_pointer x = e_pointer e"
    "q_env_cid_hex x = trim_end_matches ''.fenv'' (from_utf8_lossy (str_bytes n))"
    "q_deadline x = pointer_deadline (e_pointer e)"
    unfolding open_item_Some by blast
  from env_at_Some [OF e(1)] obtain f where f: "fs_lookup fs (file_path dir n) = Some f"
    "path_extension n = Some ''fenv''" "parse_envelope (f_data f) = Inr e" by blast
  from no_orphansD [OF no f] obtain y where y: "y \<in> set (queue_of qs h)" "q_file dir y = file_path dir n"
    using e(2) by blast
  from queue_ok_backs [OF index_ok_queue [OF ok] y(1)] obtain e' where b: "backs X dir fs h y e'" ..
  then obtain f' where f': "fs_lookup fs (q_file dir y) = Some f'" "f_data f' = marshal_envelope e'" "env_wf e'"
    "e_pointer e' = q_pointer y" "q_env_cid_hex y = hex_encode X (sha256 X (marshal_envelope e'))"
    "q_deadline y = pointer_deadline (q_pointer y)" by (rule backsD)
  have "e' = e" using f(1,3) f'(1-3) y(2) by (simp add: parse_marshal)
  let ?b = "sha256 X (marshal_envelope e)"
  have ne: "?b \<noteq> []" using sha_law_length [OF law(2), of "marshal_envelope e"] by auto
  have cid: "q_env_cid_hex y = hexs ?b" using f'(5) law(1) \<open>e' = e\<close> by (simp add: hex_law_encode)
  have "n = hexs ?b @ ''.fenv''" using y(2) fenv_name(3) [OF ne, of dir] by (simp add: cid)
  then have "q_env_cid_hex x = hexs ?b" using e(4) fenv_name(2) [OF ne] by simp
  then have "q_sig y = q_sig x" using f'(4,6) e(3,5) cid \<open>e' = e\<close> by (simp add: q_sig_def)
  then show thesis using that y b e(1) \<open>e' = e\<close> by blast
qed

text \<open>Nothing is lost: an entry that has not expired is loaded from its file.\<close>

lemma entry_item:
  assumes law: "hex_law X" "sha_law X" and ok: "index_ok X dir qs fs" and rd: "readable dir fs"
    and x: "x \<in> set (queue_of qs h)" and t: "t1 < q_deadline x" "q_deadline x \<le> t2 + fc_max_deadline_horizon_sec cfg"
    and ns: "fs_read_dir dir fs = Some ns"
  obtains n x' where "n \<in> set ns" "open_item X dir cfg t1 t2 fs n = Some (h, x')" "q_sig x' = q_sig x"
proof -
  from queue_ok_backs [OF index_ok_queue [OF ok] x] obtain e where "backs X dir fs h x e" ..
  then obtain f where f: "fs_lookup fs (q_file dir x) = Some f" "f_data f = marshal_envelope e" "env_wf e"
    "hex_encode X (e_handle e) = h" "e_pointer e = q_pointer x"
    "q_env_cid_hex x = hex_encode X (sha256 X (marshal_envelope e))"
    "q_deadline x = pointer_deadline (q_pointer x)" by (rule backsD)
  let ?b = "sha256 X (marshal_envelope e)"
  let ?n = "hexs ?b @ ''.fenv''"
  have ne: "?b \<noteq> []" using sha_law_length [OF law(2), of "marshal_envelope e"] by auto
  have cid: "q_env_cid_hex x = hexs ?b" using f(6) law(1) by (simp add: hex_law_encode)
  have p: "q_file dir x = file_path dir ?n" by (simp add: cid fenv_name(3) [OF ne])
  have "?n \<in> set ns"
    unfolding fs_read_dir_mem [OF ns] using f(1) hexs_no_slash by (simp add: p)
  moreover have env: "env_at dir fs ?n = Some e"
    using f(1-3) rd fenv_name(1) [OF ne] by (simp add: env_at_def fs_read_def readable_def parse_marshal p)
  let ?x = "\<lparr>q_pointer = e_pointer e, q_env_cid_hex = hexs ?b,
    q_deadline = pointer_deadline (e_pointer e), q_received_at = e_received_at e\<rparr>"
  have "open_item X dir cfg t1 t2 fs ?n = Some (h, ?x)"
    unfolding open_item_Some using env f(4,5,7) t fenv_name(2) [OF ne] by auto
  moreover have "q_sig ?x = q_sig x" using f(5,7) cid by (simp add: q_sig_def)
  ultimately show thesis using that by blast
qed

section \<open>A restart rebuilds the queues\<close>

lemma item_pointer_inj:
  assumes law: "hex_law X" "sha_law X" and ok: "index_ok X dir qs fs" and no: "no_orphans X dir qs fs"
    and "open_item X dir cfg t1 t2 fs n = Some (h, x)" "open_item X dir cfg t1' t2' fs n' = Some (h, x')"
    and "q_pointer x = q_pointer x'"
  shows "n = n'"
proof -
  obtain y e where y: "y \<in> set (queue_of qs h)" "q_sig y = q_sig x" "q_file dir y = file_path dir n"
    using item_entry [OF law ok no assms(5)] .
  obtain y' e' where y': "y' \<in> set (queue_of qs h)" "q_sig y' = q_sig x'" "q_file dir y' = file_path dir n'"
    using item_entry [OF law ok no assms(6)] .
  have "distinct (map q_pointer (queue_of qs h))" using index_ok_queue [OF ok] by (simp add: queue_ok_def)
  then have "y = y'" using y y' assms(7) distinct_pointer_eq by (fastforce simp: q_sig_def)
  then show ?thesis using y(3) y'(3) by simp
qed

lemma open_items_distinct:
  assumes law: "hex_law X" "sha_law X" and ok: "index_ok X dir qs fs" and no: "no_orphans X dir qs fs"
  shows "distinct ns \<Longrightarrow> distinct (map q_pointer (map snd (filter (\<lambda>e. fst e = h) (open_items X dir cfg clk i ns fs))))"
proof (induction ns arbitrary: i)
  case (Cons n ns)
  have "q_pointer x \<noteq> q_pointer x'"
    if "open_item X dir cfg (clk i) (clk (i + 1)) fs n = Some (h, x)"
      "(h, x') \<in> set (open_items X dir cfg clk (i + 2) ns fs)" for x x'
  proof
    assume eq: "q_pointer x = q_pointer x'"
    from that(2) obtain j where j: "j < length ns"
      "open_item X dir cfg (clk (i + 2 + 2 * j)) (clk (i + 2 + 2 * j + 1)) fs (ns ! j) = Some (h, x')"
      unfolding open_items_mem by blast
    from item_pointer_inj [OF law ok no that(1) j(2) eq] j(1) Cons.prems show False by simp
  qed
  then show ?case using Cons.IH [of "i + 2"] Cons.prems
    by (auto simp del: add_2_eq_Suc' split: option.split)
qed simp

text \<open>A reopened queue entry comes from a file of the loop, which is still there.\<close>

lemma restart_entry:
  assumes opn: "fabric_open X dir cfg clk fs = (fs', st')" and rd: "readable dir fs"
    and x: "x \<in> set (queue_of (fab_queues st') h)"
  obtains t1 t2 n where "open_item X dir cfg t1 t2 fs n = Some (h, x)"
    "fs_lookup fs' (file_path dir n) = fs_lookup fs (file_path dir n)"
  using fabric_open_queue [OF rd opn]
proof cases
  case (1 ns)
  have "(h, x) \<in> set (open_items X dir cfg clk 0 ns fs)" using x unfolding 1(4) by auto
  then obtain j where j: "j < length ns"
    "open_item X dir cfg (clk (0 + 2 * j)) (clk (0 + 2 * j + 1)) fs (ns ! j) = Some (h, x)"
    unfolding open_items_mem by blast
  then show thesis using that [OF j(2)] open_loop_kept [OF 1(2) j] 1(3) by simp
qed

lemma restart_sound:
  assumes "hex_law X" "sha_law X" "index_ok X dir qs fs" "no_orphans X dir qs fs" "readable dir fs"
    "fabric_open X dir cfg clk fs = (fs', st')" "x \<in> set (queue_of (fab_queues st') h)"
  shows "q_sig x \<in> q_sig ` set (queue_of qs h)"
proof -
  from restart_entry [OF assms(6,5,7)] obtain t1 t2 n where "open_item X dir cfg t1 t2 fs n = Some (h, x)" by blast
  then obtain y e where "y \<in> set (queue_of qs h)" "q_sig y = q_sig x"
    using item_entry [OF assms(1-4)] by blast
  then show ?thesis by (metis imageI)
qed

lemma restart_complete:
  assumes "hex_law X" "sha_law X" "index_ok X dir qs fs" "readable dir fs"
    "fabric_open X dir cfg clk fs = (fs', st')" "x \<in> set (queue_of qs h)"
    "\<And>i. clk i < q_deadline x" "\<And>i. q_deadline x \<le> clk i + fc_max_deadline_horizon_sec cfg"
  shows "q_sig x \<in> q_sig ` set (queue_of (fab_queues st') h)"
  using fabric_open_queue [OF assms(4,5)]
proof cases
  case (1 ns)
  have "\<exists>j<length ns. \<exists>x'. open_item X dir cfg (clk (0 + 2 * j)) (clk (0 + 2 * j + 1)) fs (ns ! j) = Some (h, x') \<and>
      q_sig x' = q_sig x"
  proof -
    obtain n x' where n: "n \<in> set ns" "open_item X dir cfg (clk 0) (clk 0) fs n = Some (h, x')" "q_sig x' = q_sig x"
      using entry_item [OF assms(1-4,6) assms(7,8) 1(1), of 0 0] by blast
    then obtain j where j: "j < length ns" "ns ! j = n" by (auto simp: in_set_conv_nth)
    have "q_deadline x' = q_deadline x" using n(3) by (simp add: q_sig_def)
    then have "open_item X dir cfg (clk (0 + 2 * j)) (clk (0 + 2 * j + 1)) fs (ns ! j) = Some (h, x')"
      using n(2) assms(7,8) unfolding open_item_Some j(2) by auto
    then show ?thesis using j(1) n(3) by blast
  qed
  then obtain x' where "(h, x') \<in> set (open_items X dir cfg clk 0 ns fs)" "q_sig x' = q_sig x"
    unfolding open_items_mem by blast
  then show ?thesis unfolding 1(4) by (force simp: image_iff)
qed

lemma restart_index_ok:
  assumes law: "hex_law X" "sha_law X" and ok: "index_ok X dir qs fs" and no: "no_orphans X dir qs fs"
    and rd: "readable dir fs" and opn: "fabric_open X dir cfg clk fs = (fs', st')"
  shows "index_ok X dir (fab_queues st') fs'"
proof (rule index_okI)
  fix h q
  assume "map_of (fab_queues st') h = Some q"
  then have q: "q = queue_of (fab_queues st') h" by (simp add: queue_of_def)
  show "queue_ok X dir fs' h q"
  proof (rule queue_okI)
    from fabric_open_queue [OF rd opn] show "distinct (map q_pointer q)"
    proof cases
      case (1 ns)
      let ?is = "map snd (filter (\<lambda>e. fst e = h) (open_items X dir cfg clk 0 ns fs))"
      have "mset (map q_pointer q) = mset (map q_pointer ?is)" unfolding q 1(4) mset_map mset_sort ..
      then show ?thesis using open_items_distinct [OF law ok no 1(2), of h] mset_eq_imp_distinct_iff by blast
    qed
  next
    fix x assume "x \<in> set q"
    then obtain t1 t2 n where item: "open_item X dir cfg t1 t2 fs n = Some (h, x)"
      and same: "fs_lookup fs' (file_path dir n) = fs_lookup fs (file_path dir n)"
      using restart_entry [OF opn rd] unfolding q by blast
    obtain y e where y: "q_sig y = q_sig x" "q_file dir y = file_path dir n" "backs X dir fs h y e"
      using item_entry [OF law ok no item] by blast
    have "backs X dir fs' h x e"
      using y same by (auto simp: backs_def q_sig_def split: option.splits)
    then show "\<exists>e. backs X dir fs' h x e" ..
  qed
qed

text \<open>With the index in agreement and nothing expired, every queue comes back entire.\<close>

lemma restart_exact:
  assumes law: "hex_law X" "sha_law X" and ok: "index_ok X dir qs fs" and no: "no_orphans X dir qs fs"
    and rd: "readable dir fs" and opn: "fabric_open X dir cfg clk fs = (fs', st')"
    and alive: "\<And>x i. x \<in> set (queue_of qs h) \<Longrightarrow> clk i < q_deadline x \<and>
      q_deadline x \<le> clk i + fc_max_deadline_horizon_sec cfg"
  shows "mset (map q_sig (queue_of (fab_queues st') h)) = mset (map q_sig (queue_of qs h))"
proof -
  have d: "distinct (map q_sig q)" if "distinct (map q_pointer q)" for q
  proof -
    have "map q_pointer q = map fst (map q_sig q)" by (simp add: q_sig_def)
    with that show ?thesis by (metis distinct_map)
  qed
  have "set (map q_sig (queue_of (fab_queues st') h)) = set (map q_sig (queue_of qs h))"
    using restart_sound [OF law ok no rd opn] restart_complete [OF law ok rd opn] alive by auto
  moreover have "distinct (map q_sig (queue_of (fab_queues st') h))" "distinct (map q_sig (queue_of qs h))"
    using index_ok_queue [OF restart_index_ok [OF law ok no rd opn], of h] index_ok_queue [OF ok, of h] d
    by (simp_all add: queue_ok_def)
  ultimately show ?thesis using set_eq_iff_mset_eq_distinct by blast
qed

lemma restart_sorted:
  assumes "readable dir fs" "fabric_open X dir cfg clk fs = (fs', st')"
  shows "sorted (map q_key (queue_of (fab_queues st') h))"
  using fabric_open_queue [OF assms] by cases (simp add: sorted_sort_key)

text \<open>A restart also clears what is not indexed: a readable envelope is loaded or removed.\<close>

lemma restart_no_orphans:
  assumes law: "hex_law X" "sha_law X" and rd: "readable dir fs" and opn: "fabric_open X dir cfg clk fs = (fs', st')"
    and nf: "\<And>p. \<not> flt_remove (fs_faults fs) p" and names: "\<And>n f. fs_lookup fs (file_path dir n) = Some f \<Longrightarrow>
      path_extension n = Some ''fenv'' \<Longrightarrow> (\<exists>e. parse_envelope (f_data f) = Inr e) \<Longrightarrow>
      (\<exists>b. n = hexs b @ ''.fenv'' \<and> b \<noteq> [])"
  shows "no_orphans X dir (fab_queues st') fs'"
proof (rule no_orphansI)
  fix n f e
  assume l: "fs_lookup fs' (file_path dir n) = Some f" and ext: "path_extension n = Some ''fenv''"
    and e: "parse_envelope (f_data f) = Inr e"
  from fabric_open_queue [OF rd opn]
  show "\<exists>x\<in>set (queue_of (fab_queues st') (hex_encode X (e_handle e))). q_file dir x = file_path dir n"
  proof cases
    case (1 ns)
    have l0: "fs_lookup fs (file_path dir n) = Some f" using l open_loop_sub unfolding 1(3) by blast
    from names [OF l0 ext] e obtain b where b: "n = hexs b @ ''.fenv''" "b \<noteq> []" by blast
    have "n \<in> set ns" unfolding fs_read_dir_mem [OF 1(1)] using l0 hexs_no_slash by (auto simp: b(1))
    then obtain j where j: "j < length ns" "ns ! j = n" by (auto simp: in_set_conv_nth)
    have env: "env_at dir fs n = Some e" using l0 ext e rd by (simp add: env_at_def fs_read_def readable_def)
    obtain i where i: "open_item X dir cfg (clk (0 + 2 * j)) (clk (0 + 2 * j + 1)) fs (ns ! j) = Some i"
    proof (cases "open_item X dir cfg (clk (0 + 2 * j)) (clk (0 + 2 * j + 1)) fs (ns ! j)")
      case None
      from open_loop_removed [OF 1(2) j(1) this, of "[]"] env nf l show thesis by (simp add: j(2) 1(3))
    qed (use that in blast)
    obtain h x where "i = (h, x)" by (cases i)
    with i have "h = hex_encode X (e_handle e)" "q_env_cid_hex x = hexs b" "(h, x) \<in> set (open_items X dir cfg clk 0 ns fs)"
      using env b fenv_name(2) [OF b(2)] j unfolding open_items_mem by (auto simp: open_item_Some j(2))
    then have "x \<in> set (queue_of (fab_queues st') (hex_encode X (e_handle e)))" "q_file dir x = file_path dir n"
      unfolding 1(4) using fenv_name(3) [OF b(2), of dir] b(1) by (force simp: image_iff)+
    then show ?thesis by blast
  qed
qed

end
