(* ===== verification/Fabric_Wire.thy ===== *)
theory Fabric_Wire
  imports Fabric_Restart
begin

text \<open>
  The relay's answers on the wire. \<open>cbor_image\<close> is what a peer reads back from
  \<open>json_to_cbor\<close>: objects, arrays, strings and unsigned numbers survive; booleans do not
  (the simple values 20 and 19 are used for true and false, and the decoder reads 20 as
  false and 19 as null).
\<close>

section \<open>What json_to_cbor decodes to\<close>

fun cbor_image :: "json \<Rightarrow> json" where
  "cbor_image (Object m) = Object (obj_of (map (\<lambda>(k, v). (k, cbor_image v)) m))"
| "cbor_image (Array a) = Array (map cbor_image a)"
| "cbor_image (String t) = String t"
| "cbor_image (Number n) = Number (PosInt (u64_or (as_u64 (Number n)) 0))"
| "cbor_image (Bool b) = (if b then Bool False else Null)"
| "cbor_image Null = Null"

fun json_height :: "json \<Rightarrow> nat" where
  "json_height (Object m) = Suc (fold max (map (\<lambda>(k, v). json_height v) m) 0)"
| "json_height (Array a) = Suc (fold max (map json_height a) 0)"
| "json_height _ = 0"

fun wire_ok :: "json \<Rightarrow> bool" where
  "wire_ok (Object m) \<longleftrightarrow> length m < 2 ^ 64 \<and> list_all (\<lambda>(k, v). valid_str k \<and> length k < 2 ^ 64 \<and> wire_ok v) m"
| "wire_ok (Array a) \<longleftrightarrow> length a < 2 ^ 64 \<and> list_all wire_ok a"
| "wire_ok (String t) \<longleftrightarrow> valid_str t \<and> length t < 2 ^ 64"
| "wire_ok _ \<longleftrightarrow> True"

lemma simple_heads: "cbor_head 7 19 = [0xF3]" "cbor_head 7 20 = [0xF4]" "cbor_head 7 22 = [0xF6]"
  by (simp_all add: cbor_head_def)

lemma decodes_simple:
  "decodes X h [0xF3] Null" "decodes X h [0xF4] (Bool False)" "decodes X h [0xF6] Null"
proof -
  have "decode_value X (0xF3 # rest) d = Ret (Some (Null, 1)) \<and>
      decode_value X (0xF4 # rest) d = Ret (Some (Bool False, 1)) \<and>
      decode_value X (0xF6 # rest) d = Ret (Some (Null, 1))" if "d \<le> MAX_DEPTH" for rest d
    using that by (simp add: decode_value.simps decode_head_def Let_def)
  then show "decodes X h [0xF3] Null" "decodes X h [0xF4] (Bool False)" "decodes X h [0xF6] Null"
    by (auto intro!: decodesI)
qed

lemma fold_max_ge: "x \<in> set xs \<Longrightarrow> x \<le> fold max xs (a :: nat)"
proof (induction xs arbitrary: a)
  case (Cons y xs)
  have "b \<le> fold max xs b" for b :: nat
    by (induction xs arbitrary: b) (auto intro: order_trans [OF max.cobounded2])
  then have "y \<le> fold max xs (max y a)" using order_trans [OF max.cobounded1] by blast
  then show ?case using Cons by auto
qed simp

lemma json_to_cbor_decodes [codec]:
  "wire_ok v \<Longrightarrow> decodes X (json_height v) (json_to_cbor v) (cbor_image v)"
proof (induction v rule: json_to_cbor.induct)
  case (1 m)
  let ?kvs = "map (\<lambda>(k, v). (k, json_to_cbor v, cbor_image v)) m"
  let ?h = "fold max (map (\<lambda>(k, v). json_height v) m) 0"
  have "kv_ok X ?h (k, json_to_cbor v, cbor_image v)" if "(k, v) \<in> set m" for k v
  proof -
    have "json_height v \<le> ?h" by (rule fold_max_ge) (use that in force)
    moreover have "decodes X (json_height v) (json_to_cbor v) (cbor_image v)"
      using 1 that by (auto simp: list_all_iff)
    ultimately show ?thesis using 1 that by (auto simp: kv_ok_def list_all_iff intro: decodes_mono)
  qed
  then have "decodes X (Suc ?h) (cbor_map (length ?kvs) @ kvs_bytes ?kvs)
      (Object (obj_of (map (\<lambda>(k, bs, v). (k, v)) ?kvs)))"
    using 1 by (intro decodes_map) (auto simp: list_all_iff)
  then show ?case by (simp add: comp_def split_def)
next
  case (2 a)
  let ?h = "fold max (map json_height a) 0"
  have "list_all2 (decodes X ?h) (map json_to_cbor a) (map cbor_image a)"
    unfolding list_all2_map1 list_all2_map2
  proof (intro list_all2_same [THEN iffD2] ballI)
    fix v assume v: "v \<in> set a"
    have "json_height v \<le> ?h" by (rule fold_max_ge) (use v in force)
    moreover have "decodes X (json_height v) (json_to_cbor v) (cbor_image v)"
      using 2 v by (auto simp: list_all_iff)
    ultimately show "decodes X ?h (json_to_cbor v) (cbor_image v)" by (rule decodes_mono [rotated])
  qed
  from decodes_array [OF this] show ?case using 2 by simp
next
  case (5 b)
  then show ?case by (simp add: simple_heads decodes_simple)
next
  case 6
  then show ?case by (simp add: simple_heads decodes_simple)
qed (simp_all add: codec)

section \<open>The answers of the two faces\<close>

lemma rpc2_answer_ok:
  assumes "wire_ok v" "json_height v \<le> MAX_DEPTH" "length (rpc2_answer msg (Inr v)) < 2 ^ 64"
  shows "decode_message X (rpc2_answer msg (Inr v)) =
    Ret (Some \<lparr>rm_method = [], rm_seq = rm_seq msg, rm_error = [], rm_payload = cbor_image v\<rparr>)"
  unfolding rpc2_answer_def sum.case
  by (rule decode_message_payload [OF _ _ _ _ _ json_to_cbor_decodes [OF assms(1)] assms(2)])
    (use assms(3) in \<open>simp_all add: rpc2_answer_def valid_str_def\<close>)

lemma rpc2_answer_err:
  assumes "valid_str e" "length (rpc2_answer msg (Inl e)) < 2 ^ 64"
  shows "decode_message X (rpc2_answer msg (Inl e)) =
    Ret (Some \<lparr>rm_method = [], rm_seq = rm_seq msg, rm_error = e, rm_payload = Null\<rparr>)"
proof -
  have "length e < 2 ^ 64"
    using assms(2) by (simp add: rpc2_answer_def error_response_def cbor_message_def cbor_header_def cbor_kv_def cbor_text_def)
  then show ?thesis
    using decode_message_no_payload [of "[]" e "rm_seq msg" X] assms
    by (simp add: rpc2_answer_def error_response_def cbor_message_def valid_str_def)
qed

text \<open>The method of a verb, and the state transition the two faces share.\<close>

definition verb_method :: "string \<Rightarrow> string option" where
  "verb_method v = map_of [(''freg'', ''Peer.FabricReg''), (''fput'', ''Peer.FabricPut''), (''fpop'', ''Peer.FabricPop'')] v"

lemma faces_agree:
  assumes "get_str req ''verb'' = Some v" "verb_method v = Some (rm_method msg)" "rm_payload msg = req"
    "handle_verb X s req dir fab ip clk fs = (s1, fab1, fs1, r1)"
    "handle_rpc2_fabric X s' msg dir fab ip clk fs = (s2, fab2, fs2, r2)"
  shows "fab1 = fab2 \<and> fs1 = fs2 \<and> r1 = r2"
proof -
  consider "v = ''freg''" "rm_method msg = ''Peer.FabricReg''" | "v = ''fput''" "rm_method msg = ''Peer.FabricPut''"
    | "v = ''fpop''" "rm_method msg = ''Peer.FabricPop''"
    using assms(2) by (auto simp: verb_method_def split: if_splits)
  then show ?thesis
    by cases (use assms in \<open>auto simp: handle_verb_def handle_rpc2_fabric_def Let_def
      split: option.splits prod.splits run.splits\<close>)
qed

end
