(* ===== verification/Cbor_Typed.thy ===== *)
theory Cbor_Typed
  imports Cbor_Frames
begin

text \<open>
  The decoder is type safe: what it builds is a value of the Rust types the program then
  relies on. Rust strings are UTF-8, a \<open>serde_json\<close> map has its keys in strictly increasing
  order, a negative number fits an \<open>i64\<close>, and nesting is bounded.
\<close>

fun wire_value :: "nat \<Rightarrow> json \<Rightarrow> bool" where
  "wire_value d Null \<longleftrightarrow> True"
| "wire_value d (Bool b) \<longleftrightarrow> True"
| "wire_value d (Number (PosInt n)) \<longleftrightarrow> True"
| "wire_value d (Number (NegInt i)) \<longleftrightarrow> - (2 ^ 63) \<le> i \<and> i < 0"
| "wire_value d (Number (Float t)) \<longleftrightarrow> False"
| "wire_value d (String s) \<longleftrightarrow> valid_str s"
| "wire_value d (Array vs) \<longleftrightarrow> 0 < d \<and> list_all (wire_value (d - 1)) vs"
| "wire_value d (Object m) \<longleftrightarrow> 0 < d \<and> keys_sorted m \<and> list_all (\<lambda>(k, v). valid_str k \<and> wire_value (d - 1) v) m"

definition wire_pairs :: "nat \<Rightarrow> (string \<times> json) list \<Rightarrow> bool" where
  "wire_pairs d m \<longleftrightarrow> keys_sorted m \<and> list_all (\<lambda>(k, v). valid_str k \<and> wire_value d v) m"

lemma wire_pairs_insert:
  "wire_pairs d m \<Longrightarrow> valid_str k \<Longrightarrow> wire_value d v \<Longrightarrow> wire_pairs d (obj_insert k v m)"
proof -
  assume m: "wire_pairs d m" and kv: "valid_str k" "wire_value d v"
  have "list_all P (obj_insert k v m)" if "P (k, v)" "list_all P m" for P
    using that by (induction m) auto
  then show ?thesis using m kv by (simp add: wire_pairs_def obj_insert_sorted)
qed

lemma wire_value_mono: "wire_value d v \<Longrightarrow> d \<le> d' \<Longrightarrow> wire_value d' v"
proof (induction d v arbitrary: d' rule: wire_value.induct)
  case (7 d vs)
  then show ?case by (auto simp: list_all_iff)
next
  case (8 d m)
  then show ?case by (fastforce simp: list_all_iff)
qed simp_all

lemma wire_string: "wire_value d v \<Longrightarrow> as_str v = Some s \<Longrightarrow> valid_str s"
  by (cases v) auto

lemma wire_get_str: "wire_value d v \<Longrightarrow> get_str v k = Some s \<Longrightarrow> valid_str s"
proof -
  assume v: "wire_value d v" and g: "get_str v k = Some s"
  then obtain w where "jget v k = Some w" "as_str w = Some s" by (auto simp: get_str_def bind_eq_Some_conv)
  moreover have "wire_value (d - 1) w" using v \<open>jget v k = Some w\<close>
    by (cases v) (auto simp: list_all_iff dest!: map_of_SomeD)
  ultimately show ?thesis using wire_string by blast
qed

lemma hex_encode_valid: "hex_law X \<Longrightarrow> valid_str (hex_encode X b)"
  by (simp add: hex_law_encode valid_str_ascii ascii_hexs)

lemma decode_typed:
  assumes "hex_law X"
  shows "decode_value X buf d = Ret (Some (v, used)) \<Longrightarrow> wire_value (65 - d) v"
    "decode_items X buf d n at out = Ret (Some (vs, at')) \<Longrightarrow> list_all (wire_value (65 - d)) out \<Longrightarrow>
       list_all (wire_value (65 - d)) vs"
    "decode_pairs X buf d n at m = Ret (Some (m', at'')) \<Longrightarrow> wire_pairs (65 - d) m \<Longrightarrow> wire_pairs (65 - d) m'"
  using assms
proof (induction X buf d and X buf d n at out and X buf d n at m arbitrary: v used and vs at' and m' at''
    rule: decode_value_decode_items_decode_pairs.induct)
  case (1 X buf depth)
  note run = "1.prems"(1)
  then have d: "\<not> depth > MAX_DEPTH" by (auto simp: decode_value.simps)
  from run d obtain ib rest n pos where b: "buf = ib # rest" and h: "decode_head (ib AND 0x1f) rest = Some (n, pos)"
    by (auto simp: decode_value.simps Let_def split: list.splits option.splits)
  have d': "depth \<le> MAX_DEPTH" "depth \<le> 64" using d by (simp_all add: MAX_DEPTH_def)
  then have dd: "65 - depth - 1 = 65 - (depth + 1)" "0 < 65 - depth" by simp_all
  note E = decode_value_Cons [OF d'(1) h, of X]
  note I4 = "1.IH"(1) [OF d b refl refl h refl] and I5 = "1.IH"(2) [OF d b refl refl h refl]
  show ?case
  proof (cases "drop_bit 5 ib = 4 \<or> drop_bit 5 ib = 5")
    case True
    then show ?thesis using run I4 I5 "1.prems"(2) dd
      by (elim disjE) (auto simp: E b and_then_Some_conv wire_pairs_def)
  next
    case False
    have neg: "- 1 < uint n" using uint_ge_0 [of n] by linarith
    show ?thesis using run "1.prems"(2) False
      by (auto simp: E neg b Let_def hex_encode_valid split: if_splits option.splits dest: from_utf8_SomeD)
  qed
next
  case (2 X buf depth n at out)
  show ?case
  proof (cases "n = 0")
    case True
    then show ?thesis using "2.prems" by (simp add: decode_items.simps [of _ _ _ 0])
  next
    case False
    from "2.prems"(1) obtain v u where le: "at \<le> length buf" and v: "decode_value X (drop at buf) depth = Ret (Some (v, u))"
      and u: "u \<noteq> 0" "at + u < 2 ^ 64" and rec: "decode_items X buf depth (n - 1) (at + u) (out @ [v]) = Ret (Some (vs, at'))"
      unfolding decode_items_step [OF False] by blast
    have sl: "slice_from buf at = Ret (drop at buf)" using le by (simp add: slice_from_Ret)
    have ca: "checked_add at u = Some (at + u)" using u by (simp add: checked_add_def)
    show ?thesis
      using "2.IH"(1) [OF False sl v "2.prems"(3)] "2.IH"(2) [OF False sl v refl u(1) ca rec _ "2.prems"(3)] "2.prems"(2)
      by simp
  qed
next
  case (3 X buf depth n at m)
  show ?case
  proof (cases "n = 0")
    case True
    then show ?thesis using "3.prems" by (simp add: decode_pairs.simps [of _ _ _ 0])
  next
    case False
    from "3.prems"(1) obtain k u v w where le: "at \<le> length buf" "at + u \<le> length buf"
      and k: "decode_value X (drop at buf) depth = Ret (Some (k, u))" and u: "u \<noteq> 0" "at + u < 2 ^ 64"
      and v: "decode_value X (drop (at + u) buf) depth = Ret (Some (v, w))" and w: "w \<noteq> 0" "at + u + w < 2 ^ 64"
      and rec: "decode_pairs X buf depth (n - 1) (at + u + w)
          (case as_str k of Some ks \<Rightarrow> obj_insert ks v m | None \<Rightarrow> m) = Ret (Some (m', at''))"
      unfolding decode_pairs_step [OF False] by blast
    have sl: "slice_from buf at = Ret (drop at buf)" "slice_from buf (at + u) = Ret (drop (at + u) buf)"
      using le by (simp_all add: slice_from_Ret)
    have ca: "checked_add at u = Some (at + u)" "checked_add (at + u) w = Some (at + u + w)"
      using u w by (simp_all add: checked_add_def)
    note IH = "3.IH"(1) [OF False sl(1) k "3.prems"(3)]
      "3.IH"(2) [OF False sl(1) k refl u(1) ca(1) sl(2) v "3.prems"(3)]
      "3.IH"(3) [OF False sl(1) k refl u(1) ca(1) sl(2) v refl w(1) ca(2) rec _ "3.prems"(3)]
    have "wire_pairs (65 - depth) (case as_str k of Some ks \<Rightarrow> obj_insert ks v m | None \<Rightarrow> m)"
      using "3.prems"(2) IH(1,2) wire_string [OF IH(1)] by (auto intro: wire_pairs_insert split: option.split)
    then show ?thesis by (rule IH(3))
  qed
qed

lemma decode_message_wire:
  assumes "hex_law X" "decode_message X buf = Ret (Some msg)"
  shows "valid_str (rm_method msg)" "valid_str (rm_error msg)" "wire_value 65 (rm_payload msg)"
proof -
  have opt: "valid_str (str_or (get_str v k) [])" if "wire_value 65 v" for v k
    using wire_get_str [OF that, of k] by (cases "get_str v k") (auto intro: valid_str_ascii simp: ascii_str_def)
  from assms(2) obtain head_v used where hv: "decode_value X buf 0 = Ret (Some (head_v, used))"
    by (auto simp: decode_message_def and_then_Some_conv)
  obtain head where h: "head_v = Object head"
    using assms(2) hv by (cases head_v) (auto simp: decode_message_def)
  have f: "rm_method msg = str_or (get_str (Object head) ''M'') [] \<and> rm_error msg = str_or (get_str (Object head) ''E'') [] \<and>
    (rm_payload msg = Null \<or> (\<exists>b u. decode_value X b 0 = Ret (Some (rm_payload msg, u))))"
    using assms(2) hv
    by (auto simp: decode_message_def h Let_def and_then_Some_conv run_bind_Ret_conv split: if_splits)
  have w: "wire_value 65 (Object head)" using decode_typed(1) [OF assms(1) hv] h by simp
  show "valid_str (rm_method msg)" using f opt [OF w] by simp
  show "valid_str (rm_error msg)" using f opt [OF w] by simp
  show "wire_value 65 (rm_payload msg)" using f decode_typed(1) [OF assms(1)] by fastforce
qed

end
