(* ===== verification/Nesting.thy ===== *)
theory Nesting
  imports Fabric_Wire Cbor_Typed
begin

text \<open>
  The nesting cap of the decoder. \<open>json_levels\<close> is the number of arrays and objects around the
  deepest value; what the decoder builds has at most 64 levels, and of what the encoder
  \<open>json_to_cbor\<close> writes it takes exactly the values of at most 64 levels.
\<close>

section \<open>Levels\<close>

fun json_levels :: "json \<Rightarrow> nat" where
  "json_levels (Object m) = fold max (map (\<lambda>(k, v). Suc (json_levels v)) m) 0"
| "json_levels (Array a) = fold max (map (\<lambda>v. Suc (json_levels v)) a) 0"
| "json_levels _ = 0"

lemma fold_max_le: "fold max xs a \<le> N \<longleftrightarrow> a \<le> N \<and> (\<forall>x\<in>set xs. x \<le> (N :: nat))"
  by (induction xs arbitrary: a) auto

lemma levels_below:
  assumes "d \<le> N"
  shows "d + json_levels (Array vs) \<le> N \<longleftrightarrow> (\<forall>v\<in>set vs. Suc d + json_levels v \<le> N)"
    "d + json_levels (Object m) \<le> N \<longleftrightarrow> (\<forall>(k, v)\<in>set m. Suc d + json_levels v \<le> N)"
proof -
  have *: "d + n \<le> N \<longleftrightarrow> n \<le> N - d" for n using assms by auto
  show "d + json_levels (Array vs) \<le> N \<longleftrightarrow> (\<forall>v\<in>set vs. Suc d + json_levels v \<le> N)"
    "d + json_levels (Object m) \<le> N \<longleftrightarrow> (\<forall>(k, v)\<in>set m. Suc d + json_levels v \<le> N)"
    unfolding * json_levels.simps fold_max_le by (auto simp: *)
qed

section \<open>No decoded value is deeper\<close>

lemma snd_obj_insert: "e \<in> set (obj_insert k v m) \<Longrightarrow> e = (k, v) \<or> e \<in> set m"
  by (induction m) (auto split: if_splits)

lemma decode_levels:
  "decode_value X buf d = Ret (Some (v, used)) \<Longrightarrow> d + json_levels v \<le> MAX_DEPTH"
  "decode_items X buf d n at out = Ret (Some (vs, at')) \<Longrightarrow> \<forall>v\<in>set out. d + json_levels v \<le> MAX_DEPTH \<Longrightarrow>
     \<forall>v\<in>set vs. d + json_levels v \<le> MAX_DEPTH"
  "decode_pairs X buf d n at m = Ret (Some (m', at'')) \<Longrightarrow> \<forall>(k, v)\<in>set m. d + json_levels v \<le> MAX_DEPTH \<Longrightarrow>
     \<forall>(k, v)\<in>set m'. d + json_levels v \<le> MAX_DEPTH"
proof (induction X buf d and X buf d n at out and X buf d n at m arbitrary: v used and vs at' and m' at''
    rule: decode_value_decode_items_decode_pairs.induct)
  case (1 X buf depth)
  note run = "1.prems"(1)
  then have d: "\<not> depth > MAX_DEPTH" by (auto simp: decode_value.simps)
  from run d obtain ib rest n pos where b: "buf = ib # rest" and h: "decode_head (ib AND 0x1f) rest = Some (n, pos)"
    by (auto simp: decode_value.simps Let_def split: list.splits option.splits)
  have d': "depth \<le> MAX_DEPTH" using d by simp
  note E = decode_value_Cons [OF d' h, of X]
  note I4 = "1.IH"(1) [OF d b refl refl h refl] and I5 = "1.IH"(2) [OF d b refl refl h refl]
  show ?case
  proof (cases "drop_bit 5 ib = 4 \<or> drop_bit 5 ib = 5")
    case True
    then show ?thesis using run I4 I5 d'
      by (elim disjE) (auto simp: E b and_then_Some_conv levels_below simp del: json_levels.simps)
  next
    case False
    then show ?thesis using run d'
      by (auto simp: E b Let_def split: if_splits option.splits)
  qed
next
  case (2 X buf depth n at out)
  show ?case
  proof (cases "n = 0")
    case True
    then show ?thesis using "2.prems" by (simp add: decode_items.simps [of _ _ _ 0])
  next
    case False
    from "2.prems"(1) obtain v u where le: "at \<le> length buf" and v: "decode_value X (drop at buf) depth = Ret (Some (v, u))"
      and u: "u \<noteq> 0" "at + u < 2 ^ 64" and rec: "decode_items X buf depth (n - 1) (at + u) (out @ [v]) = Ret (Some (vs, at'))"
      unfolding decode_items_step [OF False] by blast
    have sl: "slice_from buf at = Ret (drop at buf)" using le by (simp add: slice_from_Ret)
    have ca: "checked_add at u = Some (at + u)" using u by (simp add: checked_add_def)
    have "\<forall>v\<in>set (out @ [v]). depth + json_levels v \<le> MAX_DEPTH"
      using "2.IH"(1) [OF False sl v] "2.prems"(2) by simp
    then show ?thesis by (rule "2.IH"(2) [OF False sl v refl u(1) ca rec])
  qed
next
  case (3 X buf depth n at m)
  show ?case
  proof (cases "n = 0")
    case True
    then show ?thesis using "3.prems" by (simp add: decode_pairs.simps [of _ _ _ 0])
  next
    case False
    from "3.prems"(1) obtain k u v w where le: "at \<le> length buf" "at + u \<le> length buf"
      and k: "decode_value X (drop at buf) depth = Ret (Some (k, u))" and u: "u \<noteq> 0" "at + u < 2 ^ 64"
      and v: "decode_value X (drop (at + u) buf) depth = Ret (Some (v, w))" and w: "w \<noteq> 0" "at + u + w < 2 ^ 64"
      and rec: "decode_pairs X buf depth (n - 1) (at + u + w)
          (case as_str k of Some ks \<Rightarrow> obj_insert ks v m | None \<Rightarrow> m) = Ret (Some (m', at''))"
      unfolding decode_pairs_step [OF False] by blast
    have sl: "slice_from buf at = Ret (drop at buf)" "slice_from buf (at + u) = Ret (drop (at + u) buf)"
      using le by (simp_all add: slice_from_Ret)
    have ca: "checked_add at u = Some (at + u)" "checked_add (at + u) w = Some (at + u + w)"
      using u w by (simp_all add: checked_add_def)
    note IH = "3.IH"(2) [OF False sl(1) k refl u(1) ca(1) sl(2) v]
      "3.IH"(3) [OF False sl(1) k refl u(1) ca(1) sl(2) v refl w(1) ca(2) rec]
    have "\<forall>(k, v)\<in>set (case as_str k of Some ks \<Rightarrow> obj_insert ks v m | None \<Rightarrow> m). depth + json_levels v \<le> MAX_DEPTH"
      using "3.prems"(2) IH(1) by (auto dest!: snd_obj_insert split: option.split)
    then show ?thesis by (rule IH(2))
  qed
qed

section \<open>What the encoder writes\<close>

text \<open>\<open>bs\<close>, read at depth \<open>d\<close> before anything else, gives \<open>v\<close> if \<open>ok\<close> and is refused otherwise.\<close>

definition exactly :: "ext \<Rightarrow> nat \<Rightarrow> bytes \<Rightarrow> json \<Rightarrow> bool \<Rightarrow> bool" where
  "exactly X d bs v ok \<longleftrightarrow> bs \<noteq> [] \<and> (\<forall>rest. length (bs @ rest) < 2 ^ 64 \<longrightarrow>
     decode_value X (bs @ rest) d = Ret (if ok then Some (v, length bs) else None))"

lemma exactlyD:
  "exactly X d bs v ok \<Longrightarrow> length (bs @ rest) < 2 ^ 64 \<Longrightarrow>
     decode_value X (bs @ rest) d = Ret (if ok then Some (v, length bs) else None)"
  by (simp add: exactly_def)

lemma exactly_leaf: "decodes X 0 bs v \<Longrightarrow> exactly X d bs v (d \<le> MAX_DEPTH)"
  by (auto simp: exactly_def decodes_def) (simp add: decode_value.simps)

lemma exactly_deep: "bs \<noteq> [] \<Longrightarrow> MAX_DEPTH < d \<Longrightarrow> exactly X d bs v False"
  by (simp add: exactly_def decode_value.simps)

lemma decode_items_exact:
  "list_all (\<lambda>(bs, v, ok). exactly X d bs v ok) es \<Longrightarrow> length (pre @ concat (map fst es) @ rest) < 2 ^ 64 \<Longrightarrow>
   decode_items X (pre @ concat (map fst es) @ rest) d (length es) (length pre) out =
     Ret (if list_all (\<lambda>e. snd (snd e)) es then Some (out @ map (\<lambda>e. fst (snd e)) es, length pre + length (concat (map fst es)))
          else None)"
proof (induction es arbitrary: pre out)
  case Nil
  then show ?case by (simp add: decode_items.simps)
next
  case (Cons e es)
  obtain bs v ok where e: "e = (bs, v, ok)" by (cases e)
  let ?t = "concat (map fst es) @ rest"
  have s: "slice_from (pre @ bs @ ?t) (length pre) = Ret (bs @ ?t)" by (simp add: slice_from_def)
  have d: "decode_value X (bs @ ?t) d = Ret (if ok then Some (v, length bs) else None)" and ne: "bs \<noteq> []"
    using Cons.prems by (auto simp: e exactly_def)
  have c: "checked_add (length pre) (length bs) = Some (length pre + length bs)"
    using Cons.prems by (simp add: checked_add_def e)
  have IH: "decode_items X ((pre @ bs) @ ?t) d (length es) (length (pre @ bs)) (out @ [v]) =
     Ret (if list_all (\<lambda>e. snd (snd e)) es
          then Some ((out @ [v]) @ map (\<lambda>e. fst (snd e)) es, length (pre @ bs) + length (concat (map fst es))) else None)"
    using Cons.prems by (intro Cons.IH) (auto simp: e)
  show ?case
    using s d c ne IH by (subst decode_items.simps) (simp add: e add.assoc)
qed

lemma exactly_array:
  assumes "list_all (\<lambda>(bs, v, ok). exactly X (Suc d) bs v ok) es" "length es < 2 ^ 64"
  shows "exactly X d (cbor_array (length es) @ concat (map fst es)) (Array (map (\<lambda>e. fst (snd e)) es))
    (d \<le> MAX_DEPTH \<and> list_all (\<lambda>e. snd (snd e)) es)"
proof -
  have "4 < (8::byte)" by simp
  then obtain ib tl where h: "cbor_head 4 (word_of_nat (length es)) = ib # tl" "drop_bit 5 ib = 4"
    "\<And>t. decode_head (ib AND 0x1f) (tl @ t) = Some (word_of_nat (length es), Suc (length tl))"
    using head_decode by blast
  show ?thesis
  proof (cases "d \<le> MAX_DEPTH")
    case True
    have "decode_value X (ib # tl @ concat (map fst es) @ rest) d =
        Ret (if list_all (\<lambda>e. snd (snd e)) es
             then Some (Array (map (\<lambda>e. fst (snd e)) es), Suc (length tl) + length (concat (map fst es))) else None)"
      if "length (ib # tl @ concat (map fst es) @ rest) < 2 ^ 64" for rest
      using decode_items_exact [OF assms(1), of "ib # tl" rest "[]"] that True h assms(2)
      by (simp add: decode_value_Cons unat_of_len)
    then show ?thesis using True h(1) by (simp add: exactly_def cbor_array_def)
  next
    case False
    then show ?thesis using exactly_deep [of "cbor_array (length es) @ concat (map fst es)" d X] h(1)
      by (simp add: cbor_array_def)
  qed
qed

abbreviation entries_bytes :: "(string \<times> bytes \<times> json \<times> bool) list \<Rightarrow> bytes" where
  "entries_bytes es \<equiv> concat (map (\<lambda>e. cbor_kv (fst e) (fst (snd e))) es)"

abbreviation entries_obj :: "(string \<times> bytes \<times> json \<times> bool) list \<Rightarrow> (string \<times> json) list \<Rightarrow> (string \<times> json) list" where
  "entries_obj es m \<equiv> fold (\<lambda>e. obj_insert (fst e) (fst (snd (snd e)))) es m"

definition entry_exact :: "ext \<Rightarrow> nat \<Rightarrow> string \<times> bytes \<times> json \<times> bool \<Rightarrow> bool" where
  "entry_exact X d e \<longleftrightarrow> (case e of (k, bs, v, ok) \<Rightarrow>
     valid_str k \<and> length k < 2 ^ 64 \<and> exactly X d bs v ok \<and> (ok \<longrightarrow> d \<le> MAX_DEPTH))"

lemma decode_pairs_exact:
  "list_all (entry_exact X d) es \<Longrightarrow> length (pre @ entries_bytes es @ rest) < 2 ^ 64 \<Longrightarrow>
   decode_pairs X (pre @ entries_bytes es @ rest) d (length es) (length pre) m =
     Ret (if list_all (\<lambda>e. snd (snd (snd e))) es then Some (entries_obj es m, length pre + length (entries_bytes es)) else None)"
proof (induction es arbitrary: pre m)
  case Nil
  then show ?case by (simp add: decode_pairs.simps)
next
  case (Cons e es)
  obtain k bs v ok where e: "e = (k, bs, v, ok)" by (cases e)
  let ?t = "entries_bytes es @ rest"
  have s: "slice_from (pre @ cbor_text k @ bs @ ?t) (length pre) = Ret (cbor_text k @ bs @ ?t)"
    "slice_from (pre @ cbor_text k @ bs @ ?t) (length pre + length (cbor_text k)) = Ret (bs @ ?t)"
    by (simp_all add: slice_from_def)
  have ok: "valid_str k" "length k < 2 ^ 64" "exactly X d bs v ok" "ok \<longrightarrow> d \<le> MAX_DEPTH"
    using Cons.prems by (simp_all add: e entry_exact_def)
  have "exactly X d (cbor_text k) (String k) (d \<le> MAX_DEPTH)" by (rule exactly_leaf [OF decodes_text [OF ok(1,2)]])
  from exactlyD [OF this, of "bs @ ?t"]
  have k: "decode_value X (cbor_text k @ bs @ ?t) d = Ret (if d \<le> MAX_DEPTH then Some (String k, length (cbor_text k)) else None)"
    using Cons.prems by (simp add: e cbor_kv_def)
  from exactlyD [OF ok(3), of ?t]
  have v: "decode_value X (bs @ ?t) d = Ret (if ok then Some (v, length bs) else None)"
    using Cons.prems by (simp add: e cbor_kv_def)
  have c: "checked_add (length pre) (length (cbor_text k)) = Some (length pre + length (cbor_text k))"
    "checked_add (length pre + length (cbor_text k)) (length bs) = Some (length pre + length (cbor_text k) + length bs)"
    using Cons.prems by (simp_all add: checked_add_def e cbor_kv_def)
  have ne: "cbor_text k \<noteq> []" "bs \<noteq> []" using length_cbor_head(2) [of 3] ok(3) by (auto simp: cbor_text_def exactly_def)
  have IH: "decode_pairs X ((pre @ cbor_text k @ bs) @ ?t) d (length es) (length (pre @ cbor_text k @ bs)) (obj_insert k v m) =
     Ret (if list_all (\<lambda>e. snd (snd (snd e))) es
          then Some (entries_obj es (obj_insert k v m), length (pre @ cbor_text k @ bs) + length (entries_bytes es)) else None)"
    using Cons.prems by (intro Cons.IH) (auto simp: e cbor_kv_def)
  show ?case
    using s k v c ne ok(4) IH by (subst decode_pairs.simps) (simp add: e cbor_kv_def add.assoc)
qed

lemma exactly_map:
  assumes "list_all (entry_exact X (Suc d)) es" "length es < 2 ^ 64"
  shows "exactly X d (cbor_map (length es) @ entries_bytes es) (Object (obj_of (map (\<lambda>e. (fst e, fst (snd (snd e)))) es)))
    (d \<le> MAX_DEPTH \<and> list_all (\<lambda>e. snd (snd (snd e))) es)"
proof -
  have "5 < (8::byte)" by simp
  then obtain ib tl where h: "cbor_head 5 (word_of_nat (length es)) = ib # tl" "drop_bit 5 ib = 5"
    "\<And>t. decode_head (ib AND 0x1f) (tl @ t) = Some (word_of_nat (length es), Suc (length tl))"
    using head_decode by blast
  have o: "entries_obj es [] = obj_of (map (\<lambda>e. (fst e, fst (snd (snd e)))) es)"
    by (simp add: obj_of_def fold_map comp_def split_def)
  show ?thesis
  proof (cases "d \<le> MAX_DEPTH")
    case True
    have "decode_value X (ib # tl @ entries_bytes es @ rest) d =
        Ret (if list_all (\<lambda>e. snd (snd (snd e))) es
             then Some (Object (obj_of (map (\<lambda>e. (fst e, fst (snd (snd e)))) es)), Suc (length tl) + length (entries_bytes es)) else None)"
      if "length (ib # tl @ entries_bytes es @ rest) < 2 ^ 64" for rest
      using decode_pairs_exact [OF assms(1), of "ib # tl" rest "[]"] that True h assms(2) unfolding o
      by (simp add: decode_value_Cons unat_of_len)
    then show ?thesis using True h(1) by (simp add: exactly_def cbor_map_def)
  next
    case False
    then show ?thesis using exactly_deep [of "cbor_map (length es) @ entries_bytes es" d X] h(1)
      by (simp add: cbor_map_def)
  qed
qed

lemma json_to_cbor_exact:
  "wire_ok v \<Longrightarrow> exactly X d (json_to_cbor v) (cbor_image v) (d + json_levels v \<le> MAX_DEPTH)"
proof (induction v arbitrary: d rule: json_to_cbor.induct)
  case (1 m)
  let ?es = "map (\<lambda>(k, v). (k, json_to_cbor v, cbor_image v, Suc d + json_levels v \<le> MAX_DEPTH)) m"
  have "entry_exact X (Suc d) (k, json_to_cbor v, cbor_image v, Suc d + json_levels v \<le> MAX_DEPTH)"
    if kv: "(k, v) \<in> set m" for k v
  proof -
    have w: "wire_ok v" "valid_str k" "length k < 2 ^ 64" using 1(2) kv by (auto simp: list_all_iff)
    have "exactly X (Suc d) (json_to_cbor v) (cbor_image v) (Suc d + json_levels v \<le> MAX_DEPTH)"
      by (rule 1(1) [OF kv refl w(1)])
    with w show ?thesis by (simp add: entry_exact_def)
  qed
  then have "list_all (entry_exact X (Suc d)) ?es" by (auto simp: list_all_iff)
  from exactly_map [OF this] 1(2)
  have "exactly X d (json_to_cbor (Object m)) (cbor_image (Object m))
      (d \<le> MAX_DEPTH \<and> (\<forall>(k, v)\<in>set m. Suc d + json_levels v \<le> MAX_DEPTH))"
    by (simp add: comp_def split_def list_all_iff)
  then show ?case
    by (cases "d \<le> MAX_DEPTH") (simp_all only: levels_below, simp_all)
next
  case (2 a)
  let ?es = "map (\<lambda>v. (json_to_cbor v, cbor_image v, Suc d + json_levels v \<le> MAX_DEPTH)) a"
  have "exactly X (Suc d) (json_to_cbor v) (cbor_image v) (Suc d + json_levels v \<le> MAX_DEPTH)" if v: "v \<in> set a" for v
    using 2(2) v by (intro 2(1) [OF v]) (simp add: list_all_iff)
  then have "list_all (\<lambda>(bs, v, ok). exactly X (Suc d) bs v ok) ?es" by (auto simp: list_all_iff)
  from exactly_array [OF this] 2(2)
  have "exactly X d (json_to_cbor (Array a)) (cbor_image (Array a))
      (d \<le> MAX_DEPTH \<and> (\<forall>v\<in>set a. Suc d + json_levels v \<le> MAX_DEPTH))"
    by (simp add: comp_def split_def list_all_iff)
  then show ?case
    by (cases "d \<le> MAX_DEPTH") (simp_all only: levels_below, simp_all)
next
  case (5 b)
  then show ?case using exactly_leaf [OF decodes_simple(1)] exactly_leaf [OF decodes_simple(2)] by (simp add: simple_heads)
next
  case 6
  then show ?case using exactly_leaf [OF decodes_simple(3)] by (simp add: simple_heads)
qed (simp_all add: exactly_leaf codec)

end
