(* ===== verification/Wire_Props.thy ===== *)
theory Wire_Props
  imports Wire_Sizes Nesting
begin

text \<open>
  The properties of the wire codec and of the framing, each with a concrete instance.
\<close>

section \<open>The decoder\<close>

text \<open>
  C11. The oracle of the fuzz target never fires, on any input: decoding does not panic, and
  a frame that decodes, followed by the target's hostile tail, is refused or decodes to the
  same method, sequence number, error and payload.
\<close>

theorem fuzz_oracle_holds: "fuzz_p2p_decode X data = Ret ()"
proof (cases "decode_message X data")
  case Panic then show ?thesis using decode_message_no_panic by blast
next
  case (Ret r)
  show ?thesis
  proof (cases r)
    case None with Ret show ?thesis by (simp add: fuzz_p2p_decode_def)
  next
    case (Some m)
    with Ret decode_message_append [OF _ decode_fuzz_tail, of X data m] show ?thesis
      by (auto simp: fuzz_p2p_decode_def)
  qed
qed

text \<open>
  C13. The decoder is type safe: a decoded message has a UTF-8 method and error text and a
  payload that is a value of the Rust types, with UTF-8 strings and keys, the keys of every
  map strictly increasing, negative numbers within an i64, no floats and at most 65 levels of
  nesting.
\<close>

theorem decode_message_typed:
  assumes "hex_law X" "decode_message X buf = Ret (Some msg)"
  shows "valid_str (rm_method msg) \<and> valid_str (rm_error msg) \<and> wire_value 65 (rm_payload msg)"
  using decode_message_wire [OF assms] by blast

theorem decode_message_typed_witness:
  "wire_value 65 (Object [(''N'', Number (PosInt 1))])"
proof -
  have "decode_message demo_ext (cbor_message ''Peer.Handshake'' 1 [] (handshake_request 1)) =
      Ret (Some \<lparr>rm_method = ''Peer.Handshake'', rm_seq = 1, rm_error = [], rm_payload = Object [(''N'', Number (PosInt 1))]\<rparr>)"
    by (rule message_decodes(2) [OF _ _ _ handshake_request_decodes])
      (use length_small_requests(1) [of 1] in \<open>simp_all add: literal_valid MAX_FRAME_def MAX_DEPTH_def\<close>)
  from decode_message_typed [OF hex_law_demo this] show ?thesis by simp
qed

text \<open>
  C23. The nesting cap. No decoded value has anything inside more than 64 arrays and maps; and
  what the program's encoder writes for a JSON value (its texts UTF-8), whatever follows it, is decoded when
  nothing in the value is inside more than 64 arrays and objects, and refused otherwise. An
  empty array or map has nothing inside, so it may itself stand at the 64th level.
\<close>

theorem nesting_cap:
  "(\<forall>buf v used. decode_value X buf 0 = Ret (Some (v, used)) \<longrightarrow> json_levels v \<le> 64) \<and>
   (\<forall>v rest. wire_ok v \<and> length (json_to_cbor v @ rest) < 2 ^ 64 \<longrightarrow>
      decode_value X (json_to_cbor v @ rest) 0 =
        Ret (if json_levels v \<le> 64 then Some (cbor_image v, length (json_to_cbor v)) else None))"
  using decode_levels(1) [of X _ 0] exactlyD [OF json_to_cbor_exact [of _ X 0]] by (auto simp: MAX_DEPTH_def)

theorem nesting_cap_witness:
  "decode_value demo_ext (json_to_cbor (Array [Object [(''k'', Array [])]])) 0 =
     Ret (Some (Array [Object [(''k'', Array [])]], length (json_to_cbor (Array [Object [(''k'', Array [])]])))) \<and>
   decode_value demo_ext (json_to_cbor (((\<lambda>v. Object [(''k'', v)]) ^^ 65) (Array []))) 0 = Ret None"
proof -
  let ?v = "Array [Object [(''k'', Array [])]]" and ?w = "\<lambda>n. ((\<lambda>v. Object [(''k'', v)]) ^^ n) (Array [])"
  have k: "length (cbor_text ''k'') \<le> 10" using length_text_le [of "''k''"] by simp
  have v: "wire_ok ?v" "length (json_to_cbor ?v @ []) < 2 ^ 64" "json_levels ?v \<le> 64" "cbor_image ?v = ?v"
    using length_map_le(1) [of "Suc 0"] length_map_le(2) [of "Suc 0"] length_map_le(2) [of 0] k
    by (simp_all add: literal_valid obj_of_def cbor_kv_def)
  have w: "wire_ok (?w n)" "json_levels (?w n) = n" "length (json_to_cbor (?w n)) \<le> 9 + 20 * n" for n
  proof (induction n)
    case 0
    show "wire_ok (?w 0)" "json_levels (?w 0) = 0" "length (json_to_cbor (?w 0)) \<le> 9 + 20 * 0"
      using length_map_le(2) [of 0] by simp_all
  next
    case (Suc n)
    then show "wire_ok (?w (Suc n))" "json_levels (?w (Suc n)) = Suc n" "length (json_to_cbor (?w (Suc n))) \<le> 9 + 20 * Suc n"
      using length_map_le(1) [of "Suc 0"] k by (simp_all add: literal_valid cbor_kv_def)
  qed
  have len: "length (json_to_cbor (?w 65) @ []) < 2 ^ 64" using w(3) [of 65] by (simp del: funpow.simps)
  from nesting_cap [of demo_ext, THEN conjunct2, rule_format, of ?v "[]"]
    nesting_cap [of demo_ext, THEN conjunct2, rule_format, of "?w 65" "[]"] v w(1,2) [of 65] len
  show ?thesis by (simp del: funpow.simps json_to_cbor.simps cbor_image.simps)
qed

text \<open>
  C12. Round trip of a push: the Peer.PutObject message that a client builds from a 32-byte
  id, a body within the size cap and a UTF-8 token is one frame, and the server decodes it
  to exactly the method, the sequence number and the three fields, the token only when it
  is not empty.
\<close>

theorem putobject_roundtrip:
  assumes "length blid = 32" "length body \<le> 32 * 1024 * 1024" "length token \<le> 1024 * 1024" "valid_str token"
  shows "sendable (cbor_message ''Peer.PutObject'' sq [] (putobject_request blid body token)) \<and>
    decode_message X (cbor_message ''Peer.PutObject'' sq [] (putobject_request blid body token)) =
      Ret (Some \<lparr> rm_method = ''Peer.PutObject'', rm_seq = sq, rm_error = [],
        rm_payload = Object ([(''BLID'', String (hex_encode X blid)), (''BODY'', String (hex_encode X body))]
          @ (if token = [] then [] else [(''TOKEN'', String token)])) \<rparr>)"
proof -
  have v: "valid_str ''Peer.PutObject''" "valid_str []" by (simp_all add: literal_valid)
  have "length ''Peer.PutObject'' + length ([] :: string) + length (putobject_request blid body token) \<le> MAX_FRAME - 66"
    using length_putobject_le [of blid body token] assms by (simp add: MAX_FRAME_def)
  from message_decodes [OF v this putobject_request_decodes] assms show ?thesis by (simp add: MAX_DEPTH_def)
qed

theorem putobject_roundtrip_witness:
  "sendable (cbor_message ''Peer.PutObject'' 7 [] (putobject_request (replicate 32 1) [1, 2] ''k'')) \<and>
    decode_message demo_ext (cbor_message ''Peer.PutObject'' 7 [] (putobject_request (replicate 32 1) [1, 2] ''k'')) =
      Ret (Some \<lparr> rm_method = ''Peer.PutObject'', rm_seq = 7, rm_error = [],
        rm_payload = Object ([(''BLID'', String (hex_encode demo_ext (replicate 32 1))),
          (''BODY'', String (hex_encode demo_ext [1, 2]))]
          @ (if ''k'' = [] then [] else [(''TOKEN'', String ''k'')])) \<rparr>)"
  by (rule putobject_roundtrip) (simp_all add: literal_valid)

section \<open>Framing\<close>

text \<open>
  C24. Frames written back to back are read back one by one, in order, each unchanged, and
  reading stops exactly at the first byte behind the last of them.
\<close>

theorem frames_pipeline:
  assumes "list_all sendable ps"
  shows "read_seq read_bytes (length ps) (concat (map frame_bytes ps) @ rest) = Some (ps, rest)"
  using assms by (rule tcp.read_seq_wr)

theorem frames_pipeline_witness:
  "read_seq read_bytes (length [[1 :: byte], [2, 3]]) (concat (map frame_bytes [[1], [2, 3]]) @ [9]) = Some ([[1], [2, 3]], [9])"
  by (rule frames_pipeline) (simp add: sendable_def MAX_FRAME_def)

text \<open>
  C25. \<open>read_frame\<close> accepts exactly the frames whose length prefix is between 1 and the cap
  and whose payload has arrived in full: it returns the payload and leaves what follows.
\<close>

theorem read_frame_accepts:
  "(\<exists>s'. read_frame s = (s', Inr p) \<and> s_in s' = rest) \<longleftrightarrow> s_in s = frame_bytes p @ rest \<and> sendable p"
proof
  assume "s_in s = frame_bytes p @ rest \<and> sendable p"
  then show "\<exists>s'. read_frame s = (s', Inr p) \<and> s_in s' = rest"
    using read_frame_frame_bytes [of p s rest] by auto
next
  assume "\<exists>s'. read_frame s = (s', Inr p) \<and> s_in s' = rest"
  then obtain s' where r: "read_frame s = (s', Inr p)" "s_in s' = rest" by blast
  then have sd: "sendable p" by (auto dest: read_frame_progress)
  from r(1) obtain s1 l where l: "read_exact s 4 = (s1, Inr l)" "read_exact s1 (le_nat l) = (s', Inr p)"
    by (auto simp: read_frame_def Let_def split: prod.splits sum.splits if_splits)
  from read_exact_in [OF l(1)] read_exact_in [OF l(2)] r(2)
  have s: "s_in s = l @ p @ rest" "length l = 4" "length p = le_nat l" by auto
  have "length p < 2 ^ 32" using sd by (simp add: sendable_def MAX_FRAME_def)
  then have "le_bytes 4 (unat (word_of_nat (length p) :: u32)) = l"
    using s(2,3) le_bytes_le_nat [of l] by (simp add: unat_of_nat)
  with s sd show "s_in s = frame_bytes p @ rest \<and> sendable p" by (simp add: frame_bytes_def)
qed

end
