(* ===== verification/Chain_Facts.thy ===== *)
theory Chain_Facts
  imports Hold
begin

text \<open>
  The chain view of a store: which files it lists, under which ids and in which order. A
  file is listed under its id as soon as its name is 64 hex digits and \<open>.body\<close>.
\<close>

lemma body_name_ascii: "hex_decode h = Ret (Some c) \<Longrightarrow> ascii_str (h @ ''.body'')"
  by (drule hex_decode_no_slash(3)) (simp add: byte_of_def)

lemma lossy_valid: "utf8_valid bs \<Longrightarrow> lossy bs = bs"
  by (induction bs rule: utf8_valid.induct) (auto simp: split_beta Let_def)

lemma lossy_body_name: "ascii_str s \<Longrightarrow> from_utf8_lossy (str_bytes s) = s"
  by (simp add: from_utf8_lossy_def lossy_valid utf8_valid_ascii_str)

lemma chain_entry_body:
  assumes "hex_decode h = Ret (Some c)" "length c = 32"
  shows "chain_entry dir fs (h @ ''.body'') = Ret (Some
    (case fs_metadata (body_path dir h) fs of None \<Rightarrow> 0 | Some f \<Rightarrow> f_mtime f, c))"
proof -
  have len: "length h = 64" using hex_decode_Some [OF assms(1)] assms(2) by simp
  have a: "ascii_str (h @ ''.body'')" using body_name_ascii [OF assms(1)] .
  have sl: "str_slice (h @ ''.body'') 0 64 = Ret h"
    using str_slice_ascii [OF a, of 0 64] len by simp
  show ?thesis
    unfolding chain_entry_def Let_def lossy_body_name [OF a]
    using sl len assms by (simp add: ends_with_def body_path_file_path del: str_bytes_append)
qed

lemma chain_view_lists:
  assumes "chain_view dir fs = Ret xs" "\<not> flt_readdir (fs_faults fs) dir"
    "hex_decode h = Ret (Some c)" "length c = 32" "fs_lookup fs (body_path dir h) \<noteq> None"
  shows "c \<in> snd ` set xs"
proof -
  obtain ns where ns: "fs_read_dir dir fs = Some ns" using assms(2) by (simp add: fs_read_dir_def)
  have "CHR ''/'' \<notin> set h" using hex_decode_no_slash(1) [OF assms(3)] .
  then have "h @ ''.body'' \<in> set ns"
    using assms(5) by (simp add: fs_read_dir_mem [OF ns] body_path_file_path)
  with chain_entry_body [OF assms(3,4), of dir fs] ns show ?thesis
    unfolding chain_view_mem [OF assms(1)] by blast
qed

lemma chain_view_id_length:
  assumes "chain_view dir fs = Ret xs" "(h, c) \<in> set xs"
  shows "length c = 32"
proof -
  from assms(2) have "c \<in> snd ` set xs" by force
  then show ?thesis using chain_view_mem [OF assms(1)] chain_entry_Some by blast
qed

text \<open>Order: the listed files sorted by modification time, numbered from 0.\<close>

lemma chain_view_order:
  assumes "chain_view dir fs = Ret xs"
  obtains es where "map snd xs = map snd es" "sorted (map fst es)"
    "map fst xs = map word_of_nat [0..<length xs]"
    "\<And>mt c. (mt, c) \<in> set es \<longleftrightarrow>
       (\<exists>ns n. fs_read_dir dir fs = Some ns \<and> n \<in> set ns \<and> chain_entry dir fs n = Ret (Some (mt, c)))"
  using assms
proof (rule chain_view_Ret)
  fix ns es
  assume xs: "xs = map (\<lambda>(i, (_, c)). (word_of_nat i, c)) (enumerate 0 (sort_key fst es))"
    and es: "chain_entries dir fs ns = Ret es"
    and ns: "ns = (case fs_read_dir dir fs of None \<Rightarrow> [] | Some ns \<Rightarrow> ns)"
  show thesis
  proof (rule that [of "sort_key fst es"])
    show "map snd xs = map snd (sort_key fst es)" unfolding xs by (rule snd_chain_list)
    show "map fst xs = map word_of_nat [0..<length xs]" using chain_view_heights [OF assms] .
    show "(mt, c) \<in> set (sort_key fst es) \<longleftrightarrow>
       (\<exists>ns n. fs_read_dir dir fs = Some ns \<and> n \<in> set ns \<and> chain_entry dir fs n = Ret (Some (mt, c)))" for mt c
      using es ns unfolding chain_entries_Ret
      by (cases "fs_read_dir dir fs") (auto simp: mem_map_filter run_opt_Some)
  qed simp
qed

end
