(* ===== verification/Store_Interface.thy ===== *)
theory Store_Interface
  imports Hold Interfaces
begin

text \<open>
  The body store provides the interface of a content-addressed store: the invariant is that
  bodies match their names on a disk whose files can be read; a body is stored under an id
  when the file named by the id is there.
\<close>

definition store_ok :: "ext \<Rightarrow> path \<Rightarrow> fsys \<Rightarrow> bool" where
  "store_ok X dir fs \<longleftrightarrow> hex_law X \<and> sha_law X \<and> hold_ok X dir fs \<and> (\<forall>p. flt_read (fs_faults fs) p = None)"

lemma store_body_store_ok:
  assumes "store_body X dir body fs = (fs', r)" "store_ok X dir fs" shows "store_ok X dir fs'"
  using assms store_body_hold_ok [OF _ assms(1)] frames_keep_faults [OF assms(1)] by (simp add: store_ok_def)

lemma store_body_present:
  assumes "store_body X dir body fs = (fs', r)" "fs_lookup fs (body_path dir n) \<noteq> None"
  shows "fs_lookup fs' (body_path dir n) \<noteq> None"
  using assms(1)
proof (cases rule: store_body_cases)
  case written
  then show ?thesis using assms(2) written(6) [of "body_path dir n"]
    by (cases "n = hex_encode X (sha256 X body)") auto
qed (use assms(2) in auto)

lemma store_body_stored:
  assumes "store_body X dir body fs = (fs', Inr n)"
  shows "n = hex_encode X (sha256 X body) \<and> fs_lookup fs' (body_path dir n) \<noteq> None"
  using assms by (cases rule: store_body_cases) (auto simp: fs_metadata_def split: if_splits)

lemma serve_body_stored:
  assumes "store_ok X dir fs" "fs_lookup fs (body_path dir (hex_encode X d)) \<noteq> None" "length d = 32"
  shows "\<exists>b. serve_body X dir (hex_encode X d) fs = Ret (Inr b) \<and> sha256 X b = d"
proof -
  from assms(1) have law: "hex_law X" and ok: "hold_ok X dir fs"
    and rd: "flt_read (fs_faults fs) (body_path dir (hex_encode X d)) = None" by (simp_all add: store_ok_def)
  have dec: "hex_decode (hex_encode X d) = Ret (Some d)" using law by (simp add: hex_law_encode hex_decode_hexs)
  from assms(2) obtain f where f: "fs_lookup fs (body_path dir (hex_encode X d)) = Some f" by blast
  from serve_body_hold [OF ok dec assms(3) f rd] hold_okD [OF ok f dec assms(3)] show ?thesis by blast
qed

interpretation bodies: content_store "store_ok X dir"
    "\<lambda>n fs. fs_lookup fs (body_path dir n) \<noteq> None \<and> (\<exists>d. length d = 32 \<and> n = hex_encode X d)"
    "store_body X dir" "serve_body X dir" "sha256 X" "hex_encode X" for X dir
proof (unfold_locales, goal_cases)
  case (1 b s s' r)
  then show ?case by (rule store_body_store_ok)
next
  case (2 b s s' r n)
  then show ?case using store_body_present by blast
next
  case (3 b s s' n)
  then have "length (sha256 X b) = 32" by (simp add: store_ok_def sha_law_def)
  then show ?case using store_body_stored [OF 3(1)] by blast
next
  case (4 s d)
  then have "hex_law X" by (simp add: store_ok_def)
  with 4 have "length d = 32" by (auto simp: hex_law_encode)
  then show ?case using serve_body_stored 4 by blast
qed

end
