(* ===== verification/Store_Props.thy ===== *)
theory Store_Props
  imports Chain_Facts Policy Store_Interface
begin

text \<open>
  The properties of the body store, of the chain view and of the write policy, each
  with a concrete instance over an empty or a one-body store.
\<close>

section \<open>A store\<close>

definition demo_body :: bytes where
  "demo_body = [4, 2]"

definition demo_cid :: string where
  "demo_cid = hexs (sha256 demo_ext demo_body)"

definition empty_fs :: fsys where
  "empty_fs = \<lparr> fs_files = [], fs_now = 5, fs_faults = no_faults \<rparr>"

definition body_fs :: fsys where
  "body_fs = \<lparr> fs_files = [(body_path ''d'' demo_cid, \<lparr>f_data = demo_body, f_mtime = 3\<rparr>)], fs_now = 5, fs_faults = no_faults \<rparr>"

lemma demo_cid_decode: "hex_decode demo_cid = Ret (Some (sha256 demo_ext demo_body))"
  by (simp add: demo_cid_def hex_decode_hexs)

lemma empty_fs_ok: "hold_ok X dir empty_fs"
  by (rule hold_okI) (simp add: empty_fs_def)

lemma body_fs_ok: "hold_ok demo_ext ''d'' body_fs"
proof (rule hold_okI)
  fix h f c
  assume "fs_lookup body_fs (body_path ''d'' h) = Some f" "hex_decode h = Ret (Some c)"
  then have "h = demo_cid" "f_data f = demo_body" by (auto simp: body_fs_def split: if_splits)
  with \<open>hex_decode h = Ret (Some c)\<close> show "sha256 demo_ext (f_data f) = c"
    by (simp add: demo_cid_decode)
qed

section \<open>Storing\<close>

text \<open>
  C14. Storing is content addressing, and it lasts: over any sequence of bodies given to
  \<open>store_body\<close>, with any failures among them, every call that succeeded returned the hash of
  its body in hex, and in the end that id is served with data of that hash, later calls or
  not.
\<close>

theorem stored_stays_served:
  assumes "store_ok X dir fs" "put_all (store_body X dir) pushed fs = (fs', results)"
    "i < length pushed" "results ! i = Inr cid"
  shows "cid = hex_encode X (sha256 X (pushed ! i)) \<and>
    (\<exists>data. serve_body X dir cid fs' = Ret (Inr data) \<and> sha256 X data = sha256 X (pushed ! i))"
  by (rule bodies.put_all_served [OF assms(2,1,3,4)])

theorem stored_stays_served_witness:
  "demo_cid = hex_encode demo_ext (sha256 demo_ext ([[], demo_body, []] ! 1)) \<and>
    (\<exists>data. serve_body demo_ext ''d'' demo_cid (fst (put_all (store_body demo_ext ''d'') [[], demo_body, []] empty_fs)) = Ret (Inr data) \<and>
      sha256 demo_ext data = sha256 demo_ext ([[], demo_body, []] ! 1))"
proof (rule stored_stays_served)
  show "store_ok demo_ext ''d'' empty_fs"
    using empty_fs_ok by (simp add: store_ok_def empty_fs_def no_faults_def)
  have "\<exists>fs1. store_body demo_ext ''d'' demo_body empty_fs = (fs1, Inr demo_cid)"
    by (simp add: store_body_def empty_fs_def demo_body_def demo_cid_def MAX_BODY_BYTES_def fs_metadata_def
        fs_create_dir_all_def fs_write_def fs_rename_def no_faults_def Let_def split: option.split)
  moreover have "store_body demo_ext ''d'' [] fs = (fs, Inl ''400 empty body'')" for fs
    by (simp add: store_body_def)
  ultimately show "put_all (store_body demo_ext ''d'') [[], demo_body, []] empty_fs =
      (fst (put_all (store_body demo_ext ''d'') [[], demo_body, []] empty_fs),
       [Inl ''400 empty body'', Inr demo_cid, Inl ''400 empty body''])" by auto
qed simp_all

section \<open>Serving\<close>

text \<open>
  C26. \<open>serve_body\<close> returns data exactly when the requested id is the hex form of the hash
  of the file named by the id; it never panics on an ASCII id, and it does panic, for every
  store, on an id whose pairs cut a UTF-8 character.
\<close>

theorem serve_body_authentic:
  "(serve_body X dir cid fs = Ret (Inr data) \<longleftrightarrow>
     hex_decode cid = Ret (Some (sha256 X data)) \<and> length (sha256 X data) = 32 \<and>
     fs_read (body_path dir cid) fs = Inr data) \<and>
   \<not> (ascii_str cid \<and> serve_body X dir cid fs = Panic) \<and>
   serve_body X dir (bytes_str [0x61, 0xC3, 0xA9, 0x62]) fs = Panic"
proof -
  have "hex_decode (bytes_str [0x61, 0xC3, 0xA9, 0x62]) = Panic" by code_simp
  then have "serve_body X dir (bytes_str [0x61, 0xC3, 0xA9, 0x62]) fs = Panic"
    by (simp add: serve_body_def)
  then show ?thesis using serve_body_no_panic [of cid X dir fs] by (simp only: serve_body_Ok) blast
qed

section \<open>The chain\<close>

text \<open>
  C22. The chain view is a faithful, ordered index of the store: every file whose name is
  64 hex digits and \<open>.body\<close> is in it with the id it names, every id in it has 32 bytes and
  comes from such a directory entry, the heights are 0, 1, 2, ... and the ids stand in the
  order of the files' modification times.
\<close>

theorem chain_view_index:
  assumes "chain_view dir fs = Ret xs" "\<not> flt_readdir (fs_faults fs) dir"
  shows "(\<forall>h c. hex_decode h = Ret (Some c) \<and> length c = 32 \<and> fs_lookup fs (body_path dir h) \<noteq> None \<longrightarrow>
      c \<in> snd ` set xs) \<and>
    (\<forall>(n, c)\<in>set xs. length c = 32) \<and>
    map fst xs = map word_of_nat [0..<length xs] \<and>
    (\<exists>es. map snd xs = map snd es \<and> sorted (map fst es) \<and>
      (\<forall>(mt, c)\<in>set es. \<exists>name. name \<in> set (the (fs_read_dir dir fs)) \<and>
         chain_entry dir fs name = Ret (Some (mt, c))))"
proof (intro conjI)
  show "\<forall>h c. hex_decode h = Ret (Some c) \<and> length c = 32 \<and> fs_lookup fs (body_path dir h) \<noteq> None \<longrightarrow>
      c \<in> snd ` set xs"
    using chain_view_lists [OF assms] by blast
  show "\<forall>(n, c)\<in>set xs. length c = 32" using chain_view_id_length [OF assms(1)] by blast
  show "map fst xs = map word_of_nat [0..<length xs]" using chain_view_heights [OF assms(1)] .
  show "\<exists>es. map snd xs = map snd es \<and> sorted (map fst es) \<and>
      (\<forall>(mt, c)\<in>set es. \<exists>name. name \<in> set (the (fs_read_dir dir fs)) \<and>
         chain_entry dir fs name = Ret (Some (mt, c)))"
    using assms(1)
  proof (rule chain_view_order)
    fix es
    assume "map snd xs = map snd es" "sorted (map fst es)"
      and mem: "\<And>mt c. (mt, c) \<in> set es \<longleftrightarrow>
       (\<exists>ns n. fs_read_dir dir fs = Some ns \<and> n \<in> set ns \<and> chain_entry dir fs n = Ret (Some (mt, c)))"
    then show ?thesis using mem by fastforce
  qed
qed

lemma body_fs_chain: "chain_view ''d'' body_fs = Ret [(0, sha256 demo_ext demo_body)]"
proof -
  have "entry_name ''d'' (body_path ''d'' demo_cid) = Some (demo_cid @ ''.body'')"
    using hex_decode_no_slash(1) [OF demo_cid_decode] by (simp add: entry_name_Some body_path_file_path)
  then have "fs_read_dir ''d'' body_fs = Some [demo_cid @ ''.body'']"
    by (simp add: fs_read_dir_def body_fs_def no_faults_def List.map_filter_simps)
  moreover have "chain_entry ''d'' body_fs (demo_cid @ ''.body'') = Ret (Some (3, sha256 demo_ext demo_body))"
    using chain_entry_body [OF demo_cid_decode, of "''d''" body_fs]
    by (simp add: fs_metadata_def body_fs_def no_faults_def)
  ultimately show ?thesis by (simp add: chain_view_def)
qed

theorem chain_view_index_witness:
  "sha256 demo_ext demo_body \<in> snd ` set [(0 :: u64, sha256 demo_ext demo_body)] \<and>
    (\<exists>es. map snd [(0 :: u64, sha256 demo_ext demo_body)] = map snd es \<and> sorted (map fst es) \<and>
      (\<forall>(mt, c)\<in>set es. \<exists>name. name \<in> set (the (fs_read_dir ''d'' body_fs)) \<and>
         chain_entry ''d'' body_fs name = Ret (Some (mt, c))))"
proof -
  have "\<not> flt_readdir (fs_faults body_fs) ''d''" by (simp add: body_fs_def no_faults_def)
  note idx = chain_view_index [OF body_fs_chain this]
  have "length (sha256 demo_ext demo_body) = 32" "fs_lookup body_fs (body_path ''d'' demo_cid) \<noteq> None"
    by (simp_all add: body_fs_def)
  then show ?thesis using idx demo_cid_decode by blast
qed

section \<open>The write policy\<close>

text \<open>
  C32. The rate limiter never grants a client more requests in one of its windows than its
  maximum, over any sequence of requests of any clients whose times do not run backwards
  for that client. (The windows are seconds, the option is documented as per minute.)
\<close>

theorem limiter_window_cap:
  assumes "m \<noteq> 0" "sorted (times_of ip rs)"
  shows "grants rs (gate_run rl_allow (rl_new m) rs) ip t \<le> unat m"
  using rl.window_cap [of "rl_new m" ip rs t] assms
  by (simp add: rl_new_def [of m] unat_gt_0 rl_used_def)

theorem limiter_window_cap_witness:
  "grants [(''a'', 1 :: u64), (''b'', 0), (''a'', 1), (''a'', 1)]
     (gate_run rl_allow (rl_new 2) [(''a'', 1), (''b'', 0), (''a'', 1), (''a'', 1)]) ''a'' 1 \<le> unat (2 :: u32)"
  by (rule limiter_window_cap) simp_all

text \<open>
  The write gate lets a push through exactly when the limiter grants the request, the
  request carries the configured token (when there is one) and the store with this body
  stays within the cap (when there is one); otherwise it answers 429, 401 or 507, the first
  of them that applies, and the limiter is charged in every case.
\<close>

lemma write_gate:
  "enforce_write_policy cfg ip dir fs len lim now payload =
     (fst (rl_allow lim ip now),
      if \<not> snd (rl_allow lim ip now) then Inl ''429 put rate limit exceeded''
      else if sc_token cfg \<notin> {None, Some (str_or (get_str payload ''TOKEN'') [])} then Inl ''401 bad write token''
      else if sc_max_store_bytes cfg \<noteq> 0 \<and>
        unat (sc_max_store_bytes cfg) < min (unat (store_bytes dir fs) + unat (word_of_nat len :: u64)) (2 ^ 64 - 1)
      then Inl ''507 store full'' else Inr ())"
proof -
  have less: "a < sat_add b c \<longleftrightarrow> unat a < min (unat b + unat c) (2 ^ 64 - 1)" for a b c :: u64
  proof -
    have "unat b < 2 ^ 64" "unat c < 2 ^ 64" by (rule order_less_le_trans [OF unsigned_less], simp)+
    moreover have "unat (- 1 :: u64) = 2 ^ 64 - 1" by (simp add: unsigned_minus_1_eq_mask mask_eq_exp_minus_1)
    ultimately show ?thesis by (auto simp: word_less_nat_alt sat_add_def unat_word_ariths min_def)
  qed
  show ?thesis
    by (cases "rl_allow lim ip now"; cases "sc_token cfg")
      (auto simp: enforce_write_policy_def less word_gt_0)
qed

end
