(* ===== verification/Relay.thy ===== *)
theory Relay
  imports Fabric_Wire
begin

text \<open>
  The relay as a state machine. A configuration is the relay's state and the disk; the
  steps are the three verbs and a restart, in any order and with any clock readings, and a
  change of the disk's clock and of the writes it refuses. The
  invariant \<open>relay_ok\<close> holds in every reachable configuration: the registry has its
  shape, queues are bounded, and the index agrees with the disk.
\<close>

type_synonym relay = "fabric_state \<times> fsys"

definition disk_ok :: "path \<Rightarrow> fsys \<Rightarrow> bool" where
  "disk_ok dir fs \<longleftrightarrow> readable dir fs \<and> (\<forall>p. \<not> flt_remove (fs_faults fs) p)"

definition relay_ok :: "ext \<Rightarrow> path \<Rightarrow> relay \<Rightarrow> bool" where
  "relay_ok X dir c \<longleftrightarrow> reg_wf X (fst c) \<and> queues_bounded (fst c) \<and>
     index_ok X dir (fab_queues (fst c)) (snd c) \<and> no_orphans X dir (fab_queues (fst c)) (snd c) \<and>
     disk_ok dir (snd c)"

text \<open>
  An fput step is one whose own envelope, the one it writes if its checks let it, replaces no
  other bytes: SHA-256 has not given it the name of a different file of the directory. Between
  the verbs the disk may begin or cease to refuse calls; what it refuses is limited by
  \<open>disk_ok\<close>, which lets reads, listings and removals succeed.
\<close>

inductive relay_step :: "ext \<Rightarrow> path \<Rightarrow> relay \<Rightarrow> relay \<Rightarrow> bool" for X dir where
  freg: "run_freg X st req clk = (st', r) \<Longrightarrow> relay_step X dir (st, fs) (st', fs)"
| fput: "run_fput X st req dir ip clk fs = (st', fs', r) \<Longrightarrow>
    no_collision X dir fs (marshal_envelope (new_envelope X req (clk 3))) \<Longrightarrow>
    relay_step X dir (st, fs) (st', fs')"
| fpop: "run_fpop X st req dir ip clk fs = (st', fs', r) \<Longrightarrow> relay_step X dir (st, fs) (st', fs')"
| restart: "fabric_open X dir (fab_cfg st) clk fs = (fs', st') \<Longrightarrow> relay_step X dir (st, fs) (st', fs')"
| disk: "fs_files fs' = fs_files fs \<Longrightarrow> disk_ok dir fs' \<Longrightarrow> relay_step X dir (st, fs) (st, fs')"

inductive_cases relay_stepE: "relay_step X dir c c'"

section \<open>The disk between steps\<close>

lemma readable_cong: "fs_wf fs' \<Longrightarrow> fs_faults fs' = fs_faults fs \<Longrightarrow> readable dir fs \<Longrightarrow> readable dir fs'"
  by (simp add: readable_def)

lemma drops_wf: "fs_wf fs \<Longrightarrow> fs_wf (drops dir xs fs)"
  by (induction xs arbitrary: fs) (simp_all add: drop_envelope_def)

lemma persist_wf: "persist_envelope dir cid raw fs = (fs1, r) \<Longrightarrow> fs_wf fs \<Longrightarrow> fs_wf fs1"
  by (auto simp: persist_envelope_def Let_def split: prod.splits sum.splits
      dest: fs_wf_write fs_wf_rename)

lemma run_fput_disk:
  assumes "run_fput X st req dir ip clk fs = (st', fs', r)"
  shows "fs_faults fs' = fs_faults fs" "fs_wf fs \<Longrightarrow> fs_wf fs'"
proof -
  have *: "fs_faults fs' = fs_faults fs \<and> (fs_wf fs \<longrightarrow> fs_wf fs')"
    using assms
  proof (cases rule: run_fput_cases)
    case (io lim cid raw e)
    then show ?thesis using persist_keeps [OF io(3)] persist_wf [OF io(3)] by blast
  next
    case (queued h0 h rg lim ptr_hex env cid fs1 q1 fs2 q2)
    have "fs_faults fs2 = fs_faults fs1 \<and> (fs_wf fs1 \<longrightarrow> fs_wf fs2)"
      using queued(14) by (cases rule: enqueue_cases) (auto simp: drops_wf drop_envelope_def)
    moreover have "fs_faults fs' = fs_faults fs2 \<and> (fs_wf fs2 \<longrightarrow> fs_wf fs')"
      using queued(15) by (auto simp: compost_eq drops_wf)
    ultimately show ?thesis using persist_keeps [OF queued(13)] persist_wf [OF queued(13)] by simp
  qed simp_all
  then show "fs_faults fs' = fs_faults fs" "fs_wf fs \<Longrightarrow> fs_wf fs'" by auto
qed

lemma run_fpop_disk:
  assumes "run_fpop X st req dir ip clk fs = (st', fs', r)"
  shows "fs_faults fs' = fs_faults fs" "fs_wf fs \<Longrightarrow> fs_wf fs'"
  using assms by (cases rule: run_fpop_cases; simp add: drops_wf)+

lemma open_loop_wf: "fs_wf fs \<Longrightarrow> fs_wf (fst (open_loop X dir cfg clk i ns (fs, qs)))"
proof (induction ns arbitrary: i fs qs)
  case (Cons n ns)
  have "fs_wf (fst (open_entry X dir cfg (clk i) (clk (i + 1)) n (fs, qs)))"
    using open_entry_fst(1) [of X dir cfg "clk i" "clk (i + 1)" n fs qs] Cons.prems by auto
  then show ?case unfolding open_loop_Cons by (rule Cons.IH)
qed simp

lemma fabric_open_loop:
  assumes "fabric_open X dir cfg clk fs = (fs', st')"
  obtains ns where "fs' = fst (open_loop X dir cfg clk 0 ns (fs, []))"
    "st' = \<lparr> fab_cfg = cfg, fab_fput_limiter = rl_new (fc_fput_rate cfg), fab_reg = [],
       fab_queues = map (\<lambda>(h, q). (h, sort_key q_key q)) (snd (open_loop X dir cfg clk 0 ns (fs, []))),
       fab_last_sweep_sec = 0 \<rparr>"
proof (cases "fs_read_dir dir fs")
  case None
  then show thesis using assms by (intro that [of "[]"]) (simp_all add: fabric_open_def)
next
  case (Some ns)
  then show thesis using assms by (intro that [of ns]) (simp_all add: fabric_open_def split_beta)
qed

lemma fabric_open_disk:
  assumes "fabric_open X dir cfg clk fs = (fs', st')"
  shows "fs_faults fs' = fs_faults fs" "fs_wf fs \<Longrightarrow> fs_wf fs'"
  using fabric_open_loop [OF assms] open_loop_wf by (metis open_loop_faults)+

section \<open>A restart keeps the bounds\<close>

lemma open_loop_keys:
  "distinct (map fst qs) \<Longrightarrow> distinct (map fst (snd (open_loop X dir cfg clk i ns (fs, qs))))"
proof (induction ns arbitrary: i fs qs)
  case (Cons n ns)
  then show ?case unfolding open_loop_Cons by (auto simp: distinct_update split: option.split)
qed simp

lemma fabric_open_state:
  assumes "fabric_open X dir cfg clk fs = (fs', st')"
  shows "fab_reg st' = []" "fab_cfg st' = cfg" "fab_fput_limiter st' = rl_new (fc_fput_rate cfg)"
    "distinct (map fst (fab_queues st'))"
proof -
  from fabric_open_loop [OF assms] obtain ns where st: "st' = \<lparr> fab_cfg = cfg,
      fab_fput_limiter = rl_new (fc_fput_rate cfg), fab_reg = [],
      fab_queues = map (\<lambda>(h, q). (h, sort_key q_key q)) (snd (open_loop X dir cfg clk 0 ns (fs, []))),
      fab_last_sweep_sec = 0 \<rparr>" .
  then show "fab_reg st' = []" "fab_cfg st' = cfg" "fab_fput_limiter st' = rl_new (fc_fput_rate cfg)"
    by simp_all
  have m: "map fst (map (\<lambda>(h, q). (h, sort_key q_key q)) qs) = map fst qs" for qs :: "(string \<times> queued list) list"
    by (simp add: comp_def split_def)
  have "distinct (map fst (snd (open_loop X dir cfg clk 0 ns (fs, []))))"
    by (rule open_loop_keys) simp
  then show "distinct (map fst (fab_queues st'))" by (simp add: st m del: map_map)
qed

lemma restart_length:
  assumes "hex_law X" "sha_law X" "index_ok X dir qs fs" "no_orphans X dir qs fs" "readable dir fs"
    and opn: "fabric_open X dir cfg clk fs = (fs', st')"
  shows "length (queue_of (fab_queues st') h) \<le> length (queue_of qs h)"
proof -
  let ?q' = "queue_of (fab_queues st') h"
  have "queue_ok X dir fs' h ?q'"
    by (rule index_ok_queue [OF restart_index_ok [OF assms(1-5) opn]])
  then have "distinct (map q_pointer ?q')" by (simp add: queue_ok_def)
  then have "length ?q' = card (q_pointer ` set ?q')"
    by (metis distinct_card length_map set_map)
  also have "\<dots> \<le> card (q_pointer ` set (queue_of qs h))"
  proof (rule card_mono)
    have "fst ` q_sig ` set ?q' \<subseteq> fst ` q_sig ` set (queue_of qs h)"
      using restart_sound [OF assms(1-5) opn] by blast
    then show "q_pointer ` set ?q' \<subseteq> q_pointer ` set (queue_of qs h)"
      by (simp add: image_image q_sig_def)
  qed simp
  also have "\<dots> \<le> length (queue_of qs h)"
    using card_length [of "map q_pointer (queue_of qs h)"] by simp
  finally show ?thesis .
qed

lemma queues_boundedI:
  "distinct (map fst (fab_queues st)) \<Longrightarrow>
   (\<And>h. length (queue_of (fab_queues st) h) \<le> fc_max_per_handle (fab_cfg st)) \<Longrightarrow> queues_bounded st"
  unfolding queues_bounded_def list_all_iff by (auto simp: queue_of_def) (metis map_of_is_SomeI option.simps(5))

section \<open>The invariant\<close>

lemma relay_ok_freg:
  assumes "hex_law X" "relay_ok X dir (st, fs)" "run_freg X st req clk = (st', r)"
  shows "relay_ok X dir (st', fs)"
  using assms run_freg_wf [OF assms(1,3)] run_freg_keeps [OF assms(3)]
  by (simp add: relay_ok_def queues_bounded_def)

lemma relay_ok_fput:
  assumes "hex_law X" "sha_law X" "relay_ok X dir (st, fs)" "run_fput X st req dir ip clk fs = (st', fs', r)"
    "no_collision X dir fs (marshal_envelope (new_envelope X req (clk 3)))"
  shows "relay_ok X dir (st', fs')"
proof -
  have ok: "reg_wf X st" "queues_bounded st" "index_ok X dir (fab_queues st) fs" "no_orphans X dir (fab_queues st) fs"
    "disk_ok dir fs" using assms(3) by (simp_all add: relay_ok_def)
  have nf: "\<not> flt_remove (fs_faults fs) p" for p using ok(5) by (simp add: disk_ok_def)
  have "index_ok X dir (fab_queues st') fs'"
    using assms(1) ok(1,3) assms(5,4) by (rule run_fput_index_ok)
  moreover have "no_orphans X dir (fab_queues st') fs'"
    using assms(4) ok(4) nf assms(1,2) ok(1) by (rule run_fput_no_orphans)
  moreover have "disk_ok dir fs'"
    using ok(5) run_fput_disk [OF assms(4)] by (auto simp: disk_ok_def readable_def)
  moreover have "reg_wf X st'" using ok(1) run_fput_keeps [OF assms(4)] by (simp add: reg_wf_def)
  moreover have "queues_bounded st'" using assms(4) ok(2) by (rule run_fput_bounded)
  ultimately show ?thesis by (simp add: relay_ok_def)
qed

lemma relay_ok_fpop:
  assumes "relay_ok X dir (st, fs)" "run_fpop X st req dir ip clk fs = (st', fs', r)"
  shows "relay_ok X dir (st', fs')"
proof -
  have ok: "reg_wf X st" "queues_bounded st" "index_ok X dir (fab_queues st) fs" "no_orphans X dir (fab_queues st) fs"
    "disk_ok dir fs" using assms(1) by (simp_all add: relay_ok_def)
  have nf: "\<not> flt_remove (fs_faults fs) p" for p using ok(5) by (simp add: disk_ok_def)
  have "index_ok X dir (fab_queues st') fs'" using ok(3) assms(2) by (rule run_fpop_index_ok)
  moreover have "no_orphans X dir (fab_queues st') fs'" using assms(2) ok(4) nf by (rule run_fpop_no_orphans)
  moreover have "disk_ok dir fs'"
    using ok(5) run_fpop_disk [OF assms(2)] by (auto simp: disk_ok_def readable_def)
  moreover have "reg_wf X st'" using ok(1) run_fpop_keeps [OF assms(2)] by (simp add: reg_wf_def)
  moreover have "queues_bounded st'" using assms(2) ok(2) by (rule run_fpop_bounded)
  ultimately show ?thesis by (simp add: relay_ok_def)
qed

text \<open>The names of the envelope files that belong to queue entries.\<close>

lemma orphan_free_names:
  assumes law: "hex_law X" "sha_law X" and ok: "index_ok X dir qs fs" and no: "no_orphans X dir qs fs"
    and f: "fs_lookup fs (file_path dir n) = Some f" "path_extension n = Some ''fenv''" "parse_envelope (f_data f) = Inr e"
  shows "\<exists>b. n = hexs b @ ''.fenv'' \<and> b \<noteq> []"
proof -
  from no_orphansD [OF no f] obtain x where x: "x \<in> set (queue_of qs (hex_encode X (e_handle e)))"
    "q_file dir x = file_path dir n" by blast
  then obtain e' where "backs X dir fs (hex_encode X (e_handle e)) x e'"
    using queue_ok_backs [OF index_ok_queue [OF ok]] by blast
  then have cid: "q_env_cid_hex x = hexs (sha256 X (marshal_envelope e'))"
    using law(1) by (auto simp: backs_def hex_law_encode)
  have ne: "sha256 X (marshal_envelope e') \<noteq> []"
    using sha_law_length [OF law(2), of "marshal_envelope e'"] by auto
  have "n = hexs (sha256 X (marshal_envelope e')) @ ''.fenv''"
    using x(2) fenv_name(3) [OF ne, of dir] by (simp add: cid)
  then show ?thesis using ne by blast
qed

lemma relay_ok_restart:
  assumes law: "hex_law X" "sha_law X" and rok: "relay_ok X dir (st, fs)"
    and opn: "fabric_open X dir (fab_cfg st) clk fs = (fs', st')"
  shows "relay_ok X dir (st', fs')"
proof -
  have ok: "reg_wf X st" "queues_bounded st" "index_ok X dir (fab_queues st) fs" "no_orphans X dir (fab_queues st) fs"
    "disk_ok dir fs" using rok by (simp_all add: relay_ok_def)
  have rd: "readable dir fs" and nf: "\<not> flt_remove (fs_faults fs) p" for p using ok(5) by (simp_all add: disk_ok_def)
  have "index_ok X dir (fab_queues st') fs'" by (rule restart_index_ok [OF law ok(3,4) rd opn])
  moreover have "no_orphans X dir (fab_queues st') fs'"
  proof (rule restart_no_orphans [OF law rd opn nf])
    fix n f assume "fs_lookup fs (file_path dir n) = Some f" "path_extension n = Some ''fenv''"
      "\<exists>e. parse_envelope (f_data f) = Inr e"
    then show "\<exists>b. n = hexs b @ ''.fenv'' \<and> b \<noteq> []"
      using orphan_free_names [OF law ok(3,4)] by blast
  qed
  moreover have "disk_ok dir fs'"
    using ok(5) fabric_open_disk [OF opn] by (auto simp: disk_ok_def readable_def)
  moreover have "reg_wf X st'" using fabric_open_state [OF opn] by (simp add: reg_wf_def)
  moreover have "queues_bounded st'"
  proof (rule queues_boundedI)
    show "distinct (map fst (fab_queues st'))" by (rule fabric_open_state [OF opn])
    fix h show "length (queue_of (fab_queues st') h) \<le> fc_max_per_handle (fab_cfg st')"
      using restart_length [OF law ok(3,4) rd opn, of h] queues_bounded_of [OF ok(2), of h]
        fabric_open_state(2) [OF opn] by simp
  qed
  ultimately show ?thesis by (simp add: relay_ok_def)
qed

lemma relay_ok_disk:
  "relay_ok X dir (st, fs) \<Longrightarrow> fs_files fs' = fs_files fs \<Longrightarrow> disk_ok dir fs' \<Longrightarrow> relay_ok X dir (st, fs')"
  by (simp add: relay_ok_def index_ok_def queue_ok_def backs_def no_orphans_def)

lemma relay_step_ok:
  assumes "hex_law X" "sha_law X" "relay_step X dir c c'" "relay_ok X dir c"
  shows "relay_ok X dir c'"
  using assms(3,4)
proof (induction rule: relay_step.induct)
  case (freg st req clk st' r fs)
  then show ?case using relay_ok_freg [OF assms(1)] by blast
next
  case (fput st req ip clk fs st' fs' r)
  from relay_ok_fput [OF assms(1,2) fput(3,1,2)] show ?case .
next
  case (fpop st req ip clk fs st' fs' r)
  then show ?case using relay_ok_fpop by blast
next
  case (restart st clk fs fs' st')
  then show ?case using relay_ok_restart [OF assms(1,2)] by blast
next
  case (disk fs' fs st)
  then show ?case using relay_ok_disk by blast
qed

interpretation relay_system: invariant_system "relay_step X dir" "\<lambda>c. hex_law X \<and> sha_law X \<and> relay_ok X dir c" for X dir
  by unfold_locales (auto intro: relay_step_ok)

text \<open>A relay opened on a directory without envelope files starts in the invariant.\<close>

lemma relay_ok_open:
  assumes opn: "fabric_open X dir cfg clk fs = (fs', st')" and disk: "disk_ok dir fs"
    and none: "\<And>n. path_extension n = Some ''fenv'' \<Longrightarrow> fs_lookup fs (file_path dir n) = None"
  shows "relay_ok X dir (st', fs')"
proof -
  have rd: "readable dir fs" using disk by (simp add: disk_ok_def)
  from fabric_open_queue [OF rd opn] have q: "queue_of (fab_queues st') h = []" for h
  proof cases
    case (1 ns)
    have "env_at dir fs n = None" for n using none env_at_Some [of dir fs n] by (cases "env_at dir fs n") auto
    then have "open_items X dir cfg clk 0 ns fs = []"
      by (metis open_item_Some open_items_mem list.set_intros(1) neq_Nil_conv option.distinct(1) surj_pair)
    then show ?thesis by (simp add: 1(4))
  qed
  have "fs_lookup fs' p = Some f \<Longrightarrow> fs_lookup fs p = Some f" for p f
    using fabric_open_queue [OF rd opn] open_loop_sub by cases blast
  then have "no_orphans X dir (fab_queues st') fs'"
    using none by (intro no_orphansI) fastforce
  moreover have "index_ok X dir (fab_queues st') fs'"
    using q by (auto simp: index_ok_def queue_ok_def queue_of_def split: option.splits)
      (metis empty_iff empty_set option.simps(5) list.map_disc_iff distinct.simps(1))+
  moreover have "disk_ok dir fs'"
    using disk fabric_open_disk [OF opn] by (auto simp: disk_ok_def readable_def)
  moreover have "queues_bounded st'"
    by (rule queues_boundedI) (use fabric_open_state [OF opn] q in simp_all)
  ultimately show ?thesis using fabric_open_state [OF opn] by (simp add: relay_ok_def reg_wf_def)
qed

end
