(* ===== verification/Fabric_Spec.thy ===== *)
theory Fabric_Spec
  imports Relay
begin

text \<open>
  The abstract specification of the relay: a mailbox per handle, which is a list of
  pointers, each with the burn deadline it carries. Files, envelopes, registrations and
  limiters are gone. The relay refines it: every step of the relay is a step of the
  mailbox with the same label, so what holds of all mailbox traces holds of the relay.
\<close>

section \<open>The mailbox\<close>

type_synonym mailbox = "string \<Rightarrow> bytes list"

text \<open>
  A put keeps one copy of each pointer, drops the oldest beyond \<open>mx\<close> and every pointer that
  is past its deadline. A pop takes from the front, at most \<open>n\<close> live pointers, and throws
  away the expired ones it passes.
\<close>

definition put_spec :: "nat \<Rightarrow> u64 \<Rightarrow> bytes \<Rightarrow> bytes list \<Rightarrow> bytes list" where
  "put_spec mx now p box =
     filter (\<lambda>q. now < pointer_deadline q)
       (if p \<in> set box then box else drop (Suc (length box) - mx) (box @ [p]))"

fun pop_spec :: "u64 \<Rightarrow> nat \<Rightarrow> bytes list \<Rightarrow> bytes list \<times> bytes list" where
  "pop_spec now n [] = ([], [])"
| "pop_spec now n (p # box) =
     (if n = 0 then (p # box, [])
      else if now < pointer_deadline p then
        (case pop_spec now (n - 1) box of (rest, out) \<Rightarrow> (rest, p # out))
      else pop_spec now n box)"

datatype mail_event = Quiet | Put string bytes | Pop string "bytes list" | Restart

inductive mail_step :: "nat \<Rightarrow> mailbox \<Rightarrow> mail_event \<Rightarrow> mailbox \<Rightarrow> bool" for mx where
  quiet: "mail_step mx box Quiet box"
| put: "mail_step mx box (Put h p) (box(h := put_spec mx now p (box h)))"
| pop: "pop_spec now n (box h) = (rest, out) \<Longrightarrow> mail_step mx box (Pop h out) (box(h := rest))"
| restart: "(\<And>h. distinct (box' h) \<and> set (box' h) \<subseteq> set (box h)) \<Longrightarrow> mail_step mx box Restart box'"

abbreviation mail_trace :: "nat \<Rightarrow> mailbox \<Rightarrow> mail_event list \<Rightarrow> mailbox \<Rightarrow> bool" where
  "mail_trace mx \<equiv> trace (mail_step mx)"

inductive_cases mail_stepE: "mail_step mx box ev box'"

inductive_simps mail_step_simps:
  "mail_step mx box Quiet box'" "mail_step mx box (Put h p) box'" "mail_step mx box (Pop h out) box'"
  "mail_step mx box Restart box'"

lemma put_spec_sub: "set (put_spec mx now p box) \<subseteq> insert p (set box)"
  by (auto simp: put_spec_def dest: in_set_dropD)

lemma put_spec_distinct: "distinct box \<Longrightarrow> distinct (put_spec mx now p box)"
  using distinct_drop [of "box @ [p]" "Suc (length box) - mx"] unfolding put_spec_def by (auto simp del: drop_append)

lemma put_spec_length: "length box \<le> mx \<Longrightarrow> length (put_spec mx now p box) \<le> mx"
  unfolding put_spec_def by (rule order_trans [OF length_filter_le]) (auto simp del: drop_append)

lemma pop_spec_parts:
  "pop_spec now n box = (rest, out) \<Longrightarrow>
   \<exists>taken. box = taken @ rest \<and> out = filter (\<lambda>p. now < pointer_deadline p) taken \<and> length out \<le> n"
proof (induction now n box arbitrary: rest out rule: pop_spec.induct)
  case (2 now n p box)
  show ?case
  proof (cases "n = 0")
    case True
    with 2 show ?thesis by (intro exI [of _ "[]"]) auto
  next
    case False
    show ?thesis
    proof (cases "now < pointer_deadline p")
      case True
      with False 2 obtain out1 where "pop_spec now (n - 1) box = (rest, out1)" "out = p # out1"
        by (auto split: prod.splits)
      with 2(1) [OF False True this(1)] obtain taken where "box = taken @ rest"
        "out1 = filter (\<lambda>p. now < pointer_deadline p) taken" "length out1 \<le> n - 1" by blast
      with True False \<open>out = p # out1\<close> show ?thesis by (intro exI [of _ "p # taken"]) simp
    next
      case F: False
      with False 2 have "pop_spec now n box = (rest, out)" by simp
      with 2(2) [OF False F this] obtain taken where "box = taken @ rest"
        "out = filter (\<lambda>p. now < pointer_deadline p) taken" "length out \<le> n" by blast
      with F show ?thesis by (intro exI [of _ "p # taken"]) simp
    qed
  qed
qed auto

section \<open>What the mailbox promises\<close>

definition puts :: "string \<Rightarrow> mail_event list \<Rightarrow> bytes set" where
  "puts h evs = {p. Put h p \<in> set evs}"

definition pops :: "string \<Rightarrow> mail_event list \<Rightarrow> bytes set" where
  "pops h evs = \<Union> {set out | out. Pop h out \<in> set evs}"

lemma puts_simps [simp]:
  "puts h [] = {}" "puts h (evs @ [ev]) = puts h evs \<union> {p. ev = Put h p}"
  by (auto simp: puts_def)

lemma pops_simps [simp]:
  "pops h [] = {}" "pops h (evs @ [ev]) = pops h evs \<union> \<Union> {set out | out. ev = Pop h out}"
  by (auto simp: pops_def)

text \<open>Nothing is invented: what a mailbox holds or has handed out was put into that mailbox.\<close>

lemma mail_trace_put:
  assumes "mail_trace mx box evs box'"
  shows "set (box' h) \<union> pops h evs \<subseteq> set (box h) \<union> puts h evs"
  using assms
proof (induction arbitrary: h rule: trace.induct)
  case (snoc evs box1 ev box2)
  from snoc.hyps(2) show ?case
  proof (cases rule: mail_step.cases)
    case quiet
    with snoc.IH show ?thesis by auto
  next
    case (put h' p now)
    with snoc.IH [of h] put_spec_sub [of mx now p "box1 h'"] show ?thesis by auto
  next
    case (pop now n h' rest out)
    from pop_spec_parts [OF pop(3)] have "set rest \<subseteq> set (box1 h')" "set out \<subseteq> set (box1 h')" by auto
    with snoc.IH [of h] pop show ?thesis by auto
  next
    case restart
    with snoc.IH [of h] show ?thesis by auto
  qed
qed simp

section \<open>The relay as a mailbox\<close>

definition mail :: "fabric_state \<Rightarrow> mailbox" where
  "mail st h = map q_pointer (queue_of (fab_queues st) h)"

abbreviation timed :: "queued \<Rightarrow> bool" where
  "timed x \<equiv> q_deadline x = pointer_deadline (q_pointer x)"

lemma index_ok_timed: "index_ok X dir qs fs \<Longrightarrow> x \<in> set (queue_of qs h) \<Longrightarrow> timed x"
  by (drule queue_ok_backs [OF index_ok_queue]) (auto simp: backs_def)

lemma mail_cong: "fab_queues st' = fab_queues st \<Longrightarrow> mail st' = mail st"
  by (rule ext) (simp add: mail_def)

lemma pop_spec_0 [simp]: "pop_spec now 0 box = (box, [])"
  by (cases box) simp_all

lemma index_ok_distinct: "index_ok X dir (fab_queues st) fs \<Longrightarrow> distinct (mail st h)"
  using index_ok_queue [of X dir "fab_queues st" fs h] by (simp add: mail_def queue_ok_def)

lemma enqueue_mail:
  assumes "fput_enqueue dir mx ptr cid (pointer_deadline ptr) received q fs = (q1, fs1)"
  shows "map q_pointer q1 = (if ptr \<in> set (map q_pointer q) then map q_pointer q
      else drop (Suc (length q) - mx) (map q_pointer q @ [ptr]))"
    "\<forall>x\<in>set q. timed x \<Longrightarrow> \<forall>x\<in>set q1. timed x"
proof -
  have "map q_pointer q1 = (if ptr \<in> set (map q_pointer q) then map q_pointer q
      else drop (Suc (length q) - mx) (map q_pointer q @ [ptr])) \<and>
    ((\<forall>x\<in>set q. timed x) \<longrightarrow> (\<forall>x\<in>set q1. timed x))"
    using assms
  proof (cases rule: enqueue_cases)
    case (refreshed ys x zs)
    then show ?thesis by simp
  next
    case (appended q2)
    have "set q1 \<subseteq> set q2" unfolding appended(3) by (rule set_drop_subset)
    moreover have "map q_pointer q1 = drop (Suc (length q) - mx) (map q_pointer q @ [ptr])"
      by (simp add: appended(2,3) drop_map [symmetric] del: drop_append)
    ultimately show ?thesis using appended(1,2) by auto
  qed
  then show "map q_pointer q1 = (if ptr \<in> set (map q_pointer q) then map q_pointer q
      else drop (Suc (length q) - mx) (map q_pointer q @ [ptr]))"
    "\<forall>x\<in>set q. timed x \<Longrightarrow> \<forall>x\<in>set q1. timed x" by blast+
qed

lemma compost_mail:
  assumes "compost dir now q fs = (q', fs')" "\<forall>x\<in>set q. timed x"
  shows "map q_pointer q' = filter (\<lambda>p. now < pointer_deadline p) (map q_pointer q)"
proof -
  have "q' = filter (\<lambda>x. now < pointer_deadline (q_pointer x)) q"
    using assms by (auto simp: compost_eq intro: filter_cong)
  then show ?thesis by (simp add: filter_map comp_def)
qed

lemma drain_mail:
  "drain X dir now mx q fs out = (q', fs', out') \<Longrightarrow> \<forall>x\<in>set q. timed x \<Longrightarrow> length out \<le> mx \<Longrightarrow>
   \<exists>ps. pop_spec now (mx - length out) (map q_pointer q) = (map q_pointer q', ps) \<and>
     out' = out @ map (hex_encode X) ps"
proof (induction X dir now mx q fs out rule: drain.induct)
  case (2 X dir now mx x q fs out)
  show ?case
  proof (cases "length out < mx")
    case False
    with 2 show ?thesis by simp
  next
    case True
    show ?thesis
    proof (cases "q_deadline x > now")
      case False
      with 2 True have "\<exists>ps. pop_spec now (mx - length out) (map q_pointer q) = (map q_pointer q', ps) \<and>
          out' = out @ map (hex_encode X) ps"
        using "2.IH" by simp
      with False True 2(3) show ?thesis by auto
    next
      case F: True
      with 2 True have "\<exists>ps. pop_spec now (mx - length (out @ [hex_encode X (q_pointer x)])) (map q_pointer q) = (map q_pointer q', ps) \<and>
          out' = (out @ [hex_encode X (q_pointer x)]) @ map (hex_encode X) ps"
        using "2.IH" by simp
      with F True 2 show ?thesis by auto
    qed
  qed
qed auto

text \<open>
  One accepted verb, with the pointers it moved. The label of a step comes from the request
  and the reply alone.
\<close>

definition put_label :: "ext \<Rightarrow> json \<Rightarrow> (string + json) run \<Rightarrow> mail_event" where
  "put_label X req r =
     (case r of Ret (Inr _) \<Rightarrow>
        (case hex_crate_decode X (str_or (get_str req ''pointer_hex'') []) of
           Inr p \<Rightarrow> Put (req_handle X req) p | Inl _ \<Rightarrow> Quiet)
      | _ \<Rightarrow> Quiet)"

lemma run_fput_mail:
  assumes run: "run_fput X st req dir ip clk fs = (st', fs', r)"
    and ok: "index_ok X dir (fab_queues st) fs"
  shows "mail_step (fc_max_per_handle (fab_cfg st)) (mail st) (put_label X req r) (mail st')"
  using run
proof (cases rule: run_fput_cases)
  case (refused lim e)
  then have "mail st' = mail st" "put_label X req r = Quiet" by (auto simp: put_label_def intro: mail_cong)
  then show ?thesis by (simp add: mail_step_simps)
next
  case (panicked h0 rg lim)
  then have "mail st' = mail st" "put_label X req r = Quiet" by (auto simp: put_label_def intro: mail_cong)
  then show ?thesis by (simp add: mail_step_simps)
next
  case (io lim cid raw e)
  then have "mail st' = mail st" "put_label X req r = Quiet" by (auto simp: put_label_def intro: mail_cong)
  then show ?thesis by (simp add: mail_step_simps)
next
  case (queued h0 h rg lim ptr_hex env cid fs1 q1 fs2 q2)
  have lab: "put_label X req r = Put h (e_pointer env)"
    using queued by (simp add: put_label_def req_handle_def)
  have t: "\<forall>x\<in>set (queue_of (fab_queues st) h). timed x" using index_ok_timed [OF ok] by blast
  note e = enqueue_mail [OF queued(14)]
  have "mail st' = (mail st)(h := map q_pointer q2)"
    using queued by (auto simp: mail_def queue_of_update fun_eq_iff)
  moreover have "map q_pointer q2 = put_spec (fc_max_per_handle (fab_cfg st)) (clk 4) (e_pointer env) (mail st h)"
    unfolding compost_mail [OF queued(15) e(2) [OF t]] e(1) put_spec_def by (simp add: mail_def)
  ultimately show ?thesis unfolding lab by (auto simp: mail_step_simps)
qed

definition pop_label :: "ext \<Rightarrow> json \<Rightarrow> (string + json) \<Rightarrow> mail_event \<Rightarrow> bool" where
  "pop_label X req r ev \<longleftrightarrow>
     (case r of Inl _ \<Rightarrow> ev = Quiet
      | Inr v \<Rightarrow> \<exists>ps. ev = Pop (req_handle X req) ps \<and>
          v = Object [(''pointers'', Array (map (\<lambda>p. String (hex_encode X p)) ps))])"

lemma run_fpop_mail:
  assumes run: "run_fpop X st req dir ip clk fs = (st', fs', r)"
    and ok: "index_ok X dir (fab_queues st) fs" and lab: "pop_label X req r ev"
    and inj: "hex_law X"
  shows "mail_step mx (mail st) ev (mail st')"
proof (cases r)
  case (Inl e)
  have "fab_queues st' = fab_queues st"
    using run by (cases rule: run_fpop_cases) (use Inl in simp_all)
  then have "mail st' = mail st" by (rule mail_cong)
  with Inl lab show ?thesis by (simp add: pop_label_def mail_step_simps)
next
  case (Inr v)
  from run Inr obtain h0 where h0: "get_str req ''handle'' = Some h0" by (auto simp: run_fpop_def split: option.splits)
  let ?h = "req_handle X req"
  have t: "\<forall>x\<in>set (queue_of (fab_queues st) ?h). timed x" using index_ok_timed [OF ok] by blast
  from lab Inr obtain ps where ev: "ev = Pop ?h ps"
    and v: "v = Object [(''pointers'', Array (map (\<lambda>p. String (hex_encode X p)) ps))]"
    by (auto simp: pop_label_def)
  show ?thesis
  proof (cases "map_of (fab_queues st) ?h")
    case None
    then have "mail st' = mail st" "ps = []"
      using run Inr h0 v by (auto simp: run_fpop_def req_handle_def Let_def intro: mail_cong split: prod.splits option.splits if_splits)
    moreover have "mail st ?h = []" using None by (simp add: mail_def queue_of_def)
    ultimately show ?thesis unfolding ev by (auto simp: mail_step_simps intro!: exI [of _ 0])
  next
    case (Some q)
    then obtain now mx0 q' out where d: "drain X dir now mx0 q fs [] = (q', fs', out)"
      and st': "fab_queues st' = AList.update ?h q' (fab_queues st)" and o: "v = Object [(''pointers'', Array (map String out))]"
      using run Inr h0 by (auto simp: run_fpop_def req_handle_def Let_def split: prod.splits option.splits if_splits)
    have q: "queue_of (fab_queues st) ?h = q" using Some by (simp add: queue_of_def)
    from drain_mail [OF d] t q obtain ps' where p: "pop_spec now mx0 (map q_pointer q) = (map q_pointer q', ps')"
      "out = map (hex_encode X) ps'" by auto
    have "inj (\<lambda>p. String (hex_encode X p))" using inj by (simp add: inj_def hex_law_encode)
    moreover have "map (\<lambda>p. String (hex_encode X p)) ps' = map (\<lambda>p. String (hex_encode X p)) ps"
      using o v p(2) by (simp add: comp_def)
    ultimately have "ps' = ps" by (simp add: inj_map_eq_map)
    moreover have "mail st' = (mail st)(?h := map q_pointer q')"
      by (rule ext) (simp add: mail_def st' queue_of_update)
    ultimately show ?thesis using p(1) q unfolding ev by (auto simp: mail_step_simps mail_def)
  qed
qed

lemma restart_mail:
  assumes law: "hex_law X" "sha_law X" and ok: "relay_ok X dir (st, fs)"
    and opn: "fabric_open X dir (fab_cfg st) clk fs = (fs', st')"
  shows "mail_step mx (mail st) Restart (mail st')"
proof (rule mail_step.restart)
  fix h
  from ok have i: "index_ok X dir (fab_queues st) fs" "no_orphans X dir (fab_queues st) fs" "readable dir fs"
    by (auto simp: relay_ok_def disk_ok_def)
  have "distinct (mail st' h)" using index_ok_distinct [OF restart_index_ok [OF law i opn]] .
  moreover have "q_pointer x \<in> set (mail st h)" if "x \<in> set (queue_of (fab_queues st') h)" for x
    using restart_sound [OF law i opn that] by (auto simp: q_sig_def mail_def)
  ultimately show "distinct (mail st' h) \<and> set (mail st' h) \<subseteq> set (mail st h)" by (auto simp: mail_def)
qed

section \<open>Traces of the relay\<close>

inductive relay_does :: "ext \<Rightarrow> path \<Rightarrow> relay \<Rightarrow> mail_event \<Rightarrow> relay \<Rightarrow> bool" for X dir where
  freg: "run_freg X st req clk = (st', r) \<Longrightarrow> relay_does X dir (st, fs) Quiet (st', fs)"
| fput: "run_fput X st req dir ip clk fs = (st', fs', r) \<Longrightarrow>
    no_collision X dir fs (marshal_envelope (new_envelope X req (clk 3))) \<Longrightarrow>
    relay_does X dir (st, fs) (put_label X req r) (st', fs')"
| fpop: "run_fpop X st req dir ip clk fs = (st', fs', r) \<Longrightarrow> pop_label X req r ev \<Longrightarrow>
    relay_does X dir (st, fs) ev (st', fs')"
| restart: "fabric_open X dir (fab_cfg st) clk fs = (fs', st') \<Longrightarrow> relay_does X dir (st, fs) Restart (st', fs')"
| disk: "fs_files fs' = fs_files fs \<Longrightarrow> disk_ok dir fs' \<Longrightarrow> relay_does X dir (st, fs) Quiet (st, fs')"

inductive_cases relay_doesE: "relay_does X dir c ev c'"

abbreviation relay_trace :: "ext \<Rightarrow> path \<Rightarrow> relay \<Rightarrow> mail_event list \<Rightarrow> relay \<Rightarrow> bool" where
  "relay_trace X dir \<equiv> trace (relay_does X dir)"

lemma relay_does_step: "relay_does X dir c ev c' \<Longrightarrow> relay_step X dir c c'"
  by (erule relay_does.cases) (auto intro: relay_step.intros)

lemma relay_does_mail:
  assumes "hex_law X" "sha_law X" "relay_ok X dir c" "relay_does X dir c ev c'"
  shows "mail_step (fc_max_per_handle (fab_cfg (fst c))) (mail (fst c)) ev (mail (fst c'))"
  using assms(4)
proof (cases rule: relay_does.cases)
  case (freg st req clk st' r fs)
  with mail_cong [OF run_freg_keeps(2) [OF freg(4)]] show ?thesis by (simp add: mail_step_simps)
next
  case (fput st req ip clk fs st' fs' r)
  with assms(3) show ?thesis using run_fput_mail [OF fput(4)] by (simp add: relay_ok_def)
next
  case (fpop st req ip clk fs st' fs' r)
  with assms show ?thesis using run_fpop_mail [OF fpop(3) _ fpop(4)] by (simp add: relay_ok_def)
next
  case (restart st clk fs fs' st')
  with assms show ?thesis using restart_mail [of X dir st fs clk fs' st'] by simp
next
  case (disk fs' fs st)
  then show ?thesis by (simp add: mail_step_simps)
qed

lemma relay_does_cfg: "relay_does X dir c ev c' \<Longrightarrow> fab_cfg (fst c') = fab_cfg (fst c)"
  by (erule relay_does.cases)
    (auto dest: run_freg_keeps(1) run_fput_keeps(1) run_fpop_keeps(1) fabric_open_state(2))

text \<open>
  The relay provides the refinement interface, for every cap \<open>mx\<close> of the queues: the
  invariant is that of the relay, the abstraction reads the pointers of each queue.
\<close>

interpretation mailboxes: refinement "relay_does X dir"
    "\<lambda>c. hex_law X \<and> sha_law X \<and> relay_ok X dir c \<and> fc_max_per_handle (fab_cfg (fst c)) = mx"
    "mail_step mx" "\<lambda>c. mail (fst c)" for X dir mx
proof (unfold_locales, goal_cases)
  case (1 c ev c')
  then show ?case
    using relay_step_ok [OF _ _ relay_does_step [OF 1(1)]] relay_does_cfg [OF 1(1)] by simp
next
  case (2 c ev c')
  then show ?case using relay_does_mail [OF _ _ _ 2(1)] by auto
qed

lemma relay_trace_mail:
  assumes "hex_law X" "sha_law X" "relay_trace X dir c evs c'" "relay_ok X dir c"
  shows "mail_trace (fc_max_per_handle (fab_cfg (fst c))) (mail (fst c)) evs (mail (fst c'))"
  by (rule mailboxes.trace_spec [OF assms(3)]) (simp add: assms)

end
