(* ===== verification/Relay_Props.thy ===== *)
theory Relay_Props
  imports Fabric_Spec Fabric_Wire
begin

text \<open>
  The properties of the relay, each with a concrete instance. The instances use
  \<open>demo_ext\<close> and the small scenario below: one registered handle, an empty directory.
\<close>

section \<open>A scenario\<close>

definition demo_handle :: bytes where
  "demo_handle = replicate 32 0xAB"

definition demo_key :: string where
  "demo_key = hexs demo_handle"

definition demo_token :: string where
  "demo_token = ''0123456789abcdef''"

definition demo_fab :: fabric_state where
  "demo_fab = \<lparr> fab_cfg = fabric_config_default, fab_fput_limiter = rl_new 0,
     fab_reg = [(demo_key, \<lparr>reg_token = demo_token, reg_expires = 2000\<rparr>)], fab_queues = [],
     fab_last_sweep_sec = 0 \<rparr>"

definition demo_fs :: fsys where
  "demo_fs = \<lparr> fs_files = [], fs_now = 0, fs_faults = no_faults \<rparr>"

definition demo_pointer :: bytes where
  "demo_pointer = [1, 0] @ replicate 64 7 @ le_bytes 8 1500"

definition freg_req :: json where
  "freg_req = Object [(''handle'', String demo_key), (''token'', String ''fedcba9876543210'')]"

definition fput_req :: json where
  "fput_req = Object [(''handle'', String demo_key), (''pointer_hex'', String (hexs demo_pointer))]"

definition fpop_req :: json where
  "fpop_req = Object [(''handle'', String demo_key), (''token'', String demo_token)]"

lemma demo_key_ok: "handle_canon demo_ext demo_key" "length demo_key = 64" "unhexs demo_key = Some demo_handle"
  by (simp_all add: handle_canon_hex demo_key_def demo_handle_def unhexs_hexs)

lemma demo_lower: "to_lowercase u demo_key = demo_key"
  by (simp add: demo_key_def to_lowercase_ascii)

lemma demo_fab_wf: "reg_wf demo_ext demo_fab"
  by (simp add: reg_wf_def demo_fab_def demo_key_ok fabric_config_default_def)

lemma demo_disk: "disk_ok dir demo_fs"
  by (simp add: disk_ok_def readable_def demo_fs_def no_faults_def fs_wf_def)

lemma demo_relay_ok: "relay_ok demo_ext dir (demo_fab, demo_fs)"
  using demo_fab_wf demo_disk
  by (simp add: relay_ok_def queues_bounded_def index_ok_def no_orphans_def demo_fab_def demo_fs_def)

text \<open>The scenario after one accepted fput, and after the fpop that follows it.\<close>

lemma demo_decode: "hex_crate_decode demo_ext (hexs b) = Inr b"
  by (simp add: demo_ext_def unhexs_hexs)

lemma demo_key_decode: "hex_crate_decode demo_ext demo_key = Inr demo_handle" "length demo_handle = 32"
  by (simp_all add: demo_key_def demo_decode demo_handle_def)

lemma demo_pointer_facts: "length demo_pointer = 74" "demo_pointer ! 0 = 1" "demo_pointer ! Suc 0 = 0"
   "pointer_deadline demo_pointer = 1500"
  by (simp_all add: pointer_deadline_def demo_pointer_def le_nat_le_bytes)

definition demo_env :: envelope where
  "demo_env = \<lparr>e_handle = demo_handle, e_pointer = demo_pointer, e_received_at = 1000\<rparr>"

definition demo_env_cid :: string where
  "demo_env_cid = hexs (sha256 demo_ext (marshal_envelope demo_env))"

definition demo_entry :: queued where
  "demo_entry = \<lparr>q_pointer = demo_pointer, q_env_cid_hex = demo_env_cid, q_deadline = 1500, q_received_at = 1000\<rparr>"

definition demo_fab1 :: fabric_state where
  "demo_fab1 = demo_fab\<lparr>fab_queues := [(demo_key, [demo_entry])]\<rparr>"

definition demo_fs1 :: fsys where
  "demo_fs1 = \<lparr>fs_files = [(fenv_path ''d'' demo_env_cid, \<lparr>f_data = marshal_envelope demo_env, f_mtime = 0\<rparr>)],
     fs_now = 0, fs_faults = no_faults\<rparr>"

lemma demo_persist:
  "persist_envelope ''d'' demo_env_cid (marshal_envelope demo_env) demo_fs = (demo_fs1, Inr ())"
  by (simp add: persist_envelope_def demo_fs_def demo_fs1_def fs_write_def fs_rename_def no_faults_def fs_put_def)

lemma demo_fput:
  "run_fput demo_ext demo_fab fput_req ''d'' ip (\<lambda>_. 1000) demo_fs =
     (demo_fab1, demo_fs1, Ret (Inr (Object [(''queued'', Bool True)])))"
proof -
  have raw: "\<lparr>e_handle = demo_handle, e_pointer = demo_pointer, e_received_at = 1000\<rparr> = demo_env"
    by (simp add: demo_env_def)
  have cid: "hex_encode demo_ext (sha256 demo_ext (marshal_envelope demo_env)) = demo_env_cid"
    by (simp add: demo_env_cid_def)
  have enq: "fput_enqueue ''d'' 32 demo_pointer demo_env_cid 1500 1000 [] fs = ([demo_entry], fs)" for fs
    by (simp add: fput_enqueue_def demo_entry_def)
  have com: "compost ''d'' 1000 [demo_entry] fs = ([demo_entry], fs)" for fs
    by (simp add: demo_entry_def)
  have dl: "q_deadline demo_entry = 1500" by (simp add: demo_entry_def)
  have rcv: "e_received_at demo_env = 1000" by (simp add: demo_env_def)
  show ?thesis
    using demo_key_ok(2) demo_pointer_facts demo_key_decode
    by (simp add: run_fput_def fput_req_def demo_lower rl_allow_unlimited demo_fab_def demo_fab1_def demo_decode demo_key_def [symmetric]
        Let_def POINTER_LEN_def rl_new_def fabric_config_default_def raw cid demo_persist enq com dl rcv queue_of_def
        del: demo_ext_simps)
qed

lemma demo_fpop:
  "run_fpop demo_ext demo_fab1 fpop_req ''d'' ip (\<lambda>_. 1000) demo_fs1 =
     (demo_fab1\<lparr>fab_queues := [(demo_key, [])]\<rparr>, drops ''d'' [demo_entry] demo_fs1,
      Inr (Object [(''pointers'', Array [String (hexs demo_pointer)])]))"
  using demo_key_ok(2)
  by (simp add: run_fpop_def fpop_req_def demo_lower rl_allow_unlimited demo_fab_def demo_fab1_def demo_key_def [symmetric]
      Let_def rl_new_def demo_entry_def min_def)

lemma demo_no_collision: "no_collision X dir demo_fs raw"
  by (simp add: no_collision_def demo_fs_def)

lemma demo_relay1_ok: "relay_ok demo_ext ''d'' (demo_fab1, demo_fs1)"
  using relay_ok_fput [OF hex_law_demo sha_law_demo demo_relay_ok demo_fput demo_no_collision] .

text \<open>A second pointer for the same handle, put when the first one's file is on the disk.\<close>

definition demo_pointer2 :: bytes where
  "demo_pointer2 = [1, 0] @ replicate 64 7 @ le_bytes 8 1600"

definition fput_req2 :: json where
  "fput_req2 = Object [(''handle'', String demo_key), (''pointer_hex'', String (hexs demo_pointer2))]"

definition demo_env2 :: envelope where
  "demo_env2 = \<lparr>e_handle = demo_handle, e_pointer = demo_pointer2, e_received_at = 1000\<rparr>"

definition demo_env_cid2 :: string where
  "demo_env_cid2 = hexs (sha256 demo_ext (marshal_envelope demo_env2))"

definition demo_entry2 :: queued where
  "demo_entry2 = \<lparr>q_pointer = demo_pointer2, q_env_cid_hex = demo_env_cid2, q_deadline = 1600, q_received_at = 1000\<rparr>"

definition demo_fab2 :: fabric_state where
  "demo_fab2 = demo_fab\<lparr>fab_queues := [(demo_key, [demo_entry, demo_entry2])]\<rparr>"

definition demo_fs2 :: fsys where
  "demo_fs2 = fst (persist_envelope ''d'' demo_env_cid2 (marshal_envelope demo_env2) demo_fs1)"

lemma demo_cids: "demo_env_cid2 \<noteq> demo_env_cid"
proof -
  have "marshal_envelope demo_env ! 99 \<noteq> marshal_envelope demo_env2 ! 99" by code_simp
  moreover have "sha256 demo_ext (marshal_envelope e) ! 15 = marshal_envelope e ! 99" if "length (marshal_envelope e) = 115" for e
    using that by (simp add: rev_nth nth_append)
  moreover have "length (marshal_envelope demo_env) = 115" "length (marshal_envelope demo_env2) = 115" by code_simp+
  ultimately show ?thesis unfolding demo_env_cid_def demo_env_cid2_def by (metis hexs_inj)
qed

lemma demo_pointer2_facts: "length demo_pointer2 = 74" "demo_pointer2 ! 0 = 1" "demo_pointer2 ! Suc 0 = 0"
   "pointer_deadline demo_pointer2 = 1600" "demo_pointer2 \<noteq> demo_pointer"
proof -
  show "length demo_pointer2 = 74" "demo_pointer2 ! 0 = 1" "demo_pointer2 ! Suc 0 = 0" and d: "pointer_deadline demo_pointer2 = 1600"
    by (simp_all add: pointer_deadline_def demo_pointer2_def le_nat_le_bytes)
  show "demo_pointer2 \<noteq> demo_pointer" using d demo_pointer_facts(4) by auto
qed

lemma demo_fput2:
  "run_fput demo_ext demo_fab1 fput_req2 ''d'' ip (\<lambda>_. 1000) demo_fs1 =
     (demo_fab2, demo_fs2, Ret (Inr (Object [(''queued'', Bool True)])))"
proof -
  have raw: "\<lparr>e_handle = demo_handle, e_pointer = demo_pointer2, e_received_at = 1000\<rparr> = demo_env2"
    by (simp add: demo_env2_def)
  have cid: "hex_encode demo_ext (sha256 demo_ext (marshal_envelope demo_env2)) = demo_env_cid2"
    by (simp add: demo_env_cid2_def)
  have per: "persist_envelope ''d'' demo_env_cid2 (marshal_envelope demo_env2) demo_fs1 = (demo_fs2, Inr ())"
    by (simp add: demo_fs2_def persist_envelope_def demo_fs1_def fs_write_def fs_rename_def no_faults_def Let_def)
  have enq: "fput_enqueue ''d'' 32 demo_pointer2 demo_env_cid2 1600 1000 [demo_entry] fs = ([demo_entry, demo_entry2], fs)" for fs
    using demo_pointer2_facts(5) by (simp add: fput_enqueue_def demo_entry_def demo_entry2_def)
  have com: "compost ''d'' 1000 [demo_entry, demo_entry2] fs = ([demo_entry, demo_entry2], fs)" for fs
    by (simp add: demo_entry_def demo_entry2_def)
  have rcv: "e_received_at demo_env2 = 1000" "q_deadline demo_entry = 1500" "q_deadline demo_entry2 = 1600"
    by (simp_all add: demo_env2_def demo_entry_def demo_entry2_def)
  show ?thesis
    using demo_key_ok(2) demo_pointer2_facts demo_key_decode
    by (simp add: run_fput_def fput_req2_def demo_lower rl_allow_unlimited demo_fab_def demo_fab1_def demo_fab2_def demo_decode
        demo_key_def [symmetric] Let_def POINTER_LEN_def rl_new_def fabric_config_default_def raw cid per enq com rcv queue_of_def
        del: demo_ext_simps)
qed

lemma demo_no_collision2: "no_collision demo_ext ''d'' demo_fs1 (marshal_envelope (new_envelope demo_ext fput_req2 t))"
  if "t = 1000"
proof -
  have "new_envelope demo_ext fput_req2 t = demo_env2"
    using that by (simp add: new_envelope_def demo_env2_def fput_req2_def req_handle_def req_bytes_def demo_lower demo_decode demo_key_decode
        del: demo_ext_simps)
  moreover have "hex_encode demo_ext (sha256 demo_ext (marshal_envelope demo_env2)) = demo_env_cid2"
    by (simp add: demo_env_cid2_def)
  ultimately show ?thesis using demo_cids
    by (simp add: no_collision_def demo_fs1_def del: demo_ext_simps)
qed

section \<open>freg\<close>

text \<open>
  C10. A live registration cannot be taken over: whatever freg answers, the registration of
  a handle that is live when freg reads the clock is unchanged afterwards, unless the
  request names this handle and carries the registration's current token as
  \<open>prev_token\<close>.
\<close>

theorem freg_no_takeover:
  assumes "reg_wf X st" "run_freg X st req clk = (st', r)" "live_reg st h (clk 0) = Some cur"
    "str_or (get_str req ''prev_token'') [] \<noteq> reg_token cur \<or>
     (\<forall>h0. get_str req ''handle'' = Some h0 \<longrightarrow> h \<noteq> to_lowercase (uni_lower X) h0)"
  shows "live_reg st' h (clk 0) = Some cur"
  using run_freg_live [OF assms(1-3)] assms(4) by auto

theorem freg_no_takeover_witness:
  "live_reg (fst (run_freg demo_ext demo_fab freg_req (\<lambda>_. 1000))) demo_key 1000 =
     Some \<lparr>reg_token = demo_token, reg_expires = 2000\<rparr>"
proof (rule freg_no_takeover [OF demo_fab_wf, where req = freg_req and clk = "\<lambda>_. 1000"])
  show "run_freg demo_ext demo_fab freg_req (\<lambda>_. 1000) =
    (fst (run_freg demo_ext demo_fab freg_req (\<lambda>_. 1000)), snd (run_freg demo_ext demo_fab freg_req (\<lambda>_. 1000)))"
    by simp
qed (simp_all add: live_reg_def demo_fab_def freg_req_def demo_token_def)

text \<open>
  C31. What an accepted freg does: the handle, in lower case, is registered with the token of
  the request until now plus the requested lease, cut to the configured maximum; the expiry
  is in the reply; the registry keeps its budget and its canonical, distinct handles.
\<close>

theorem freg_registers:
  assumes "hex_law X" "reg_wf X st" "run_freg X st req clk = (st', Inr v)"
    "unat (clk 0) + unat (fc_max_lease_sec (fab_cfg st)) < 2 ^ 64"
  shows "\<exists>h0 token expires. get_str req ''handle'' = Some h0 \<and> get_str req ''token'' = Some token \<and>
    map_of (fab_reg st') (to_lowercase (uni_lower X) h0) = Some \<lparr>reg_token = token, reg_expires = expires\<rparr> \<and>
    v = Object [(''expires'', Number (PosInt expires)), (''token'', String token)] \<and>
    unat expires = unat (clk 0) + min (unat (u64_or (get_u64 req ''lease'') 3600)) (unat (fc_max_lease_sec (fab_cfg st))) \<and>
    length (fab_reg st') \<le> fc_max_regs (fab_cfg st) \<and> reg_wf X st'"
  using assms(3)
proof (rule run_freg_Ok)
  fix h0 token
  let ?l = "min (u64_or (get_u64 req ''lease'') 3600) (fc_max_lease_sec (fab_cfg st))"
  assume a: "get_str req ''handle'' = Some h0" "get_str req ''token'' = Some token"
    "map_of (fab_reg st') (to_lowercase (uni_lower X) h0) = Some \<lparr>reg_token = token, reg_expires = clk 0 + ?l\<rparr>"
    "v = Object [(''expires'', Number (PosInt (clk 0 + ?l))), (''token'', String token)]"
  have m: "unat ?l = min (unat (u64_or (get_u64 req ''lease'') 3600)) (unat (fc_max_lease_sec (fab_cfg st)))"
    by (simp add: min_def word_le_nat_alt)
  then have "unat (clk 0 + ?l) = unat (clk 0) + unat ?l" using assms(4) by (intro unat_add_lem [THEN iffD1]) simp
  moreover have "reg_wf X st'" using run_freg_wf [OF assms(1,3,2)] .
  moreover have "length (fab_reg st') \<le> fc_max_regs (fab_cfg st)"
    using \<open>reg_wf X st'\<close> run_freg_keeps(1) [OF assms(3)] by (simp add: reg_wf_def)
  ultimately show ?thesis using a m by auto
qed

lemma demo_freg:
  "run_freg demo_ext (demo_fab\<lparr>fab_reg := []\<rparr>) freg_req (\<lambda>_. 1000) =
     (demo_fab\<lparr>fab_reg := [(demo_key, \<lparr>reg_token = ''fedcba9876543210'', reg_expires = 4600\<rparr>)], fab_last_sweep_sec := 1000\<rparr>,
      Inr (Object [(''expires'', Number (PosInt 4600)), (''token'', String ''fedcba9876543210'')]))"
  by (simp add: run_freg_def freg_req_def demo_key_decode demo_lower demo_fab_def fabric_config_default_def Let_def min_def)

theorem freg_registers_witness:
  "\<exists>h0 token expires. get_str freg_req ''handle'' = Some h0 \<and> get_str freg_req ''token'' = Some token \<and>
    map_of (fab_reg (demo_fab\<lparr>fab_reg := [(demo_key, \<lparr>reg_token = ''fedcba9876543210'', reg_expires = 4600\<rparr>)],
      fab_last_sweep_sec := 1000\<rparr>)) (to_lowercase (uni_lower demo_ext) h0) = Some \<lparr>reg_token = token, reg_expires = expires\<rparr> \<and>
    Object [(''expires'', Number (PosInt 4600)), (''token'', String ''fedcba9876543210'')] =
      Object [(''expires'', Number (PosInt expires)), (''token'', String token)] \<and>
    unat expires = unat (1000 :: u64) + min (unat (u64_or (get_u64 freg_req ''lease'') 3600))
      (unat (fc_max_lease_sec (fab_cfg (demo_fab\<lparr>fab_reg := []\<rparr>)))) \<and>
    length (fab_reg (demo_fab\<lparr>fab_reg := [(demo_key, \<lparr>reg_token = ''fedcba9876543210'', reg_expires = 4600\<rparr>)],
      fab_last_sweep_sec := 1000\<rparr>)) \<le> fc_max_regs (fab_cfg (demo_fab\<lparr>fab_reg := []\<rparr>)) \<and>
    reg_wf demo_ext (demo_fab\<lparr>fab_reg := [(demo_key, \<lparr>reg_token = ''fedcba9876543210'', reg_expires = 4600\<rparr>)],
      fab_last_sweep_sec := 1000\<rparr>)"
  by (rule freg_registers [OF hex_law_demo _ demo_freg])
    (simp_all add: reg_wf_def demo_fab_def fabric_config_default_def)



section \<open>fput and fpop\<close>

text \<open>
  C17. Admission by fput: it answers ok exactly when the handle has a live registration, the
  limiter grants the request, the pointer is 148 hex digits of 74 bytes with the version
  header and a deadline ahead and within the horizon, and its envelope can be written. Then
  the pointer is in the handle's queue, unless its deadline passes during the call or the cap
  of the queues is zero, and no other handle's queue changes; a refusal changes no queue.
\<close>

theorem fput_admits:
  assumes "hex_law X" "reg_wf X st" "run_fput X st req dir ip clk fs = (st', fs', r)"
    "p = req_bytes X (str_or (get_str req ''pointer_hex'') [])" "raw = marshal_envelope (new_envelope X req (clk 3))"
  shows "((\<exists>v. r = Ret (Inr v)) \<longleftrightarrow>
      live_reg st (req_handle X req) (clk 0) \<noteq> None \<and> length (str_or (get_str req ''handle'') []) = 64 \<and>
      snd (rl_allow (fab_fput_limiter st) ip (clk 1)) \<and>
      length (str_or (get_str req ''pointer_hex'') []) = 148 \<and>
      pointer_ok p (clk 2) (fc_max_deadline_horizon_sec (fab_cfg st)) \<and>
      snd (persist_envelope dir (hex_encode X (sha256 X raw)) raw fs) = Inr ()) \<and>
    ((\<exists>v. r = Ret (Inr v)) \<longrightarrow>
      (0 < fc_max_per_handle (fab_cfg st) \<and> clk 4 < pointer_deadline p \<longrightarrow> p \<in> set (mail st' (req_handle X req))) \<and>
      (\<forall>k. k \<noteq> req_handle X req \<longrightarrow> map_of (fab_queues st') k = map_of (fab_queues st) k)) \<and>
    ((\<forall>v. r \<noteq> Ret (Inr v)) \<longrightarrow> fab_queues st' = fab_queues st)"
proof (intro conjI)
  show "(\<exists>v. r = Ret (Inr v)) \<longleftrightarrow> live_reg st (req_handle X req) (clk 0) \<noteq> None \<and> length (str_or (get_str req ''handle'') []) = 64 \<and>
      snd (rl_allow (fab_fput_limiter st) ip (clk 1)) \<and>
      length (str_or (get_str req ''pointer_hex'') []) = 148 \<and>
      pointer_ok p (clk 2) (fc_max_deadline_horizon_sec (fab_cfg st)) \<and>
      snd (persist_envelope dir (hex_encode X (sha256 X raw)) raw fs) = Inr ()"
    unfolding assms(4,5) by (rule run_fput_ok_iff [OF assms(1-3)])
  show "(\<exists>v. r = Ret (Inr v)) \<longrightarrow>
      (0 < fc_max_per_handle (fab_cfg st) \<and> clk 4 < pointer_deadline p \<longrightarrow> p \<in> set (mail st' (req_handle X req))) \<and>
      (\<forall>k. k \<noteq> req_handle X req \<longrightarrow> map_of (fab_queues st') k = map_of (fab_queues st) k)"
    using run_fput_mem [OF assms(3)] assms(4) by (auto simp: mail_def)
  show "(\<forall>v. r \<noteq> Ret (Inr v)) \<longrightarrow> fab_queues st' = fab_queues st"
    using assms(3) by (cases rule: run_fput_cases) simp_all
qed

theorem fput_admits_witness:
  "demo_pointer \<in> set (mail demo_fab1 demo_key) \<and> map_of (fab_queues demo_fab1) [] = map_of (fab_queues demo_fab) []"
proof -
  have k: "req_handle demo_ext fput_req = demo_key" by (simp add: req_handle_def fput_req_def demo_lower)
  have ne: "[] \<noteq> demo_key" using demo_key_ok(2) by (metis list.size(3) zero_neq_numeral)
  have "req_bytes demo_ext (str_or (get_str fput_req ''pointer_hex'') []) = demo_pointer"
    by (simp add: fput_req_def req_bytes_def demo_decode del: demo_ext_simps)
  with fput_admits [OF hex_law_demo demo_fab_wf demo_fput refl refl, unfolded k] ne show ?thesis
    by (simp add: demo_pointer_facts demo_fab_def fabric_config_default_def)
qed

text \<open>
  C16. fpop is authorised and first-in first-out: it hands pointers out only against the
  current token of a live registration; it takes a prefix of the queue, gives the live
  pointers of that prefix in queue order, at most the requested number and never more than
  64, and stops early only when the queue is empty.
\<close>

theorem fpop_fifo:
  assumes "run_fpop X st req dir ip clk fs = (st', fs', Inr v)"
  shows "\<exists>rg taken. live_reg st (req_handle X req) (clk 1) = Some rg \<and>
    str_or (get_str req ''token'') [] = reg_token rg \<and>
    queue_of (fab_queues st) (req_handle X req) = taken @ queue_of (fab_queues st') (req_handle X req) \<and>
    v = Object [(''pointers'', Array (map String (handed X (clk 2) taken)))] \<and>
    length (handed X (clk 2) taken) \<le> min 64 (unat (u64_or (get_u64 req ''max'') 8)) \<and>
    (queue_of (fab_queues st') (req_handle X req) = [] \<or>
     length (handed X (clk 2) taken) = min 64 (unat (u64_or (get_u64 req ''max'') 8)))"
proof -
  have mx: "pop_max req = min 64 (unat (u64_or (get_u64 req ''max'') 8))"
    by (simp add: pop_max_def min_def word_le_nat_alt)
  show ?thesis
    using assms
  proof (rule run_fpop_queue)
    fix h0 rg taken
    assume "get_str req ''handle'' = Some h0"
    then have h: "to_lowercase (uni_lower X) h0 = req_handle X req" by (simp add: req_handle_def)
    assume "map_of (fab_reg st) (to_lowercase (uni_lower X) h0) = Some rg" "clk 1 < reg_expires rg"
      "str_or (get_str req ''token'') [] = reg_token rg"
      "queue_of (fab_queues st) (to_lowercase (uni_lower X) h0) =
         taken @ queue_of (fab_queues st') (to_lowercase (uni_lower X) h0)"
      "v = Object [(''pointers'', Array (map String (handed X (clk 2) taken)))]"
      "length (handed X (clk 2) taken) \<le> pop_max req"
      "queue_of (fab_queues st') (to_lowercase (uni_lower X) h0) = [] \<or>
         length (handed X (clk 2) taken) = pop_max req"
    then show ?thesis unfolding h mx
      by (intro exI [of _ rg] exI [of _ taken]) (simp add: live_reg_def)
  qed
qed

theorem fpop_fifo_witness:
  "\<exists>rg taken. live_reg demo_fab1 (req_handle demo_ext fpop_req) 1000 = Some rg \<and>
    str_or (get_str fpop_req ''token'') [] = reg_token rg \<and>
    queue_of (fab_queues demo_fab1) (req_handle demo_ext fpop_req) =
      taken @ queue_of (fab_queues (demo_fab1\<lparr>fab_queues := [(demo_key, [])]\<rparr>)) (req_handle demo_ext fpop_req) \<and>
    Object [(''pointers'', Array [String (hexs demo_pointer)])] =
      Object [(''pointers'', Array (map String (handed demo_ext 1000 taken)))] \<and>
    length (handed demo_ext 1000 taken) \<le> min 64 (unat (u64_or (get_u64 fpop_req ''max'') 8)) \<and>
    (queue_of (fab_queues (demo_fab1\<lparr>fab_queues := [(demo_key, [])]\<rparr>)) (req_handle demo_ext fpop_req) = [] \<or>
     length (handed demo_ext 1000 taken) = min 64 (unat (u64_or (get_u64 fpop_req ''max'') 8)))"
  by (rule fpop_fifo [OF demo_fpop])

section \<open>The relay as a whole\<close>

text \<open>
  C19. Invariant of the relay: from a consistent state, after any sequence of verbs and
  restarts, the registry is well-formed and within its budget, the queues are within their
  cap, every queued pointer has its envelope file with the same pointer, handle and deadline,
  and every envelope file has its queue entry. Creating, writing and renaming a file may fail
  or not, and differently from call to call; reads, listings and removals succeed, and no
  envelope gets, by its digest, the name of a different file of the directory.
\<close>

theorem relay_invariant:
  assumes "hex_law X" "sha_law X" "(relay_step X dir)\<^sup>*\<^sup>* (st, fs) (st', fs')" "relay_ok X dir (st, fs)"
  shows "reg_wf X st' \<and> queues_bounded st' \<and> index_ok X dir (fab_queues st') fs' \<and>
    no_orphans X dir (fab_queues st') fs'"
  using relay_system.reach_ok [OF assms(3)] assms by (simp add: relay_ok_def)

lemma demo_new_envelope: "new_envelope demo_ext fput_req 1000 = demo_env"
  by (simp add: new_envelope_def demo_env_def fput_req_def req_handle_def req_bytes_def demo_lower demo_decode demo_key_decode
      del: demo_ext_simps)

text \<open>Two puts, the second on a disk that has the first one's file, with a write fault in between.\<close>

definition write_fault :: "fsys \<Rightarrow> fsys" where
  "write_fault fs = fs\<lparr>fs_faults := no_faults\<lparr>flt_write := \<lambda>p. Some (''disk full'', Some [])\<rparr>\<rparr>"

theorem relay_invariant_witness:
  "reg_wf demo_ext demo_fab2 \<and> queues_bounded demo_fab2 \<and> index_ok demo_ext ''d'' (fab_queues demo_fab2) (write_fault demo_fs2) \<and>
    no_orphans demo_ext ''d'' (fab_queues demo_fab2) (write_fault demo_fs2)"
proof (rule relay_invariant [OF hex_law_demo sha_law_demo _ demo_relay_ok])
  have "relay_step demo_ext ''d'' (demo_fab, demo_fs) (demo_fab1, demo_fs1)"
    using relay_step.fput [OF demo_fput demo_no_collision] .
  moreover have "relay_step demo_ext ''d'' (demo_fab1, demo_fs1) (demo_fab2, demo_fs2)"
    using relay_step.fput [OF demo_fput2 demo_no_collision2] by simp
  moreover have "relay_step demo_ext ''d'' (demo_fab2, demo_fs2) (demo_fab2, write_fault demo_fs2)"
  proof (rule relay_step.disk)
    have "fs_wf demo_fs2" using run_fput_disk(2) [OF demo_fput2] by (simp add: fs_wf_def demo_fs1_def)
    then show "disk_ok ''d'' (write_fault demo_fs2)"
      by (simp add: write_fault_def disk_ok_def readable_def fs_wf_def no_faults_def)
  qed (simp add: write_fault_def)
  ultimately show "(relay_step demo_ext ''d'')\<^sup>*\<^sup>* (demo_fab, demo_fs) (demo_fab2, write_fault demo_fs2)"
    by (meson converse_rtranclp_into_rtranclp rtranclp.rtrancl_refl)
qed

text \<open>
  C5. Refinement: the relay, with its files, registrations, limiters and restarts, is a
  mailbox per handle. Every sequence of verbs and restarts from a consistent state, labelled
  by its requests and replies, is a trace of the mailbox specification between the
  abstractions of the two states. As in the invariant, creating, writing and renaming a file
  may fail at any time, reads, listings and removals succeed, and no envelope that is written
  gets, by its digest, the name of a different file of the directory.
\<close>

theorem relay_refines_mailbox:
  assumes "hex_law X" "sha_law X" "relay_trace X dir (st, fs) evs (st', fs')" "relay_ok X dir (st, fs)"
  shows "mail_trace (fc_max_per_handle (fab_cfg st)) (mail st) evs (mail st')"
  using mailboxes.trace_spec [OF assms(3)] assms by simp

lemma demo_fpop2:
  "run_fpop demo_ext demo_fab2 fpop_req ''d'' ip (\<lambda>_. 1000) demo_fs2 =
     (demo_fab2\<lparr>fab_queues := [(demo_key, [])]\<rparr>, drops ''d'' [demo_entry, demo_entry2] demo_fs2,
      Inr (Object [(''pointers'', Array [String (hexs demo_pointer), String (hexs demo_pointer2)])]))"
  using demo_key_ok(2)
  by (simp add: run_fpop_def fpop_req_def demo_lower rl_allow_unlimited demo_fab_def demo_fab2_def demo_key_def [symmetric]
      Let_def rl_new_def demo_entry_def demo_entry2_def min_def)

lemma demo_trace:
  "relay_trace demo_ext ''d'' (demo_fab, demo_fs)
     [Put demo_key demo_pointer, Put demo_key demo_pointer2, Pop demo_key [demo_pointer, demo_pointer2]]
     (demo_fab2\<lparr>fab_queues := [(demo_key, [])]\<rparr>, drops ''d'' [demo_entry, demo_entry2] demo_fs2)"
proof -
  have key: "req_handle demo_ext fput_req = demo_key" "req_handle demo_ext fput_req2 = demo_key" "req_handle demo_ext fpop_req = demo_key"
    by (simp_all add: req_handle_def fput_req_def fput_req2_def fpop_req_def demo_lower)
  have ptr: "hex_crate_decode demo_ext (str_or (get_str fput_req ''pointer_hex'') []) = Inr demo_pointer"
    "hex_crate_decode demo_ext (str_or (get_str fput_req2 ''pointer_hex'') []) = Inr demo_pointer2"
    by (simp_all add: fput_req_def fput_req2_def demo_decode)
  have lab: "put_label demo_ext fput_req (Ret (Inr v)) = Put demo_key demo_pointer"
    "put_label demo_ext fput_req2 (Ret (Inr v)) = Put demo_key demo_pointer2" for v
    using ptr by (simp_all add: put_label_def key)
  have "relay_does demo_ext ''d'' (demo_fab, demo_fs) (Put demo_key demo_pointer) (demo_fab1, demo_fs1)"
    using relay_does.fput [OF demo_fput demo_no_collision] unfolding lab .
  moreover have "relay_does demo_ext ''d'' (demo_fab1, demo_fs1) (Put demo_key demo_pointer2) (demo_fab2, demo_fs2)"
    using relay_does.fput [OF demo_fput2 demo_no_collision2] unfolding lab by simp
  moreover have "relay_does demo_ext ''d'' (demo_fab2, demo_fs2) (Pop demo_key [demo_pointer, demo_pointer2])
     (demo_fab2\<lparr>fab_queues := [(demo_key, [])]\<rparr>, drops ''d'' [demo_entry, demo_entry2] demo_fs2)"
    by (rule relay_does.fpop [OF demo_fpop2]) (auto simp: pop_label_def key intro: exI [of _ "[demo_pointer, demo_pointer2]"])
  ultimately have "relay_trace demo_ext ''d'' (demo_fab, demo_fs)
      ((([] @ [Put demo_key demo_pointer]) @ [Put demo_key demo_pointer2]) @ [Pop demo_key [demo_pointer, demo_pointer2]])
     (demo_fab2\<lparr>fab_queues := [(demo_key, [])]\<rparr>, drops ''d'' [demo_entry, demo_entry2] demo_fs2)"
    by (rule trace.snoc [OF trace.snoc [OF trace.snoc [OF trace.none]]])
  then show ?thesis by simp
qed

theorem relay_refines_mailbox_witness:
  "mail_trace (fc_max_per_handle (fab_cfg demo_fab)) (mail demo_fab)
     [Put demo_key demo_pointer, Put demo_key demo_pointer2, Pop demo_key [demo_pointer, demo_pointer2]]
     (mail (demo_fab2\<lparr>fab_queues := [(demo_key, [])]\<rparr>))"
  by (rule relay_refines_mailbox [OF hex_law_demo sha_law_demo demo_trace demo_relay_ok])

text \<open>
  C18. A restart loses and invents nothing: rebuilt from the envelope files, the queue of a
  handle whose pointers are all alive has the same pointers, file names and deadlines as
  before, now in the order of their arrival times.
\<close>

theorem restart_rebuilds:
  assumes "hex_law X" "sha_law X" "relay_ok X dir (st, fs)" "fabric_open X dir (fab_cfg st) clk fs = (fs', st')"
    "\<forall>x\<in>set (queue_of (fab_queues st) h). \<forall>i. clk i < q_deadline x \<and>
       q_deadline x \<le> clk i + fc_max_deadline_horizon_sec (fab_cfg st)"
  shows "mset (map q_sig (queue_of (fab_queues st') h)) = mset (map q_sig (queue_of (fab_queues st) h)) \<and>
    sorted (map q_key (queue_of (fab_queues st') h))"
proof -
  from assms(3) have ok: "index_ok X dir (fab_queues st) fs" "no_orphans X dir (fab_queues st) fs" "readable dir fs"
    by (auto simp: relay_ok_def disk_ok_def)
  show ?thesis
    using restart_exact [OF assms(1,2) ok assms(4), of h] assms(5) restart_sorted [OF ok(3) assms(4)] by blast
qed

theorem restart_rebuilds_witness:
  "mset (map q_sig (queue_of (fab_queues (snd (fabric_open demo_ext ''d'' (fab_cfg demo_fab1) (\<lambda>_. 1200) demo_fs1))) demo_key)) =
     mset (map q_sig (queue_of (fab_queues demo_fab1) demo_key)) \<and>
   sorted (map q_key (queue_of (fab_queues (snd (fabric_open demo_ext ''d'' (fab_cfg demo_fab1) (\<lambda>_. 1200) demo_fs1))) demo_key))"
  by (rule restart_rebuilds [OF hex_law_demo sha_law_demo demo_relay1_ok prod.collapse [symmetric]])
    (auto simp: demo_fab1_def demo_fab_def queue_of_def demo_entry_def fabric_config_default_def)

end
