(* ===== verification/Fabric_Props.thy ===== *)
theory Fabric_Props
  imports Relay_Props
begin

text \<open>
  The properties of the envelope format, of the key derivation and of the two wire faces of
  the relay, each with a concrete instance.
\<close>

section \<open>Envelopes and derivations\<close>

text \<open>
  C30. The envelope format is exact: \<open>parse\<close> accepts a file precisely when it is the 115-byte
  image of an envelope with a 32-byte handle and a 74-byte pointer with the version header,
  and it returns that envelope: version byte, handle, pointer, arrival time, little endian.
\<close>

theorem envelope_codec:
  "parse_envelope b = Inr e \<longleftrightarrow>
     length b = 115 \<and> length (e_handle e) = 32 \<and> length (e_pointer e) = 74 \<and>
     e_pointer e ! 0 = 1 \<and> e_pointer e ! 1 = 0 \<and>
     b = 1 # e_handle e @ e_pointer e @ le_bytes 8 (unat (e_received_at e))"
  unfolding parse_envelope_iff
  by (auto simp: env_wf_def marshal_envelope_def ENVELOPE_V1_def POINTER_LEN_def)

text \<open>
  C29. Key derivation always returns: the HKDF loop ends for every output length and gives
  that many bytes, and a fabric handle is the one HMAC block over the label, the epoch and
  the session id, 32 bytes long.
\<close>

theorem handle_derivation:
  assumes "sha_law X"
  shows "(\<exists>out. hkdf_expand X prk info n = Some out \<and> length out = n) \<and>
    fabric_handle X seed epoch sid =
      Some (hmac_sha256 X (hmac_sha256 X (replicate 32 0) seed)
        (str_bytes ''spore/fabric/v1/handle'' @ be_bytes 4 (unat epoch) @ sid @ [1]))"
proof
  show "\<exists>out. hkdf_expand X prk info n = Some out \<and> length out = n"
    using hkdf_loop_terminates [OF assms] by (simp add: hkdf_expand_def)
  show "fabric_handle X seed epoch sid =
      Some (hmac_sha256 X (hmac_sha256 X (replicate 32 0) seed)
        (str_bytes ''spore/fabric/v1/handle'' @ be_bytes 4 (unat epoch) @ sid @ [1]))"
    unfolding fabric_handle_def hkdf_prk_def LABEL_HANDLE_def Let_def
    by (subst hkdf_expand_block [OF assms]) (simp_all add: length_hmac [OF assms] del: str_bytes_append)
qed

theorem handle_derivation_witness:
  "(\<exists>out. hkdf_expand demo_ext [1] [2] 80 = Some out \<and> length out = 80) \<and>
    fabric_handle demo_ext [3] 4 [5] =
      Some (hmac_sha256 demo_ext (hmac_sha256 demo_ext (replicate 32 0) [3])
        (str_bytes ''spore/fabric/v1/handle'' @ be_bytes 4 (unat (4 :: u32)) @ [5] @ [1]))"
  by (rule handle_derivation [OF sha_law_demo])

section \<open>The two faces\<close>

text \<open>
  C27. The JSON face and the rpc2 face are the same relay: the same request through either,
  on the same state, disk and clock, leaves the same relay and the same disk.
\<close>

theorem faces_same_relay:
  assumes "get_str req ''verb'' = Some v" "verb_method v = Some (rm_method msg)" "rm_payload msg = req"
    "handle_verb X s req dir fab ip clk fs = (s1, fab1, fs1, r1)"
    "handle_rpc2_fabric X s' msg dir fab ip clk fs = (s2, fab2, fs2, r2)"
  shows "fab1 = fab2 \<and> fs1 = fs2 \<and> r1 = r2"
  using assms by (rule faces_agree)

definition quiet_stream :: "unit stream" where
  "quiet_stream = \<lparr>s_in = [], s_out = [], s_broken = False, s_peer = (), s_react = (\<lambda>p b. (p, []))\<rparr>"

definition pop_verb :: json where
  "pop_verb = Object [(''handle'', String demo_key), (''token'', String demo_token), (''verb'', String ''fpop'')]"

definition pop_msg :: rpc2_message where
  "pop_msg = \<lparr>rm_method = ''Peer.FabricPop'', rm_seq = 1, rm_error = [], rm_payload = pop_verb\<rparr>"

theorem faces_same_relay_witness:
  "fst (snd (handle_verb demo_ext quiet_stream pop_verb ''d'' (Some demo_fab1) ''ip'' (\<lambda>_. 1000) demo_fs1)) =
     fst (snd (handle_rpc2_fabric demo_ext quiet_stream pop_msg ''d'' (Some demo_fab1) ''ip'' (\<lambda>_. 1000) demo_fs1)) \<and>
   fst (snd (snd (handle_verb demo_ext quiet_stream pop_verb ''d'' (Some demo_fab1) ''ip'' (\<lambda>_. 1000) demo_fs1))) =
     fst (snd (snd (handle_rpc2_fabric demo_ext quiet_stream pop_msg ''d'' (Some demo_fab1) ''ip'' (\<lambda>_. 1000) demo_fs1))) \<and>
   snd (snd (snd (handle_verb demo_ext quiet_stream pop_verb ''d'' (Some demo_fab1) ''ip'' (\<lambda>_. 1000) demo_fs1))) =
     snd (snd (snd (handle_rpc2_fabric demo_ext quiet_stream pop_msg ''d'' (Some demo_fab1) ''ip'' (\<lambda>_. 1000) demo_fs1)))"
proof -
  have p: "x = (fst x, fst (snd x), fst (snd (snd x)), snd (snd (snd x)))" for x :: "'a \<times> 'b \<times> 'c \<times> 'd"
    by simp
  show ?thesis
    by (rule faces_same_relay [of pop_verb "''fpop''" pop_msg, OF _ _ _ p p])
      (simp_all add: pop_verb_def pop_msg_def verb_method_def)
qed

text \<open>
  C28. What a client decodes from the relay's rpc2 answer: \<open>cbor_image\<close> of the JSON value,
  which keeps strings, unsigned numbers, arrays and objects, but turns true into false and
  false into null. So the answer of every accepted Peer.FabricPut, \<open>queued: true\<close>, reaches
  the client as \<open>queued: false\<close>.
\<close>

theorem rpc2_answer_image:
  assumes "wire_ok v" "json_height v \<le> 64" "length (rpc2_answer msg (Inr v)) < 2 ^ 64"
  shows "decode_message X (rpc2_answer msg (Inr v)) =
      Ret (Some \<lparr>rm_method = [], rm_seq = rm_seq msg, rm_error = [], rm_payload = cbor_image v\<rparr>) \<and>
    decode_message X (rpc2_answer msg (Inr (Object [(''queued'', Bool True)]))) =
      Ret (Some \<lparr>rm_method = [], rm_seq = rm_seq msg, rm_error = [],
        rm_payload = Object [(''queued'', Bool False)]\<rparr>)"
proof
  show "decode_message X (rpc2_answer msg (Inr v)) =
      Ret (Some \<lparr>rm_method = [], rm_seq = rm_seq msg, rm_error = [], rm_payload = cbor_image v\<rparr>)"
    using rpc2_answer_ok [OF assms(1) _ assms(3)] assms(2) by (simp add: MAX_DEPTH_def)
  have l: "length (cbor_head m n) \<le> 9" for m n using length_cbor_head(1) [of m n] .
  have "length (rpc2_answer msg (Inr (Object [(''queued'', Bool True)]))) \<le> 200"
    using l [of 5 3] l [of 3 1] l [of 3 0] l [of 0 "rm_seq msg"] l [of 5 1] l [of 3 6] l [of 7 20]
    by (simp add: rpc2_answer_def cbor_message_def cbor_header_def cbor_map_def cbor_kv_def cbor_text_def cbor_uint_def)
  then have "decode_message X (rpc2_answer msg (Inr (Object [(''queued'', Bool True)]))) =
      Ret (Some \<lparr>rm_method = [], rm_seq = rm_seq msg, rm_error = [],
        rm_payload = cbor_image (Object [(''queued'', Bool True)])\<rparr>)"
    by (intro rpc2_answer_ok) (simp_all add: MAX_DEPTH_def literal_valid)
  then show "decode_message X (rpc2_answer msg (Inr (Object [(''queued'', Bool True)]))) =
      Ret (Some \<lparr>rm_method = [], rm_seq = rm_seq msg, rm_error = [],
        rm_payload = Object [(''queued'', Bool False)]\<rparr>)" by (simp add: obj_of_def)
qed

theorem rpc2_answer_image_witness:
  "decode_message demo_ext (rpc2_answer pop_msg (Inr (Number (PosInt 7)))) =
      Ret (Some \<lparr>rm_method = [], rm_seq = rm_seq pop_msg, rm_error = [], rm_payload = cbor_image (Number (PosInt 7))\<rparr>) \<and>
    decode_message demo_ext (rpc2_answer pop_msg (Inr (Object [(''queued'', Bool True)]))) =
      Ret (Some \<lparr>rm_method = [], rm_seq = rm_seq pop_msg, rm_error = [],
        rm_payload = Object [(''queued'', Bool False)]\<rparr>)"
proof (rule rpc2_answer_image)
  have l: "length (cbor_head m n) \<le> 9" for m n using length_cbor_head(1) [of m n] .
  have "length (rpc2_answer pop_msg (Inr (Number (PosInt 7)))) \<le> 200"
    using l [of 5 3] l [of 3 1] l [of 3 0] l [of 0 1] l [of 0 7]
    by (simp add: rpc2_answer_def cbor_message_def cbor_header_def cbor_map_def cbor_kv_def cbor_text_def cbor_uint_def pop_msg_def)
  then show "length (rpc2_answer pop_msg (Inr (Number (PosInt 7)))) < 2 ^ 64" by simp
qed simp_all

end
