(* ===== verification/Server.thy ===== *)
theory Server
  imports Relay
begin

text \<open>
  The serving side of \<open>src/spore_peer.rs\<close>: \<open>handle_rpc2\<close> (the sync subset over the body
  store), the per-frame dispatch and the connection loop \<open>handle_client\<close>. A node's shared
  state is the disk, the push limiter and, when the relay is enabled, the relay's state.
\<close>

section \<open>State\<close>

record node =
  nd_fs :: fsys
  nd_limiter :: rate_limiter
  nd_fabric :: "fabric_state option"

text \<open>\<open>message("", seq, "", body)\<close> written to the peer; a failed write is ignored.\<close>

definition answer :: "'p stream \<Rightarrow> u64 \<Rightarrow> bytes \<Rightarrow> 'p stream" where
  "answer s sq resp = fst (write_frame s (cbor_message [] sq [] resp))"

definition refuse :: "'p stream \<Rightarrow> u64 \<Rightarrow> string \<Rightarrow> 'p stream" where
  "refuse s sq e = fst (write_frame s (error_response sq e))"

section \<open>handle_rpc2\<close>

text \<open>The selection loop of Peer.Chain, over the chain newest first.\<close>

fun chain_select :: "u64 \<Rightarrow> nat \<Rightarrow> (u64 \<times> bytes) list \<Rightarrow> (u64 \<times> bytes) list \<Rightarrow> (u64 \<times> bytes) list" where
  "chain_select tp n [] selected = selected"
| "chain_select tp n ((h, c) # rest) selected =
     (if tp \<noteq> 0 \<and> h > tp then chain_select tp n rest selected
      else
        let selected = selected @ [(h, c)] in
        if length selected = n then selected else chain_select tp n rest selected)"

definition rpc2_handshake :: "'p stream \<Rightarrow> rpc2_message \<Rightarrow> path \<Rightarrow> fsys \<Rightarrow> 'p stream \<times> unit run" where
  "rpc2_handshake s msg dir fs =
     (case chain_view dir fs of Panic \<Rightarrow> (s, Panic)
      | Ret chain \<Rightarrow>
          (answer s (rm_seq msg) (handshake_response (word_of_nat (length chain)) 1), Ret ()))"

definition rpc2_chain :: "'p stream \<Rightarrow> rpc2_message \<Rightarrow> path \<Rightarrow> fsys \<Rightarrow> 'p stream \<times> unit run" where
  "rpc2_chain s msg dir fs =
     (let tp = u64_or (get_u64 (rm_payload msg) ''TOP'') 0;
          n = unat (min (u64_or (get_u64 (rm_payload msg) ''N'') 128) 5000) in
      case chain_view dir fs of Panic \<Rightarrow> (s, Panic)
      | Ret chain \<Rightarrow>
          (answer s (rm_seq msg) (chain_response (chain_select tp n (rev chain) [])), Ret ()))"

definition rpc2_getobject :: "ext \<Rightarrow> 'p stream \<Rightarrow> rpc2_message \<Rightarrow> path \<Rightarrow> fsys \<Rightarrow> 'p stream \<times> unit run" where
  "rpc2_getobject X s msg dir fs =
     (let blid_hex = str_or (get_str (rm_payload msg) ''BLID'') [] in
      case serve_body X dir blid_hex fs of Panic \<Rightarrow> (s, Panic)
      | Ret (Inr body) \<Rightarrow> (answer s (rm_seq msg) (getobject_response body), Ret ())
      | Ret (Inl e) \<Rightarrow> (refuse s (rm_seq msg) e, Ret ()))"

definition rpc2_putobject :: "ext \<Rightarrow> 'p stream \<Rightarrow> rpc2_message \<Rightarrow> path \<Rightarrow> string \<Rightarrow> serve_config \<Rightarrow> u64 \<Rightarrow> node \<Rightarrow>
    'p stream \<times> node \<times> unit run" where
  "rpc2_putobject X s msg dir ip cfg now nd =
     (let body_hex = str_or (get_str (rm_payload msg) ''BODY'') [] in
      case hex_crate_decode X body_hex of
        Inl _ \<Rightarrow> (refuse s (rm_seq msg) ''400 body not valid hex'', nd, Ret ())
      | Inr body \<Rightarrow>
          let blid_hex = str_or (get_str (rm_payload msg) ''BLID'') [] in
          (case enforce_write_policy cfg ip dir (nd_fs nd) (length body) (nd_limiter nd) now (rm_payload msg) of
             (lim, Inl e) \<Rightarrow> (refuse s (rm_seq msg) e, nd\<lparr>nd_limiter := lim\<rparr>, Ret ())
           | (lim, Inr _) \<Rightarrow>
               let nd = nd\<lparr>nd_limiter := lim\<rparr>; digest = sha256 X body in
               (case hex_decode blid_hex of
                  Panic \<Rightarrow> (s, nd, Panic)
                | Ret blid \<Rightarrow>
                    if \<not> (case blid of Some b \<Rightarrow> length b = 32 \<and> b = digest | None \<Rightarrow> False)
                    then (refuse s (rm_seq msg) ''400 body sha256 != BLID'', nd, Ret ())
                    else
                      (case store_body X dir body (nd_fs nd) of
                         (fs1, Inl e) \<Rightarrow> (refuse s (rm_seq msg) e, nd\<lparr>nd_fs := fs1\<rparr>, Ret ())
                       | (fs1, Inr cid_hex) \<Rightarrow>
                           let nd = nd\<lparr>nd_fs := fs1\<rparr> in
                           (case hex_decode cid_hex of
                              Panic \<Rightarrow> (s, nd, Panic)
                            | Ret None \<Rightarrow>
                                (answer s (rm_seq msg) (putobject_response (replicate 32 0)), nd, Ret ())
                            | Ret (Some b) \<Rightarrow>
                                if length b \<noteq> 32 then (s, nd, Panic)
                                else (answer s (rm_seq msg) (putobject_response b), nd, Ret ()))))))"

definition handle_rpc2 :: "ext \<Rightarrow> 'p stream \<Rightarrow> rpc2_message \<Rightarrow> path \<Rightarrow> string \<Rightarrow> serve_config \<Rightarrow> clock \<Rightarrow> node \<Rightarrow>
    'p stream \<times> node \<times> unit run" where
  "handle_rpc2 X s msg dir ip cfg clk nd =
     (let m = rm_method msg in
      if m = ''Peer.Handshake'' then
        (case rpc2_handshake s msg dir (nd_fs nd) of (s, r) \<Rightarrow> (s, nd, r))
      else if m = ''Peer.Chain'' then
        (case rpc2_chain s msg dir (nd_fs nd) of (s, r) \<Rightarrow> (s, nd, r))
      else if m = ''Peer.GetObject'' then
        (case rpc2_getobject X s msg dir (nd_fs nd) of (s, r) \<Rightarrow> (s, nd, r))
      else if m = ''Peer.PutObject'' then rpc2_putobject X s msg dir ip cfg (clk 0) nd
      else (refuse s (rm_seq msg) ''501 unknown method'', nd, Ret ()))"

section \<open>Dispatch of one frame\<close>

text \<open>The relay handlers on the node: they see its relay state and its disk.\<close>

definition on_fabric :: "node \<Rightarrow> 'p stream \<times> fabric_state option \<times> fsys \<times> unit run \<Rightarrow> 'p stream \<times> node \<times> unit run" where
  "on_fabric nd res = (case res of (s, fab, fs, r) \<Rightarrow> (s, nd\<lparr>nd_fabric := fab, nd_fs := fs\<rparr>, r))"

definition serve_json :: "ext \<Rightarrow> 'p stream \<Rightarrow> bytes \<Rightarrow> path \<Rightarrow> string \<Rightarrow> clock \<Rightarrow> node \<Rightarrow>
    'p stream \<times> node \<times> unit run" where
  "serve_json X s body dir ip clk nd =
     (case json_from_slice X body of
        None \<Rightarrow> (fst (write_frame s (frame_err ''400 bad request'')), nd, Ret ())
      | Some req \<Rightarrow>
          if get_str req ''verb'' \<noteq> None then
            on_fabric nd (handle_verb X s req dir (nd_fabric nd) ip clk (nd_fs nd))
          else
            let cid = str_or (get_str req ''cid'') [] in
            (case serve_body X dir cid (nd_fs nd) of
               Panic \<Rightarrow> (s, nd, Panic)
             | Ret (Inr data) \<Rightarrow> (fst (write_frame s (frame_ok data)), nd, Ret ())
             | Ret (Inl e) \<Rightarrow> (fst (write_frame s (frame_err e)), nd, Ret ())))"

definition serve_frame :: "ext \<Rightarrow> 'p stream \<Rightarrow> bytes \<Rightarrow> path \<Rightarrow> string \<Rightarrow> serve_config \<Rightarrow> clock \<Rightarrow> node \<Rightarrow>
    'p stream \<times> node \<times> unit run" where
  "serve_frame X s body dir ip cfg clk nd =
     (case decode_message X body of
        Panic \<Rightarrow> (s, nd, Panic)
      | Ret None \<Rightarrow> serve_json X s body dir ip clk nd
      | Ret (Some msg) \<Rightarrow>
          if rm_method msg \<noteq> [] then
            (if starts_with (rm_method msg) ''Peer.Fabric'' then
               on_fabric nd (handle_rpc2_fabric X s msg dir (nd_fabric nd) ip clk (nd_fs nd))
             else handle_rpc2 X s msg dir ip cfg clk nd)
          else serve_json X s body dir ip clk nd)"

section \<open>The connection loop\<close>

text \<open>
  The loop of \<open>handle_client\<close>. A remote side that keeps sending keeps the loop running, so
  it is a partial function; \<open>clks i\<close> is the clock of the \<open>i\<close>-th request. A panic ends the
  connection's thread.
\<close>

partial_function (option) handle_client ::
  "ext \<Rightarrow> 'p stream \<Rightarrow> path \<Rightarrow> string \<Rightarrow> serve_config \<Rightarrow> (nat \<Rightarrow> clock) \<Rightarrow> nat \<Rightarrow> node \<Rightarrow>
    ('p stream \<times> node \<times> unit run) option" where
  "handle_client X s dir ip cfg clks i nd =
     (case read_frame s of
        (s1, Inl _) \<Rightarrow> Some (s1, nd, Ret ())
      | (s1, Inr body) \<Rightarrow>
          (case serve_frame X s1 body dir ip cfg (clks i) nd of
             (s2, nd2, Panic) \<Rightarrow> Some (s2, nd2, Panic)
           | (s2, nd2, Ret _) \<Rightarrow> handle_client X s2 dir ip cfg clks (Suc i) nd2))"

end
