(* ===== verification/Server_Facts.thy ===== *)
theory Server_Facts
  imports Server
begin

text \<open>
  Facts about the serving side: which files a request can touch, the invariants of the
  hold and of the relay under every request, the shape of the answers, and the termination
  of the connection loop.
\<close>

section \<open>The files of the hold and of the relay are disjoint\<close>

lemma body_path_last: "last (body_path dir h) = CHR ''y''"
  by (simp add: body_path_def)

lemma relay_paths_not_body [simp]:
  "fenv_path dir c \<noteq> body_path dir' h" "body_path dir' h \<noteq> fenv_path dir c"
  "fenv_tmp_path dir c \<noteq> body_path dir' h" "body_path dir' h \<noteq> fenv_tmp_path dir c"
proof -
  have "last (fenv_path dir c) = CHR ''v''" "last (fenv_tmp_path dir c) = CHR ''p''"
    by (simp_all add: fenv_path_def fenv_tmp_path_def)
  then show "fenv_path dir c \<noteq> body_path dir' h" "body_path dir' h \<noteq> fenv_path dir c"
    "fenv_tmp_path dir c \<noteq> body_path dir' h" "body_path dir' h \<noteq> fenv_tmp_path dir c"
    using body_path_last [of dir' h] by auto
qed

lemma path_extension_last: "path_extension n = Some e \<Longrightarrow> e \<noteq> [] \<Longrightarrow> last n = last e"
proof -
  assume a: "path_extension n = Some e" "e \<noteq> []"
  let ?t = "takeWhile (\<lambda>c. c \<noteq> CHR ''.'') (rev n)"
  from a have e: "e = rev ?t" by (auto simp: path_extension_def Let_def split: if_splits)
  then have "?t \<noteq> []" using a(2) by auto
  then have "hd ?t = hd (rev n)" by (cases "rev n") auto
  moreover have "n \<noteq> []" using \<open>?t \<noteq> []\<close> by auto
  ultimately show ?thesis using e \<open>?t \<noteq> []\<close> by (simp add: last_rev hd_rev)
qed

lemma fenv_entry_not_body:
  assumes "path_extension n = Some ''fenv''"
  shows "file_path dir n \<noteq> body_path dir' h" "file_path dir n \<noteq> tmp_body_path dir' h"
proof -
  have "n \<noteq> []" using assms by (auto simp: path_extension_def)
  then have "last (file_path dir n) = CHR ''v''"
    using path_extension_last [OF assms] by (simp add: file_path_def)
  moreover have "last (tmp_body_path dir' h) = CHR ''t''" by (simp add: tmp_body_path_def)
  ultimately show "file_path dir n \<noteq> body_path dir' h" "file_path dir n \<noteq> tmp_body_path dir' h"
    using body_path_last [of dir' h] by auto
qed

lemma fenv_path_not_tmp [simp]: "fenv_path dir c \<noteq> tmp_body_path dir' h"
proof -
  have "last (fenv_path dir c) \<noteq> last (tmp_body_path dir' h)"
    by (simp add: fenv_path_def tmp_body_path_def)
  then show ?thesis by metis
qed

lemma run_fput_bodies:
  assumes "run_fput X st req dir ip clk fs = (st', fs', r)"
  shows "fs_lookup fs' (body_path d h) = fs_lookup fs (body_path d h)"
  using assms
proof (cases rule: run_fput_cases)
  case (io lim cid raw e)
  then show ?thesis using persist_err [OF io(3)] by simp
next
  case (queued h0 k rg lim ptr_hex env cid fs1 q1 fs2 q2)
  have "body_path d h \<notin> q_file dir ` set q" for q by auto
  then have dr: "fs_lookup (drops dir q f) (body_path d h) = fs_lookup f (body_path d h)" for q f
    by (rule drops_other)
  have "fs_lookup fs2 (body_path d h) = fs_lookup fs1 (body_path d h)"
    using queued(14) dr by (cases rule: enqueue_cases) (auto simp del: drops_simps)
  moreover have "fs_lookup fs' (body_path d h) = fs_lookup fs2 (body_path d h)"
    using queued(15) dr by (auto simp: compost_eq)
  ultimately show ?thesis by (simp add: persist_ok [OF queued(13)])
qed simp_all

lemma run_fpop_bodies:
  assumes "run_fpop X st req dir ip clk fs = (st', fs', r)"
  shows "fs_lookup fs' (body_path d h) = fs_lookup fs (body_path d h)"
  using assms
proof (cases rule: run_fpop_cases)
  case (popped h0 k rg lim taken rest out)
  have "body_path d h \<notin> q_file dir ` set taken" by auto
  then show ?thesis unfolding popped(7) by (rule drops_other)
qed simp_all

lemma hold_ok_cong: "(\<And>h. fs_lookup fs' (body_path dir h) = fs_lookup fs (body_path dir h)) \<Longrightarrow> hold_ok X dir fs' = hold_ok X dir fs"
  by (simp add: hold_ok_def)

lemma handle_verb_bodies:
  assumes "handle_verb X s req dir fab ip clk fs = (s', fab', fs', r)"
  shows "fs_lookup fs' (body_path d h) = fs_lookup fs (body_path d h)"
  using assms
  by (auto simp: handle_verb_def Let_def run_fput_bodies run_fpop_bodies
      split: option.splits if_splits prod.splits run.splits)

lemma handle_rpc2_fabric_bodies:
  assumes "handle_rpc2_fabric X s msg dir fab ip clk fs = (s', fab', fs', r)"
  shows "fs_lookup fs' (body_path d h) = fs_lookup fs (body_path d h)"
  using assms
  by (auto simp: handle_rpc2_fabric_def Let_def run_fput_bodies run_fpop_bodies
      split: option.splits if_splits prod.splits run.splits)

section \<open>PutObject\<close>

lemma rpc2_putobject_cases:
  assumes "rpc2_putobject X s msg dir ip cfg now nd = (s', nd', r)"
  obtains (refused) lim where "nd' = nd\<lparr>nd_limiter := lim\<rparr>"
  | (stored) body lim fs1 res where
      "hex_crate_decode X (str_or (get_str (rm_payload msg) ''BODY'') []) = Inr body"
      "enforce_write_policy cfg ip dir (nd_fs nd) (length body) (nd_limiter nd) now (rm_payload msg) = (lim, Inr ())"
      "hex_decode (str_or (get_str (rm_payload msg) ''BLID'') []) = Ret (Some (sha256 X body))"
      "length (sha256 X body) = 32"
      "store_body X dir body (nd_fs nd) = (fs1, res)"
      "nd' = nd\<lparr>nd_limiter := lim, nd_fs := fs1\<rparr>"
      "\<And>e. res = Inl e \<Longrightarrow> s' = refuse s (rm_seq msg) e \<and> r = Ret ()"
      "\<And>cid. res = Inr cid \<Longrightarrow> hex_law X \<Longrightarrow>
         s' = answer s (rm_seq msg) (putobject_response (sha256 X body)) \<and> r = Ret ()"
proof (cases "hex_crate_decode X (str_or (get_str (rm_payload msg) ''BODY'') [])")
  case (Inl e)
  then show thesis using assms by (intro refused [of "nd_limiter nd"]) (auto simp: rpc2_putobject_def)
next
  case body: (Inr body)
  obtain lim p where pol: "enforce_write_policy cfg ip dir (nd_fs nd) (length body) (nd_limiter nd) now (rm_payload msg) = (lim, p)"
    by (cases "enforce_write_policy cfg ip dir (nd_fs nd) (length body) (nd_limiter nd) now (rm_payload msg)")
  show thesis
  proof (cases "p = Inr () \<and> hex_decode (str_or (get_str (rm_payload msg) ''BLID'') []) = Ret (Some (sha256 X body)) \<and>
      length (sha256 X body) = 32")
    case False
    have ref: "nd' = nd\<lparr>nd_limiter := lim\<rparr> \<Longrightarrow> thesis" by (rule refused)
    show thesis
    proof (cases p)
      case (Inl e)
      then show thesis using assms body pol ref by (simp add: rpc2_putobject_def)
    next
      case (Inr u)
      then show thesis using False assms body pol ref
        by (cases "hex_decode (str_or (get_str (rm_payload msg) ''BLID'') [])")
          (auto simp: rpc2_putobject_def Let_def split: option.splits if_splits)
    qed
  next
    case True
    obtain fs1 res where st: "store_body X dir body (nd_fs nd) = (fs1, res)"
      by (cases "store_body X dir body (nd_fs nd)")
    show thesis
    proof (rule stored [OF body _ _ _ st])
      show "nd' = nd\<lparr>nd_limiter := lim, nd_fs := fs1\<rparr>"
        using True assms body pol st
        by (cases res) (auto simp: rpc2_putobject_def Let_def split: run.splits option.splits if_splits)
      show "s' = refuse s (rm_seq msg) e \<and> r = Ret ()" if "res = Inl e" for e
        using that True assms body pol st by (auto simp: rpc2_putobject_def)
      show "s' = answer s (rm_seq msg) (putobject_response (sha256 X body)) \<and> r = Ret ()"
        if "res = Inr cid" "hex_law X" for cid
      proof -
        have "hex_decode cid = Ret (Some (sha256 X body))"
          using store_body_result [OF st [unfolded that(1)]] that(2) by (simp add: hex_law_encode codec)
        then show ?thesis using that(1) True assms body pol st by (auto simp: rpc2_putobject_def)
      qed
    qed (use True pol in auto)
  qed
qed

section \<open>handle_rpc2 and the dispatch\<close>

lemma handle_rpc2_node:
  assumes "handle_rpc2 X s msg dir ip cfg clk nd = (s', nd', r)"
  obtains "nd' = nd" | "rpc2_putobject X s msg dir ip cfg (clk 0) nd = (s', nd', r)"
  using assms by (auto simp: handle_rpc2_def Let_def split: if_splits prod.splits)

text \<open>The fput request that a frame carries, through either face of the relay, if it carries one.\<close>

definition frame_fput :: "ext \<Rightarrow> bytes \<Rightarrow> json option" where
  "frame_fput X body =
     (let verb = (case json_from_slice X body of
                    Some req \<Rightarrow> if get_str req ''verb'' = Some ''fput'' then Some req else None
                  | None \<Rightarrow> None) in
      case decode_message X body of
        Panic \<Rightarrow> None
      | Ret None \<Rightarrow> verb
      | Ret (Some msg) \<Rightarrow>
          if rm_method msg = [] then verb
          else if rm_method msg = ''Peer.FabricPut'' then Some (rm_payload msg) else None)"

lemma serve_json_node:
  assumes "serve_json X s body dir ip clk nd = (s', nd', r)"
  obtains "nd' = nd"
  | req fab fs where "handle_verb X s req dir (nd_fabric nd) ip clk (nd_fs nd) = (s', fab, fs, r)"
      "nd' = nd\<lparr>nd_fabric := fab, nd_fs := fs\<rparr>" "json_from_slice X body = Some req"
proof (cases "json_from_slice X body")
  case None
  then show thesis using assms that(1) by (simp add: serve_json_def)
next
  case (Some req)
  show thesis
  proof (cases "get_str req ''verb'' \<noteq> None")
    case True
    obtain s1 fab fs r1 where v: "handle_verb X s req dir (nd_fabric nd) ip clk (nd_fs nd) = (s1, fab, fs, r1)"
      by (cases "handle_verb X s req dir (nd_fabric nd) ip clk (nd_fs nd)")
    then show thesis using assms Some True that(2) [of req fab fs] by (auto simp: serve_json_def on_fabric_def)
  next
    case False
    then show thesis using assms Some that(1)
      by (auto simp: serve_json_def Let_def split: run.splits sum.splits)
  qed
qed

lemma serve_frame_node:
  assumes "serve_frame X s body dir ip cfg clk nd = (s', nd', r)"
  obtains (same) "nd' = nd"
  | (verb) req fab fs where "handle_verb X s req dir (nd_fabric nd) ip clk (nd_fs nd) = (s', fab, fs, r)"
      "nd' = nd\<lparr>nd_fabric := fab, nd_fs := fs\<rparr>" "get_str req ''verb'' = Some ''fput'' \<longrightarrow> frame_fput X body = Some req"
  | (fabric) msg fab fs where "handle_rpc2_fabric X s msg dir (nd_fabric nd) ip clk (nd_fs nd) = (s', fab, fs, r)"
      "nd' = nd\<lparr>nd_fabric := fab, nd_fs := fs\<rparr>" "rm_method msg = ''Peer.FabricPut'' \<longrightarrow> frame_fput X body = Some (rm_payload msg)"
  | (put) msg where "decode_message X body = Ret (Some msg)"
      "rpc2_putobject X s msg dir ip cfg (clk 0) nd = (s', nd', r)"
proof (cases "decode_message X body")
  case Panic
  then show thesis using assms same by (simp add: serve_frame_def)
next
  case (Ret m)
  show thesis
  proof (cases "\<exists>msg. m = Some msg \<and> rm_method msg \<noteq> []")
    case False
    then have "serve_json X s body dir ip clk nd = (s', nd', r)"
      using assms Ret by (auto simp: serve_frame_def split: option.splits)
    then show thesis
    proof (rule serve_json_node)
      fix req fab fs assume "handle_verb X s req dir (nd_fabric nd) ip clk (nd_fs nd) = (s', fab, fs, r)"
        "nd' = nd\<lparr>nd_fabric := fab, nd_fs := fs\<rparr>" "json_from_slice X body = Some req"
      then show thesis using Ret False
        by (intro verb [of req fab fs]) (auto simp: frame_fput_def Let_def split: option.split)
    qed (rule same)
  next
    case True
    then obtain msg where msg: "m = Some msg" "rm_method msg \<noteq> []" by blast
    show thesis
    proof (cases "starts_with (rm_method msg) ''Peer.Fabric''")
      case True
      then show thesis using assms Ret msg fabric
        by (cases "handle_rpc2_fabric X s msg dir (nd_fabric nd) ip clk (nd_fs nd)")
          (auto simp: serve_frame_def on_fabric_def frame_fput_def Let_def)
    next
      case False
      then have "handle_rpc2 X s msg dir ip cfg clk nd = (s', nd', r)"
        using assms Ret msg by (simp add: serve_frame_def)
      then show thesis by (rule handle_rpc2_node) (use same put Ret msg in auto)
    qed
  qed
qed

text \<open>Content addressing survives every request.\<close>

lemma serve_frame_hold_ok:
  assumes law: "hex_law X" and run: "serve_frame X s body dir ip cfg clk nd = (s', nd', r)"
    and ok: "hold_ok X dir (nd_fs nd)"
  shows "hold_ok X dir (nd_fs nd')"
  using run
proof (cases rule: serve_frame_node)
  case (verb req fab fs)
  then show ?thesis using hold_ok_cong [OF handle_verb_bodies [OF verb(1)]] ok by simp
next
  case (fabric msg fab fs)
  then show ?thesis using hold_ok_cong [OF handle_rpc2_fabric_bodies [OF fabric(1)]] ok by simp
next
  case (put msg)
  from put(2) show ?thesis
  proof (cases rule: rpc2_putobject_cases)
    case (stored b lim fs1 res)
    then show ?thesis using store_body_hold_ok [OF law stored(5) ok] by simp
  qed (use ok in simp)
qed (use ok in simp)

text \<open>The loop rule: what every request keeps, the connection keeps.\<close>

lemma handle_client_invariant:
  fixes s :: "'p stream"
  assumes step: "\<And>(s :: 'p stream) body clk nd s' nd' r. Inv nd \<Longrightarrow>
      serve_frame X s body dir ip cfg clk nd = (s', nd', r) \<Longrightarrow> Inv nd'"
    and run: "handle_client X s dir ip cfg clks i nd = Some res" and start: "Inv nd"
  shows "Inv (fst (snd res))"
proof -
  let ?P = "\<lambda>X0 (s0 :: 'p stream) dir0 ip0 cfg0 clks0 i0 nd0 res0.
    X0 = X \<longrightarrow> dir0 = dir \<longrightarrow> ip0 = ip \<longrightarrow> cfg0 = cfg \<longrightarrow> Inv nd0 \<longrightarrow> Inv (fst (snd res0))"
  have "?P X s dir ip cfg clks i nd res"
  proof (rule handle_client.raw_induct [OF _ run, of ?P])
    fix rec and X0 and s0 :: "'p stream" and dir0 ip0 cfg0 clks0 i0 nd0 res0
    assume 1: "\<And>X0 s0 dir0 ip0 cfg0 clks0 i0 nd0 res0.
        rec X0 s0 dir0 ip0 cfg0 clks0 i0 nd0 = Some res0 \<Longrightarrow> ?P X0 s0 dir0 ip0 cfg0 clks0 i0 nd0 res0"
      "(case read_frame s0 of (s1, Inl _) \<Rightarrow> Some (s1, nd0, Ret ())
        | (s1, Inr body) \<Rightarrow> (case serve_frame X0 s1 body dir0 ip0 cfg0 (clks0 i0) nd0 of
             (s2, nd2, Panic) \<Rightarrow> Some (s2, nd2, Panic)
           | (s2, nd2, Ret _) \<Rightarrow> rec X0 s2 dir0 ip0 cfg0 clks0 (Suc i0) nd2)) = Some res0"
    obtain s1 x where rf: "read_frame s0 = (s1, x)" by (cases "read_frame s0")
    show "?P X0 s0 dir0 ip0 cfg0 clks0 i0 nd0 res0"
    proof (cases x)
      case (Inl e)
      then show ?thesis using 1 rf by auto
    next
      case (Inr body)
      obtain s2 nd2 r2 where sf: "serve_frame X0 s1 body dir0 ip0 cfg0 (clks0 i0) nd0 = (s2, nd2, r2)"
        by (cases "serve_frame X0 s1 body dir0 ip0 cfg0 (clks0 i0) nd0")
      show ?thesis
      proof (cases r2)
        case Panic
        then have "res0 = (s2, nd2, Panic)" using 1(2) rf Inr sf by simp
        moreover have "X0 = X \<longrightarrow> dir0 = dir \<longrightarrow> ip0 = ip \<longrightarrow> cfg0 = cfg \<longrightarrow> Inv nd0 \<longrightarrow> Inv nd2"
          using step sf by blast
        ultimately show ?thesis by simp
      next
        case (Ret u)
        then have "rec X0 s2 dir0 ip0 cfg0 clks0 (Suc i0) nd2 = Some res0"
          using 1(2) rf Inr sf by simp
        from 1(1) [OF this] show ?thesis using sf step by blast
      qed
    qed
  qed
  then show ?thesis using start by blast
qed

lemma handle_client_hold_ok:
  assumes "hex_law X" "handle_client X s dir ip cfg clks i nd = Some res" "hold_ok X dir (nd_fs nd)"
  shows "hold_ok X dir (nd_fs (fst (snd res)))"
  using assms(2,3)
  by (rule handle_client_invariant [where Inv = "\<lambda>nd. hold_ok X dir (nd_fs nd)", rotated])
    (rule serve_frame_hold_ok [OF assms(1)])

section \<open>The relay under every request\<close>

lemma store_body_wf: "store_body X dir body fs = (fs', r) \<Longrightarrow> fs_wf fs \<Longrightarrow> fs_wf fs'"
  by (auto simp: store_body_def Let_def dest!: fs_wf_write fs_wf_rename
      split: if_splits sum.splits prod.splits)

lemma store_body_relay_ok:
  assumes ok: "relay_ok X dir (st, fs)" and run: "store_body X dir body fs = (fs', r)"
  shows "relay_ok X dir (st, fs')"
proof -
  have same: "fs_lookup fs' p = fs_lookup fs p" if "\<And>h. p \<noteq> body_path dir h" "\<And>h. p \<noteq> tmp_body_path dir h" for p
    using store_body_keeps [OF run] that by blast
  have idx: "index_ok X dir (fab_queues st) fs" and no: "no_orphans X dir (fab_queues st) fs" and d: "disk_ok dir fs"
    using ok by (simp_all add: relay_ok_def)
  have "backs X dir fs' h x e" if "backs X dir fs h x e" for h x e
    using backs_lookup [OF that] same by simp
  then have "index_ok X dir (fab_queues st) fs'" using idx by (fastforce simp: index_ok_def queue_ok_def)
  moreover have "no_orphans X dir (fab_queues st) fs'"
    by (rule no_orphansI) (use no_orphansD [OF no] same fenv_entry_not_body in metis)
  moreover have "disk_ok dir fs'"
    using d frames_keep_faults [OF run] store_body_wf [OF run] by (auto simp: disk_ok_def readable_def)
  ultimately show ?thesis using ok by (simp add: relay_ok_def)
qed

definition node_ok :: "ext \<Rightarrow> path \<Rightarrow> node \<Rightarrow> bool" where
  "node_ok X dir nd \<longleftrightarrow> hold_ok X dir (nd_fs nd) \<and>
     (case nd_fabric nd of None \<Rightarrow> True | Some st \<Rightarrow> relay_ok X dir (st, nd_fs nd))"

text \<open>
  What a request assumes of SHA-256: the envelope that the fput in it writes, if it carries one,
  does not get the name of a different file of the directory.
\<close>

definition collision_free :: "ext \<Rightarrow> path \<Rightarrow> bytes \<Rightarrow> clock \<Rightarrow> fsys \<Rightarrow> bool" where
  "collision_free X dir body clk fs \<longleftrightarrow>
     (case frame_fput X body of None \<Rightarrow> True
      | Some req \<Rightarrow> no_collision X dir fs (marshal_envelope (new_envelope X req (clk 3))))"

lemma handle_verb_step:
  assumes "handle_verb X s req dir fab ip clk fs = (s', fab', fs', r)"
    "get_str req ''verb'' = Some ''fput'' \<longrightarrow> no_collision X dir fs (marshal_envelope (new_envelope X req (clk 3)))"
  shows "(fab' = fab \<and> fs' = fs) \<or> (\<exists>st st'. fab = Some st \<and> fab' = Some st' \<and> relay_step X dir (st, fs) (st', fs'))"
  using assms
  by (auto simp: handle_verb_def Let_def intro: relay_step.intros
      split: option.splits if_splits prod.splits run.splits)

lemma handle_rpc2_fabric_step:
  assumes "handle_rpc2_fabric X s msg dir fab ip clk fs = (s', fab', fs', r)"
    "rm_method msg = ''Peer.FabricPut'' \<longrightarrow> no_collision X dir fs (marshal_envelope (new_envelope X (rm_payload msg) (clk 3)))"
  shows "(fab' = fab \<and> fs' = fs) \<or> (\<exists>st st'. fab = Some st \<and> fab' = Some st' \<and> relay_step X dir (st, fs) (st', fs'))"
  using assms
  by (auto simp: handle_rpc2_fabric_def Let_def intro: relay_step.intros
      split: option.splits if_splits prod.splits run.splits)

lemma serve_frame_node_ok:
  assumes law: "hex_law X" "sha_law X" and run: "serve_frame X s body dir ip cfg clk nd = (s', nd', r)"
    and ok: "node_ok X dir nd" and nc: "collision_free X dir body clk (nd_fs nd)"
  shows "node_ok X dir nd'"
proof -
  have hold: "hold_ok X dir (nd_fs nd')"
    using serve_frame_hold_ok [OF law(1) run] ok by (simp add: node_ok_def)
  have step: "relay_ok X dir (st', fs)" if "(fab = nd_fabric nd \<and> fs = nd_fs nd) \<or>
      (\<exists>st st'. nd_fabric nd = Some st \<and> fab = Some st' \<and> relay_step X dir (st, nd_fs nd) (st', fs))"
      "fab = Some st'" for fab fs st'
    using that ok relay_step_ok [OF law, of dir] by (auto simp: node_ok_def split: option.splits)
  from run have "case nd_fabric nd' of None \<Rightarrow> True | Some st \<Rightarrow> relay_ok X dir (st, nd_fs nd')"
  proof (cases rule: serve_frame_node)
    case (verb req fab fs)
    then show ?thesis using step [OF handle_verb_step [OF verb(1)]] verb(3) nc by (auto simp: collision_free_def split: option.split)
  next
    case (fabric msg fab fs)
    then show ?thesis using step [OF handle_rpc2_fabric_step [OF fabric(1)]] fabric(3) nc by (auto simp: collision_free_def split: option.split)
  next
    case (put msg)
    from put(2) show ?thesis
    proof (cases rule: rpc2_putobject_cases)
      case (stored b lim fs1 res)
      then show ?thesis using store_body_relay_ok [OF _ stored(5)] ok
        by (auto simp: node_ok_def split: option.splits)
    qed (use ok in \<open>auto simp: node_ok_def split: option.splits\<close>)
  qed (use ok in \<open>auto simp: node_ok_def\<close>)
  with hold show ?thesis by (simp add: node_ok_def)
qed

text \<open>A restart of the process: the relay is rebuilt from its files, the store stays.\<close>

lemma hold_ok_sub: "hold_ok X dir fs \<Longrightarrow> (\<And>p f. fs_lookup fs' p = Some f \<Longrightarrow> fs_lookup fs p = Some f) \<Longrightarrow> hold_ok X dir fs'"
  by (auto simp: hold_ok_def)

lemma restart_node_ok:
  assumes law: "hex_law X" "sha_law X" and ok: "node_ok X dir nd" and st: "nd_fabric nd = Some st"
    and opn: "fabric_open X dir (fab_cfg st) clk (nd_fs nd) = (fs', st')"
  shows "node_ok X dir (nd\<lparr>nd_fs := fs', nd_limiter := lim, nd_fabric := Some st'\<rparr>)"
proof -
  have "fs_lookup fs' p = Some f \<Longrightarrow> fs_lookup (nd_fs nd) p = Some f" for p f
    using fabric_open_loop [OF opn] open_loop_sub by metis
  then have "hold_ok X dir fs'" using ok hold_ok_sub by (auto simp: node_ok_def)
  moreover have "relay_ok X dir (st', fs')"
    using relay_ok_restart [OF law _ opn] ok st by (simp add: node_ok_def)
  ultimately show ?thesis by (simp add: node_ok_def)
qed

lemma disk_node_ok:
  assumes "node_ok X dir nd" "fs_files fs' = fs_files (nd_fs nd)" "nd_fabric nd \<noteq> None \<longrightarrow> disk_ok dir fs'"
  shows "node_ok X dir (nd\<lparr>nd_fs := fs'\<rparr>)"
  using assms relay_ok_disk by (fastforce simp: node_ok_def hold_ok_def split: option.splits)

section \<open>One answer per request\<close>

definition answers :: "'p stream \<Rightarrow> 'p stream \<times> 'a \<times> unit run \<Rightarrow> bool" where
  "answers s res \<longleftrightarrow> (if snd (snd res) = Panic then fst res = s
     else \<exists>b. fst res = fst (write_frame s b))"

lemma answer_written [simp]: "\<exists>b. answer s q r = fst (write_frame s b)" "\<exists>b. refuse s q e = fst (write_frame s b)"
  "\<exists>b. reply X s x = fst (write_frame s b)" "\<exists>b. fst (write_frame s y) = fst (write_frame s b)"
  by (auto simp: answer_def refuse_def reply_def)

lemma handle_verb_answers:
  "handle_verb X s req dir fab ip clk fs = (s', fab', fs', r) \<Longrightarrow> answers s (s', nd', r)"
  by (auto simp: handle_verb_def answers_def Let_def split: option.splits if_splits prod.splits run.splits)

lemma handle_rpc2_fabric_answers:
  "handle_rpc2_fabric X s msg dir fab ip clk fs = (s', fab', fs', r) \<Longrightarrow> answers s (s', nd', r)"
  by (auto simp: handle_rpc2_fabric_def answers_def Let_def split: option.splits if_splits prod.splits run.splits)

lemma rpc2_putobject_answers:
  "rpc2_putobject X s msg dir ip cfg now nd = (s', nd', r) \<Longrightarrow> answers s (s', nd', r)"
  by (auto simp: rpc2_putobject_def answers_def Let_def
      split: option.splits if_splits prod.splits run.splits sum.splits)

lemma handle_rpc2_answers:
  assumes "handle_rpc2 X s msg dir ip cfg clk nd = (s', nd', r)"
  shows "answers s (s', nd', r)"
proof (cases "rm_method msg = ''Peer.PutObject''")
  case True
  then show ?thesis using assms rpc2_putobject_answers by (simp add: handle_rpc2_def)
next
  case False
  then show ?thesis using assms
    by (auto simp: handle_rpc2_def rpc2_handshake_def rpc2_chain_def rpc2_getobject_def answers_def Let_def
        split: if_splits prod.splits run.splits sum.splits)
qed

lemma serve_json_answers:
  assumes "serve_json X s body dir ip clk nd = (s', nd', r)"
  shows "answers s (s', nd', r)"
proof (cases "json_from_slice X body")
  case None
  then show ?thesis using assms by (auto simp: serve_json_def answers_def)
next
  case (Some req)
  show ?thesis
  proof (cases "get_str req ''verb'' \<noteq> None")
    case True
    obtain s1 fab fs r1 where v: "handle_verb X s req dir (nd_fabric nd) ip clk (nd_fs nd) = (s1, fab, fs, r1)"
      by (cases "handle_verb X s req dir (nd_fabric nd) ip clk (nd_fs nd)")
    have "answers s (s1, nd', r1)" using v by (rule handle_verb_answers)
    moreover have "s' = s1" "r = r1" using assms Some True v by (auto simp: serve_json_def on_fabric_def)
    ultimately show ?thesis by simp
  next
    case False
    then show ?thesis using assms Some
      by (auto simp: serve_json_def answers_def Let_def split: run.splits sum.splits)
  qed
qed

lemma serve_frame_answers:
  assumes "serve_frame X s body dir ip cfg clk nd = (s', nd', r)"
  shows "answers s (s', nd', r)"
proof (cases "decode_message X body")
  case Panic
  then show ?thesis using decode_message_no_panic by blast
next
  case (Ret m)
  consider (json) "serve_json X s body dir ip clk nd = (s', nd', r)"
    | (fabric) msg fab fs where "handle_rpc2_fabric X s msg dir (nd_fabric nd) ip clk (nd_fs nd) = (s', fab, fs, r)"
    | (rpc2) msg where "handle_rpc2 X s msg dir ip cfg clk nd = (s', nd', r)"
    using assms Ret by (auto simp: serve_frame_def on_fabric_def split: option.splits if_splits prod.splits)
  then show ?thesis
    by cases (auto intro: serve_json_answers handle_rpc2_fabric_answers handle_rpc2_answers)
qed

section \<open>Termination of the connection\<close>

text \<open>A remote side that has stopped sending: nothing comes back on a write.\<close>

definition silent :: "'p stream \<Rightarrow> bool" where
  "silent s \<longleftrightarrow> (\<forall>p b. snd (s_react s p b) = [])"

lemma write_frame_silent:
  "silent s \<Longrightarrow> s_in (fst (write_frame s b)) = s_in s \<and> silent (fst (write_frame s b))"
  by (auto simp: write_frame_def write_all_def silent_def split: prod.splits) (metis snd_conv)+

lemma answers_silent:
  "answers s (s', nd', r) \<Longrightarrow> silent s \<Longrightarrow> s_in s' = s_in s \<and> silent s'"
  using write_frame_silent by (auto simp: answers_def split: if_splits)

lemma handle_client_terminates:
  "silent s \<Longrightarrow> \<exists>res. handle_client X s dir ip cfg clks i nd = Some res"
proof (induction "length (s_in s)" arbitrary: s i nd rule: less_induct)
  case less
  obtain s1 x where rf: "read_frame s = (s1, x)" by (cases "read_frame s")
  show ?case
  proof (cases x)
    case (Inl e)
    then show ?thesis using rf by (simp add: handle_client.simps [of X s])
  next
    case (Inr body)
    have "length (s_in s1) < length (s_in s)" using read_frame_progress rf Inr by fastforce
    moreover have "silent s1" using read_frame_keeps [OF rf] less.prems by (simp add: silent_def)
    moreover obtain s2 nd2 r2 where sf: "serve_frame X s1 body dir ip cfg (clks i) nd = (s2, nd2, r2)"
      by (cases "serve_frame X s1 body dir ip cfg (clks i) nd")
    ultimately have "s_in s2 = s_in s1" "silent s2"
      using answers_silent [OF serve_frame_answers [OF sf]] by simp_all
    then have "\<exists>res. handle_client X s2 dir ip cfg clks (Suc i) nd2 = Some res"
      using less.hyps \<open>length (s_in s1) < length (s_in s)\<close> by simp
    then show ?thesis using rf Inr sf by (cases r2) (simp_all add: handle_client.simps [of X s])
  qed
qed

section \<open>Dispatch\<close>

lemma json_frame_not_rpc2: "decode_message X (0x7b # rest) = Ret None"
proof (cases "decode_message X (0x7b # rest)")
  case Panic
  then show ?thesis using decode_message_no_panic by blast
next
  case (Ret m)
  then show ?thesis using decode_message_map_byte [of X "0x7b # rest"] by (cases m) auto
qed

lemma serve_frame_json: "serve_frame X s (0x7b # rest) dir ip cfg clk nd = serve_json X s (0x7b # rest) dir ip clk nd"
  by (simp add: serve_frame_def json_frame_not_rpc2)

section \<open>Chain selection\<close>

lemma chain_select_all:
  "n \<le> length sel \<Longrightarrow> chain_select tp n xs sel = sel @ filter (\<lambda>(h, c). tp = 0 \<or> h \<le> tp) xs"
  by (induction tp n xs sel rule: chain_select.induct) (auto simp: Let_def not_le not_less)

lemma chain_select_take:
  "length sel < n \<Longrightarrow> chain_select tp n xs sel = sel @ take (n - length sel) (filter (\<lambda>(h, c). tp = 0 \<or> h \<le> tp) xs)"
proof (induction tp n xs sel rule: chain_select.induct)
  case (2 tp n h c rest sel)
  show ?case
  proof (cases "tp \<noteq> 0 \<and> h > tp")
    case True
    then show ?thesis using 2 by auto
  next
    case False
    then have f: "filter (\<lambda>(h, c). tp = 0 \<or> h \<le> tp) ((h, c) # rest) = (h, c) # filter (\<lambda>(h, c). tp = 0 \<or> h \<le> tp) rest"
      by (auto simp: not_less)
    show ?thesis
    proof (cases "Suc (length sel) = n")
      case True
      then show ?thesis using False f by (auto simp: Let_def)
    next
      case neq: False
      then have l: "length (sel @ [(h, c)]) < n" using 2(3) by simp
      have "n - length sel = Suc (n - length (sel @ [(h, c)]))" using l by simp
      moreover have "chain_select tp n ((h, c) # rest) sel = chain_select tp n rest (sel @ [(h, c)])"
        using False neq by (auto simp: Let_def)
      moreover have "chain_select tp n rest (sel @ [(h, c)]) = (sel @ [(h, c)]) @
          take (n - length (sel @ [(h, c)])) (filter (\<lambda>(h, c). tp = 0 \<or> h \<le> tp) rest)"
        by (rule 2(2) [OF False refl _ l]) (use neq in simp)
      ultimately show ?thesis unfolding f by simp
    qed
  qed
qed simp

end
