(* ===== verification/Quota.thy ===== *)
theory Quota
  imports Server_Facts
begin

text \<open>
  The store quota. \<open>hold_total\<close> is the true size of the hold; \<open>store_bytes\<close> computes it as
  long as it fits a u64, and no request takes it beyond \<open>max_store_bytes\<close>.
\<close>

definition body_weight :: "path \<Rightarrow> path \<Rightarrow> fnode \<Rightarrow> nat" where
  "body_weight dir p f =
     (case entry_name dir p of None \<Rightarrow> 0
      | Some n \<Rightarrow> if path_extension n = Some ''body'' then length (f_data f) else 0)"

definition hold_total :: "path \<Rightarrow> fsys \<Rightarrow> nat" where
  "hold_total dir fs = sum_list (map (\<lambda>(p, f). body_weight dir p f) (fs_files fs))"

section \<open>store_bytes computes the total\<close>

lemma unat_sat_add: "unat (sat_add a b) = min (unat a + unat b) (2 ^ 64 - 1)"
proof -
  have "unat a < 2 ^ 64" "unat b < 2 ^ 64" by (rule unat_u64_less)+
  moreover have "unat (- 1 :: u64) = 2 ^ 64 - 1" by (simp add: unsigned_minus_1_eq_mask mask_eq_exp_minus_1)
  ultimately show ?thesis by (auto simp: sat_add_def unat_word_ariths min_def)
qed

lemma store_bytes_fold:
  fixes t :: u64
  assumes "distinct (map fst m)" "\<And>p f. (p, f) \<in> set m \<Longrightarrow> fs_metadata p fs = Some f"
    "unat t + sum_list (map (\<lambda>(p, f). body_weight dir p f) m) < 2 ^ 64"
  shows "unat (fold (\<lambda>name total.
      if path_extension name = Some ''body'' then
        (case fs_metadata (file_path dir name) fs of None \<Rightarrow> total
         | Some f \<Rightarrow> sat_add total (word_of_nat (length (f_data f))))
      else total) (List.map_filter (\<lambda>(p, f). entry_name dir p) m) t) =
    unat t + sum_list (map (\<lambda>(p, f). body_weight dir p f) m)"
  using assms
proof (induction m arbitrary: t)
  case (Cons e m)
  obtain p f where e: "e = (p, f)" by (cases e)
  show ?case
  proof (cases "entry_name dir p")
    case None
    then show ?thesis using Cons e by (simp add: List.map_filter_simps body_weight_def)
  next
    case (Some n)
    then have p: "p = file_path dir n" by (simp add: entry_name_Some)
    show ?thesis
    proof (cases "path_extension n = Some ''body''")
      case False
      then show ?thesis using Cons e Some by (simp add: List.map_filter_simps body_weight_def)
    next
      case True
      let ?t = "sat_add t (word_of_nat (length (f_data f)))"
      have w: "body_weight dir p f = length (f_data f)" using Some True by (simp add: body_weight_def)
      have md: "fs_metadata (file_path dir n) fs = Some f" using Cons.prems(2) e p by auto
      have "length (f_data f) < 2 ^ 64" using Cons.prems(3) e w by simp
      then have t: "unat ?t = unat t + length (f_data f)"
        using Cons.prems(3) e w by (simp add: unat_sat_add unat_of_len)
      then show ?thesis
        using Cons.IH [of ?t] Cons.prems e Some True md w by (simp add: List.map_filter_simps)
    qed
  qed
qed (simp add: List.map_filter_simps)

definition stat_ok :: "path \<Rightarrow> fsys \<Rightarrow> bool" where
  "stat_ok dir fs \<longleftrightarrow> fs_wf fs \<and> \<not> flt_readdir (fs_faults fs) dir \<and> (\<forall>p. \<not> flt_stat (fs_faults fs) p)"

lemma store_bytes_total:
  assumes "stat_ok dir fs" "hold_total dir fs < 2 ^ 64"
  shows "unat (store_bytes dir fs) = hold_total dir fs"
proof -
  have "fs_metadata p fs = Some f" if "(p, f) \<in> set (fs_files fs)" for p f
    using that assms(1) by (simp add: stat_ok_def fs_metadata_def fs_wf_def)
  then show ?thesis
    using store_bytes_fold [of "fs_files fs" fs 0 dir] assms
    by (simp add: stat_ok_def fs_wf_def store_bytes_def fs_read_dir_def hold_total_def)
qed

section \<open>The total under the file operations\<close>

lemma sum_update_zero:
  "(\<And>v. w k v = (0 :: nat)) \<Longrightarrow>
   sum_list (map (\<lambda>(p, f). w p f) (AList.update k v m)) = sum_list (map (\<lambda>(p, f). w p f) m)"
  by (induction m) auto

lemma sum_delete_zero:
  "(\<And>v. w k v = (0 :: nat)) \<Longrightarrow>
   sum_list (map (\<lambda>(p, f). w p f) (AList.delete k m)) = sum_list (map (\<lambda>(p, f). w p f) m)"
  by (induction m) (auto simp: AList.delete_eq)

lemma sum_update_new:
  "map_of m k = None \<Longrightarrow>
   sum_list (map (\<lambda>(p, f). w p f) (AList.update k v m)) = sum_list (map (\<lambda>(p, f). w p f) m) + (w k v :: nat)"
  by (induction m) (auto split: if_splits)

text \<open>The paths of temporary files and envelopes do not end in \<open>.body\<close>.\<close>

lemma other_weight: "last p \<noteq> CHR ''y'' \<Longrightarrow> body_weight dir p f = 0"
proof (cases "entry_name dir p")
  case (Some n)
  assume l: "last p \<noteq> CHR ''y''"
  have "path_extension n \<noteq> Some ''body''"
  proof
    assume x: "path_extension n = Some ''body''"
    have "n \<noteq> []" using x by (auto simp: path_extension_def)
    then have "last p = CHR ''y''"
      using Some path_extension_last [OF x] by (simp add: entry_name_Some file_path_def)
    then show False using l by simp
  qed
  then show ?thesis using Some by (simp add: body_weight_def)
qed (simp add: body_weight_def)

lemma other_put: "last p \<noteq> CHR ''y'' \<Longrightarrow> hold_total dir (fs_put p d fs) = hold_total dir fs"
  unfolding hold_total_def fs_put_def by (simp add: sum_update_zero [where w = "body_weight dir"] other_weight)

lemma other_remove: "last p \<noteq> CHR ''y'' \<Longrightarrow> hold_total dir (fs_remove p fs) = hold_total dir fs"
  unfolding hold_total_def fs_remove_def by (simp add: sum_delete_zero [where w = "body_weight dir"] other_weight)

lemma other_write:
  "fs_write p d fs = (fs', r) \<Longrightarrow> last p \<noteq> CHR ''y'' \<Longrightarrow> hold_total dir fs' = hold_total dir fs"
  by (auto simp: fs_write_def other_put split: option.splits)

lemma other_rename:
  "fs_rename a b fs = (fs', r) \<Longrightarrow> last a \<noteq> CHR ''y'' \<Longrightarrow> last b \<noteq> CHR ''y'' \<Longrightarrow> hold_total dir fs' = hold_total dir fs"
  unfolding hold_total_def fs_rename_def
  by (auto simp: sum_update_zero [where w = "body_weight dir"] sum_delete_zero [where w = "body_weight dir"] other_weight
      split: option.splits)

lemma tmp_last: "last (tmp_body_path dir c) \<noteq> CHR ''y''"
  by (simp add: tmp_body_path_def)

lemma fenv_last: "last (fenv_path dir c) \<noteq> CHR ''y''" "last (fenv_tmp_path dir c) \<noteq> CHR ''y''"
  by (simp_all add: fenv_path_def fenv_tmp_path_def)

lemmas tmp_weight = other_weight [OF tmp_last]

section \<open>The relay leaves the total alone\<close>

lemma drops_total: "hold_total dir (drops d xs fs) = hold_total dir fs"
  by (induction xs arbitrary: fs) (simp_all add: drop_envelope_def other_remove fenv_last)

lemma persist_total: "persist_envelope d cid raw fs = (fs', r) \<Longrightarrow> hold_total dir fs' = hold_total dir fs"
  by (auto simp: persist_envelope_def Let_def split: prod.splits sum.splits
      dest!: other_write [where dir = dir, OF _ fenv_last(2)] other_rename [where dir = dir, OF _ fenv_last(2) fenv_last(1)])

lemma run_fput_total:
  assumes "run_fput X st req d ip clk fs = (st', fs', r)"
  shows "hold_total dir fs' = hold_total dir fs"
  using assms
proof (cases rule: run_fput_cases)
  case (io lim cid raw e)
  then show ?thesis using persist_total [OF io(3)] by simp
next
  case (queued h0 h rg lim ptr_hex env cid fs1 q1 fs2 q2)
  have "hold_total dir fs2 = hold_total dir fs1"
    using queued(14) by (cases rule: enqueue_cases) (auto simp: drops_total simp del: drops_simps)
  then show ?thesis using queued(15) persist_total [OF queued(13)] by (auto simp: compost_eq drops_total)
qed simp_all

lemma run_fpop_total:
  "run_fpop X st req d ip clk fs = (st', fs', r) \<Longrightarrow> hold_total dir fs' = hold_total dir fs"
  by (erule run_fpop_cases) (simp_all add: drops_total)

lemma handle_verb_total:
  "handle_verb X s req d fab ip clk fs = (s', fab', fs', r) \<Longrightarrow>
   hold_total dir fs' = hold_total dir fs \<and> fs_faults fs' = fs_faults fs \<and> (fs_wf fs \<longrightarrow> fs_wf fs')"
  by (auto simp: handle_verb_def Let_def run_fput_total run_fpop_total run_fput_disk run_fpop_disk
      split: option.splits if_splits prod.splits run.splits)

lemma handle_rpc2_fabric_total:
  "handle_rpc2_fabric X s msg d fab ip clk fs = (s', fab', fs', r) \<Longrightarrow>
   hold_total dir fs' = hold_total dir fs \<and> fs_faults fs' = fs_faults fs \<and> (fs_wf fs \<longrightarrow> fs_wf fs')"
  by (auto simp: handle_rpc2_fabric_def Let_def run_fput_total run_fpop_total run_fput_disk run_fpop_disk
      split: option.splits if_splits prod.splits run.splits)

section \<open>A push adds at most its body\<close>

lemma body_weight_le: "body_weight dir p f \<le> length (f_data f)"
  by (auto simp: body_weight_def split: option.split)

lemma store_body_total:
  assumes run: "store_body X dir body fs = (fs', r)" and wf: "stat_ok dir fs"
  shows "hold_total dir fs' \<le> hold_total dir fs + length body"
proof -
  let ?c = "hex_encode X (sha256 X body)"
  let ?t = "tmp_body_path dir ?c" and ?p = "body_path dir ?c"
  have put: "hold_total dir (fs_put ?t d fs) = hold_total dir fs" for d by (rule other_put [OF tmp_last])
  have rem: "hold_total dir (fs_remove ?t f) = hold_total dir f" for f by (rule other_remove [OF tmp_last])
  show ?thesis
  proof (cases "fs_metadata ?p fs")
    case (Some f)
    then have "fs' = fs" using run by (auto simp: store_body_def Let_def split: if_splits)
    then show ?thesis by simp
  next
    case None
    then have absent: "fs_lookup fs ?p = None" using wf by (simp add: fs_metadata_def stat_ok_def)
    obtain fs1 w where w: "fs_write ?t body fs = (fs1, w)" by (cases "fs_write ?t body fs")
    obtain fs2 n where n: "fs_rename ?t ?p fs1 = (fs2, n)" by (cases "fs_rename ?t ?p fs1")
    have fs1: "fs1 = fs \<or> (\<exists>d. fs1 = fs_put ?t d fs)"
      using w by (auto simp: fs_write_def split: option.splits)
    then have t1: "hold_total dir fs1 = hold_total dir fs" using put by auto
    consider "fs' = fs" | "fs' = fs1" | "fs' = fs_remove ?t fs2" "fs2 = fs1" | "fs' = fs2" "w = Inr ()" "n = Inr ()"
      using run w n fs_rename_err [of ?t ?p fs1]
      by (auto simp: store_body_def Let_def tmp_body_path_def split: if_splits sum.splits option.splits)
    then show ?thesis
    proof cases
      case 4
      have eq: "fs1 = fs_put ?t body fs" using w 4(2) by (auto simp: fs_write_def split: option.splits)
      obtain f where f: "fs_lookup fs1 ?t = Some f" "fs2 = fs1\<lparr>fs_files := AList.update ?p f (AList.delete ?t (fs_files fs1))\<rparr>"
        using n 4(3) by (auto simp: fs_rename_def split: option.splits)
      have "f_data f = body" using f(1) by (auto simp: eq)
      moreover have "map_of (AList.delete ?t (fs_files fs1)) ?p = None"
        using absent by (simp add: delete_conv' eq)
      then have "hold_total dir fs2 = sum_list (map (\<lambda>(p, f). body_weight dir p f) (AList.delete ?t (fs_files fs1))) + body_weight dir ?p f"
        unfolding hold_total_def f(2) by (simp add: sum_update_new [where w = "body_weight dir"])
      moreover have "sum_list (map (\<lambda>(p, f). body_weight dir p f) (AList.delete ?t (fs_files fs1))) = hold_total dir fs1"
        unfolding hold_total_def by (simp add: sum_delete_zero [where w = "body_weight dir"] tmp_weight)
      ultimately show ?thesis using 4(1) t1 body_weight_le [of dir ?p f] by simp
    qed (use t1 rem in simp_all)
  qed
qed

section \<open>No request exceeds the quota\<close>

lemma rpc2_putobject_quota:
  assumes run: "rpc2_putobject X s msg dir ip cfg now nd = (s', nd', r)" and wf: "stat_ok dir (nd_fs nd)"
    and q: "sc_max_store_bytes cfg \<noteq> 0" "sc_max_store_bytes cfg \<noteq> - 1" and lt: "hold_total dir (nd_fs nd) < 2 ^ 64"
  shows "hold_total dir (nd_fs nd') \<le> max (hold_total dir (nd_fs nd)) (unat (sc_max_store_bytes cfg))"
  using run
proof (cases rule: rpc2_putobject_cases)
  case (stored body lim fs1 res)
  show ?thesis
  proof (cases "nd_fs nd' = nd_fs nd")
    case False
    then have len: "length body \<le> MAX_BODY_BYTES" using stored(5,6)
      by (auto simp: store_body_def split: if_splits)
    then have "unat (word_of_nat (length body) :: u64) = length body"
      by (intro unat_of_len) (simp add: MAX_BODY_BYTES_def)
    moreover have "sat_add (store_bytes dir (nd_fs nd)) (word_of_nat (length body)) \<le> sc_max_store_bytes cfg"
      using enforce_write_policy_Ok(3) [OF stored(2) q(1)] .
    ultimately have "min (hold_total dir (nd_fs nd) + length body) (2 ^ 64 - 1) \<le> unat (sc_max_store_bytes cfg)"
      using store_bytes_total [OF wf lt] by (simp add: word_le_nat_alt unat_sat_add)
    moreover have "unat (sc_max_store_bytes cfg) < 2 ^ 64 - 1"
    proof -
      have "unat (sc_max_store_bytes cfg) \<noteq> unat (- 1 :: u64)" using q(2) word_unat_eq_iff by blast
      then show ?thesis using unat_u64_less [of "sc_max_store_bytes cfg"]
        by (simp add: unsigned_minus_1_eq_mask mask_eq_exp_minus_1)
    qed
    ultimately have "hold_total dir (nd_fs nd) + length body \<le> unat (sc_max_store_bytes cfg)" by simp
    then show ?thesis using store_body_total [OF stored(5) wf] stored(6) by simp
  qed simp
qed simp

lemma serve_frame_quota:
  assumes run: "serve_frame X s body dir ip cfg clk nd = (s', nd', r)" and "stat_ok dir (nd_fs nd)"
    "sc_max_store_bytes cfg \<noteq> 0" "sc_max_store_bytes cfg \<noteq> - 1" "hold_total dir (nd_fs nd) < 2 ^ 64"
  shows "hold_total dir (nd_fs nd') \<le> max (hold_total dir (nd_fs nd)) (unat (sc_max_store_bytes cfg))"
  using run
proof (cases rule: serve_frame_node)
  case (verb req fab fs)
  then show ?thesis using handle_verb_total [OF verb(1)] by simp
next
  case (fabric msg fab fs)
  then show ?thesis using handle_rpc2_fabric_total [OF fabric(1)] by simp
next
  case (put msg)
  from rpc2_putobject_quota [OF put(2) assms(2-5)] show ?thesis .
qed simp

lemma serve_frame_stat_ok:
  assumes run: "serve_frame X s body dir ip cfg clk nd = (s', nd', r)" and ok: "stat_ok dir (nd_fs nd)"
  shows "stat_ok dir (nd_fs nd')"
  using run
proof (cases rule: serve_frame_node)
  case (verb req fab fs)
  then show ?thesis using handle_verb_total [OF verb(1), of dir] ok by (simp add: stat_ok_def)
next
  case (fabric msg fab fs)
  then show ?thesis using handle_rpc2_fabric_total [OF fabric(1), of dir] ok by (simp add: stat_ok_def)
next
  case (put msg)
  from put(2) show ?thesis
  proof (cases rule: rpc2_putobject_cases)
    case (stored b lim fs1 res)
    then show ?thesis using ok frames_keep_faults [OF stored(5)] store_body_wf [OF stored(5)] by (simp add: stat_ok_def)
  qed (use ok in simp)
qed (use ok in simp)

end
