(* ===== verification/Daemon.thy ===== *)
theory Daemon
  imports Server_Facts
begin

text \<open>
  The daemon around the connection handlers: the pidfile, the signal handlers, the polling
  accept loop of \<open>serve\<close> with its bounded drain, and the node as the connection threads see it together
  (\<open>node_step\<close>: any thread's next request, one request at a time).
\<close>

section \<open>The pidfile\<close>

text \<open>
  \<open>Path::parent\<close> of a path without \<open>.\<close> components: what is before the last slash,
  \<open>/\<close> for a file directly below the root, empty for a bare name.
\<close>

definition strip_slashes :: "path \<Rightarrow> path" where
  "strip_slashes p = rev (dropWhile (\<lambda>c. c = CHR ''/'') (rev p))"

definition path_parent :: "path \<Rightarrow> path option" where
  "path_parent p =
     (let q = strip_slashes p;
          pre = rev (dropWhile (\<lambda>c. c \<noteq> CHR ''/'') (rev q)) in
      if q = [] then None
      else if pre = [] then Some []
      else if strip_slashes pre = [] then Some ''/''
      else Some (strip_slashes pre))"

text \<open>\<open>dbg\<close> is the Debug rendering of a path in the error message, \<open>pid\<close> the process id.\<close>

definition write_pidfile :: "(path \<Rightarrow> string) \<Rightarrow> nat \<Rightarrow> path \<Rightarrow> fsys \<Rightarrow> fsys \<times> (string + unit)" where
  "write_pidfile dbg pid path fs =
     (case (case path_parent path of
              Some parent \<Rightarrow> if parent \<noteq> [] then
                  (case fs_create_dir_all parent fs of
                     Inl e \<Rightarrow> Inl (''pidfile dir '' @ dbg parent @ '': '' @ e) | Inr _ \<Rightarrow> Inr ())
                else Inr ()
            | None \<Rightarrow> Inr ()) of
        Inl e \<Rightarrow> (fs, Inl e)
      | Inr _ \<Rightarrow>
          let tmp = path @ ''.tmp'' in
          (case fs_write tmp (str_bytes (dec_digits pid @ [CHR 0x0A])) fs of
             (fs, Inl e) \<Rightarrow> (fs, Inl (''pidfile '' @ path @ '': '' @ e))
           | (fs, Inr _) \<Rightarrow>
               (case fs_rename tmp path fs of
                  (fs, Inl e) \<Rightarrow> (fs, Inl (''pidfile rename '' @ path @ '': '' @ e))
                | (fs, Inr _) \<Rightarrow> (fs, Inr ()))))"

section \<open>The shutdown handler\<close>

text \<open>
  The platform: on Unix what the call of libc's \<open>signal\<close> returns for each signal, on Windows
  what \<open>SetConsoleCtrlHandler\<close> returns. \<open>err\<close> is the text of the last system error. The result
  is what the delivery of each signal (on Windows: console event) makes of the flag
  \<open>SHUTDOWN\<close>, and the verdict; \<open>None\<close> stands for the default action.
\<close>

text \<open>Both handlers store true, whatever the signal or event; the second answers "handled".\<close>

definition on_shutdown_signal :: "nat \<Rightarrow> bool \<Rightarrow> bool" where
  "on_shutdown_signal sig flag = True"

definition on_console_ctrl :: "nat \<Rightarrow> bool \<Rightarrow> bool \<times> int" where
  "on_console_ctrl event flag = (True, 1)"

type_synonym disposition = "nat \<Rightarrow> bool \<Rightarrow> bool option"

datatype platform = Unix "nat \<Rightarrow> u64" | Windows int

definition SIGINT :: nat where
  "SIGINT = 2"

definition SIGTERM :: nat where
  "SIGTERM = 15"

fun install_signals :: "(nat \<Rightarrow> u64) \<Rightarrow> string \<Rightarrow> nat list \<Rightarrow> nat list \<times> (string + unit)" where
  "install_signals signal err [] = ([], Inr ())"
| "install_signals signal err (sig # rest) =
     (if signal sig = - 1 then ([], Inl (''signal('' @ dec_digits sig @ '') failed: '' @ err))
      else (case install_signals signal err rest of (done1, r) \<Rightarrow> (sig # done1, r)))"

definition install_shutdown_handler :: "platform \<Rightarrow> string \<Rightarrow> disposition \<times> (string + unit)" where
  "install_shutdown_handler pf err =
     (case pf of
        Unix signal \<Rightarrow>
          (case install_signals signal err [SIGTERM, SIGINT] of (done1, r) \<Rightarrow>
            (\<lambda>sig flag. if sig \<in> set done1 then Some (on_shutdown_signal sig flag) else None, r))
      | Windows ok \<Rightarrow>
          if ok = 0 then (\<lambda>_ _. None, Inl (''SetConsoleCtrlHandler failed: '' @ err))
          else (\<lambda>event flag. case on_console_ctrl event flag of (flag, rc) \<Rightarrow>
                  if rc \<noteq> 0 then Some flag else None, Inr ()))"

text \<open>
  Delivery of signals: a handled one changes the flag as its handler says, any other ends the
  process by its default action (\<open>Inl\<close>).
\<close>

fun deliver :: "disposition \<Rightarrow> nat list \<Rightarrow> bool \<Rightarrow> nat + bool" where
  "deliver handler [] flag = Inr flag"
| "deliver handler (sig # rest) flag =
     (case handler sig flag of Some flag \<Rightarrow> deliver handler rest flag | None \<Rightarrow> Inl sig)"

section \<open>The accept loop\<close>

text \<open>
  One turn of the loop: the signals that arrived since the turn before, and what \<open>accept\<close>
  returned. The result is the signal that killed the process, or the in-flight counter and
  the connections handed to threads; \<open>None\<close> means that the loop is still running.
\<close>

datatype 'c accepted = Conn 'c | BlockingFailed 'c | WouldBlock | AcceptError

fun accept_loop :: "disposition \<Rightarrow> (nat list \<times> 'c accepted) list \<Rightarrow> bool \<Rightarrow> nat \<Rightarrow> 'c list \<Rightarrow>
    (nat + nat \<times> 'c list) option" where
  "accept_loop handler [] flag in_flight spawned = None"
| "accept_loop handler ((sigs, a) # turns) flag in_flight spawned =
     (case deliver handler sigs flag of
        Inl sig \<Rightarrow> Some (Inl sig)
      | Inr flag \<Rightarrow>
          if flag then Some (Inr (in_flight, spawned))
          else
            (case a of
               Conn c \<Rightarrow> accept_loop handler turns flag (in_flight + 1) (spawned @ [c])
             | BlockingFailed c \<Rightarrow> accept_loop handler turns flag in_flight spawned
             | WouldBlock \<Rightarrow> accept_loop handler turns flag in_flight spawned
             | AcceptError \<Rightarrow> accept_loop handler turns flag in_flight spawned))"

definition SHUTDOWN_DRAIN_SECS :: nat where
  "SHUTDOWN_DRAIN_SECS = 5"

text \<open>
  The drain: it polls every 100 ms while \<open>in_flight > 0\<close> and the deadline is ahead.
  \<open>now i\<close> is the time in milliseconds at the \<open>i\<close>-th poll; the result is the number of polls.
  Nothing in the loop or in the threads lowers \<open>in_flight\<close>.
\<close>

partial_function (option) drain_wait :: "(nat \<Rightarrow> nat) \<Rightarrow> nat \<Rightarrow> nat \<Rightarrow> nat \<Rightarrow> nat option" where
  "drain_wait now deadline in_flight i =
     (if in_flight > 0 \<and> now i < deadline then drain_wait now deadline in_flight (i + 1) else Some i)"

text \<open>
  \<open>serve\<close>: a handler that cannot be installed is only logged; bind, \<open>local_addr\<close> and
  \<open>set_nonblocking\<close> may fail (\<open>setup\<close>); otherwise the accept loop runs until the flag is seen,
  then the drain. \<open>start\<close> is the time when the loop was left.
\<close>

datatype 'c serve_end = Killed nat | Failed string | Drained "'c list" nat

definition serve :: "platform \<Rightarrow> string \<Rightarrow> string + unit \<Rightarrow> (nat list \<times> 'c accepted) list \<Rightarrow> nat \<Rightarrow> (nat \<Rightarrow> nat) \<Rightarrow>
    'c serve_end option" where
  "serve pf err setup turns start now =
     (let handler = fst (install_shutdown_handler pf err) in
      case setup of Inl e \<Rightarrow> Some (Failed e)
      | Inr _ \<Rightarrow>
          (case accept_loop handler turns False 0 [] of None \<Rightarrow> None
           | Some (Inl sig) \<Rightarrow> Some (Killed sig)
           | Some (Inr (in_flight, spawned)) \<Rightarrow>
               map_option (Drained spawned) (drain_wait now (start + 1000 * SHUTDOWN_DRAIN_SECS) in_flight 0)))"

section \<open>The node under all its threads\<close>

text \<open>
  The requests the threads serve, in the order they take effect: each is the stream of its
  connection, the frame, the remote address and the clock. A panic ends the connection's
  thread, not the process.
\<close>

type_synonym 'p request = "'p stream \<times> bytes \<times> string \<times> clock"

fun serve_requests :: "ext \<Rightarrow> path \<Rightarrow> serve_config \<Rightarrow> 'p request list \<Rightarrow> node \<Rightarrow> node" where
  "serve_requests X dir cfg [] nd = nd"
| "serve_requests X dir cfg ((s, body, ip, clk) # rest) nd =
     (case serve_frame X s body dir ip cfg clk nd of
        (_, nd, _) \<Rightarrow> serve_requests X dir cfg rest nd)"

text \<open>
  Each step is one request of one connection, served from beginning to end; requests of
  different connections come in any order. Between requests the process may be restarted, and
  the disk may begin or cease to refuse calls (for the relay within \<open>disk_ok\<close>).
\<close>

inductive node_step :: "ext \<Rightarrow> path \<Rightarrow> serve_config \<Rightarrow> node \<Rightarrow> node \<Rightarrow> bool" for X dir cfg where
  request: "serve_frame X (s :: unit stream) body dir ip cfg clk nd = (s', nd', r) \<Longrightarrow>
    collision_free X dir body clk (nd_fs nd) \<Longrightarrow> node_step X dir cfg nd nd'"
| restart: "nd_fabric nd = Some st \<Longrightarrow> fabric_open X dir (fab_cfg st) clk (nd_fs nd) = (fs', st') \<Longrightarrow>
    node_step X dir cfg nd (nd\<lparr>nd_fs := fs', nd_limiter := rl_new (sc_put_rate cfg), nd_fabric := Some st'\<rparr>)"
| disk: "fs_files fs' = fs_files (nd_fs nd) \<Longrightarrow> nd_fabric nd \<noteq> None \<longrightarrow> disk_ok dir fs' \<Longrightarrow>
    node_step X dir cfg nd (nd\<lparr>nd_fs := fs'\<rparr>)"

inductive_cases node_stepE: "node_step X dir cfg nd nd'"

lemma node_step_ok:
  "hex_law X \<Longrightarrow> sha_law X \<Longrightarrow> node_step X dir cfg nd nd' \<Longrightarrow> node_ok X dir nd \<Longrightarrow> node_ok X dir nd'"
  by (erule node_stepE) (auto intro: serve_frame_node_ok restart_node_ok disk_node_ok)

interpretation node_system: invariant_system "node_step X dir cfg" "\<lambda>nd. hex_law X \<and> sha_law X \<and> node_ok X dir nd" for X dir cfg
  by unfold_locales (auto intro: node_step_ok)

section \<open>The accept loop and the drain\<close>

abbreviation conns_of :: "(nat list \<times> 'c accepted) list \<Rightarrow> 'c list" where
  "conns_of turns \<equiv> List.map_filter (\<lambda>(_, a). case a of Conn c \<Rightarrow> Some c | _ \<Rightarrow> None) turns"

definition stops :: "disposition \<Rightarrow> nat \<Rightarrow> bool" where
  "stops handler sig \<longleftrightarrow> (\<forall>flag. handler sig flag = Some True)"

lemma stopsD: "stops handler sig \<Longrightarrow> handler sig flag = Some True"
  by (simp add: stops_def)

text \<open>Signals that are all handled set the flag, the first that is not kills.\<close>

lemma deliver_handled: "list_all (stops handler) sigs \<Longrightarrow> deliver handler sigs flag = Inr (flag \<or> sigs \<noteq> [])"
  by (induction sigs arbitrary: flag) (auto simp: stops_def)

lemma deliver_killed: "deliver handler sigs flag = Inl sig \<Longrightarrow> sig \<in> set sigs \<and> \<not> stops handler sig"
  proof (induction sigs arbitrary: flag)
  case (Cons s sigs)
  then show ?case using stopsD [of handler s flag] by (auto split: option.splits)
qed simp

lemma accept_loop_turns:
  "list_all (\<lambda>t. list_all (stops handler) (fst t)) turns \<Longrightarrow>
   accept_loop handler turns False n spawned =
     (if \<exists>t\<in>set turns. fst t \<noteq> [] then
        (let conns = conns_of (takeWhile (\<lambda>t. fst t = []) turns) in Some (Inr (n + length conns, spawned @ conns)))
      else None)"
proof (induction turns arbitrary: n spawned)
  case (Cons t turns)
  obtain sigs a where t: "t = (sigs, a)" by (cases t)
  then have "deliver handler sigs False = Inr (sigs \<noteq> [])" using Cons.prems deliver_handled [of handler sigs False] by simp
  then show ?case using Cons.IH Cons.prems t
    by (cases a) (auto simp: Let_def List.map_filter_simps)
qed simp

lemma accept_loop_killed:
  "accept_loop handler turns flag n spawned = Some (Inl sig) \<Longrightarrow> \<exists>t\<in>set turns. sig \<in> set (fst t) \<and> \<not> stops handler sig"
proof (induction handler turns flag n spawned rule: accept_loop.induct)
  case (2 handler sigs a turns flag n spawned)
  then show ?case by (auto split: sum.splits if_splits accepted.splits dest: deliver_killed)
qed simp

text \<open>The signals and events a successful installation covers.\<close>

definition stop_signals :: "platform \<Rightarrow> nat set" where
  "stop_signals pf = (case pf of Unix _ \<Rightarrow> {SIGTERM, SIGINT} | Windows _ \<Rightarrow> UNIV)"

lemma install_stops:
  "install_shutdown_handler pf err = (handler, Inr u) \<Longrightarrow> sig \<in> stop_signals pf \<Longrightarrow> stops handler sig"
  by (cases pf)
    (auto simp: install_shutdown_handler_def stop_signals_def stops_def on_shutdown_signal_def on_console_ctrl_def
      split: if_splits)

lemma drain_wait_ends:
  assumes "now k \<ge> deadline" "i \<le> k"
  shows "\<exists>p. drain_wait now deadline n i = Some p"
  using assms(2)
proof (induction "k - i" arbitrary: i)
  case 0
  then have "i = k" by simp
  then show ?case using assms(1) by (subst drain_wait.simps) simp
next
  case (Suc d)
  show ?case
  proof (cases "n > 0 \<and> now i < deadline")
    case True
    then show ?thesis using Suc by (subst drain_wait.simps) simp
  next
    case False
    then show ?thesis by (subst drain_wait.simps) auto
  qed
qed

lemma drain_wait_late:
  assumes "drain_wait now deadline n i = Some p" "n > 0"
  shows "deadline \<le> now p"
proof -
  have "n > 0 \<longrightarrow> deadline \<le> now p" 
    using assms(1)
  proof (rule drain_wait.raw_induct [of "\<lambda>now deadline n i p. n > 0 \<longrightarrow> deadline \<le> now p", rotated])
    fix rec and now :: "nat \<Rightarrow> nat" and deadline n i p
    assume "\<And>now deadline n i p. rec now deadline n i = Some p \<Longrightarrow> n > 0 \<longrightarrow> deadline \<le> now p"
      "(if 0 < n \<and> now i < deadline then rec now deadline n (i + 1) else Some i) = Some p"
    then show "n > 0 \<longrightarrow> deadline \<le> now p" by (auto split: if_splits)
  qed
  then show ?thesis using assms(2) by simp
qed

lemma drain_wait_idle: "drain_wait now deadline 0 i = Some i"
  by (subst drain_wait.simps) simp

end
