(* ===== verification/Server_Props.thy ===== *)
theory Server_Props
  imports Quota Daemon Store_Props Relay_Props Wire_Sizes
begin

text \<open>
  The properties of the serving node: its invariant over the requests of all connections,
  what one request answers and what a panic leaves, the end of a connection, the store quota
  and the push and chain methods.
\<close>

section \<open>A node\<close>

definition demo_serve :: serve_config where
  "demo_serve = \<lparr> sc_max_store_bytes = 2, sc_put_rate = 0, sc_token = None \<rparr>"

definition store_node :: node where
  "store_node = \<lparr> nd_fs = body_fs, nd_limiter = rl_new 1, nd_fabric = None \<rparr>"

definition one_frame :: "bytes \<Rightarrow> unit stream" where
  "one_frame p = \<lparr> s_in = frame_bytes p, s_out = [], s_broken = False, s_peer = (), s_react = (\<lambda>p b. (p, [])) \<rparr>"

lemma triple: "x = (fst x, fst (snd x), snd (snd x))"
  by simp

lemma store_node_ok: "node_ok demo_ext ''d'' store_node"
  using body_fs_ok by (simp add: node_ok_def store_node_def)

section \<open>All requests of all connections\<close>

text \<open>
  C1. Invariant of a serving node: whatever frames arrive on whatever connections, in any
  order, with panics, restarts and calls that the disk refuses, every body in the store keeps
  matching its name, and the relay, when enabled, stays consistent with its files. With a relay,
  what the disk refuses is creating, writing and renaming files, and no envelope that is
  written gets, by its digest, the name of a different file of the directory.
\<close>

theorem node_invariant:
  assumes "hex_law X" "sha_law X" "(node_step X dir cfg)\<^sup>*\<^sup>* nd nd'" "node_ok X dir nd"
  shows "hold_ok X dir (nd_fs nd') \<and>
    (case nd_fabric nd' of None \<Rightarrow> True | Some st \<Rightarrow> relay_ok X dir (st, nd_fs nd'))"
  using node_system.reach_ok [OF assms(3)] assms by (simp add: node_ok_def)

text \<open>
  A node that has a queued pointer with its file gets a second pointer for the same handle,
  over rpc2.
\<close>

definition queued_node :: node where
  "queued_node = \<lparr> nd_fs = demo_fs1, nd_limiter = rl_new 1, nd_fabric = Some demo_fab1 \<rparr>"

definition fput_frame :: bytes where
  "fput_frame = cbor_message ''Peer.FabricPut'' 7 [] (json_to_cbor fput_req2)"

lemma fput_frame_decodes: "decode_message demo_ext fput_frame =
    Ret (Some \<lparr>rm_method = ''Peer.FabricPut'', rm_seq = 7, rm_error = [], rm_payload = fput_req2\<rparr>)"
proof -
  have len: "length (hexs demo_pointer2) = 148" "length demo_key = 64"
    using demo_pointer2_facts(1) demo_key_ok(2) by simp_all
  have w: "wire_ok fput_req2" "json_height fput_req2 = 1" "cbor_image fput_req2 = fput_req2"
    using len by (simp_all add: fput_req2_def demo_key_def obj_of_def literal_valid valid_str_ascii)
  have "length (json_to_cbor fput_req2) \<le> 400"
    using len length_text_le [of "''handle''"] length_text_le [of demo_key] length_text_le [of "''pointer_hex''"]
      length_text_le [of "hexs demo_pointer2"] length_map_le(1) [of "Suc (Suc 0)"]
    by (simp add: fput_req2_def cbor_kv_def del: small_counts)
  from message_decodes(2) [OF _ _ _ json_to_cbor_decodes [OF w(1)], of "''Peer.FabricPut''" "[]" demo_ext 7] this w
  show ?thesis by (simp add: fput_frame_def literal_valid MAX_FRAME_def MAX_DEPTH_def)
qed

lemma queued_node_ok: "node_ok demo_ext ''d'' queued_node"
proof -
  have "hold_ok demo_ext ''d'' demo_fs1"
    by (rule hold_okI) (simp add: demo_fs1_def split: if_splits)
  then show ?thesis using demo_relay1_ok by (simp add: node_ok_def queued_node_def)
qed

theorem node_invariant_witness:
  "hold_ok demo_ext ''d'' (nd_fs (fst (snd (serve_frame demo_ext (one_frame []) fput_frame ''d'' ''ip'' demo_serve (\<lambda>_. 1000) queued_node)))) \<and>
    (case nd_fabric (fst (snd (serve_frame demo_ext (one_frame []) fput_frame ''d'' ''ip'' demo_serve (\<lambda>_. 1000) queued_node))) of
       None \<Rightarrow> True
     | Some st \<Rightarrow> relay_ok demo_ext ''d'' (st, nd_fs (fst (snd (serve_frame demo_ext (one_frame []) fput_frame ''d'' ''ip'' demo_serve (\<lambda>_. 1000) queued_node)))))"
proof (rule node_invariant [OF hex_law_demo sha_law_demo _ queued_node_ok, of demo_serve])
  let ?r = "serve_frame demo_ext (one_frame []) fput_frame ''d'' ''ip'' demo_serve (\<lambda>_. 1000) queued_node"
  have "collision_free demo_ext ''d'' fput_frame (\<lambda>_. 1000) (nd_fs queued_node)"
    using demo_no_collision2 [of 1000]
    by (simp add: collision_free_def frame_fput_def fput_frame_decodes queued_node_def del: demo_ext_simps)
  from node_step.request [OF triple this]
  show "(node_step demo_ext ''d'' demo_serve)\<^sup>*\<^sup>* queued_node (fst (snd ?r))" by blast
qed

section \<open>One request\<close>

lemma handle_verb_panic:
  assumes "handle_verb X s req dir fab ip clk fs = (s', fab', fs', Panic)"
  shows "\<exists>st st'. fab = Some st \<and> run_fput X st req dir ip clk fs = (st', fs', Panic)"
  using assms by (auto simp: handle_verb_def Let_def split: option.splits if_splits prod.splits run.splits)

lemma handle_rpc2_fabric_panic:
  assumes "handle_rpc2_fabric X s msg dir fab ip clk fs = (s', fab', fs', Panic)"
  shows "\<exists>st st'. fab = Some st \<and> run_fput X st (rm_payload msg) dir ip clk fs = (st', fs', Panic)"
  using assms by (auto simp: handle_rpc2_fabric_def Let_def split: option.splits if_splits prod.splits run.splits)

lemma panic_keeps_node:
  assumes "hex_law X" "node_ok X dir nd" "serve_frame X s body dir ip cfg clk nd = (s', nd', Panic)"
  shows "nd_fs nd' = nd_fs nd \<and> nd_fabric nd' = nd_fabric nd"
  using assms(3)
proof (cases rule: serve_frame_node)
  case (verb req fab fs)
  from handle_verb_panic [OF verb(1)] obtain st st' where "nd_fabric nd = Some st"
    "run_fput X st req dir ip clk (nd_fs nd) = (st', fs, Panic)" by blast
  then show ?thesis using assms(2) run_fput_no_panic [of X st] by (simp add: node_ok_def relay_ok_def) blast
next
  case (fabric msg fab fs)
  from handle_rpc2_fabric_panic [OF fabric(1)] obtain st st' where "nd_fabric nd = Some st"
    "run_fput X st (rm_payload msg) dir ip clk (nd_fs nd) = (st', fs, Panic)" by blast
  then show ?thesis using assms(2) run_fput_no_panic [of X st] by (simp add: node_ok_def relay_ok_def) blast
next
  case (put msg)
  from put(2) show ?thesis
  proof (cases rule: rpc2_putobject_cases)
    case (stored pushed lim fs1 res)
    then show ?thesis using assms(1) by (cases res) auto
  qed simp
qed simp

text \<open>
  C33. Every request frame gets exactly one answer frame, whatever it contains, unless it
  panics. A panic harms nothing but its own connection: nothing is written, and on a node in
  its invariant the disk and the relay are as before the request (no half-finished push, no
  lost pointer).
\<close>

theorem panic_leaves_node:
  assumes "hex_law X" "node_ok X dir nd" "serve_frame X s body dir ip cfg clk nd = (s', nd', r)"
  shows "if r = Panic then s' = s \<and> nd_fs nd' = nd_fs nd \<and> nd_fabric nd' = nd_fabric nd
    else \<exists>b. s' = fst (write_frame s b)"
proof (cases "r = Panic")
  case True
  with panic_keeps_node [OF assms(1,2)] assms(3) show ?thesis
    using serve_frame_answers [OF assms(3)] by (simp add: answers_def)
next
  case False
  then show ?thesis using serve_frame_answers [OF assms(3)] by (simp add: answers_def)
qed

definition bad_ext :: ext where
  "bad_ext = demo_ext\<lparr>json_from_slice := \<lambda>_. Some (Object [(''cid'', String (bytes_str [0x61, 0xC3, 0xA9, 0x62]))])\<rparr>"

theorem panic_leaves_node_witness:
  "\<exists>s' nd'. serve_frame bad_ext (one_frame []) [0x7b] ''d'' ''ip'' demo_serve (\<lambda>_. 1000) store_node = (s', nd', Panic) \<and>
     nd_fs nd' = nd_fs store_node \<and> nd_fabric nd' = nd_fabric store_node"
proof -
  have p: "hex_decode (bytes_str [0x61, 0xC3, 0xA9, 0x62]) = Panic" by code_simp
  have r: "serve_frame bad_ext (one_frame []) [0x7b] ''d'' ''ip'' demo_serve (\<lambda>_. 1000) store_node = (one_frame [], store_node, Panic)"
    by (simp add: serve_frame_json serve_json_def bad_ext_def serve_body_def p)
  have law: "hex_law bad_ext" using hex_law_demo by (simp add: hex_law_def bad_ext_def)
  have "node_ok bad_ext ''d'' store_node"
    using store_node_ok by (simp add: node_ok_def store_node_def hold_ok_def bad_ext_def)
  from panic_leaves_node [OF law this r] r show ?thesis by blast
qed

section \<open>One connection\<close>

text \<open>
  C34. The connection loop ends when the remote side sends nothing more, whatever it had
  sent, and the store is intact when it does.
\<close>

theorem connection_ends:
  assumes "hex_law X" "silent s" "hold_ok X dir (nd_fs nd)"
  shows "\<exists>s' nd' r. handle_client X s dir ip cfg clks 0 nd = Some (s', nd', r) \<and> hold_ok X dir (nd_fs nd')"
proof -
  obtain res where "handle_client X s dir ip cfg clks 0 nd = Some res"
    using handle_client_terminates [OF assms(2)] by blast
  then show ?thesis using handle_client_hold_ok [OF assms(1) _ assms(3)] by (cases res) fastforce
qed

theorem connection_ends_witness:
  "\<exists>s' nd' r. handle_client demo_ext (one_frame [1, 2, 3]) ''d'' ''ip'' demo_serve (\<lambda>_ _. 1000) 0 store_node = Some (s', nd', r) \<and>
    hold_ok demo_ext ''d'' (nd_fs nd')"
  by (rule connection_ends [OF hex_law_demo]) (simp_all add: silent_def one_frame_def store_node_def body_fs_ok)

section \<open>Pushes\<close>

text \<open>
  C21. A push changes the store only when the limiter grants it, the request carries the
  configured token (when there is one), the store with this body stays within the cap (when
  there is one) and the body's hash is the announced id, and then only as \<open>store_body\<close> does;
  it never touches the relay.
\<close>

theorem push_only_verified:
  "case rpc2_putobject X s msg dir ip cfg now nd of (s', nd', r) \<Rightarrow>
     nd_fabric nd' = nd_fabric nd \<and>
     (nd_fs nd' = nd_fs nd \<or>
      (\<exists>body. hex_crate_decode X (str_or (get_str (rm_payload msg) ''BODY'') []) = Inr body \<and>
         hex_decode (str_or (get_str (rm_payload msg) ''BLID'') []) = Ret (Some (sha256 X body)) \<and>
         rl_allow (nd_limiter nd) ip now = (nd_limiter nd', True) \<and>
         sc_token cfg \<in> {None, Some (str_or (get_str (rm_payload msg) ''TOKEN'') [])} \<and>
         (sc_max_store_bytes cfg = 0 \<or>
          min (unat (store_bytes dir (nd_fs nd)) + unat (word_of_nat (length body) :: u64)) (2 ^ 64 - 1)
            \<le> unat (sc_max_store_bytes cfg)) \<and>
         nd_fs nd' = fst (store_body X dir body (nd_fs nd))))"
proof (cases "rpc2_putobject X s msg dir ip cfg now nd")
  case (fields s' nd' r)
  from fields show ?thesis
  proof (cases rule: rpc2_putobject_cases)
    case (stored body lim fs1 res)
    have "rl_allow (nd_limiter nd) ip now = (lim, True)"
      "sc_token cfg \<in> {None, Some (str_or (get_str (rm_payload msg) ''TOKEN'') [])}"
      "sc_max_store_bytes cfg = 0 \<or> min (unat (store_bytes dir (nd_fs nd)) + unat (word_of_nat (length body) :: u64)) (2 ^ 64 - 1)
            \<le> unat (sc_max_store_bytes cfg)"
      using stored(2) unfolding write_gate
      by (cases "rl_allow (nd_limiter nd) ip now"; force split: if_splits)+
    with stored fields show ?thesis by auto
  qed (use fields in simp)
qed

text \<open>
  C20. The quota holds for requests served one after another, of every kind and in any number:
  with a cap (below the largest u64, which the saturating sum cannot exceed) and a readable
  store of less than 2^64 bytes, the bodies' total size ends at most at the cap, or where it was if it was beyond
  already. Requests served at the same time are not covered: \<open>quota_race\<close> is two pushes that
  exceed the cap together.
\<close>

theorem push_quota:
  assumes "stat_ok dir (nd_fs nd)" "sc_max_store_bytes cfg \<noteq> 0" "sc_max_store_bytes cfg \<noteq> - 1"
    "hold_total dir (nd_fs nd) < 2 ^ 64"
  shows "hold_total dir (nd_fs (serve_requests X dir cfg reqs nd)) \<le>
    max (hold_total dir (nd_fs nd)) (unat (sc_max_store_bytes cfg))"
  using assms(1,4)
proof (induction reqs arbitrary: nd)
  case (Cons q reqs)
  obtain s body ip clk where q: "q = (s, body, ip, clk)" by (cases q)
  obtain s' nd' r where run: "serve_frame X s body dir ip cfg clk nd = (s', nd', r)" by (rule prod_cases3)
  have t: "hold_total dir (nd_fs nd') \<le> max (hold_total dir (nd_fs nd)) (unat (sc_max_store_bytes cfg))"
    by (rule serve_frame_quota [OF run Cons.prems(1) assms(2,3) Cons.prems(2)])
  then have "hold_total dir (nd_fs nd') < 2 ^ 64"
    using Cons.prems(2) unat_u64_less [of "sc_max_store_bytes cfg"] by simp
  from Cons.IH [OF serve_frame_stat_ok [OF run Cons.prems(1)] this] t show ?case
    by (simp add: q run)
qed simp

lemma path_extension_body: "h \<noteq> [] \<Longrightarrow> path_extension (h @ ''.body'') = Some ''body''"
  by (simp add: path_extension_def)

lemma store_node_total: "hold_total ''d'' (nd_fs store_node) = 2" "stat_ok ''d'' (nd_fs store_node)"
proof -
  have nonempty: "demo_cid \<noteq> []" using hex_decode_Some [OF demo_cid_decode] by auto
  have "entry_name ''d'' (body_path ''d'' demo_cid) = Some (demo_cid @ ''.body'')"
    using hex_decode_no_slash(1) [OF demo_cid_decode] by (simp add: entry_name_Some body_path_file_path)
  then show "hold_total ''d'' (nd_fs store_node) = 2"
    using path_extension_body [OF nonempty]
    by (simp add: hold_total_def store_node_def body_fs_def body_weight_def demo_body_def)
qed (simp add: stat_ok_def store_node_def body_fs_def no_faults_def fs_wf_def)

theorem push_quota_witness:
  "hold_total ''d'' (nd_fs (serve_requests demo_ext ''d'' demo_serve
     [(one_frame [], cbor_message ''Peer.PutObject'' 7 [] (putobject_request (sha256 demo_ext [9]) [9] []), ''ip'', \<lambda>_. 5)]
     store_node)) \<le> max (hold_total ''d'' (nd_fs store_node)) (unat (sc_max_store_bytes demo_serve))"
  by (rule push_quota [OF store_node_total(2)]) (simp_all add: demo_serve_def store_node_total(1))

section \<open>The chain method\<close>

text \<open>
  C35. Peer.Chain answers with the newest entries first, those above \<open>TOP\<close> left out, at most
  \<open>N\<close> of them and never more than 5000; asked for \<open>N = 0\<close> it sends all of them instead,
  because the selection tests the count only after adding an entry.
\<close>

theorem chain_answer:
  assumes "chain_view dir fs = Ret chain"
    "tp = u64_or (get_u64 (rm_payload msg) ''TOP'') 0" "n = unat (u64_or (get_u64 (rm_payload msg) ''N'') 128)"
  shows "rpc2_chain s msg dir fs =
    (answer s (rm_seq msg) (chain_response
       (if n = 0 then filter (\<lambda>(h, c). tp = 0 \<or> h \<le> tp) (rev chain)
        else take (min n 5000) (filter (\<lambda>(h, c). tp = 0 \<or> h \<le> tp) (rev chain)))), Ret ())"
proof -
  have m: "unat (min (u64_or (get_u64 (rm_payload msg) ''N'') 128) 5000) = min n 5000"
    by (simp add: assms(3) min_def word_le_nat_alt)
  show ?thesis
    using chain_select_all [of "min n 5000" "[]" tp "rev chain"] chain_select_take [of "[]" "min n 5000" tp "rev chain"]
    by (simp add: rpc2_chain_def assms(1) m flip: assms(2))
qed

theorem chain_answer_witness:
  "rpc2_chain (one_frame []) \<lparr>rm_method = ''Peer.Chain'', rm_seq = 2, rm_error = [], rm_payload = Object [(''N'', Number (PosInt 0))]\<rparr> ''d'' body_fs =
    (answer (one_frame []) 2 (chain_response
       (if (0 :: nat) = 0 then filter (\<lambda>(h, c). (0 :: u64) = 0 \<or> h \<le> 0) (rev [(0, sha256 demo_ext demo_body)])
        else take (min 0 5000) (filter (\<lambda>(h, c). (0 :: u64) = 0 \<or> h \<le> 0) (rev [(0, sha256 demo_ext demo_body)])))), Ret ())"
  by (subst chain_answer [OF body_fs_chain, of 0 _ 0]) simp_all

end
