(* ===== verification/Rust_Text.thy ===== *)
theory Rust_Text
  imports Rust_Std "HOL-Library.Sublist"
begin

text \<open>
  The text functions of the standard library that the peers list and the clients use:
  \<open>trim\<close>, \<open>lines\<close>, \<open>contains\<close>, \<open>rsplit_once\<close> and the whitespace test, on UTF-8 byte
  strings.
\<close>

section \<open>White space\<close>

text \<open>The UTF-8 encodings of the characters with the property White_Space.\<close>

definition ws_seqs :: "bytes list" where
  "ws_seqs = [[0x09], [0x0A], [0x0B], [0x0C], [0x0D], [0x20], [0xC2, 0x85], [0xC2, 0xA0],
     [0xE1, 0x9A, 0x80], [0xE2, 0x80, 0x80], [0xE2, 0x80, 0x81], [0xE2, 0x80, 0x82],
     [0xE2, 0x80, 0x83], [0xE2, 0x80, 0x84], [0xE2, 0x80, 0x85], [0xE2, 0x80, 0x86],
     [0xE2, 0x80, 0x87], [0xE2, 0x80, 0x88], [0xE2, 0x80, 0x89], [0xE2, 0x80, 0x8A],
     [0xE2, 0x80, 0xA8], [0xE2, 0x80, 0xA9], [0xE2, 0x80, 0xAF], [0xE2, 0x81, 0x9F],
     [0xE3, 0x80, 0x80]]"

definition ws_strs :: "string list" where
  "ws_strs = map bytes_str ws_seqs"

text \<open>The first of the given strings that is a prefix (their lengths), or nothing.\<close>

definition ws_prefix :: "string list \<Rightarrow> string \<Rightarrow> nat option" where
  "ws_prefix pats s = map_option length (find (starts_with s) pats)"

function trim_with :: "string list \<Rightarrow> string \<Rightarrow> string" where
  "trim_with pats s =
     (case ws_prefix pats s of
        Some k \<Rightarrow> if 0 < k then trim_with pats (drop k s) else s
      | None \<Rightarrow> s)"
  by pat_completeness auto
termination
proof (relation "measure (\<lambda>(pats, s). length s)")
  fix pats :: "string list" and s :: string and k
  assume k: "ws_prefix pats s = Some k" "0 < k"
  then obtain p where "find (starts_with s) pats = Some p" "k = length p" by (auto simp: ws_prefix_def)
  then have "take k s = p" by (auto simp: find_Some_iff starts_with_def)
  then have "s \<noteq> []" using k(2) \<open>k = length p\<close> by auto
  then show "((pats, drop k s), pats, s) \<in> measure (\<lambda>(pats, s). length s)"
    using k(2) by (cases s) auto
qed simp

declare trim_with.simps [simp del]

definition trim_start :: "string \<Rightarrow> string" where
  "trim_start s = trim_with ws_strs s"

definition trim_end :: "string \<Rightarrow> string" where
  "trim_end s = rev (trim_with (map rev ws_strs) (rev s))"

definition trim_str :: "string \<Rightarrow> string" where
  "trim_str s = trim_end (trim_start s)"

text \<open>\<open>str::contains\<close> with a string, and \<open>chars().any(char::is_whitespace)\<close>.\<close>

fun contains_str :: "string \<Rightarrow> string \<Rightarrow> bool" where
  "contains_str [] pat \<longleftrightarrow> pat = []"
| "contains_str (c # s) pat \<longleftrightarrow> starts_with (c # s) pat \<or> contains_str s pat"

definition has_whitespace :: "string \<Rightarrow> bool" where
  "has_whitespace s \<longleftrightarrow> list_ex (contains_str s) ws_strs"

section \<open>Lines\<close>

text \<open>
  \<open>str::lines\<close>: split after each newline; a line ending is \<open>\n\<close> or \<open>\r\n\<close>, and an empty
  last piece is no line.
\<close>

definition chomp_cr :: "string \<Rightarrow> string" where
  "chomp_cr s = (if s \<noteq> [] \<and> last s = CHR 0x0D then butlast s else s)"

fun lines_from :: "string \<Rightarrow> string \<Rightarrow> string list" where
  "lines_from cur [] = (if cur = [] then [] else [cur])"
| "lines_from cur (c # s) =
     (if c = CHR 0x0A then chomp_cr cur # lines_from [] s else lines_from (cur @ [c]) s)"

definition str_lines :: "string \<Rightarrow> string list" where
  "str_lines s = lines_from [] s"

text \<open>\<open>str::rsplit_once(':')\<close>.\<close>

definition rsplit_colon :: "string \<Rightarrow> (string \<times> string) option" where
  "rsplit_colon s =
     (let r = rev s; post = takeWhile (\<lambda>c. c \<noteq> CHR '':'') r in
      if CHR '':'' \<in> set s then Some (rev (drop (Suc (length post)) r), rev post) else None)"

section \<open>Facts\<close>

lemma trim_with_stop: "ws_prefix pats s = None \<Longrightarrow> trim_with pats s = s"
  by (subst trim_with.simps) simp

lemma trim_with_sublist: "suffix (trim_with pats s) s"
proof (induction pats s rule: trim_with.induct)
  case (1 pats s)
  then show ?case
    by (subst trim_with.simps) (auto split: option.split intro: suffix_order.trans suffix_drop)
qed

lemma lines_from_line:
  "CHR 0x0A \<notin> set l \<Longrightarrow> lines_from cur (l @ CHR 0x0A # s) = chomp_cr (cur @ l) # lines_from [] s"
  by (induction l arbitrary: cur) auto

lemma str_lines_Cons:
  "CHR 0x0A \<notin> set l \<Longrightarrow> last (CHR ''x'' # l) \<noteq> CHR 0x0D \<Longrightarrow> str_lines (l @ CHR 0x0A # s) = l # str_lines s"
  using lines_from_line [of l "[]" s] by (auto simp: str_lines_def chomp_cr_def split: if_splits)

lemma str_lines_Nil [simp]: "str_lines [] = []"
  by (simp add: str_lines_def)

lemma rsplit_colon_Some:
  assumes "rsplit_colon s = Some (h, p)"
  shows "s = h @ CHR '':'' # p" "CHR '':'' \<notin> set p"
proof -
  let ?r = "rev s" and ?P = "\<lambda>c. c \<noteq> CHR '':''"
  have c: "CHR '':'' \<in> set s" and h: "h = rev (drop (Suc (length (takeWhile ?P ?r))) ?r)"
    and p: "p = rev (takeWhile ?P ?r)"
    using assms by (auto simp: rsplit_colon_def Let_def split: if_splits)
  have "dropWhile ?P ?r \<noteq> []" using c by (simp add: dropWhile_eq_Nil_conv)
  then obtain x xs where d: "dropWhile ?P ?r = x # xs" by (cases "dropWhile ?P ?r") auto
  then have x: "x = CHR '':''" using hd_dropWhile [of ?P ?r] by simp
  have "drop (Suc (length (takeWhile ?P ?r))) ?r = xs"
    using d by (metis dropWhile_eq_drop drop_Suc list.sel(3) tl_drop)
  moreover have "?r = takeWhile ?P ?r @ x # xs" using d takeWhile_dropWhile_id [of ?P ?r] by simp
  ultimately show "s = h @ CHR '':'' # p"
    using h p x by (metis append.assoc append_Cons append_Nil rev.simps(2) rev_append rev_rev_ident)
  show "CHR '':'' \<notin> set p" unfolding p using set_takeWhileD by fastforce
qed

end
