(* ===== verification/Client.thy ===== *)
theory Client
  imports Server_Facts Rust_Text
begin

text \<open>
  The client side of \<open>src/spore_peer.rs\<close>: \<open>fetch\<close>, the relay client \<open>fabric_pub\<close>, the pull
  \<open>sync_stream\<close> and the push \<open>push_stream\<close>, and their one-shot wrappers. Connecting is the
  argument \<open>net\<close>: what \<open>TcpStream::connect\<close> gives for an address (an error text or a
  stream). Log lines on stderr are not modelled; what goes to stdout is.
\<close>

section \<open>fetch\<close>

definition fetch_stream :: "ext \<Rightarrow> 'p stream \<Rightarrow> string \<Rightarrow> path option \<Rightarrow> fsys \<Rightarrow>
    'p stream \<times> fsys \<times> (string + unit) run" where
  "fetch_stream X s cid out fs =
     (let req = Object [(''cid'', String cid)] in
      case write_frame s (str_bytes (json_to_string X req)) of
        (s, Inl e) \<Rightarrow> (s, fs, Ret (Inl (io_text e)))
      | (s, Inr _) \<Rightarrow>
          (case read_frame s of
             (s, Inl e) \<Rightarrow> (s, fs, Ret (Inl (io_text e)))
           | (s, Inr resp) \<Rightarrow>
               (case parse_fetch_response X resp cid of
                  Panic \<Rightarrow> (s, fs, Panic)
                | Ret (Inl e) \<Rightarrow> (s, fs, Ret (Inl e))
                | Ret (Inr body) \<Rightarrow>
                    (case out of
                       None \<Rightarrow> (s, fs, Ret (Inr ()))
                     | Some path \<Rightarrow>
                         (case fs_write path body fs of
                            (fs, Inl e) \<Rightarrow> (s, fs, Ret (Inl (''write '' @ path @ '': '' @ e)))
                          | (fs, Inr _) \<Rightarrow> (s, fs, Ret (Inr ())))))))"

type_synonym 'p net = "string \<Rightarrow> string + 'p stream"

definition fetch :: "ext \<Rightarrow> 'p net \<Rightarrow> string \<Rightarrow> string \<Rightarrow> path option \<Rightarrow> fsys \<Rightarrow> fsys \<times> (string + unit) run" where
  "fetch X net addr cid out fs =
     (case net addr of
        Inl e \<Rightarrow> (fs, Ret (Inl (''connect '' @ addr @ '': '' @ e)))
      | Inr s \<Rightarrow> (case fetch_stream X s cid out fs of (s, fs, r) \<Rightarrow> (fs, r)))"

section \<open>The relay client\<close>

record fabric_cli =
  fo_addr :: string
  fo_sub :: string
  fo_handle :: string
  fo_token :: string
  fo_nonce :: string
  fo_pointer :: "string option"
  fo_lease :: u64
  fo_max :: nat

text \<open>The request that \<open>fabric_pub\<close> builds (\<open>req[k] = v\<close> inserts into the object).\<close>

definition fabric_request :: "fabric_cli \<Rightarrow> string + json" where
  "fabric_request o1 =
     (let base = obj_of [(''verb'', String (''f'' @ fo_sub o1)), (''handle'', String (fo_handle o1))] in
      if fo_sub o1 = ''reg'' then
        (if length (fo_token o1) < 16 then Inl ''token must be >= 16 bytes (relay shape rule)''
         else
           let m = obj_insert ''lease'' (Number (PosInt (fo_lease o1)))
                     (obj_insert ''token'' (String (fo_token o1)) base);
               m = (if fo_nonce o1 \<noteq> [] then obj_insert ''nonce'' (String (fo_nonce o1)) m else m)
           in Inr (Object m))
      else if fo_sub o1 = ''put'' then
        (case fo_pointer o1 of
           None \<Rightarrow> Inl ''fabric put needs --pointer''
         | Some p \<Rightarrow> Inr (Object (obj_insert ''pointer_hex'' (String p) base)))
      else if fo_sub o1 = ''pop'' then
        Inr (Object (obj_insert ''max'' (Number (PosInt (word_of_nat (fo_max o1))))
              (obj_insert ''token'' (String (fo_token o1)) base)))
      else Inl (''unknown fabric subcommand '' @ fo_sub o1 @ '' (reg|put|pop)''))"

text \<open>The result is the lines printed to stdout and the verdict.\<close>

definition fabric_pub :: "ext \<Rightarrow> 'p net \<Rightarrow> fabric_cli \<Rightarrow> string list \<times> (string + unit)" where
  "fabric_pub X net o1 =
     (case fabric_request o1 of
        Inl e \<Rightarrow> ([], Inl e)
      | Inr req \<Rightarrow>
          (case net (fo_addr o1) of
             Inl e \<Rightarrow> ([], Inl (''connect '' @ fo_addr o1 @ '': '' @ e))
           | Inr s \<Rightarrow>
               (case write_frame s (str_bytes (json_to_string X req)) of
                  (s, Inl e) \<Rightarrow> ([], Inl (io_text e))
                | (s, Inr _) \<Rightarrow>
                    (case read_frame s of
                       (s, Inl e) \<Rightarrow> ([], Inl (io_text e))
                     | (s, Inr []) \<Rightarrow> ([], Inl ''empty reply'')
                     | (s, Inr (st # rest)) \<Rightarrow>
                         if st \<noteq> 0x00 then ([], Inl (trim_str (from_utf8_lossy rest)))
                         else
                           let body = (case json_from_slice X rest of Some v \<Rightarrow> v | None \<Rightarrow> Null) in
                           if fo_sub o1 = ''pop'' then
                             (List.map_filter as_str
                                (case Option.bind (jget body ''pointers'') as_array of Some a \<Rightarrow> a | None \<Rightarrow> []),
                              Inr ())
                           else ([], Inr ())))))"

section \<open>sync\<close>

text \<open>
  One entry of the peer's chain. The three outcomes are an error that ends the sync, the
  hard cap (\<open>break\<close>), and going on with the counters.
\<close>

datatype sync_next = Stop string | Capped | Go nat nat

definition sync_entry :: "ext \<Rightarrow> 'p stream \<Rightarrow> path \<Rightarrow> nat \<Rightarrow> json \<Rightarrow> nat \<Rightarrow> nat \<Rightarrow> fsys \<Rightarrow>
    'p stream \<times> fsys \<times> sync_next run" where
  "sync_entry X s dir i entry fetched have0 fs =
     (case as_array entry of
        None \<Rightarrow> (s, fs, Ret (Stop ''chain entry not an array''))
      | Some pair \<Rightarrow>
          if length pair \<noteq> 2 then (s, fs, Ret (Stop ''chain entry must be [topoheight, blid]''))
          else
            let tp = u64_or (as_u64 (pair ! 0)) 0; blid_hex = str_or (as_str (pair ! 1)) [] in
            (case hex_decode blid_hex of
               Panic \<Rightarrow> (s, fs, Panic)
             | Ret None \<Rightarrow> (s, fs, Ret (Go fetched have0))
             | Ret (Some expected) \<Rightarrow>
                 if length expected \<noteq> 32 then (s, fs, Ret (Go fetched have0))
                 else
                   let path = body_path dir blid_hex in
                   if fs_metadata path fs \<noteq> None then (s, fs, Ret (Go fetched (have0 + 1)))
                   else if i \<ge> 2000 then (s, fs, Ret Capped)
                   else
                     (case rpc2_call X s ''Peer.GetObject'' (100 + word_of_nat i) (getobject_request expected) of
                        (s, Panic) \<Rightarrow> (s, fs, Panic)
                      | (s, Ret (Inl e)) \<Rightarrow> (s, fs, Ret (Stop (io_text e)))
                      | (s, Ret (Inr obj)) \<Rightarrow>
                          if rm_error obj \<noteq> [] then (s, fs, Ret (Go fetched have0))
                          else
                            (case as_str (rm_payload obj) of
                               None \<Rightarrow> (s, fs, Ret (Stop ''object payload not bytes''))
                             | Some body_hex \<Rightarrow>
                                 (case hex_crate_decode X body_hex of
                                    Inl e \<Rightarrow> (s, fs, Ret (Stop e))
                                  | Inr body \<Rightarrow>
                                      if sha256 X body \<noteq> expected
                                      then (s, fs, Ret (Stop (''topo '' @ dec_digits (unat tp)
                                             @ '': body sha256 != blid (tampered)'')))
                                      else
                                        (case fs_write path body fs of
                                           (fs, Inl e) \<Rightarrow>
                                             (s, fs, Ret (Stop (''write '' @ path @ '': '' @ e)))
                                         | (fs, Inr _) \<Rightarrow> (s, fs, Ret (Go (fetched + 1) have0))))))))"

fun sync_entries :: "ext \<Rightarrow> 'p stream \<Rightarrow> path \<Rightarrow> nat \<Rightarrow> json list \<Rightarrow> nat \<Rightarrow> nat \<Rightarrow> fsys \<Rightarrow>
    'p stream \<times> fsys \<times> (string + nat \<times> nat) run" where
  "sync_entries X s dir i [] fetched have0 fs = (s, fs, Ret (Inr (fetched, have0)))"
| "sync_entries X s dir i (entry # rest) fetched have0 fs =
     (case sync_entry X s dir i entry fetched have0 fs of
        (s, fs, Panic) \<Rightarrow> (s, fs, Panic)
      | (s, fs, Ret (Stop e)) \<Rightarrow> (s, fs, Ret (Inl e))
      | (s, fs, Ret Capped) \<Rightarrow> (s, fs, Ret (Inr (fetched, have0)))
      | (s, fs, Ret (Go f h)) \<Rightarrow> sync_entries X s dir (i + 1) rest f h fs)"

text \<open>Handshake and chain: the peer's height and its chain entries.\<close>

definition peer_chain :: "ext \<Rightarrow> 'p stream \<Rightarrow> 'p stream \<times> (string + u64 \<times> json list) run" where
  "peer_chain X s =
     (case rpc2_call X s ''Peer.Handshake'' 1 (handshake_request 1) of
        (s, Panic) \<Rightarrow> (s, Panic)
      | (s, Ret (Inl e)) \<Rightarrow> (s, Ret (Inl (io_text e)))
      | (s, Ret (Inr hs)) \<Rightarrow>
          if rm_error hs \<noteq> [] then (s, Ret (Inl (''handshake: '' @ rm_error hs)))
          else
            let peer_height = u64_or (get_u64 (rm_payload hs) ''H'') 0 in
            (case rpc2_call X s ''Peer.Chain'' 2 (chain_request 0 5000) of
               (s, Panic) \<Rightarrow> (s, Panic)
             | (s, Ret (Inl e)) \<Rightarrow> (s, Ret (Inl (io_text e)))
             | (s, Ret (Inr chain)) \<Rightarrow>
                 if rm_error chain \<noteq> [] then (s, Ret (Inl (''chain: '' @ rm_error chain)))
                 else (s, Ret (Inr (peer_height,
                        case as_array (rm_payload chain) of Some a \<Rightarrow> a | None \<Rightarrow> [])))))"

definition sync_stream :: "ext \<Rightarrow> 'p stream \<Rightarrow> path \<Rightarrow> fsys \<Rightarrow>
    'p stream \<times> fsys \<times> (string + u64 \<times> nat \<times> nat) run" where
  "sync_stream X s dir fs =
     (case peer_chain X s of
        (s, Panic) \<Rightarrow> (s, fs, Panic)
      | (s, Ret (Inl e)) \<Rightarrow> (s, fs, Ret (Inl e))
      | (s, Ret (Inr (peer_height, entries))) \<Rightarrow>
          (case sync_entries X s dir 0 entries 0 0 fs of
             (s, fs, Panic) \<Rightarrow> (s, fs, Panic)
           | (s, fs, Ret (Inl e)) \<Rightarrow> (s, fs, Ret (Inl e))
           | (s, fs, Ret (Inr (fetched, have0))) \<Rightarrow> (s, fs, Ret (Inr (peer_height, fetched, have0)))))"

definition sync :: "ext \<Rightarrow> 'p net \<Rightarrow> string \<Rightarrow> path \<Rightarrow> fsys \<Rightarrow> fsys \<times> (string + unit) run" where
  "sync X net addr dir fs =
     (case fs_create_dir_all dir fs of
        Inl e \<Rightarrow> (fs, Ret (Inl (''dir '' @ dir @ '': '' @ e)))
      | Inr _ \<Rightarrow>
          (case net addr of
             Inl e \<Rightarrow> (fs, Ret (Inl (''connect '' @ addr @ '': '' @ e)))
           | Inr s \<Rightarrow>
               (case sync_stream X s dir fs of
                  (s, fs, Panic) \<Rightarrow> (fs, Panic)
                | (s, fs, Ret (Inl e)) \<Rightarrow> (fs, Ret (Inl e))
                | (s, fs, Ret (Inr _)) \<Rightarrow> (fs, Ret (Inr ())))))"

section \<open>push\<close>

text \<open>What the peer already has: the set of blid strings of its chain.\<close>

fun peer_blids :: "json list \<Rightarrow> string list \<Rightarrow> string + string list" where
  "peer_blids [] acc = Inr acc"
| "peer_blids (entry # rest) acc =
     (case as_array entry of
        None \<Rightarrow> Inl ''chain entry not an array''
      | Some pair \<Rightarrow>
          if length pair \<noteq> 2 then Inl ''chain entry must be [topoheight, blid]''
          else peer_blids rest (List.insert (str_or (as_str (pair ! 1)) []) acc))"

fun push_entries :: "ext \<Rightarrow> 'p stream \<Rightarrow> path \<Rightarrow> string \<Rightarrow> string list \<Rightarrow> (u64 \<times> bytes) list \<Rightarrow> nat \<Rightarrow> nat \<Rightarrow> fsys \<Rightarrow>
    'p stream \<times> (string + nat) run" where
  "push_entries X s dir token peer_has [] attempted pushed fs = (s, Ret (Inr pushed))"
| "push_entries X s dir token peer_has ((topo, cid) # rest) attempted pushed fs =
     (if hex_encode X cid \<in> set peer_has then push_entries X s dir token peer_has rest attempted pushed fs
      else if attempted \<ge> 2000 then (s, Ret (Inr pushed))
      else
        let attempted = attempted + 1; path = body_path dir (hex_encode X cid) in
        (case fs_read path fs of
           Inl e \<Rightarrow> (s, Ret (Inl (''read '' @ path @ '': '' @ e)))
         | Inr body \<Rightarrow>
             if sha256 X body \<noteq> cid then push_entries X s dir token peer_has rest attempted pushed fs
             else
               (case rpc2_call X s ''Peer.PutObject'' (200 + word_of_nat attempted) (putobject_request cid body token) of
                  (s, Panic) \<Rightarrow> (s, Panic)
                | (s, Ret (Inl e)) \<Rightarrow> (s, Ret (Inl (io_text e)))
                | (s, Ret (Inr resp)) \<Rightarrow>
                    if rm_error resp \<noteq> [] then
                      (if contains_str (rm_error resp) ''401''
                       then (s, Ret (Inl (''push: write token rejected by peer: '' @ rm_error resp)))
                       else push_entries X s dir token peer_has rest attempted pushed fs)
                    else
                      let stored = str_or (get_str (rm_payload resp) ''BLID'') [] in
                      if stored \<noteq> hex_encode X cid
                      then (s, Ret (Inl (''topo '' @ dec_digits (unat topo)
                             @ '': peer stored different hash ('' @ stored @ '')'')))
                      else push_entries X s dir token peer_has rest attempted (pushed + 1) fs)))"

definition push_stream :: "ext \<Rightarrow> 'p stream \<Rightarrow> path \<Rightarrow> string \<Rightarrow> fsys \<Rightarrow>
    'p stream \<times> (string + u64 \<times> nat \<times> nat) run" where
  "push_stream X s dir token fs =
     (case peer_chain X s of
        (s, Panic) \<Rightarrow> (s, Panic)
      | (s, Ret (Inl e)) \<Rightarrow> (s, Ret (Inl e))
      | (s, Ret (Inr (peer_height, entries))) \<Rightarrow>
          (case peer_blids entries [] of
             Inl e \<Rightarrow> (s, Ret (Inl e))
           | Inr peer_has \<Rightarrow>
               (case chain_view dir fs of
                  Panic \<Rightarrow> (s, Panic)
                | Ret local \<Rightarrow>
                    (case push_entries X s dir token peer_has local 0 0 fs of
                       (s, Panic) \<Rightarrow> (s, Panic)
                     | (s, Ret (Inl e)) \<Rightarrow> (s, Ret (Inl e))
                     | (s, Ret (Inr pushed)) \<Rightarrow> (s, Ret (Inr (peer_height, pushed, length peer_has)))))))"

definition push :: "ext \<Rightarrow> 'p net \<Rightarrow> string \<Rightarrow> path \<Rightarrow> string \<Rightarrow> fsys \<Rightarrow> (string + unit) run" where
  "push X net addr dir token fs =
     (case fs_create_dir_all dir fs of
        Inl e \<Rightarrow> Ret (Inl (''dir '' @ dir @ '': '' @ e))
      | Inr _ \<Rightarrow>
          (case net addr of
             Inl e \<Rightarrow> Ret (Inl (''connect '' @ addr @ '': '' @ e))
           | Inr s \<Rightarrow>
               (case push_stream X s dir token fs of
                  (s, Panic) \<Rightarrow> Panic
                | (s, Ret (Inl e)) \<Rightarrow> Ret (Inl e)
                | (s, Ret (Inr _)) \<Rightarrow> Ret (Inr ()))))"

end
