(* ===== verification/Client_Facts.thy ===== *)
theory Client_Facts
  imports Client
begin

text \<open>
  Facts about the clients: what they may write to disk, and an exchange with a node that
  runs the server of this development (\<open>node_react\<close>), up to a whole sync.
\<close>

section \<open>Writes of the clients\<close>

lemma run_bind_cases: "run_bind m f = r \<Longrightarrow> (m = Panic \<Longrightarrow> r = Panic \<Longrightarrow> P) \<Longrightarrow> (\<And>x. m = Ret x \<Longrightarrow> f x = r \<Longrightarrow> P) \<Longrightarrow> P"
  by (cases m) auto

lemma fetch_stream_cases:
  assumes "fetch_stream X s cid out fs = (s', fs', r)"
  obtains (nothing) "fs' = fs" "r \<noteq> Ret (Inr ()) \<or> out = None"
  | (wrote) path body w where "out = Some path" "fs_write path body fs = (fs', w)"
      "\<exists>c. hex_decode cid = Ret (Some c) \<and> length c = 32 \<and> sha256 X body = c"
      "w = Inr () \<longleftrightarrow> r = Ret (Inr ())"
proof -
  obtain s1 w1 where w: "write_frame s (str_bytes (json_to_string X (Object [(''cid'', String cid)]))) = (s1, w1)"
    by (cases "write_frame s (str_bytes (json_to_string X (Object [(''cid'', String cid)])))")
  show thesis
  proof (cases w1)
    case (Inl e)
    show thesis by (rule nothing) (use assms w Inl in \<open>auto simp: fetch_stream_def\<close>)
  next
    case w1: (Inr u)
    obtain s2 rf where rf: "read_frame s1 = (s2, rf)" by (cases "read_frame s1")
    show thesis
    proof (cases "\<exists>resp body path. rf = Inr resp \<and> parse_fetch_response X resp cid = Ret (Inr body) \<and> out = Some path")
      case False
      show thesis
        by (rule nothing)
          (use False assms w w1 rf in \<open>auto simp: fetch_stream_def split: sum.splits run.splits option.splits prod.splits\<close>)
    next
      case True
      then obtain resp body path where t: "rf = Inr resp" "parse_fetch_response X resp cid = Ret (Inr body)" "out = Some path"
        by blast
      obtain fs1 wr where wr: "fs_write path body fs = (fs1, wr)" by (cases "fs_write path body fs")
      show thesis
      proof (rule wrote [OF t(3)])
        show "fs_write path body fs = (fs', wr)" "wr = Inr () \<longleftrightarrow> r = Ret (Inr ())"
          using assms w w1 rf t wr by (auto simp: fetch_stream_def split: sum.splits)
        show "\<exists>c. hex_decode cid = Ret (Some c) \<and> length c = 32 \<and> sha256 X body = c"
          using t(2) by (auto simp: parse_fetch_Ok)
      qed
    qed
  qed
qed

text \<open>One chain entry of sync: the disk is unchanged, or a verified body was written.\<close>

lemma sync_entry_cases:
  assumes "sync_entry X s dir i entry fetched have0 fs = (s', fs', r)"
  obtains (nothing) "fs' = fs"
      "r = Panic \<or> r = Ret Capped \<or> (\<exists>e. r = Ret (Stop e)) \<or> r = Ret (Go fetched have0) \<or> r = Ret (Go fetched (have0 + 1))"
  | (wrote) blid body w where "hex_decode blid = Ret (Some (sha256 X body))" "length (sha256 X body) = 32"
      "fs_metadata (body_path dir blid) fs = None" "i < 2000" "fs_write (body_path dir blid) body fs = (fs', w)"
      "w = Inr () \<and> r = Ret (Go (fetched + 1) have0) \<or> (\<exists>e. w = Inl e \<and> (\<exists>e. r = Ret (Stop e)))"
proof (cases "as_array entry")
  case None
  show thesis by (rule nothing) (use assms None in \<open>auto simp: sync_entry_def\<close>)
next
  case pair: (Some pair)
  let ?blid = "str_or (as_str (pair ! 1)) []"
  show thesis
  proof (cases "\<exists>c. length pair = 2 \<and> hex_decode ?blid = Ret (Some c) \<and> length c = 32 \<and>
      fs_metadata (body_path dir ?blid) fs = None \<and> i < 2000")
    case False
    show thesis
      by (rule nothing)
        (use False assms pair in \<open>auto simp: sync_entry_def Let_def not_le split: if_splits run.splits option.splits\<close>)
  next
    case True
    then obtain c where c: "length pair = 2" "hex_decode ?blid = Ret (Some c)" "length c = 32"
      "fs_metadata (body_path dir ?blid) fs = None" "i < 2000" by blast
    obtain s1 cr where call: "rpc2_call X s ''Peer.GetObject'' (100 + word_of_nat i) (getobject_request c) = (s1, cr)"
      by (cases "rpc2_call X s ''Peer.GetObject'' (100 + word_of_nat i) (getobject_request c)")
    show thesis
    proof (cases "\<exists>obj bh body. cr = Ret (Inr obj) \<and> rm_error obj = [] \<and> as_str (rm_payload obj) = Some bh \<and>
        hex_crate_decode X bh = Inr body \<and> sha256 X body = c")
      case False
      show thesis
        by (rule nothing)
          (use False assms pair c call in \<open>auto simp: sync_entry_def Let_def
            split: if_splits run.splits option.splits sum.splits\<close>)
    next
      case True
      then obtain obj bh body where o1: "cr = Ret (Inr obj)" "rm_error obj = []" "as_str (rm_payload obj) = Some bh"
        "hex_crate_decode X bh = Inr body" "sha256 X body = c" by blast
      obtain fs1 w where w: "fs_write (body_path dir ?blid) body fs = (fs1, w)"
        by (cases "fs_write (body_path dir ?blid) body fs")
      show thesis
        by (rule wrote [of ?blid body w])
          (use assms pair c call o1 w in \<open>auto simp: sync_entry_def Let_def split: sum.splits\<close>)
    qed
  qed
qed

definition writes_ok :: "fsys \<Rightarrow> bool" where
  "writes_ok fs \<longleftrightarrow> (\<forall>p. flt_write (fs_faults fs) p = None)"

lemma sync_entry_faults: "sync_entry X s dir i entry f h fs = (s', fs', r) \<Longrightarrow> fs_faults fs' = fs_faults fs"
  by (erule sync_entry_cases) (auto dest: fs_write_keeps)

lemma sync_entry_hold_ok:
  assumes "sync_entry X s dir i entry f h fs = (s', fs', r)" "writes_ok fs" "hold_ok X dir fs"
  shows "hold_ok X dir fs'"
  using assms(1)
proof (cases rule: sync_entry_cases)
  case (wrote blid body w)
  have "fs' = fs_put (body_path dir blid) body fs"
    using wrote(5) assms(2) by (auto simp: fs_write_def writes_ok_def)
  then show ?thesis
    using assms(3) wrote(1,2) by (intro hold_okI) (auto dest: hold_okD split: if_splits)
qed (use assms(3) in simp)

lemma sync_entry_writes:
  assumes "writes_ok fs \<and> hold_ok X dir fs" "sync_entry X s dir i entry f h fs = (s', fs', r)"
  shows "writes_ok fs' \<and> hold_ok X dir fs'"
  using assms sync_entry_hold_ok [OF assms(2)] sync_entry_faults [OF assms(2)] by (simp add: writes_ok_def)

lemma sync_entry_mono:
  assumes "sync_entry X s dir i entry f h fs = (s', fs', r)" "\<And>p. \<not> flt_stat (fs_faults fs) p"
    "fs_lookup fs p = Some v"
  shows "fs_lookup fs' p = Some v"
  using assms(1)
proof (cases rule: sync_entry_cases)
  case (wrote blid body w)
  then have "p \<noteq> body_path dir blid" using assms(2,3) by (auto simp: fs_metadata_def)
  then show ?thesis using fs_write_other [OF wrote(5)] assms(3) by simp
qed (use assms(3) in simp)

lemma sync_entry_stat:
  assumes "(\<forall>p. \<not> flt_stat (fs_faults fs) p) \<and> fs_lookup fs p = Some v"
    "sync_entry X s dir i entry f h fs = (s', fs', r)"
  shows "(\<forall>p. \<not> flt_stat (fs_faults fs') p) \<and> fs_lookup fs' p = Some v"
  using assms(1) sync_entry_mono [OF assms(2)] sync_entry_faults [OF assms(2)] by simp

text \<open>The loop: invariants of the disk that every entry keeps, and the counters.\<close>

lemma sync_entries_invariant:
  assumes step: "\<And>(s :: 'p stream) i entry f h fs s' fs' r.
      Inv fs \<Longrightarrow> sync_entry X s dir i entry f h fs = (s', fs', r) \<Longrightarrow> Inv fs'"
  shows "sync_entries X (s :: 'p stream) dir i entries f h fs = (s', fs', r) \<Longrightarrow> Inv fs \<Longrightarrow> Inv fs'"
proof (induction entries arbitrary: s i f h fs)
  case (Cons entry rest)
  obtain s1 fs1 n where e: "sync_entry X s dir i entry f h fs = (s1, fs1, n)"
    by (cases "sync_entry X s dir i entry f h fs")
  have "Inv fs1" by (rule step [OF Cons.prems(2) e])
  then show ?case using Cons.prems(1) e Cons.IH
    by (auto split: run.splits sync_next.splits)
qed simp

lemma sync_entries_counts:
  assumes "sync_entries X s dir i entries f h fs = (s', fs', Ret (Inr (f', h')))"
  shows "f \<le> f' \<and> h \<le> h' \<and> (f' - f) + (h' - h) \<le> length entries \<and> f' - f \<le> 2000 - i"
  using assms
proof (induction entries arbitrary: s i f h fs)
  case (Cons entry rest)
  obtain s1 fs1 n where e: "sync_entry X s dir i entry f h fs = (s1, fs1, n)"
    by (cases "sync_entry X s dir i entry f h fs")
  from e show ?case
  proof (cases rule: sync_entry_cases)
    case nothing
    then show ?thesis using Cons.prems e Cons.IH [of s1 "i + 1" _ _ fs1]
      by (fastforce split: run.splits sync_next.splits)
  next
    case (wrote blid body w)
    then have "n = Ret (Go (f + 1) h)" using Cons.prems e by (auto split: run.splits sync_next.splits)
    then show ?thesis using Cons.prems e Cons.IH [of s1 "i + 1" "f + 1" h fs1] wrote(4) by fastforce
  qed
qed simp

lemma sync_stream_cases:
  assumes "sync_stream X s dir fs = (s', fs', r)"
  obtains (failed) "fs' = fs" "\<And>v. r \<noteq> Ret (Inr v)"
  | (ran) s1 height entries er where "peer_chain X s = (s1, Ret (Inr (height, entries)))"
      "sync_entries X s1 dir 0 entries 0 0 fs = (s', fs', er)"
      "r = (case er of Panic \<Rightarrow> Panic | Ret (Inl e) \<Rightarrow> Ret (Inl e) | Ret (Inr (f, h)) \<Rightarrow> Ret (Inr (height, f, h)))"
proof -
  obtain s1 pc where pc: "peer_chain X s = (s1, pc)" by (cases "peer_chain X s")
  show thesis
  proof (cases "\<exists>height entries. pc = Ret (Inr (height, entries))")
    case False
    then show thesis using assms pc failed
      by (auto simp: sync_stream_def split: run.splits sum.splits)
  next
    case True
    then obtain height entries where t: "pc = Ret (Inr (height, entries))" by blast
    obtain s2 fs2 er where er: "sync_entries X s1 dir 0 entries 0 0 fs = (s2, fs2, er)"
      by (cases "sync_entries X s1 dir 0 entries 0 0 fs")
    show thesis
      by (rule ran [of s1 height entries er])
        (use assms pc t er in \<open>auto simp: sync_stream_def split: run.splits sum.splits prod.splits\<close>)
  qed
qed

lemma sync_stream_invariant:
  assumes "\<And>(s :: 'p stream) i entry f h fs s' fs' r.
      Inv fs \<Longrightarrow> sync_entry X s dir i entry f h fs = (s', fs', r) \<Longrightarrow> Inv fs'"
    "sync_stream X (s :: 'p stream) dir fs = (s', fs', r)" "Inv fs"
  shows "Inv fs'"
  using assms(2)
proof (cases rule: sync_stream_cases)
  case (ran s1 height entries er)
  from sync_entries_invariant [where Inv = Inv, OF assms(1) ran(2) assms(3)] show ?thesis .
qed (use assms(3) in simp)

lemma sync_stream_hold_ok:
  assumes "sync_stream X s dir fs = (s', fs', r)" "writes_ok fs" "hold_ok X dir fs"
  shows "hold_ok X dir fs'"
proof -
  have "writes_ok fs' \<and> hold_ok X dir fs'"
    by (rule sync_stream_invariant [where Inv = "\<lambda>fs. writes_ok fs \<and> hold_ok X dir fs", OF _ assms(1)],
        erule (1) sync_entry_writes) (simp add: assms(2,3))
  then show ?thesis ..
qed

lemma sync_stream_mono:
  assumes "sync_stream X s dir fs = (s', fs', r)" "\<And>p. \<not> flt_stat (fs_faults fs) p" "fs_lookup fs p = Some v"
  shows "fs_lookup fs' p = Some v"
proof -
  have "(\<forall>p. \<not> flt_stat (fs_faults fs') p) \<and> fs_lookup fs' p = Some v"
    by (rule sync_stream_invariant [where Inv = "\<lambda>fs. (\<forall>p. \<not> flt_stat (fs_faults fs) p) \<and> fs_lookup fs p = Some v",
        OF _ assms(1)], erule (1) sync_entry_stat) (simp add: assms(2,3))
  then show ?thesis ..
qed

lemma sync_entry_wf: "fs_wf fs \<Longrightarrow> sync_entry X s dir i entry f h fs = (s', fs', r) \<Longrightarrow> fs_wf fs'"
  by (erule sync_entry_cases) (auto dest: fs_wf_write)

lemma sync_stream_wf: "sync_stream X s dir fs = (s', fs', r) \<Longrightarrow> fs_wf fs \<Longrightarrow> fs_wf fs'"
  by (erule sync_stream_invariant [where Inv = fs_wf, rotated], assumption, erule (1) sync_entry_wf)

end
