(* ===== verification/Honest.thy ===== *)
theory Honest
  imports Client_Facts Chain_Facts Wire_Sizes
begin

text \<open>
  Client and server composed: a stream whose remote side is a node of this program. A frame
  the client writes is read and served by the connection handler of the node, and what the
  handler writes arrives at the client.
\<close>

section \<open>A node at the other end\<close>

definition conn :: "bytes \<Rightarrow> unit stream" where
  "conn inp = \<lparr>s_in = inp, s_out = [], s_broken = False, s_peer = (), s_react = (\<lambda>p b. (p, []))\<rparr>"

definition node_reacts :: "ext \<Rightarrow> path \<Rightarrow> string \<Rightarrow> serve_config \<Rightarrow> clock \<Rightarrow> node \<Rightarrow> bytes \<Rightarrow> node \<times> bytes" where
  "node_reacts X dir ip cfg clk nd inp =
     (case read_frame (conn inp) of
        (s, Inl e) \<Rightarrow> (nd, [])
      | (s, Inr body) \<Rightarrow>
          (case serve_frame X s body dir ip cfg clk nd of (s', nd', r) \<Rightarrow> (nd', s_out s')))"

definition served_by :: "ext \<Rightarrow> path \<Rightarrow> string \<Rightarrow> serve_config \<Rightarrow> clock \<Rightarrow> node \<Rightarrow> node stream \<Rightarrow> bool" where
  "served_by X dir ip cfg clk nd s \<longleftrightarrow>
     s_react s = node_reacts X dir ip cfg clk \<and> s_peer s = nd \<and> \<not> s_broken s \<and> s_in s = []"

lemma conn_keeps: "conn inp\<lparr>s_in := []\<rparr> = conn []"
  by (simp add: conn_def)

lemma conn_write: "fst (write_frame (conn []) p) = (conn [])\<lparr>s_out := frame_bytes p\<rparr>"
  by (simp add: write_frame_def write_all_def conn_def)

lemma node_reacts_frame:
  assumes "sendable p" "serve_frame X (conn []) p dir ip cfg clk nd = (fst (write_frame (conn []) q), nd', r)"
  shows "node_reacts X dir ip cfg clk nd (frame_bytes p) = (nd', frame_bytes q)"
proof -
  have "read_frame (conn (frame_bytes p)) = (conn [], Inr p)"
    using read_frame_frame_bytes [OF assms(1), of "conn (frame_bytes p)" "[]"] by (simp add: conn_keeps) (simp add: conn_def)
  with assms(2) show ?thesis by (simp add: node_reacts_def conn_write)
qed

text \<open>One exchange: the request is served, the answer is decoded.\<close>

lemma rpc2_call_served:
  assumes s: "served_by X dir ip cfg clk nd s"
    and req: "sendable (cbor_message meth sq [] body)"
    and srv: "serve_frame X (conn []) (cbor_message meth sq [] body) dir ip cfg clk nd = (fst (write_frame (conn []) q), nd', r)"
    and ans: "sendable q" "decode_message X q = Ret (Some m)"
  obtains s' where "rpc2_call X s meth sq body = (s', Ret (Inr m))" "served_by X dir ip cfg clk nd' s'"
proof -
  let ?p = "cbor_message meth sq [] body"
  let ?s1 = "s\<lparr>s_out := s_out s @ frame_bytes ?p, s_peer := nd', s_in := s_in s @ frame_bytes q\<rparr>"
  have "s_react s (s_peer s) (frame_bytes ?p) = (nd', frame_bytes q)"
    using node_reacts_frame [OF req srv] s by (simp add: served_by_def)
  moreover have nb: "\<not> s_broken s" using s by (simp add: served_by_def)
  ultimately have w: "write_frame s ?p = (?s1, Inr ())" by (intro write_frame_ok)
  have "s_in ?s1 = frame_bytes q @ []" using s by (simp add: served_by_def)
  then have r: "read_frame ?s1 = (?s1\<lparr>s_in := []\<rparr>, Inr q)" using ans(1) by (rule read_frame_frame_bytes [rotated])
  show thesis
  proof (rule that)
    show "rpc2_call X s meth sq body = (?s1\<lparr>s_in := []\<rparr>, Ret (Inr m))"
      by (simp add: rpc2_call_def w r ans(2))
    show "served_by X dir ip cfg clk nd' (?s1\<lparr>s_in := []\<rparr>)" using s by (simp add: served_by_def)
  qed
qed

section \<open>What the node answers\<close>

lemma serve_frame_rpc2:
  assumes "decode_message X p = Ret (Some m)" "rm_method m \<noteq> []" "\<not> starts_with (rm_method m) ''Peer.Fabric''"
  shows "serve_frame X s p dir ip cfg clk nd = handle_rpc2 X s m dir ip cfg clk nd"
  using assms by (simp add: serve_frame_def)

lemma request_decodes:
  assumes "list_all (\<lambda>c. of_char c < (128 :: nat)) meth" "length meth \<le> 64" "length body \<le> 512"
    "decodes X h body v" "h \<le> MAX_DEPTH"
  shows "sendable (cbor_message meth sq [] body)"
    "decode_message X (cbor_message meth sq [] body) =
       Ret (Some \<lparr>rm_method = meth, rm_seq = sq, rm_error = [], rm_payload = v\<rparr>)"
proof -
  have v: "valid_str meth" "valid_str []" using literal_valid [OF assms(1)] by (simp_all add: literal_valid)
  have "length meth + length ([] :: string) + length body \<le> MAX_FRAME - 66" using assms(2,3) by (simp add: MAX_FRAME_def)
  from message_decodes [OF v this assms(4,5)]
  show "sendable (cbor_message meth sq [] body)"
    "decode_message X (cbor_message meth sq [] body) =
       Ret (Some \<lparr>rm_method = meth, rm_seq = sq, rm_error = [], rm_payload = v\<rparr>)" .
qed

lemma answer_decodes:
  assumes "length body \<le> MAX_FRAME - 66" "decodes X h body v" "h \<le> MAX_DEPTH"
  shows "sendable (cbor_message [] sq [] body)"
    "decode_message X (cbor_message [] sq [] body) =
       Ret (Some \<lparr>rm_method = [], rm_seq = sq, rm_error = [], rm_payload = v\<rparr>)"
  using message_decodes [of "[]" "[]" body X h v sq] assms by (simp_all add: literal_valid)

lemma handshake_served:
  assumes "served_by X dir ip cfg clk nd s" "chain_view dir (nd_fs nd) = Ret chain"
  obtains s' where "rpc2_call X s ''Peer.Handshake'' sq (handshake_request n) =
      (s', Ret (Inr \<lparr>rm_method = [], rm_seq = sq, rm_error = [],
         rm_payload = Object [(''H'', Number (PosInt (word_of_nat (length chain)))), (''N'', Number (PosInt 1))]\<rparr>))"
    "served_by X dir ip cfg clk nd s'"
proof -
  have sz: "length (handshake_request n) \<le> 512" using length_small_requests(1) [of n] by simp
  have req: "sendable (cbor_message ''Peer.Handshake'' sq [] (handshake_request n))"
    "decode_message X (cbor_message ''Peer.Handshake'' sq [] (handshake_request n)) =
      Ret (Some \<lparr>rm_method = ''Peer.Handshake'', rm_seq = sq, rm_error = [], rm_payload = Object [(''N'', Number (PosInt n))]\<rparr>)"
    using request_decodes [of "''Peer.Handshake''", OF _ _ sz handshake_request_decodes]
    by (simp_all add: MAX_DEPTH_def)
  have "length (handshake_response (word_of_nat (length chain)) 1) \<le> MAX_FRAME - 66"
    using length_small_requests(2) [of "word_of_nat (length chain)" 1] by (simp add: MAX_FRAME_def)
  note an = answer_decodes [OF this handshake_response_decodes]
  show thesis
  proof (rule rpc2_call_served [OF assms(1) req(1)])
    show "serve_frame X (conn []) (cbor_message ''Peer.Handshake'' sq [] (handshake_request n)) dir ip cfg clk nd =
      (fst (write_frame (conn []) (cbor_message [] sq [] (handshake_response (word_of_nat (length chain)) 1))), nd, Ret ())"
      by (subst serve_frame_rpc2 [OF req(2)])
        (simp_all add: starts_with_def handle_rpc2_def rpc2_handshake_def assms(2) answer_def)
  qed (use an that in \<open>simp_all add: MAX_DEPTH_def\<close>)
qed

lemma chain_served_n:
  assumes "served_by X dir ip cfg clk nd s" "chain_view dir (nd_fs nd) = Ret chain" "length chain \<le> unat n" "0 < n" "n \<le> 5000"
  obtains s' where "rpc2_call X s ''Peer.Chain'' sq (chain_request 0 n) =
      (s', Ret (Inr \<lparr>rm_method = [], rm_seq = sq, rm_error = [],
         rm_payload = Array (map (\<lambda>(h, c). Array [Number (PosInt h), String (hex_encode X c)]) (rev chain))\<rparr>))"
    "served_by X dir ip cfg clk nd s'"
proof -
  have n: "0 < unat n" "min n 5000 = n" "length chain \<le> 5000"
    using assms(3-5) by (simp_all add: word_less_nat_alt word_le_nat_alt min_def)
  have sz: "length (chain_request 0 n) \<le> 512" using length_small_requests(3) [of 0 n] by simp
  have req: "sendable (cbor_message ''Peer.Chain'' sq [] (chain_request 0 n))"
    "decode_message X (cbor_message ''Peer.Chain'' sq [] (chain_request 0 n)) =
      Ret (Some \<lparr>rm_method = ''Peer.Chain'', rm_seq = sq, rm_error = [],
        rm_payload = Object [(''N'', Number (PosInt n)), (''TOP'', Number (PosInt 0))]\<rparr>)"
    using request_decodes [of "''Peer.Chain''", OF _ _ sz chain_request_decodes]
    by (simp_all add: MAX_DEPTH_def)
  have ids: "\<forall>(h, c)\<in>set (rev chain). length c = 32" using chain_view_id_length [OF assms(2)] by auto
  have "length (chain_response (rev chain)) \<le> MAX_FRAME - 66"
    using length_chain_le [OF ids] n(3) by (simp add: MAX_FRAME_def)
  moreover have "decodes X (Suc 1) (chain_response (rev chain))
    (Array (map (\<lambda>(h, c). Array [Number (PosInt h), String (hex_encode X c)]) (rev chain)))"
    by (rule chain_response_decodes) (use ids n(3) in auto)
  ultimately have an: "sendable (cbor_message [] sq [] (chain_response (rev chain)))"
    "decode_message X (cbor_message [] sq [] (chain_response (rev chain))) = Ret (Some \<lparr>rm_method = [], rm_seq = sq, rm_error = [],
        rm_payload = Array (map (\<lambda>(h, c). Array [Number (PosInt h), String (hex_encode X c)]) (rev chain))\<rparr>)"
    using answer_decodes [of "chain_response (rev chain)" X "Suc 1"] by (simp_all add: MAX_DEPTH_def)
  have sel: "chain_select 0 (unat n) (rev chain) [] = rev chain"
    using chain_select_take [of "[]" "unat n" 0 "rev chain"] assms(3) n(1) by (simp add: case_prod_beta)
  show thesis
  proof (rule rpc2_call_served [OF assms(1) req(1)])
    show "serve_frame X (conn []) (cbor_message ''Peer.Chain'' sq [] (chain_request 0 n)) dir ip cfg clk nd =
      (fst (write_frame (conn []) (cbor_message [] sq [] (chain_response (rev chain)))), nd, Ret ())"
      by (subst serve_frame_rpc2 [OF req(2)])
        (simp_all add: starts_with_def handle_rpc2_def rpc2_chain_def assms(2) answer_def sel n(2))
  qed (use an that in simp_all)
qed

lemma chain_served:
  assumes "served_by X dir ip cfg clk nd s" "chain_view dir (nd_fs nd) = Ret chain" "length chain \<le> 5000"
  obtains s' where "rpc2_call X s ''Peer.Chain'' sq (chain_request 0 5000) =
      (s', Ret (Inr \<lparr>rm_method = [], rm_seq = sq, rm_error = [],
         rm_payload = Array (map (\<lambda>(h, c). Array [Number (PosInt h), String (hex_encode X c)]) (rev chain))\<rparr>))"
    "served_by X dir ip cfg clk nd s'"
  using chain_served_n [OF assms(1,2), of 5000] assms(3) by auto

lemma getobject_served:
  assumes "hex_law X" "served_by X dir ip cfg clk nd s" "length c = 32"
    "serve_body X dir (hex_encode X c) (nd_fs nd) = Ret (Inr body)" "length body \<le> MAX_BODY_BYTES"
  obtains s' where "rpc2_call X s ''Peer.GetObject'' sq (getobject_request c) =
      (s', Ret (Inr \<lparr>rm_method = [], rm_seq = sq, rm_error = [], rm_payload = String (hex_encode X body)\<rparr>))"
    "served_by X dir ip cfg clk nd s'"
proof -
  have sz: "length (getobject_request c) \<le> 512" using length_getobject_le(1) [of c] assms(3) by simp
  have c: "length c < 2 ^ 64" "length body < 2 ^ 64" using assms(3,5) by (simp_all add: MAX_BODY_BYTES_def)
  have req: "sendable (cbor_message ''Peer.GetObject'' sq [] (getobject_request c))"
    "decode_message X (cbor_message ''Peer.GetObject'' sq [] (getobject_request c)) =
      Ret (Some \<lparr>rm_method = ''Peer.GetObject'', rm_seq = sq, rm_error = [],
        rm_payload = Object [(''BLID'', String (hex_encode X c))]\<rparr>)"
    using request_decodes [of "''Peer.GetObject''", OF _ _ sz getobject_request_decodes [OF c(1)]]
    by (simp_all add: MAX_DEPTH_def)
  have "length (getobject_response body) \<le> MAX_FRAME - 66"
    using length_getobject_le(2) [of body] assms(5) by (simp add: MAX_FRAME_def MAX_BODY_BYTES_def)
  note an = answer_decodes [OF this getobject_response_decodes [OF c(2), where h = 0]]
  show thesis
  proof (rule rpc2_call_served [OF assms(2) req(1)])
    show "serve_frame X (conn []) (cbor_message ''Peer.GetObject'' sq [] (getobject_request c)) dir ip cfg clk nd =
      (fst (write_frame (conn []) (cbor_message [] sq [] (getobject_response body))), nd, Ret ())"
      by (subst serve_frame_rpc2 [OF req(2)])
        (simp_all add: starts_with_def handle_rpc2_def rpc2_getobject_def assms(4) answer_def)
  qed (use an that in simp_all)
qed

section \<open>Synchronising with a node\<close>

text \<open>
  What the node must hold for a full sync: every id of its chain has its file under the
  lower case name (the name \<open>store_body\<close> gives), no larger than a push may be, and readable.
\<close>

definition full_store :: "ext \<Rightarrow> path \<Rightarrow> fsys \<Rightarrow> (u64 \<times> bytes) list \<Rightarrow> bool" where
  "full_store X dir fs chain \<longleftrightarrow>
     (\<forall>(h, c)\<in>set chain. flt_read (fs_faults fs) (body_path dir (hex_encode X c)) = None \<and>
        (\<exists>f. fs_lookup fs (body_path dir (hex_encode X c)) = Some f \<and> f_data f \<noteq> [] \<and>
           length (f_data f) \<le> MAX_BODY_BYTES))"

lemma full_storeE:
  assumes law: "hex_law X" and ok: "hold_ok X dir fs" and full: "full_store X dir fs chain"
    and mem: "(h, c) \<in> set chain" and len: "length c = 32"
  obtains body where "serve_body X dir (hex_encode X c) fs = Ret (Inr body)"
    "fs_read (body_path dir (hex_encode X c)) fs = Inr body" "body \<noteq> []" "length body \<le> MAX_BODY_BYTES"
    "sha256 X body = c" "fs_lookup fs (body_path dir (hex_encode X c)) \<noteq> None"
proof -
  from full mem have fl: "flt_read (fs_faults fs) (body_path dir (hex_encode X c)) = None"
    and "\<exists>f. fs_lookup fs (body_path dir (hex_encode X c)) = Some f \<and> f_data f \<noteq> [] \<and> length (f_data f) \<le> MAX_BODY_BYTES"
    unfolding full_store_def by blast+
  then obtain f where f: "fs_lookup fs (body_path dir (hex_encode X c)) = Some f" "f_data f \<noteq> []"
    "length (f_data f) \<le> MAX_BODY_BYTES" by blast
  have d: "hex_decode (hex_encode X c) = Ret (Some c)" using law by (simp add: hex_law_encode hex_decode_hexs)
  show thesis
    using that [OF serve_body_hold [OF ok d len f(1) fl] _ f(2,3)] hold_okD [OF ok f(1) d len] f(1) fl
    by (simp add: fs_read_def)
qed

text \<open>
  What a pull does to the client's files: it appends bodies of the chain under their lower case
  names, and touches nothing else.
\<close>

definition pulled :: "ext \<Rightarrow> path \<Rightarrow> (u64 \<times> bytes) list \<Rightarrow> nat \<Rightarrow> fsys \<Rightarrow> fsys \<Rightarrow> bool" where
  "pulled X cdir chain n fs fs' \<longleftrightarrow> fs_faults fs' = fs_faults fs \<and>
     (\<exists>new. fs_files fs' = fs_files fs @ new \<and> length new \<le> n \<and>
        (\<forall>(p, f)\<in>set new. f_data f \<noteq> [] \<and> length (f_data f) \<le> MAX_BODY_BYTES \<and>
           (\<exists>h c. (h, c) \<in> set chain \<and> p = body_path cdir (hex_encode X c))))"

lemma pulled_refl: "pulled X cdir chain n fs fs"
  by (simp add: pulled_def)

lemma pulled_trans: "pulled X cdir chain n fs fs1 \<Longrightarrow> pulled X cdir chain m fs1 fs2 \<Longrightarrow> pulled X cdir chain (n + m) fs fs2"
  unfolding pulled_def by (elim conjE exE, intro conjI, simp, rule exI) auto

lemma update_new: "map_of m k = None \<Longrightarrow> AList.update k v m = m @ [(k, v)]"
  by (induction m) (auto split: if_splits)

lemma pulled_put:
  assumes "fs_lookup fs (body_path cdir (hex_encode X c)) = None" "(h, c) \<in> set chain" "body \<noteq> []"
    "length body \<le> MAX_BODY_BYTES"
  shows "pulled X cdir chain 1 fs (fs_put (body_path cdir (hex_encode X c)) body fs)"
  using assms by (auto simp: pulled_def fs_put_def update_new)

abbreviation chain_item :: "ext \<Rightarrow> u64 \<times> bytes \<Rightarrow> json" where
  "chain_item X p \<equiv> (case p of (h, c) \<Rightarrow> Array [Number (PosInt h), String (hex_encode X c)])"

lemma sync_entry_served:
  assumes law: "hex_law X" and s: "served_by X dir ip cfg clk nd s" and len: "length c = 32"
    and srv: "serve_body X dir (hex_encode X c) (nd_fs nd) = Ret (Inr body)" "length body \<le> MAX_BODY_BYTES" "sha256 X body = c"
      "body \<noteq> []"
    and mem: "(h, c) \<in> set chain" and i: "i < 2000" and cl: "writes_ok fs" "\<forall>p. \<not> flt_stat (fs_faults fs) p"
  obtains s' fs' f' h' where "sync_entry X s cdir i (chain_item X (h, c)) f h0 fs = (s', fs', Ret (Go f' h'))"
    "served_by X dir ip cfg clk nd s'" "f' + h' = Suc (f + h0)"
    "fs_lookup fs' (body_path cdir (hex_encode X c)) \<noteq> None" "pulled X cdir chain 1 fs fs'"
    "fs_lookup fs (body_path cdir (hex_encode X c)) \<noteq> None \<Longrightarrow> fs' = fs \<and> f' = f"
    "fs_lookup fs (body_path cdir (hex_encode X c)) = None \<Longrightarrow>
      f' = f + 1 \<and> (\<forall>q. q \<noteq> body_path cdir (hex_encode X c) \<longrightarrow> fs_lookup fs' q = fs_lookup fs q)"
proof -
  let ?p = "body_path cdir (hex_encode X c)"
  have d: "hex_decode (hex_encode X c) = Ret (Some c)" using law by (simp add: hex_law_encode hex_decode_hexs)
  show thesis
  proof (cases "fs_metadata ?p fs")
    case (Some v)
    then have "sync_entry X s cdir i (chain_item X (h, c)) f h0 fs = (s, fs, Ret (Go f (h0 + 1)))"
      using d len by (simp add: sync_entry_def)
    moreover have there: "fs_lookup fs ?p \<noteq> None" using Some by (auto simp: fs_metadata_def split: if_splits)
    ultimately show thesis by (intro that [of s fs f "h0 + 1"]) (use s pulled_refl in simp_all)
  next
    case None
    from getobject_served [OF law s len srv(1,2), of "100 + word_of_nat i"]
    obtain s' where call: "rpc2_call X s ''Peer.GetObject'' (100 + word_of_nat i) (getobject_request c) =
        (s', Ret (Inr \<lparr>rm_method = [], rm_seq = 100 + word_of_nat i, rm_error = [], rm_payload = String (hex_encode X body)\<rparr>))"
      and s': "served_by X dir ip cfg clk nd s'" by blast
    have hx: "hex_crate_decode X (hex_encode X body) = Inr body"
      using law by (simp add: hex_law_decode hex_law_encode unhexs_hexs)
    have w: "fs_write ?p body fs = (fs_put ?p body fs, Inr ())" using cl(1) by (simp add: fs_write_def writes_ok_def)
    have "sync_entry X s cdir i (chain_item X (h, c)) f h0 fs = (s', fs_put ?p body fs, Ret (Go (f + 1) h0))"
      using d len None i by (simp add: sync_entry_def call hx srv(3) w)
    moreover have out: "fs_lookup fs ?p = None" using None cl(2) by (simp add: fs_metadata_def)
    then have "pulled X cdir chain 1 fs (fs_put ?p body fs)" using mem srv(4,2) by (rule pulled_put)
    ultimately show thesis using that s' out by simp
  qed
qed

text \<open>The listed bodies a store does not have.\<close>

definition lacking :: "ext \<Rightarrow> path \<Rightarrow> fsys \<Rightarrow> (u64 \<times> bytes) list \<Rightarrow> (u64 \<times> bytes) list" where
  "lacking X dir fs chain = filter (\<lambda>(h, c). fs_lookup fs (body_path dir (hex_encode X c)) = None) chain"

lemma lacking_after:
  assumes law: "hex_law X" and d: "distinct (map snd ((h, c) # todo))"
    and q: "fs_lookup fs (body_path dir (hex_encode X c)) \<noteq> None \<Longrightarrow> fs1 = fs \<and> f1 = f"
      "fs_lookup fs (body_path dir (hex_encode X c)) = None \<Longrightarrow>
        f1 = f + 1 \<and> (\<forall>q. q \<noteq> body_path dir (hex_encode X c) \<longrightarrow> fs_lookup fs1 q = fs_lookup fs q)"
  shows "f1 + length (lacking X dir fs1 todo) = f + length (lacking X dir fs ((h, c) # todo))"
proof (cases "fs_lookup fs (body_path dir (hex_encode X c))")
  case None
  have "fs_lookup fs1 (body_path dir (hex_encode X d)) = fs_lookup fs (body_path dir (hex_encode X d))"
    if "(n, d) \<in> set todo" for n d
  proof -
    have "d \<noteq> c" using that assms(2) by force
    then show ?thesis using q(2) [OF None] law by (simp add: hex_encode_inj)
  qed
  then have "lacking X dir fs1 todo = lacking X dir fs todo" unfolding lacking_def by (intro filter_cong) auto
  then show ?thesis using q(2) [OF None] None by (simp add: lacking_def)
qed (use q(1) in \<open>simp add: lacking_def\<close>)

lemma sync_entries_served:
  assumes law: "hex_law X" and ok: "hold_ok X dir (nd_fs nd)" and full: "full_store X dir (nd_fs nd) chain"
    and ids: "\<forall>(h, c)\<in>set chain. length c = 32"
  shows "set todo \<subseteq> set chain \<Longrightarrow> i + length todo \<le> 2000 \<Longrightarrow> served_by X dir ip cfg clk nd s \<Longrightarrow>
    writes_ok fs \<Longrightarrow> \<forall>p. \<not> flt_stat (fs_faults fs) p \<Longrightarrow>
    \<exists>s' fs' f' h'. sync_entries X s cdir i (map (chain_item X) todo) f h0 fs = (s', fs', Ret (Inr (f', h'))) \<and>
      served_by X dir ip cfg clk nd s' \<and> f' + h' = f + h0 + length todo \<and>
      (\<forall>(h, c)\<in>set todo. fs_lookup fs' (body_path cdir (hex_encode X c)) \<noteq> None) \<and>
      pulled X cdir chain (length todo) fs fs' \<and>
      ((\<forall>(h, c)\<in>set todo. fs_lookup fs (body_path cdir (hex_encode X c)) \<noteq> None) \<longrightarrow> fs' = fs \<and> f' = f) \<and>
      (distinct (map snd todo) \<longrightarrow> f' = f + length (lacking X cdir fs todo))"
proof (induction todo arbitrary: i s fs f h0)
  case (Cons p todo)
  obtain h c where p: "p = (h, c)" by (cases p)
  from Cons.prems(1) p have mem: "(h, c) \<in> set chain" by simp
  with ids have len: "length c = 32" by blast
  from full_storeE [OF law ok full mem len] obtain body where srv:
    "serve_body X dir (hex_encode X c) (nd_fs nd) = Ret (Inr body)" "length body \<le> MAX_BODY_BYTES" "sha256 X body = c" "body \<noteq> []" .
  have i: "i < 2000" using Cons.prems(2) by simp
  from sync_entry_served [OF law Cons.prems(3) len srv mem i Cons.prems(4,5)]
  obtain s1 fs1 f1 h1 where e: "sync_entry X s cdir i (chain_item X (h, c)) f h0 fs = (s1, fs1, Ret (Go f1 h1))"
    and s1: "served_by X dir ip cfg clk nd s1" and cnt: "f1 + h1 = Suc (f + h0)"
    and there: "fs_lookup fs1 (body_path cdir (hex_encode X c)) \<noteq> None"
    and p1: "pulled X cdir chain 1 fs fs1"
    and q1: "fs_lookup fs (body_path cdir (hex_encode X c)) \<noteq> None \<Longrightarrow> fs1 = fs \<and> f1 = f"
      "fs_lookup fs (body_path cdir (hex_encode X c)) = None \<Longrightarrow>
        f1 = f + 1 \<and> (\<forall>q. q \<noteq> body_path cdir (hex_encode X c) \<longrightarrow> fs_lookup fs1 q = fs_lookup fs q)" by blast
  have fl: "fs_faults fs1 = fs_faults fs" using sync_entry_faults [OF e] .
  have "\<exists>s' fs' f' h'. sync_entries X s1 cdir (i + 1) (map (chain_item X) todo) f1 h1 fs1 = (s', fs', Ret (Inr (f', h'))) \<and>
      served_by X dir ip cfg clk nd s' \<and> f' + h' = f1 + h1 + length todo \<and>
      (\<forall>(h, c)\<in>set todo. fs_lookup fs' (body_path cdir (hex_encode X c)) \<noteq> None) \<and>
      pulled X cdir chain (length todo) fs1 fs' \<and>
      ((\<forall>(h, c)\<in>set todo. fs_lookup fs1 (body_path cdir (hex_encode X c)) \<noteq> None) \<longrightarrow> fs' = fs1 \<and> f' = f1) \<and>
      (distinct (map snd todo) \<longrightarrow> f' = f1 + length (lacking X cdir fs1 todo))"
    using Cons.prems fl s1 by (intro Cons.IH) (auto simp: writes_ok_def)
  then obtain s' fs' f' h' where rest: "sync_entries X s1 cdir (i + 1) (map (chain_item X) todo) f1 h1 fs1 = (s', fs', Ret (Inr (f', h')))"
    and s': "served_by X dir ip cfg clk nd s'" and cnt': "f' + h' = f1 + h1 + length todo"
    and all: "\<forall>(h, c)\<in>set todo. fs_lookup fs' (body_path cdir (hex_encode X c)) \<noteq> None"
    and p2: "pulled X cdir chain (length todo) fs1 fs'"
    and q2: "(\<forall>(h, c)\<in>set todo. fs_lookup fs1 (body_path cdir (hex_encode X c)) \<noteq> None) \<longrightarrow> fs' = fs1 \<and> f' = f1"
    and n2: "distinct (map snd todo) \<longrightarrow> f' = f1 + length (lacking X cdir fs1 todo)"
    by blast
  from there obtain v where "fs_lookup fs1 (body_path cdir (hex_encode X c)) = Some v" by blast
  moreover have "\<And>p. \<not> flt_stat (fs_faults fs1) p" using Cons.prems(5) fl by simp
  ultimately have "fs_lookup fs' (body_path cdir (hex_encode X c)) = Some v"
    using sync_entries_invariant [where Inv = "\<lambda>fs. (\<forall>p. \<not> flt_stat (fs_faults fs) p) \<and>
      fs_lookup fs (body_path cdir (hex_encode X c)) = Some v", OF _ rest] sync_entry_stat by blast
  moreover have "sync_entries X s cdir i (map (chain_item X) (p # todo)) f h0 fs = (s', fs', Ret (Inr (f', h')))"
    using e rest p by simp
  moreover have "f' + h' = f + h0 + length (p # todo)" using cnt cnt' by simp
  moreover have "pulled X cdir chain (length (p # todo)) fs fs'" using pulled_trans [OF p1 p2] by simp
  moreover have "(\<forall>(h, c)\<in>set (p # todo). fs_lookup fs (body_path cdir (hex_encode X c)) \<noteq> None) \<longrightarrow> fs' = fs \<and> f' = f"
    using q1(1) q2 p by simp
  moreover have "distinct (map snd (p # todo)) \<longrightarrow> f' = f + length (lacking X cdir fs (p # todo))"
    using lacking_after [OF law _ q1] n2 p by simp
  ultimately show ?case using s' all p by auto
qed (simp add: pulled_refl lacking_def)

lemma sync_served:
  assumes law: "hex_law X" and s: "served_by X dir ip cfg clk nd s" and ok: "hold_ok X dir (nd_fs nd)"
    and chain: "chain_view dir (nd_fs nd) = Ret chain" "length chain \<le> 2000" and full: "full_store X dir (nd_fs nd) chain"
    and cl: "writes_ok fs" "\<forall>p. \<not> flt_stat (fs_faults fs) p"
  obtains s' fs' f h where "sync_stream X s cdir fs = (s', fs', Ret (Inr (word_of_nat (length chain), f, h)))"
    "f + h = length chain" "\<forall>(n, c)\<in>set chain. fs_lookup fs' (body_path cdir (hex_encode X c)) \<noteq> None"
    "served_by X dir ip cfg clk nd s'" "pulled X cdir chain (length chain) fs fs'"
    "(\<forall>(n, c)\<in>set chain. fs_lookup fs (body_path cdir (hex_encode X c)) \<noteq> None) \<longrightarrow> fs' = fs \<and> f = 0"
    "distinct (map snd chain) \<longrightarrow> f = length (lacking X cdir fs chain)"
proof -
  obtain s1 where hs: "rpc2_call X s ''Peer.Handshake'' 1 (handshake_request 1) =
      (s1, Ret (Inr \<lparr>rm_method = [], rm_seq = 1, rm_error = [],
         rm_payload = Object [(''H'', Number (PosInt (word_of_nat (length chain)))), (''N'', Number (PosInt 1))]\<rparr>))"
    and s1: "served_by X dir ip cfg clk nd s1"
    using handshake_served [OF s chain(1)] by blast
  have "length chain \<le> 5000" using chain(2) by simp
  from chain_served [OF s1 chain(1) this] obtain s2 where ch: "rpc2_call X s1 ''Peer.Chain'' 2 (chain_request 0 5000) =
      (s2, Ret (Inr \<lparr>rm_method = [], rm_seq = 2, rm_error = [], rm_payload = Array (map (chain_item X) (rev chain))\<rparr>))"
    and s2: "served_by X dir ip cfg clk nd s2" by blast
  have pc: "peer_chain X s = (s2, Ret (Inr (word_of_nat (length chain), map (chain_item X) (rev chain))))"
    by (simp add: peer_chain_def hs ch)
  have ids: "\<forall>(h, c)\<in>set chain. length c = 32" using chain_view_id_length [OF chain(1)] by blast
  have "set (rev chain) \<subseteq> set chain" "0 + length (rev chain) \<le> 2000" using chain(2) by simp_all
  from sync_entries_served [OF law ok full ids this s2 cl, of cdir 0 0]
  obtain s' fs' f h where "sync_entries X s2 cdir 0 (map (chain_item X) (rev chain)) 0 0 fs = (s', fs', Ret (Inr (f, h)))"
    "served_by X dir ip cfg clk nd s'" "f + h = length chain"
    "\<forall>(n, c)\<in>set (rev chain). fs_lookup fs' (body_path cdir (hex_encode X c)) \<noteq> None"
    "pulled X cdir chain (length chain) fs fs'"
    "(\<forall>(n, c)\<in>set chain. fs_lookup fs (body_path cdir (hex_encode X c)) \<noteq> None) \<longrightarrow> fs' = fs \<and> f = 0"
    "distinct (map snd chain) \<longrightarrow> f = length (lacking X cdir fs (rev chain))"
    unfolding set_rev length_rev add_0 rev_map [symmetric] distinct_rev by blast
  then show thesis using that by (simp add: sync_stream_def pc lacking_def rev_filter [symmetric])
qed

section \<open>Pushing to a node\<close>

text \<open>A node that takes pushes: no token, no rate limit, no quota, and a disk without faults.\<close>

definition open_node :: "path \<Rightarrow> serve_config \<Rightarrow> node \<Rightarrow> bool" where
  "open_node dir cfg nd \<longleftrightarrow> sc_token cfg = None \<and> sc_max_store_bytes cfg = 0 \<and> rl_max (nd_limiter nd) = 0 \<and>
     (\<forall>p. flt_write (fs_faults (nd_fs nd)) p = None) \<and> (\<forall>p q. flt_rename (fs_faults (nd_fs nd)) p q = None) \<and>
     flt_mkdir (fs_faults (nd_fs nd)) dir = None"

lemma store_body_stores:
  assumes "(\<forall>p. flt_write (fs_faults fs) p = None) \<and> (\<forall>p q. flt_rename (fs_faults fs) p q = None) \<and> flt_mkdir (fs_faults fs) dir = None"
    "body \<noteq> []" "length body \<le> MAX_BODY_BYTES"
  obtains fs1 where "store_body X dir body fs = (fs1, Inr (hex_encode X (sha256 X body)))"
    "fs_lookup fs1 (body_path dir (hex_encode X (sha256 X body))) \<noteq> None"
    "\<And>h. fs_lookup fs (body_path dir h) \<noteq> None \<Longrightarrow> fs_lookup fs1 (body_path dir h) \<noteq> None"
proof -
  obtain fs1 r where st: "store_body X dir body fs = (fs1, r)" by (cases "store_body X dir body fs")
  have r: "r = Inr (hex_encode X (sha256 X body))"
    using st assms by (auto simp: store_body_def Let_def fs_create_dir_all_def fs_write_def fs_rename_def split: if_splits)
  show thesis
    using st
  proof (cases rule: store_body_cases)
    case present
    then show thesis using that [of fs] st r by (auto simp: fs_metadata_def split: if_splits)
  next
    case written
    have "fs_lookup fs1 (body_path dir h) \<noteq> None" if "fs_lookup fs (body_path dir h) \<noteq> None" for h
      using written(5) written(6) [of "body_path dir h"] that by (cases "h = hex_encode X (sha256 X body)") auto
    then show thesis using that [of fs1] st r written(5) by auto
  qed (use r in auto)
qed

lemma putobject_served:
  assumes law: "hex_law X" and s: "served_by X dir ip cfg clk nd s" and nd: "open_node dir cfg nd"
    and body: "body \<noteq> []" "length body \<le> MAX_BODY_BYTES" "sha256 X body = c" "length c = 32"
    and tok: "valid_str token" "length token \<le> 1024"
  obtains s' nd' where "rpc2_call X s ''Peer.PutObject'' sq (putobject_request c body token) =
      (s', Ret (Inr \<lparr>rm_method = [], rm_seq = sq, rm_error = [], rm_payload = Object [(''BLID'', String (hex_encode X c))]\<rparr>))"
    "served_by X dir ip cfg clk nd' s'" "open_node dir cfg nd'"
    "fs_lookup (nd_fs nd') (body_path dir (hex_encode X c)) \<noteq> None"
    "\<And>h. fs_lookup (nd_fs nd) (body_path dir h) \<noteq> None \<Longrightarrow> fs_lookup (nd_fs nd') (body_path dir h) \<noteq> None"
    "store_body X dir body (nd_fs nd) = (nd_fs nd', Inr (hex_encode X c))"
proof -
  have faults: "(\<forall>p. flt_write (fs_faults (nd_fs nd)) p = None) \<and> (\<forall>p q. flt_rename (fs_faults (nd_fs nd)) p q = None) \<and>
    flt_mkdir (fs_faults (nd_fs nd)) dir = None" using nd by (simp add: open_node_def)
  from store_body_stores [OF faults body(1,2), of X] body(3) obtain fs1 where
    st: "store_body X dir body (nd_fs nd) = (fs1, Inr (hex_encode X c))"
    and there: "fs_lookup fs1 (body_path dir (hex_encode X c)) \<noteq> None"
    and mono: "\<And>h. fs_lookup (nd_fs nd) (body_path dir h) \<noteq> None \<Longrightarrow> fs_lookup fs1 (body_path dir h) \<noteq> None" by blast
  let ?nd = "nd\<lparr>nd_fs := fs1\<rparr>"
  have nd': "open_node dir cfg ?nd" using nd frames_keep_faults [OF st] by (simp add: open_node_def)
  have lens: "length c < 2 ^ 64" "length body < 2 ^ 64" "length token < 2 ^ 64"
    using body(2,4) tok(2) by (simp_all add: MAX_BODY_BYTES_def)
  let ?m = "\<lparr>rm_method = ''Peer.PutObject'', rm_seq = sq, rm_error = [],
        rm_payload = Object ([(''BLID'', String (hex_encode X c)), (''BODY'', String (hex_encode X body))]
          @ (if token = [] then [] else [(''TOKEN'', String token)]))\<rparr>"
  have v: "valid_str ''Peer.PutObject''" "valid_str []" by (simp_all add: literal_valid)
  have "length ''Peer.PutObject'' + length ([] :: string) + length (putobject_request c body token) \<le> MAX_FRAME - 66"
    using length_putobject_le [of c body token] body(2,4) tok(2) by (simp add: MAX_FRAME_def MAX_BODY_BYTES_def)
  from message_decodes [OF v this putobject_request_decodes [OF lens tok(1)]]
  have req: "sendable (cbor_message ''Peer.PutObject'' sq [] (putobject_request c body token))"
    "decode_message X (cbor_message ''Peer.PutObject'' sq [] (putobject_request c body token)) = Ret (Some ?m)"
    by (simp_all add: MAX_DEPTH_def)
  have "length (putobject_response c) \<le> MAX_FRAME - 66"
    using length_kv_le [of "''BLID''" "cbor_hash32 c"] length_bytes_le [of c] length_map_le(1) [of 1] body(4)
    by (simp add: putobject_response_def cbor_hash32_def MAX_FRAME_def)
  note an = answer_decodes [OF this putobject_response_decodes [OF lens(1)]]
  have lim: "rl_allow (nd_limiter nd) ip (clk 0) = (nd_limiter nd, True)"
    using nd by (simp add: open_node_def rl_allow_unlimited)
  have pol: "enforce_write_policy cfg ip dir (nd_fs nd) n (nd_limiter nd) (clk 0) p = (nd_limiter nd, Inr ())" for n p
    using nd by (simp add: enforce_write_policy_def lim open_node_def)
  have hx: "hex_crate_decode X (hex_encode X body) = Inr body" "hex_decode (hex_encode X c) = Ret (Some c)"
    using law by (simp_all add: hex_law_decode hex_law_encode unhexs_hexs hex_decode_hexs)
  have put: "rpc2_putobject X (conn []) ?m dir ip cfg (clk 0) nd = (answer (conn []) sq (putobject_response c), ?nd, Ret ())"
    using st hx body(3,4) by (simp add: rpc2_putobject_def pol Let_def)
  show thesis
  proof (rule rpc2_call_served [OF s req(1)])
    show "serve_frame X (conn []) (cbor_message ''Peer.PutObject'' sq [] (putobject_request c body token)) dir ip cfg clk nd =
      (fst (write_frame (conn []) (cbor_message [] sq [] (putobject_response c))), ?nd, Ret ())"
      by (subst serve_frame_rpc2 [OF req(2)])
        (simp_all add: starts_with_def handle_rpc2_def put answer_def del: append.simps)
    show "sendable (cbor_message [] sq [] (putobject_response c))"
      and "decode_message X (cbor_message [] sq [] (putobject_response c)) =
        Ret (Some \<lparr>rm_method = [], rm_seq = sq, rm_error = [], rm_payload = Object [(''BLID'', String (hex_encode X c))]\<rparr>)"
      using an by (simp_all add: MAX_DEPTH_def)
  next
    fix s'
    assume "rpc2_call X s ''Peer.PutObject'' sq (putobject_request c body token) =
      (s', Ret (Inr \<lparr>rm_method = [], rm_seq = sq, rm_error = [], rm_payload = Object [(''BLID'', String (hex_encode X c))]\<rparr>))"
      "served_by X dir ip cfg clk ?nd s'"
    then show thesis by (rule that) (use nd' there mono st in simp_all)
  qed
qed

text \<open>What stored bodies with an id in \<open>C\<close> leave alone.\<close>

definition pushes_keep :: "ext \<Rightarrow> path \<Rightarrow> bytes set \<Rightarrow> (fsys \<Rightarrow> bool) \<Rightarrow> bool" where
  "pushes_keep X dir C P \<longleftrightarrow>
     (\<forall>body fs fs' r. P fs \<longrightarrow> body \<noteq> [] \<longrightarrow> length body \<le> MAX_BODY_BYTES \<longrightarrow> sha256 X body \<in> C \<longrightarrow>
        store_body X dir body fs = (fs', Inr r) \<longrightarrow> P fs')"

lemma pushes_keep_hold: "hex_law X \<Longrightarrow> pushes_keep X dir C (hold_ok X dir)"
  by (auto simp: pushes_keep_def dest: store_body_hold_ok)

lemma push_entries_served:
  assumes law: "hex_law X" and ok: "hold_ok X cdir fs" and full: "full_store X cdir fs local"
    and ids: "\<forall>(h, c)\<in>set local. length c = 32" and tok: "valid_str token" "length token \<le> 1024"
    and P: "pushes_keep X dir (snd ` set local) P"
  shows "set todo \<subseteq> set local \<Longrightarrow> attempted + length todo \<le> 2000 \<Longrightarrow> served_by X dir ip cfg clk nd s \<Longrightarrow>
    open_node dir cfg nd \<Longrightarrow> \<exists>s' nd' pushed'. push_entries X s cdir token has todo attempted pushed fs = (s', Ret (Inr pushed')) \<and>
      served_by X dir ip cfg clk nd' s' \<and> open_node dir cfg nd' \<and>
      pushed' = pushed + length (filter (\<lambda>(h, c). hex_encode X c \<notin> set has) todo) \<and>
      (\<forall>(h, c)\<in>set todo. hex_encode X c \<notin> set has \<longrightarrow> fs_lookup (nd_fs nd') (body_path dir (hex_encode X c)) \<noteq> None) \<and>
      (\<forall>h. fs_lookup (nd_fs nd) (body_path dir h) \<noteq> None \<longrightarrow> fs_lookup (nd_fs nd') (body_path dir h) \<noteq> None) \<and>
      (P (nd_fs nd) \<longrightarrow> P (nd_fs nd')) \<and> ((\<forall>(h, c)\<in>set todo. hex_encode X c \<in> set has) \<longrightarrow> nd' = nd)"
proof (induction todo arbitrary: s nd attempted pushed)
  case (Cons p todo)
  obtain h c where p: "p = (h, c)" by (cases p)
  show ?case
  proof (cases "hex_encode X c \<in> set has")
    case True
    with Cons p show ?thesis by auto
  next
    case False
    from Cons.prems(1) p have mem: "(h, c) \<in> set local" by simp
    with ids have len: "length c = 32" by blast
    from full_storeE [OF law ok full mem len] obtain body where body: "fs_read (body_path cdir (hex_encode X c)) fs = Inr body"
      "body \<noteq> []" "length body \<le> MAX_BODY_BYTES" "sha256 X body = c" .
    from putobject_served [OF law Cons.prems(3,4) body(2,3,4) len tok, of "200 + word_of_nat (attempted + 1)"]
    obtain s1 nd1 where call: "rpc2_call X s ''Peer.PutObject'' (200 + word_of_nat (attempted + 1)) (putobject_request c body token) =
        (s1, Ret (Inr \<lparr>rm_method = [], rm_seq = 200 + word_of_nat (attempted + 1), rm_error = [],
           rm_payload = Object [(''BLID'', String (hex_encode X c))]\<rparr>))"
      and s1: "served_by X dir ip cfg clk nd1 s1" and nd1: "open_node dir cfg nd1"
      and there: "fs_lookup (nd_fs nd1) (body_path dir (hex_encode X c)) \<noteq> None"
      and mono: "\<And>h. fs_lookup (nd_fs nd) (body_path dir h) \<noteq> None \<Longrightarrow> fs_lookup (nd_fs nd1) (body_path dir h) \<noteq> None"
      and st: "store_body X dir body (nd_fs nd) = (nd_fs nd1, Inr (hex_encode X c))"
      by blast
    have "sha256 X body \<in> snd ` set local" using mem body(4) by force
    then have hold: "P (nd_fs nd) \<Longrightarrow> P (nd_fs nd1)" using P body(2,3) st unfolding pushes_keep_def by blast
    have E: "push_entries X s cdir token has (p # todo) attempted pushed fs =
        push_entries X s1 cdir token has todo (attempted + 1) (pushed + 1) fs"
      using False Cons.prems(2) body call by (simp add: p Let_def)
    have "set todo \<subseteq> set local" "attempted + 1 + length todo \<le> 2000" using Cons.prems(1,2) by auto
    from Cons.IH [OF this s1 nd1, of "pushed + 1"] obtain s' nd' pushed' where
      rest: "push_entries X s1 cdir token has todo (attempted + 1) (pushed + 1) fs = (s', Ret (Inr pushed'))"
      and s': "served_by X dir ip cfg clk nd' s'" "open_node dir cfg nd'"
      and cnt: "pushed' = pushed + 1 + length (filter (\<lambda>(h, c). hex_encode X c \<notin> set has) todo)"
      and all: "\<forall>(h, c)\<in>set todo. hex_encode X c \<notin> set has \<longrightarrow> fs_lookup (nd_fs nd') (body_path dir (hex_encode X c)) \<noteq> None"
      and mono': "\<forall>h. fs_lookup (nd_fs nd1) (body_path dir h) \<noteq> None \<longrightarrow> fs_lookup (nd_fs nd') (body_path dir h) \<noteq> None"
      and hold': "P (nd_fs nd1) \<longrightarrow> P (nd_fs nd')"
      by blast
    have "pushed' = pushed + length (filter (\<lambda>(h, c). hex_encode X c \<notin> set has) (p # todo))"
      using cnt False p by simp
    moreover have "\<forall>(h, c)\<in>set (p # todo). hex_encode X c \<notin> set has \<longrightarrow>
        fs_lookup (nd_fs nd') (body_path dir (hex_encode X c)) \<noteq> None"
      using all there mono' p by simp
    moreover have "\<not> (\<forall>(h, c)\<in>set (p # todo). hex_encode X c \<in> set has)" using False p by simp
    ultimately show ?thesis unfolding E using rest s' mono mono' hold hold' by blast
  qed
qed auto

lemma peer_blids_items:
  "\<exists>has. peer_blids (map (chain_item X) chain) acc = Inr has \<and>
     set has = set acc \<union> (\<lambda>(h, c). hex_encode X c) ` set chain"
proof (induction chain arbitrary: acc)
  case (Cons p chain)
  obtain h c where p: "p = (h, c)" by (cases p)
  from Cons.IH [of "List.insert (hex_encode X c) acc"] show ?case by (auto simp: p)
qed simp

lemma push_served:
  assumes law: "hex_law X" and s: "served_by X dir ip cfg clk nd s" and nd: "open_node dir cfg nd"
    and chain: "chain_view dir (nd_fs nd) = Ret chain" "length chain \<le> 5000" "full_store X dir (nd_fs nd) chain"
    and ok: "hold_ok X cdir fs" and local: "chain_view cdir fs = Ret local" "length local \<le> 2000" "full_store X cdir fs local"
    and tok: "valid_str token" "length token \<le> 1024"
    and P: "P (nd_fs nd)" "pushes_keep X dir (snd ` set local) P"
  obtains s' nd' pushed had where "push_stream X s cdir token fs = (s', Ret (Inr (word_of_nat (length chain), pushed, had)))"
    "served_by X dir ip cfg clk nd' s'" "open_node dir cfg nd'"
    "pushed = length (filter (\<lambda>(h, c). c \<notin> snd ` set chain) local)"
    "\<forall>(h, c)\<in>set local. fs_lookup (nd_fs nd') (body_path dir (hex_encode X c)) \<noteq> None"
    "\<forall>h. fs_lookup (nd_fs nd) (body_path dir h) \<noteq> None \<longrightarrow> fs_lookup (nd_fs nd') (body_path dir h) \<noteq> None"
    "P (nd_fs nd')" "snd ` set local \<subseteq> snd ` set chain \<longrightarrow> nd' = nd"
proof -
  obtain s1 where hs: "rpc2_call X s ''Peer.Handshake'' 1 (handshake_request 1) =
      (s1, Ret (Inr \<lparr>rm_method = [], rm_seq = 1, rm_error = [],
         rm_payload = Object [(''H'', Number (PosInt (word_of_nat (length chain)))), (''N'', Number (PosInt 1))]\<rparr>))"
    and s1: "served_by X dir ip cfg clk nd s1"
    using handshake_served [OF s chain(1)] by blast
  from chain_served [OF s1 chain(1,2)] obtain s2 where ch: "rpc2_call X s1 ''Peer.Chain'' 2 (chain_request 0 5000) =
      (s2, Ret (Inr \<lparr>rm_method = [], rm_seq = 2, rm_error = [], rm_payload = Array (map (chain_item X) (rev chain))\<rparr>))"
    and s2: "served_by X dir ip cfg clk nd s2" by blast
  have pc: "peer_chain X s = (s2, Ret (Inr (word_of_nat (length chain), map (chain_item X) (rev chain))))"
    by (simp add: peer_chain_def hs ch)
  from peer_blids_items [of X "rev chain" "[]"] obtain has where has: "peer_blids (map (chain_item X) (rev chain)) [] = Inr has"
    "set has = (\<lambda>(h, c). hex_encode X c) ` set chain" by auto
  have inj: "hex_encode X c \<in> set has \<longleftrightarrow> c \<in> snd ` set chain" for c
    unfolding has(2) by (force simp: hex_encode_inj [OF law])
  have ids: "\<forall>(h, c)\<in>set local. length c = 32" using chain_view_id_length [OF local(1)] by blast
  have "set local \<subseteq> set local" "0 + length local \<le> 2000" using local(2) by simp_all
  from push_entries_served [where P = P, OF law ok local(3) ids tok P(2) this s2 nd, where has = has and pushed = 0]
  obtain s' nd' pushed where run: "push_entries X s2 cdir token has local 0 0 fs = (s', Ret (Inr pushed))"
    and s': "served_by X dir ip cfg clk nd' s'" "open_node dir cfg nd'"
    and cnt: "pushed = length (filter (\<lambda>(h, c). hex_encode X c \<notin> set has) local)"
    and new: "\<forall>(h, c)\<in>set local. hex_encode X c \<notin> set has \<longrightarrow> fs_lookup (nd_fs nd') (body_path dir (hex_encode X c)) \<noteq> None"
    and mono: "\<forall>h. fs_lookup (nd_fs nd) (body_path dir h) \<noteq> None \<longrightarrow> fs_lookup (nd_fs nd') (body_path dir h) \<noteq> None"
    and hold: "P (nd_fs nd) \<longrightarrow> P (nd_fs nd')"
    and idle: "(\<forall>(h, c)\<in>set local. hex_encode X c \<in> set has) \<longrightarrow> nd' = nd"
    unfolding add_0 by blast
  have all: "fs_lookup (nd_fs nd') (body_path dir (hex_encode X c)) \<noteq> None" if "(h, c) \<in> set local" for h c
  proof (cases "hex_encode X c \<in> set has")
    case True
    then obtain h' where "(h', c) \<in> set chain" unfolding inj by auto
    then have "fs_lookup (nd_fs nd) (body_path dir (hex_encode X c)) \<noteq> None"
      using chain(3) unfolding full_store_def by fastforce
    then show ?thesis using mono by blast
  next
    case False
    then show ?thesis using new that by blast
  qed
  have "push_stream X s cdir token fs = (s', Ret (Inr (word_of_nat (length chain), pushed, length has)))"
    by (simp add: push_stream_def pc has(1) local(1) run)
  moreover have "pushed = length (filter (\<lambda>(h, c). c \<notin> snd ` set chain) local)" using cnt by (simp add: inj)
  moreover have "snd ` set local \<subseteq> snd ` set chain \<longrightarrow> nd' = nd" using idle by (force simp: inj)
  ultimately show thesis using that s' all mono hold P(1) by blast
qed

end
