(* ===== verification/Peers.thy ===== *)
theory Peers
  imports Client
begin

text \<open>
  The peers list (\<open>peers.txt\<close> in the store directory) and the convergence loop of
  \<open>src/spore_peer.rs\<close>: \<open>peers_list\<close>, \<open>validate_peer_addr\<close>, \<open>peers_add\<close>, \<open>peers_remove\<close>,
  \<open>sync_pass\<close> and \<open>sync_loop\<close>.
\<close>

section \<open>The list\<close>

definition peers_path :: "path \<Rightarrow> path" where
  "peers_path dir = dir @ ''/peers.txt''"

text \<open>\<open>fs::read_to_string\<close>: the file must be UTF-8.\<close>

definition fs_read_to_string :: "path \<Rightarrow> fsys \<Rightarrow> string option" where
  "fs_read_to_string p fs = (case fs_read p fs of Inl _ \<Rightarrow> None | Inr b \<Rightarrow> from_utf8 b)"

fun peers_lines :: "string list \<Rightarrow> string list \<Rightarrow> string list" where
  "peers_lines [] out = out"
| "peers_lines (raw # rest) out =
     (let line = trim_str raw in
      if line = [] \<or> starts_with line ''#'' then peers_lines rest out
      else if line \<in> set out then peers_lines rest out
      else peers_lines rest (out @ [line]))"

definition peers_list :: "path \<Rightarrow> fsys \<Rightarrow> string list" where
  "peers_list dir fs =
     (case fs_read_to_string (peers_path dir) fs of
        None \<Rightarrow> []
      | Some text \<Rightarrow> peers_lines (str_lines text) [])"

definition validate_peer_addr :: "string \<Rightarrow> string + unit" where
  "validate_peer_addr addr =
     (if has_whitespace addr \<or> CHR ''/'' \<in> set addr \<or> CHR 0x5C \<in> set addr
      then Inl (''peer '' @ [CHR 0x27] @ addr @ [CHR 0x27] @ '': whitespace and path characters are not allowed'')
      else
        (case rsplit_colon addr of
           None \<Rightarrow> Inl (''peer '' @ [CHR 0x27] @ addr @ [CHR 0x27] @ '': need host:port'')
         | Some (host, port) \<Rightarrow>
             if host = [] then Inl (''peer '' @ [CHR 0x27] @ addr @ [CHR 0x27] @ '': empty host'')
             else
               (case parse_uint 16 port of
                  None \<Rightarrow> Inl (''peer '' @ [CHR 0x27] @ addr @ [CHR 0x27] @ '': port must be numeric (1-65535)'')
                | Some n \<Rightarrow>
                    if n = 0 then Inl (''peer '' @ [CHR 0x27] @ addr @ [CHR 0x27] @ '': port 0 is not connectable'')
                    else Inr ())))"

definition peers_header :: string where
  "peers_header = ''# spore-peer peers list: one host:port per line'' @ [CHR 0x0A]"

definition peers_body :: "string list \<Rightarrow> string" where
  "peers_body list1 = peers_header @ concat (map (\<lambda>p. p @ [CHR 0x0A]) list1)"

definition peers_write :: "path \<Rightarrow> string list \<Rightarrow> fsys \<Rightarrow> fsys \<times> (string + unit)" where
  "peers_write dir list1 fs =
     (case fs_create_dir_all dir fs of
        Inl e \<Rightarrow> (fs, Inl (''dir '' @ dir @ '': '' @ e))
      | Inr _ \<Rightarrow> fs_write (peers_path dir) (str_bytes (peers_body list1)) fs)"

definition peers_add :: "path \<Rightarrow> string \<Rightarrow> fsys \<Rightarrow> fsys \<times> (string + bool)" where
  "peers_add dir addr fs =
     (case validate_peer_addr addr of
        Inl e \<Rightarrow> (fs, Inl e)
      | Inr _ \<Rightarrow>
          let list1 = peers_list dir fs in
          if addr \<in> set list1 then (fs, Inr False)
          else
            (case peers_write dir (list1 @ [addr]) fs of
               (fs, Inl e) \<Rightarrow> (fs, Inl e)
             | (fs, Inr _) \<Rightarrow> (fs, Inr True)))"

definition peers_remove :: "path \<Rightarrow> string \<Rightarrow> fsys \<Rightarrow> fsys \<times> (string + bool)" where
  "peers_remove dir addr fs =
     (let list1 = peers_list dir fs; kept = filter (\<lambda>p. p \<noteq> addr) list1 in
      if length kept = length list1 then (fs, Inr False)
      else
        (case peers_write dir kept fs of
           (fs, Inl e) \<Rightarrow> (fs, Inl e)
         | (fs, Inr _) \<Rightarrow> (fs, Inr True)))"

section \<open>One convergence pass\<close>

text \<open>
  Pull and push for one peer over one stream: \<open>Inr\<close> is the number of bodies transferred,
  \<open>Inl\<close> a logged failure. A panic in either direction is a panic of the process.
\<close>

definition sync_peer :: "ext \<Rightarrow> 'p net \<Rightarrow> path \<Rightarrow> string \<Rightarrow> fsys \<Rightarrow> fsys \<times> (string + u64) run" where
  "sync_peer X net dir addr fs =
     (case net addr of
        Inl e \<Rightarrow> (fs, Ret (Inl (''unreachable ('' @ e @ '')'')))
      | Inr s \<Rightarrow>
          (case sync_stream X s dir fs of
             (s, fs, Panic) \<Rightarrow> (fs, Panic)
           | (s, fs, Ret (Inl e)) \<Rightarrow> (fs, Ret (Inl e))
           | (s, fs, Ret (Inr (_, f, _))) \<Rightarrow>
               (case push_stream X s dir [] fs of
                  (s, Panic) \<Rightarrow> (fs, Panic)
                | (s, Ret (Inl e)) \<Rightarrow> (fs, Ret (Inl (''push: '' @ e)))
                | (s, Ret (Inr (_, p, _))) \<Rightarrow> (fs, Ret (Inr (word_of_nat (f + p)))))))"

fun sync_peers :: "ext \<Rightarrow> 'p net \<Rightarrow> path \<Rightarrow> string list \<Rightarrow> nat \<Rightarrow> nat \<Rightarrow> u64 \<Rightarrow> fsys \<Rightarrow>
    fsys \<times> (nat \<times> nat \<times> u64) run" where
  "sync_peers X net dir [] good failed transferred fs = (fs, Ret (good, failed, transferred))"
| "sync_peers X net dir (addr # rest) good failed transferred fs =
     (case sync_peer X net dir addr fs of
        (fs, Panic) \<Rightarrow> (fs, Panic)
      | (fs, Ret (Inr n)) \<Rightarrow> sync_peers X net dir rest (good + 1) failed (transferred + n) fs
      | (fs, Ret (Inl e)) \<Rightarrow> sync_peers X net dir rest good (failed + 1) transferred fs)"

definition sync_pass :: "ext \<Rightarrow> 'p net \<Rightarrow> path \<Rightarrow> fsys \<Rightarrow> fsys \<times> (nat \<times> nat \<times> u64) run" where
  "sync_pass X net dir fs = sync_peers X net dir (peers_list dir fs) 0 0 0 fs"

text \<open>
  The loop runs forever unless \<open>once\<close> is set, so it is a partial function; \<open>nets i\<close> is the
  network as the \<open>i\<close>-th pass finds it. Sleeping has no effect on the state.
\<close>

partial_function (option) sync_passes ::
  "ext \<Rightarrow> (nat \<Rightarrow> 'p net) \<Rightarrow> path \<Rightarrow> bool \<Rightarrow> nat \<Rightarrow> fsys \<Rightarrow> (fsys \<times> (string + nat \<times> nat \<times> u64) run) option" where
  "sync_passes X nets dir once i fs =
     (case sync_pass X (nets i) dir fs of
        (fs, Panic) \<Rightarrow> Some (fs, Panic)
      | (fs, Ret summary) \<Rightarrow>
          if once then Some (fs, Ret (Inr summary)) else sync_passes X nets dir once (i + 1) fs)"

definition sync_loop :: "ext \<Rightarrow> (nat \<Rightarrow> 'p net) \<Rightarrow> path \<Rightarrow> bool \<Rightarrow> fsys \<Rightarrow> (fsys \<times> (string + nat \<times> nat \<times> u64) run) option" where
  "sync_loop X nets dir once fs =
     (case fs_create_dir_all dir fs of
        Inl e \<Rightarrow> Some (fs, Ret (Inl (''dir '' @ dir @ '': '' @ e)))
      | Inr _ \<Rightarrow> sync_passes X nets dir once 0 fs)"

end
