(* ===== verification/Text_Facts.thy ===== *)
theory Text_Facts
  imports Rust_Text
begin

text \<open>
  UTF-8 strings cut at character boundaries are UTF-8, trimming is a fixed point that keeps
  UTF-8, and the lines of a UTF-8 text are UTF-8 without newlines.
\<close>

section \<open>Cutting UTF-8\<close>

lemma second_ok_cont: "second_ok b c \<Longrightarrow> is_cont c"
  by (auto simp: second_ok_def is_cont_def split: if_splits elim: order_trans [rotated] order_trans)

lemma not_cont_0 [simp]: "\<not> is_cont 0" "\<not> second_ok b 0"
  using second_ok_cont [of b 0] by (auto simp: is_cont_def)

lemma at_or_0_append: "at_or_0 (r @ t) i = (if i < length r then at_or_0 r i else at_or_0 t (i - length r))"
  by (auto simp: at_or_0_def nth_append)

lemma at_or_0_beyond: "length r \<le> i \<Longrightarrow> at_or_0 r i = 0"
  by (simp add: at_or_0_def)

text \<open>A well-formed step stays inside its bytes, and every byte after the first continues it.\<close>

lemma utf8_step_conts:
  "fst (utf8_step b r) \<Longrightarrow> i < snd (utf8_step b r) - 1 \<Longrightarrow> is_cont (at_or_0 r i)"
proof -
  assume ok: "fst (utf8_step b r)" and i: "i < snd (utf8_step b r) - 1"
  let ?n = "snd (utf8_step b r)"
  have c: "1 < ?n \<Longrightarrow> is_cont (at_or_0 r 0)" "2 < ?n \<Longrightarrow> is_cont (at_or_0 r 1)"
    "3 < ?n \<Longrightarrow> is_cont (at_or_0 r 2)" "?n \<le> 4"
    using ok second_ok_cont [of b "at_or_0 r 0"] unfolding utf8_step_def by (simp_all split: if_splits)
  from i c(4) have "i = 0 \<or> i = 1 \<or> i = 2" by linarith
  with i c show ?thesis by auto
qed

lemma utf8_step_inside:
  assumes "fst (utf8_step b r)" shows "snd (utf8_step b r) - 1 \<le> length r"
proof (rule ccontr)
  assume "\<not> ?thesis"
  then have "is_cont (at_or_0 r (length r))" using utf8_step_conts [OF assms, of "length r"] by simp
  then show False by (simp add: at_or_0_def)
qed

lemma utf8_step_cong:
  assumes "\<And>i. i < snd (utf8_step b r) - 1 \<Longrightarrow> at_or_0 r i = at_or_0 r' i" "fst (utf8_step b r)"
  shows "utf8_step b r' = utf8_step b r"
proof -
  let ?n = "snd (utf8_step b r)"
  have i: "1 < ?n \<Longrightarrow> at_or_0 r' 0 = at_or_0 r 0" "2 < ?n \<Longrightarrow> at_or_0 r' 1 = at_or_0 r 1"
    "3 < ?n \<Longrightarrow> at_or_0 r' 2 = at_or_0 r 2"
    using assms(1) [of 0] assms(1) [of 1] assms(1) [of 2] by simp_all
  have table: "fst (t A B C D s0 c0 c1 c2) \<Longrightarrow>
      (1 < snd (t A B C D s0 c0 c1 c2) \<Longrightarrow> s0' = s0 \<and> c0' = c0) \<Longrightarrow>
      (2 < snd (t A B C D s0 c0 c1 c2) \<Longrightarrow> c1' = c1) \<Longrightarrow>
      (3 < snd (t A B C D s0 c0 c1 c2) \<Longrightarrow> c2' = c2) \<Longrightarrow>
      t A B C D s0' c0' c1' c2' = t A B C D s0 c0 c1 c2"
    if t: "t = (\<lambda>A B C D s0 c0 c1 c2. if A then (True, 1 :: nat)
        else if B then (if c0 then (True, 2) else (False, 1))
        else if C then (if \<not> s0 then (False, 1) else if \<not> c1 then (False, 2) else (True, 3))
        else if D then (if \<not> s0 then (False, 1) else if \<not> c1 then (False, 2)
          else if \<not> c2 then (False, 3) else (True, 4))
        else (False, 1))" for t A B C D s0 c0 c1 c2 s0' c0' c1' c2'
    unfolding t by (simp split: if_splits)
  show ?thesis
    unfolding utf8_step_def
    by (rule table [OF refl]) (use assms(2) i in \<open>simp_all only: utf8_step_def\<close>)
qed

lemma utf8_step_append:
  assumes "fst (utf8_step b r)" shows "utf8_step b (r @ t) = utf8_step b r"
  by (rule utf8_step_cong) (use assms utf8_step_inside [OF assms] in \<open>simp_all add: at_or_0_append\<close>)

lemma utf8_valid_cancel: "utf8_valid a \<Longrightarrow> utf8_valid (a @ t) \<longleftrightarrow> utf8_valid t"
proof (induction a rule: utf8_valid.induct)
  case (2 b r)
  then have ok: "fst (utf8_step b r)" and rest: "utf8_valid (drop (snd (utf8_step b r) - 1) r)" by simp_all
  from 2 ok rest show ?case using utf8_step_inside [OF ok] by (simp add: utf8_step_append [OF ok])
qed simp

lemma utf8_valid_split:
  "utf8_valid (a @ t) \<Longrightarrow> t = [] \<or> \<not> is_cont (hd t) \<Longrightarrow> utf8_valid a \<and> utf8_valid t"
proof (induction "length a" arbitrary: a rule: less_induct)
  case less
  show ?case
  proof (cases a)
    case Nil with less show ?thesis by simp
  next
    case (Cons b r)
    let ?k = "snd (utf8_step b (r @ t))"
    have ok: "fst (utf8_step b (r @ t))" and rest: "utf8_valid (drop (?k - 1) (r @ t))"
      using less.prems(1) Cons by simp_all
    have k: "?k - 1 \<le> length r"
    proof (rule ccontr)
      assume "\<not> ?thesis"
      then have "is_cont (at_or_0 (r @ t) (length r))" using utf8_step_conts [OF ok, of "length r"] by simp
      then show False using less.prems(2) by (cases t) (auto simp: at_or_0_append at_or_0_def)
    qed
    have same: "utf8_step b r = utf8_step b (r @ t)"
      by (rule utf8_step_cong) (use ok k in \<open>auto simp: at_or_0_append\<close>)
    have "utf8_valid (drop (?k - 1) r) \<and> utf8_valid t"
      using rest k less.prems(2) Cons by (intro less.hyps) simp_all
    then show ?thesis using Cons ok same by simp
  qed
qed

lemma valid_str_cancel: "valid_str a \<Longrightarrow> valid_str (a @ t) \<longleftrightarrow> valid_str t"
  by (simp add: valid_str_def utf8_valid_cancel)

lemma valid_str_split:
  assumes "valid_str (a @ t)" "t = [] \<or> \<not> is_cont (byte_of (hd t))"
  shows "valid_str a" "valid_str t"
proof -
  have "str_bytes t = [] \<or> \<not> is_cont (hd (str_bytes t))" using assms(2) by (cases t) (auto simp: str_bytes_def)
  then show "valid_str a" "valid_str t"
    using utf8_valid_split [of "str_bytes a" "str_bytes t"] assms(1) by (simp_all add: valid_str_def)
qed

section \<open>Trimming\<close>

lemma ws_seqs_ok: "list_all (\<lambda>b. b \<noteq> [] \<and> utf8_valid b \<and> \<not> is_cont (hd b)) ws_seqs"
  by (simp add: ws_seqs_def utf8_step_def is_cont_def second_ok_def at_or_0_def)

lemma ws_strs_ok: "p \<in> set ws_strs \<Longrightarrow> p \<noteq> [] \<and> valid_str p \<and> \<not> is_cont (byte_of (hd p))"
proof -
  assume "p \<in> set ws_strs"
  then obtain b where b: "b \<in> set ws_seqs" "p = bytes_str b" by (auto simp: ws_strs_def)
  have "b \<noteq> [] \<and> utf8_valid b \<and> \<not> is_cont (hd b)" using ws_seqs_ok b(1) by (simp add: list_all_iff)
  then show ?thesis unfolding b(2) by (cases b) (simp_all add: valid_str_def, simp add: bytes_str_def)
qed

lemma ws_prefix_None: "ws_prefix pats s = None \<longleftrightarrow> (\<forall>p\<in>set pats. \<not> starts_with s p)"
  by (auto simp: ws_prefix_def find_None_iff)

lemma ws_prefix_Some:
  assumes "ws_prefix pats s = Some k"
  obtains p where "p \<in> set pats" "s = p @ drop k s" "k = length p"
proof -
  from assms obtain p where f: "find (starts_with s) pats = Some p" "k = length p" by (auto simp: ws_prefix_def)
  from f(1) have "p \<in> set pats" "starts_with s p" by (auto simp: find_Some_iff)
  then show thesis using f(2) append_take_drop_id [of k s] that by (simp add: starts_with_def)
qed

lemma trim_with_parts:
  assumes "\<forall>p\<in>set pats. p \<noteq> []"
  shows "\<exists>ps. set ps \<subseteq> set pats \<and> s = concat ps @ trim_with pats s \<and> ws_prefix pats (trim_with pats s) = None"
  using assms
proof (induction pats s rule: trim_with.induct)
  case (1 pats s)
  show ?case
  proof (cases "ws_prefix pats s")
    case None
    then show ?thesis by (intro exI [of _ "[]"]) (simp add: trim_with_stop)
  next
    case (Some k)
    then obtain p where p: "p \<in> set pats" "s = p @ drop k s" "k = length p" by (rule ws_prefix_Some)
    with 1(2) have k: "0 < k" by auto
    then have E: "trim_with pats s = trim_with pats (drop k s)" using Some by (subst trim_with.simps) simp
    from 1(1) [OF Some k 1(2)] obtain ps where "set ps \<subseteq> set pats"
      "drop k s = concat ps @ trim_with pats (drop k s)" "ws_prefix pats (trim_with pats (drop k s)) = None" by blast
    then show ?thesis unfolding E using p by (intro exI [of _ "p # ps"]) auto
  qed
qed

definition trimmed :: "string \<Rightarrow> bool" where
  "trimmed s \<longleftrightarrow> (\<forall>p\<in>set ws_strs. \<not> starts_with s p \<and> \<not> starts_with (rev s) (rev p))"

lemma trimmed_id: "trimmed s \<Longrightarrow> trim_str s = s"
  by (simp add: trimmed_def trim_str_def trim_start_def trim_end_def trim_with_stop ws_prefix_None)

lemma starts_with_append: "starts_with u p \<Longrightarrow> starts_with (u @ v) p"
  by (auto simp: starts_with_def take_append) (metis append_Nil2 diff_is_0_eq' nat_le_linear take0 take_all_iff)

lemma trim_str_trimmed: "trimmed (trim_str s)"
proof -
  let ?t = "trim_start s"
  have ne: "\<forall>p\<in>set ws_strs. p \<noteq> []" "\<forall>p\<in>set (map rev ws_strs). p \<noteq> []" using ws_strs_ok by auto
  from trim_with_parts [OF ne(1), of s] have t: "\<forall>p\<in>set ws_strs. \<not> starts_with ?t p"
    by (auto simp: trim_start_def ws_prefix_None)
  from trim_with_parts [OF ne(2), of "rev ?t"] obtain ps where
    u: "rev ?t = concat ps @ rev (trim_str s)" "\<forall>p\<in>set ws_strs. \<not> starts_with (rev (trim_str s)) (rev p)"
    by (auto simp: trim_str_def trim_end_def ws_prefix_None)
  from u(1) have "?t = trim_str s @ rev (concat ps)" by (metis rev_append rev_rev_ident)
  then show ?thesis using t u(2) starts_with_append [of "trim_str s"] by (auto simp: trimmed_def)
qed

lemma trim_str_set: "set (trim_str s) \<subseteq> set s"
  using set_mono_suffix [OF trim_with_sublist, of ws_strs s]
    set_mono_suffix [OF trim_with_sublist, of "map rev ws_strs" "rev (trim_start s)"]
  by (auto simp: trim_str_def trim_end_def trim_start_def)

lemma concat_valid: "list_all valid_str ps \<Longrightarrow> valid_str (concat ps)"
  by (induction ps) (simp_all add: valid_str_cancel, simp add: valid_str_def)

lemma trim_str_valid:
  assumes "valid_str s" shows "valid_str (trim_str s)"
proof -
  let ?t = "trim_start s"
  have ne: "\<forall>p\<in>set ws_strs. p \<noteq> []" "\<forall>p\<in>set (map rev ws_strs). p \<noteq> []" using ws_strs_ok by auto
  from trim_with_parts [OF ne(1), of s] obtain ps where ps: "set ps \<subseteq> set ws_strs" "s = concat ps @ ?t"
    by (auto simp: trim_start_def)
  have "list_all valid_str ps" using ps(1) ws_strs_ok by (auto simp: list_all_iff)
  then have t: "valid_str ?t" using assms ps(2) concat_valid valid_str_cancel by metis
  from trim_with_parts [OF ne(2), of "rev ?t"] obtain qs where qs: "set qs \<subseteq> set (map rev ws_strs)"
    "rev ?t = concat qs @ rev (trim_str s)" by (auto simp: trim_str_def trim_end_def)
  let ?w = "rev (concat qs)"
  have tw: "?t = trim_str s @ ?w" using qs(2) by (metis rev_append rev_rev_ident)
  have "?w = [] \<or> \<not> is_cont (byte_of (hd ?w))"
  proof (cases qs rule: rev_cases)
    case (snoc q p)
    then have "rev p \<in> set ws_strs" using qs(1) by auto
    then have "rev p \<noteq> []" "\<not> is_cont (byte_of (hd (rev p)))" using ws_strs_ok by auto
    then show ?thesis using snoc by (simp add: hd_append)
  qed simp
  then show ?thesis using valid_str_split(1) [of "trim_str s" ?w] t tw by simp
qed

section \<open>Lines\<close>

lemma newline_not_cont [simp]: "\<not> is_cont (byte_of (CHR 0x0A))" "\<not> is_cont (byte_of (CHR 0x0D))"
  by code_simp+

lemma newline_valid: "valid_str [CHR 0x0A]" "valid_str [CHR 0x0D]"
  by code_simp+

lemma chomp_cr_valid:
  assumes v: "valid_str s" shows "valid_str (chomp_cr s)"
proof (cases "s \<noteq> [] \<and> last s = CHR 0x0D")
  case True
  then have "s = butlast s @ [CHR 0x0D]" using append_butlast_last_id [of s] by simp
  then have "valid_str (butlast s @ [CHR 0x0D])" using v by simp
  from valid_str_split(1) [OF this] show ?thesis using True by (simp add: chomp_cr_def)
qed (use v in \<open>auto simp: chomp_cr_def\<close>)

lemma lines_from_valid:
  "valid_str (cur @ s) \<Longrightarrow> l \<in> set (lines_from cur s) \<Longrightarrow> valid_str l"
proof (induction cur s rule: lines_from.induct)
  case (2 cur c s)
  show ?case
  proof (cases "c = CHR 0x0A")
    case True
    with 2(3) valid_str_split [of cur "c # s"] have v: "valid_str cur" "valid_str ([CHR 0x0A] @ s)" by simp_all
    have s: "valid_str ([] @ s)" using v(2) unfolding valid_str_cancel [OF newline_valid(1)] by simp
    from 2(4) True have "l = chomp_cr cur \<or> l \<in> set (lines_from [] s)" by simp
    then show ?thesis using 2(1) [OF True s] chomp_cr_valid [OF v(1)] by blast
  next
    case False
    with 2(2) [OF False] 2(3,4) show ?thesis by simp
  qed
qed (auto split: if_splits)

lemma lines_from_no_newline:
  "CHR 0x0A \<notin> set cur \<Longrightarrow> l \<in> set (lines_from cur s) \<Longrightarrow> CHR 0x0A \<notin> set l"
  by (induction cur s rule: lines_from.induct)
    (auto simp: chomp_cr_def dest: in_set_butlastD split: if_splits)

end
