(* ===== verification/Peers_Facts.thy ===== *)
theory Peers_Facts
  imports Peers Text_Facts
begin

text \<open>
  The peers list as an abstract list of addresses: what \<open>peers_list\<close> reads is always such a
  list, \<open>peers_write\<close> followed by \<open>peers_list\<close> gives the list back, and an address that
  passes the validation is a line of the file.
\<close>

section \<open>Entries\<close>

definition line_ok :: "string \<Rightarrow> bool" where
  "line_ok l \<longleftrightarrow> l \<noteq> [] \<and> \<not> starts_with l ''#'' \<and> CHR 0x0A \<notin> set l \<and> trimmed l \<and> valid_str l"

definition entries_ok :: "string list \<Rightarrow> bool" where
  "entries_ok ls \<longleftrightarrow> list_all line_ok ls \<and> distinct ls"

lemma entries_ok_simps [simp]:
  "entries_ok []"
  "entries_ok (ls @ [l]) \<longleftrightarrow> entries_ok ls \<and> line_ok l \<and> l \<notin> set ls"
  by (auto simp: entries_ok_def)

lemma entries_ok_filter: "entries_ok ls \<Longrightarrow> entries_ok (filter P ls)"
  by (auto simp: entries_ok_def list_all_iff)

lemma peers_lines_ok:
  "\<forall>r\<in>set raws. CHR 0x0A \<notin> set r \<and> valid_str r \<Longrightarrow> entries_ok out \<Longrightarrow> entries_ok (peers_lines raws out)"
proof (induction raws out rule: peers_lines.induct)
  case (2 raw rest out)
  let ?l = "trim_str raw"
  show ?case
  proof (cases "?l = [] \<or> starts_with ?l ''#'' \<or> ?l \<in> set out")
    case True
    then show ?thesis using 2 by (auto simp: Let_def)
  next
    case False
    then have "line_ok ?l"
      using 2(4) trim_str_set [of raw] trim_str_trimmed [of raw] trim_str_valid [of raw] by (auto simp: line_ok_def)
    then show ?thesis using 2 False by (auto simp: Let_def)
  qed
qed simp

lemma peers_list_ok: "entries_ok (peers_list dir fs)"
proof (cases "fs_read_to_string (peers_path dir) fs")
  case (Some txt1)
  then have "valid_str ([] @ txt1)"
    by (auto simp: fs_read_to_string_def dest: from_utf8_SomeD split: sum.splits)
  then have "\<forall>r\<in>set (str_lines txt1). CHR 0x0A \<notin> set r \<and> valid_str r"
    using lines_from_valid lines_from_no_newline [of "[]"] by (force simp: str_lines_def)
  then show ?thesis using Some by (simp add: peers_list_def peers_lines_ok)
qed (simp add: peers_list_def)

lemma peers_lines_id:
  "list_all line_ok ls \<Longrightarrow> distinct (out @ ls) \<Longrightarrow> peers_lines ls out = out @ ls"
  by (induction ls arbitrary: out) (auto simp: line_ok_def trimmed_id Let_def)

section \<open>Writing and reading back\<close>

lemma starts_with_Cons [simp]: "starts_with s [c] \<longleftrightarrow> s \<noteq> [] \<and> hd s = c"
  by (cases s) (auto simp: starts_with_def)

lemma bytes_str_ascii1: "bytes_str [b] = [chr_of b]"
  by (simp add: bytes_str_def)

lemma cr_ws: "[CHR 0x0D] \<in> set ws_strs"
proof -
  have "bytes_str [0x0D] \<in> set ws_strs" by (simp add: ws_strs_def ws_seqs_def)
  moreover have "bytes_str [0x0D] = [CHR 0x0D]" by (simp add: bytes_str_def chr_of_def char_of_def bit_Suc_0_iff)
  ultimately show ?thesis by simp
qed

lemma trimmed_last: "trimmed l \<Longrightarrow> last (CHR ''x'' # l) \<noteq> CHR 0x0D"
  using cr_ws by (cases l rule: rev_cases) (auto simp: trimmed_def)

lemma str_lines_entries:
  "list_all (\<lambda>l. CHR 0x0A \<notin> set l \<and> trimmed l) ls \<Longrightarrow>
   str_lines (concat (map (\<lambda>p. p @ [CHR 0x0A]) ls)) = ls"
  by (induction ls) (simp_all add: str_lines_Cons [OF _ trimmed_last])

lemma str_lines_body: "list_all line_ok ls \<Longrightarrow> str_lines (peers_body ls) = butlast peers_header # ls"
  using str_lines_Cons [of "butlast peers_header" "concat (map (\<lambda>p. p @ [CHR 0x0A]) ls)"] str_lines_entries [of ls]
  by (simp add: peers_body_def peers_header_def list_all_iff line_ok_def)

lemma starts_with_hd: "starts_with s p \<Longrightarrow> p \<noteq> [] \<Longrightarrow> hd s = hd p"
  by (cases s; cases p) (auto simp: starts_with_def)

lemma trimmed_ends:
  assumes "s \<noteq> []" "byte_of (hd s) \<notin> hd ` set ws_seqs" "byte_of (last s) \<notin> last ` set ws_seqs"
  shows "trimmed s"
proof -
  have "\<not> starts_with s (bytes_str b) \<and> \<not> starts_with (rev s) (rev (bytes_str b))" if b: "b \<in> set ws_seqs" for b
  proof -
    have "b \<noteq> []" using b ws_seqs_ok by (auto simp: list_all_iff)
    then have ne: "bytes_str b \<noteq> []" "hd (bytes_str b) = chr_of (hd b)" "last (bytes_str b) = chr_of (last b)"
      by (simp_all add: bytes_str_def hd_map last_map)
    have "hd s \<noteq> hd (bytes_str b)" "last s \<noteq> last (bytes_str b)" using assms(2,3) b ne by auto
    then show ?thesis using starts_with_hd [of s "bytes_str b"] starts_with_hd [of "rev s" "rev (bytes_str b)"]
        assms(1) ne(1) by (auto simp: hd_rev)
  qed
  then show ?thesis by (auto simp: trimmed_def ws_strs_def)
qed

lemma header_trimmed: "trimmed (butlast peers_header)"
proof (rule trimmed_ends)
  have "byte_of (hd (butlast peers_header)) = 0x23" "byte_of (last (butlast peers_header)) = 0x65"
    by (simp_all add: peers_header_def byte_of_def)
  then show "byte_of (hd (butlast peers_header)) \<notin> hd ` set ws_seqs"
    "byte_of (last (butlast peers_header)) \<notin> last ` set ws_seqs"
    by (simp_all add: ws_seqs_def)
qed (simp add: peers_header_def)

lemma header_skipped: "peers_lines (butlast peers_header # ls) [] = peers_lines ls []"
  by (simp add: trimmed_id [OF header_trimmed]) (simp add: peers_header_def)

lemma body_valid:
  assumes "list_all line_ok ls" shows "valid_str (peers_body ls)"
proof -
  have "list_all valid_str (map (\<lambda>p. p @ [CHR 0x0A]) ls)"
    using assms by (auto simp: list_all_iff line_ok_def valid_str_cancel newline_valid)
  moreover have "valid_str peers_header" by (rule valid_str_ascii) (simp add: peers_header_def byte_of_ascii)
  ultimately show ?thesis by (simp add: peers_body_def valid_str_cancel concat_valid)
qed

text \<open>Reading back what was written gives the list.\<close>

lemma peers_list_body:
  assumes "fs_read (peers_path dir) fs = Inr (str_bytes (peers_body ls))" "entries_ok ls"
  shows "peers_list dir fs = ls"
  using assms body_valid [of ls]
  by (simp add: peers_list_def fs_read_to_string_def from_utf8_str str_lines_body header_skipped
      peers_lines_id entries_ok_def del: peers_lines.simps)

definition peers_readable :: "path \<Rightarrow> fsys \<Rightarrow> bool" where
  "peers_readable dir fs \<longleftrightarrow> flt_read (fs_faults fs) (peers_path dir) = None"

lemma peers_write_list:
  assumes "peers_write dir ls fs = (fs', Inr u)" "peers_readable dir fs" "entries_ok ls"
  shows "peers_list dir fs' = ls"
proof -
  from assms(1) have w: "fs_write (peers_path dir) (str_bytes (peers_body ls)) fs = (fs', Inr u)"
    by (auto simp: peers_write_def split: sum.splits)
  from fs_write_ok [OF w] fs_write_keeps [OF w] assms(2)
  have "fs_read (peers_path dir) fs' = Inr (str_bytes (peers_body ls))"
    by (simp add: fs_read_def peers_readable_def)
  then show ?thesis by (rule peers_list_body) (rule assms)
qed

section \<open>Addresses\<close>

lemma contains_str_append: "contains_str (u @ p @ v) p"
proof (induction u)
  case Nil
  have "starts_with (p @ v) p" by (simp add: starts_with_def)
  then show ?case by (cases "p @ v") auto
next
  case (Cons c u)
  then show ?case by simp
qed

lemma no_whitespace_trimmed:
  assumes "\<not> has_whitespace s" shows "trimmed s" "CHR 0x0A \<notin> set s"
proof -
  have no: "\<And>p u v. p \<in> set ws_strs \<Longrightarrow> s \<noteq> u @ p @ v"
    using assms contains_str_append by (auto simp: has_whitespace_def list_ex_iff)
  have "\<not> starts_with s p \<and> \<not> starts_with (rev s) (rev p)" if p: "p \<in> set ws_strs" for p
  proof (intro conjI notI)
    assume "starts_with s p"
    then have "s = [] @ p @ drop (length p) s" by (simp add: starts_with_def) (metis append_take_drop_id)
    then show False using no [OF p] by blast
  next
    assume "starts_with (rev s) (rev p)"
    then have "rev s = rev p @ drop (length p) (rev s)" by (simp add: starts_with_def) (metis append_take_drop_id length_rev)
    then have "s = rev (drop (length p) (rev s)) @ p @ []" by (metis append_Nil2 rev_append rev_rev_ident)
    then show False using no [OF p] by blast
  qed
  then show "trimmed s" by (auto simp: trimmed_def)
  have nl: "[CHR 0x0A] \<in> set ws_strs"
  proof -
    have "bytes_str [0x0A] \<in> set ws_strs" by (simp add: ws_strs_def ws_seqs_def)
    moreover have "bytes_str [0x0A] = [CHR 0x0A]" by (simp add: bytes_str_def chr_of_def char_of_def bit_Suc_0_iff)
    ultimately show ?thesis by simp
  qed
  show "CHR 0x0A \<notin> set s"
  proof
    assume "CHR 0x0A \<in> set s"
    then obtain u v where "s = u @ [CHR 0x0A] @ v" by (metis append_Cons append_Nil split_list)
    then show False using no [OF nl] by blast
  qed
qed

text \<open>What the validation accepts: a host, a colon, and a port between 1 and 65535.\<close>

lemma validate_peer_addr_shape:
  assumes "validate_peer_addr addr = Inr u"
  obtains host port n where "addr = host @ CHR '':'' # port" "host \<noteq> []" "CHR '':'' \<notin> set port"
    "parse_uint 16 port = Some n" "1 \<le> n" "n \<le> 65535" "\<not> has_whitespace addr"
    "CHR ''/'' \<notin> set addr" "CHR 0x5C \<notin> set addr"
proof -
  from assms obtain host port n where p: "rsplit_colon addr = Some (host, port)" "host \<noteq> []"
    "parse_uint 16 port = Some n" "n \<noteq> 0" "\<not> has_whitespace addr" "CHR ''/'' \<notin> set addr" "CHR 0x5C \<notin> set addr"
    by (auto simp: validate_peer_addr_def split: if_splits option.splits prod.splits)
  have "n < 2 ^ 16" using p(3) unfolding parse_uint_def by (rule from_str_radix_less) simp
  then show thesis using p rsplit_colon_Some [OF p(1)] that by simp
qed

lemma validate_line_ok:
  assumes "validate_peer_addr addr = Inr u" "valid_str addr" "hd addr \<noteq> CHR ''#''"
  shows "line_ok addr"
  using assms(1)
proof (rule validate_peer_addr_shape)
  fix host port n
  assume "addr = host @ CHR '':'' # port" "\<not> has_whitespace addr"
  then show ?thesis using no_whitespace_trimmed [of addr] assms(2,3) by (auto simp: line_ok_def)
qed

section \<open>The operations\<close>

lemma peers_add_cases:
  assumes "peers_add dir addr fs = (fs', r)"
  shows "(\<exists>e. r = Inl e) \<or>
    (\<exists>u. validate_peer_addr addr = Inr u) \<and>
      (r = Inr False \<and> fs' = fs \<and> addr \<in> set (peers_list dir fs) \<or>
       r = Inr True \<and> addr \<notin> set (peers_list dir fs) \<and> (\<exists>u. peers_write dir (peers_list dir fs @ [addr]) fs = (fs', Inr u)))"
  using assms by (auto simp: peers_add_def Let_def split: sum.splits if_splits prod.splits)

lemma peers_lines_comment:
  "list_all line_ok ls \<Longrightarrow> distinct ls \<Longrightarrow> starts_with l ''#'' \<Longrightarrow> trimmed l \<Longrightarrow> peers_lines (ls @ [l]) [] = ls"
proof -
  have "peers_lines (ls @ [l]) out = out @ ls"
    if "list_all line_ok ls" "distinct (out @ ls)" "starts_with l ''#''" "trimmed l" for out
    using that by (induction ls arbitrary: out) (auto simp: line_ok_def trimmed_id Let_def)
  then show "list_all line_ok ls \<Longrightarrow> distinct ls \<Longrightarrow> starts_with l ''#'' \<Longrightarrow> trimmed l \<Longrightarrow> ?thesis" by simp
qed

lemma peers_add_list:
  assumes "peers_add dir addr fs = (fs', Inr True)" "valid_str addr" "peers_readable dir fs"
  shows "peers_list dir fs' = peers_list dir fs @ (if hd addr = CHR ''#'' then [] else [addr])"
proof -
  let ?ls = "peers_list dir fs"
  from peers_add_cases [OF assms(1)] obtain u v where v: "validate_peer_addr addr = Inr v"
    and new: "addr \<notin> set ?ls" and w: "peers_write dir (?ls @ [addr]) fs = (fs', Inr u)" by auto
  have ok: "entries_ok ?ls" by (rule peers_list_ok)
  show ?thesis
  proof (cases "hd addr = CHR ''#''")
    case False
    then have "entries_ok (?ls @ [addr])" using ok new validate_line_ok [OF v assms(2)] by simp
    then show ?thesis using peers_write_list [OF w assms(3)] False by simp
  next
    case True
    obtain host port where a: "addr = host @ CHR '':'' # port" "\<not> has_whitespace addr"
      using v by (rule validate_peer_addr_shape)
    note t = no_whitespace_trimmed [OF a(2)]
    from w have w': "fs_write (peers_path dir) (str_bytes (peers_body (?ls @ [addr]))) fs = (fs', Inr u)"
      by (auto simp: peers_write_def split: sum.splits)
    from fs_write_ok [OF w'] fs_write_keeps [OF w'] assms(3)
    have r: "fs_read (peers_path dir) fs' = Inr (str_bytes (peers_body (?ls @ [addr])))"
      by (simp add: fs_read_def peers_readable_def)
    have ls: "list_all line_ok ?ls" "distinct ?ls" using ok by (simp_all add: entries_ok_def)
    have "valid_str (peers_body (?ls @ [addr]))"
      using body_valid [OF ls(1)] assms(2) by (simp add: peers_body_def valid_str_cancel newline_valid flip: append_assoc)
    moreover have "str_lines (peers_body (?ls @ [addr])) = butlast peers_header # ?ls @ [addr]"
      using str_lines_Cons [of "butlast peers_header" "concat (map (\<lambda>p. p @ [CHR 0x0A]) (?ls @ [addr]))"]
        str_lines_entries [of "?ls @ [addr]"] ls(1) t
      by (simp add: peers_body_def peers_header_def list_all_iff line_ok_def)
    ultimately have "peers_list dir fs' = peers_lines (?ls @ [addr]) []"
      unfolding peers_list_def [of dir fs'] fs_read_to_string_def r
      by (simp only: sum.case option.case from_utf8_str header_skipped)
    also have "\<dots> = ?ls" using peers_lines_comment [OF ls, of addr] True t(1) a(1) by simp
    finally show ?thesis using True by simp
  qed
qed

lemma peers_remove_list:
  assumes "peers_remove dir addr fs = (fs', Inr b)" "peers_readable dir fs"
  shows "peers_list dir fs' = filter (\<lambda>p. p \<noteq> addr) (peers_list dir fs)"
proof -
  let ?ls = "peers_list dir fs" and ?k = "filter (\<lambda>p. p \<noteq> addr) (peers_list dir fs)"
  show ?thesis
  proof (cases "length ?k = length ?ls")
    case True
    then have "?k = ?ls" by (metis filter_id_conv length_filter_less less_irrefl)
    then show ?thesis using True assms(1) by (simp add: peers_remove_def Let_def)
  next
    case False
    then obtain u where "peers_write dir ?k fs = (fs', Inr u)"
      using assms(1) by (auto simp: peers_remove_def Let_def split: prod.splits sum.splits)
    then show ?thesis by (rule peers_write_list) (simp_all add: assms(2) entries_ok_filter [OF peers_list_ok])
  qed
qed

end
