(* ===== verification/Cli.thy ===== *)
theory Cli
  imports Peers Daemon
begin

text \<open>
  The command line: the option loops of \<open>main\<close> in \<open>src/spore_peer.rs\<close>, one per
  subcommand, and the dispatch with its exit codes. An option takes the next argument if
  there is one; an unknown argument is skipped; an unparsable number leaves the default.
\<close>

section \<open>Argument access\<close>

text \<open>\<open>args.get(i + 1)\<close> seen from the tail behind the option, with its three uses.\<close>

definition next_arg :: "string list \<Rightarrow> string option" where
  "next_arg rest = (case rest of [] \<Rightarrow> None | x # _ \<Rightarrow> Some x)"

definition arg_or :: "string list \<Rightarrow> string \<Rightarrow> string" where
  "arg_or rest d = (case next_arg rest of Some x \<Rightarrow> x | None \<Rightarrow> d)"

definition uint_or :: "nat \<Rightarrow> string list \<Rightarrow> nat \<Rightarrow> nat" where
  "uint_or bits rest d =
     (case Option.bind (next_arg rest) (parse_uint bits) of Some n \<Rightarrow> n | None \<Rightarrow> d)"

definition u64_arg :: "string list \<Rightarrow> u64 \<Rightarrow> u64" where
  "u64_arg rest d = word_of_nat (uint_or 64 rest (unat d))"

definition u32_arg :: "string list \<Rightarrow> u32 \<Rightarrow> u32" where
  "u32_arg rest d = word_of_nat (uint_or 32 rest (unat d))"

section \<open>Options of each subcommand\<close>

record serve_opts =
  so_addr :: string
  so_dir :: path
  so_cfg :: serve_config
  so_fabric :: fabric_config
  so_pidfile :: "path option"
  so_announce :: "string option"

definition serve_defaults :: serve_opts where
  "serve_defaults = \<lparr> so_addr = ''0.0.0.0:8099'', so_dir = ''.'',
     so_cfg = \<lparr> sc_max_store_bytes = 0, sc_put_rate = 0, sc_token = None \<rparr>,
     so_fabric = fabric_config_default, so_pidfile = None, so_announce = None \<rparr>"

text \<open>One option of serve; \<open>None\<close> is the catch-all arm, which advances by one.\<close>

definition serve_opt :: "string \<Rightarrow> string list \<Rightarrow> serve_opts \<Rightarrow> (serve_opts \<times> bool) option" where
  "serve_opt a rest o1 =
     (if a = ''--listen'' then Some (o1\<lparr>so_addr := arg_or rest (so_addr o1)\<rparr>, True)
      else if a = ''--dir'' then Some (o1\<lparr>so_dir := arg_or rest (so_dir o1)\<rparr>, True)
      else if a = ''--max-store-bytes'' then
        Some (o1\<lparr>so_cfg := (so_cfg o1)\<lparr>sc_max_store_bytes := u64_arg rest (sc_max_store_bytes (so_cfg o1))\<rparr>\<rparr>, True)
      else if a = ''--put-rate'' then
        Some (o1\<lparr>so_cfg := (so_cfg o1)\<lparr>sc_put_rate := u32_arg rest (sc_put_rate (so_cfg o1))\<rparr>\<rparr>, True)
      else if a = ''--token'' then Some (o1\<lparr>so_cfg := (so_cfg o1)\<lparr>sc_token := next_arg rest\<rparr>\<rparr>, True)
      else if a = ''-fabric'' \<or> a = ''--fabric'' then
        Some (o1\<lparr>so_fabric := (so_fabric o1)\<lparr>fc_enabled := True\<rparr>\<rparr>, False)
      else if a = ''--fabric-per-handle'' then
        Some (o1\<lparr>so_fabric := (so_fabric o1)\<lparr>fc_max_per_handle := uint_or 64 rest (fc_max_per_handle (so_fabric o1))\<rparr>\<rparr>, True)
      else if a = ''--fabric-fput-rate'' then
        Some (o1\<lparr>so_fabric := (so_fabric o1)\<lparr>fc_fput_rate := u32_arg rest (fc_fput_rate (so_fabric o1))\<rparr>\<rparr>, True)
      else if a = ''--fabric-max-regs'' then
        Some (o1\<lparr>so_fabric := (so_fabric o1)\<lparr>fc_max_regs := uint_or 64 rest (fc_max_regs (so_fabric o1))\<rparr>\<rparr>, True)
      else if a = ''--fabric-max-lease'' then
        Some (o1\<lparr>so_fabric := (so_fabric o1)\<lparr>fc_max_lease_sec := u64_arg rest (fc_max_lease_sec (so_fabric o1))\<rparr>\<rparr>, True)
      else if a = ''--fabric-horizon'' then
        Some (o1\<lparr>so_fabric := (so_fabric o1)\<lparr>fc_max_deadline_horizon_sec :=
                u64_arg rest (fc_max_deadline_horizon_sec (so_fabric o1))\<rparr>\<rparr>, True)
      else if a = ''--pidfile'' then Some (o1\<lparr>so_pidfile := next_arg rest\<rparr>, True)
      else if a = ''--announce-addr'' then Some (o1\<lparr>so_announce := next_arg rest\<rparr>, True)
      else None)"

text \<open>
  The \<open>while i < args.len()\<close> loop, shared by the subcommands: an option that takes a value
  advances by two, a flag or an unknown argument by one.
\<close>

function opt_loop :: "(string \<Rightarrow> string list \<Rightarrow> 'o \<Rightarrow> ('o \<times> bool) option) \<Rightarrow> string list \<Rightarrow> 'o \<Rightarrow> 'o" where
  "opt_loop f [] o1 = o1"
| "opt_loop f (a # rest) o1 =
     (case f a rest o1 of
        None \<Rightarrow> opt_loop f rest o1
      | Some (o1, two) \<Rightarrow> opt_loop f (if two then tl rest else rest) o1)"
  by pat_completeness auto
termination
  by (relation "measure (\<lambda>(f, args, o1). length args)") auto

record fetch_opts =
  fe_addr :: string
  fe_cid :: string
  fe_out :: "path option"

definition fetch_opt :: "string \<Rightarrow> string list \<Rightarrow> fetch_opts \<Rightarrow> (fetch_opts \<times> bool) option" where
  "fetch_opt a rest o1 =
     (if a = ''--addr'' then Some (o1\<lparr>fe_addr := arg_or rest []\<rparr>, True)
      else if a = ''--cid'' then Some (o1\<lparr>fe_cid := arg_or rest []\<rparr>, True)
      else if a = ''--out'' then Some (o1\<lparr>fe_out := next_arg rest\<rparr>, True)
      else None)"

definition fabric_opt :: "string \<Rightarrow> string list \<Rightarrow> fabric_cli \<Rightarrow> (fabric_cli \<times> bool) option" where
  "fabric_opt a rest o1 =
     (if a = ''--addr'' then Some (o1\<lparr>fo_addr := arg_or rest []\<rparr>, True)
      else if a = ''--sub'' then Some (o1\<lparr>fo_sub := arg_or rest []\<rparr>, True)
      else if a = ''--handle'' then Some (o1\<lparr>fo_handle := arg_or rest []\<rparr>, True)
      else if a = ''--token'' then Some (o1\<lparr>fo_token := arg_or rest []\<rparr>, True)
      else if a = ''--nonce'' then Some (o1\<lparr>fo_nonce := arg_or rest []\<rparr>, True)
      else if a = ''--pointer'' then
        Some (o1\<lparr>fo_pointer := (if arg_or rest [] = [] then None else Some (arg_or rest []))\<rparr>, True)
      else if a = ''--lease'' then Some (o1\<lparr>fo_lease := u64_arg rest (fo_lease o1)\<rparr>, True)
      else if a = ''--max'' then Some (o1\<lparr>fo_max := uint_or 64 rest (fo_max o1)\<rparr>, True)
      else None)"

definition fabric_defaults :: fabric_cli where
  "fabric_defaults = \<lparr> fo_addr = [], fo_sub = [], fo_handle = [], fo_token = [], fo_nonce = [],
     fo_pointer = None, fo_lease = 3600, fo_max = 8 \<rparr>"

record sync_opts =
  sy_addr :: string
  sy_dir :: path
  sy_token :: string

definition sync_opt :: "string \<Rightarrow> string list \<Rightarrow> sync_opts \<Rightarrow> (sync_opts \<times> bool) option" where
  "sync_opt a rest o1 =
     (if a = ''--addr'' then Some (o1\<lparr>sy_addr := arg_or rest []\<rparr>, True)
      else if a = ''--dir'' then Some (o1\<lparr>sy_dir := arg_or rest (sy_dir o1)\<rparr>, True)
      else None)"

definition push_opt :: "string \<Rightarrow> string list \<Rightarrow> sync_opts \<Rightarrow> (sync_opts \<times> bool) option" where
  "push_opt a rest o1 =
     (if a = ''--addr'' then Some (o1\<lparr>sy_addr := arg_or rest []\<rparr>, True)
      else if a = ''--dir'' then Some (o1\<lparr>sy_dir := arg_or rest (sy_dir o1)\<rparr>, True)
      else if a = ''--token'' then Some (o1\<lparr>sy_token := arg_or rest []\<rparr>, True)
      else None)"

record peers_opts =
  pe_dir :: path
  pe_op :: string
  pe_addr :: string

definition peers_opt :: "string \<Rightarrow> string list \<Rightarrow> peers_opts \<Rightarrow> (peers_opts \<times> bool) option" where
  "peers_opt a rest o1 =
     (if a = ''--dir'' then Some (o1\<lparr>pe_dir := arg_or rest (pe_dir o1)\<rparr>, True)
      else if a = ''add'' \<or> a = ''remove'' then
        Some (o1\<lparr>pe_op := a, pe_addr := arg_or rest []\<rparr>, True)
      else if a = ''list'' then Some (o1\<lparr>pe_op := ''list''\<rparr>, False)
      else None)"

record loop_opts =
  lo_dir :: path
  lo_interval :: u64
  lo_once :: bool

definition loop_opt :: "string \<Rightarrow> string list \<Rightarrow> loop_opts \<Rightarrow> (loop_opts \<times> bool) option" where
  "loop_opt a rest o1 =
     (if a = ''--dir'' then Some (o1\<lparr>lo_dir := arg_or rest (lo_dir o1)\<rparr>, True)
      else if a = ''--interval'' then Some (o1\<lparr>lo_interval := u64_arg rest (lo_interval o1)\<rparr>, True)
      else if a = ''--once'' then Some (o1\<lparr>lo_once := True\<rparr>, False)
      else None)"

section \<open>The subcommands\<close>

text \<open>
  The world the process runs in: the networks, the clock, the process id, the Debug
  rendering of paths; for serve also the platform's signal calls with their error text, what
  binding an address gives, the turns of the accept loop, the time after the loop and at each poll of the drain, and the requests that the
  connection threads serve, in the order they take effect.
\<close>

record 'p world =
  w_nets :: "nat \<Rightarrow> 'p net"
  w_clock :: clock
  w_pid :: nat
  w_dbg :: "path \<Rightarrow> string"
  w_bind :: "string \<Rightarrow> string + unit"
  w_platform :: platform
  w_os_error :: string
  w_turns :: "(nat list \<times> unit accepted) list"
  w_start :: nat
  w_now :: "nat \<Rightarrow> nat"
  w_requests :: "'p request list"

text \<open>
  The outcome of a run: the disk, the lines on stdout and the exit code (for a process killed
  by a signal what a shell reports, 128 and the signal's number).
\<close>

record outcome =
  oc_fs :: fsys
  oc_stdout :: "string list"
  oc_code :: nat

text \<open>The exit status of the process: that of a run that panicked in the main thread is 101.\<close>

definition exit_status :: "outcome run \<Rightarrow> nat" where
  "exit_status r = (case r of Ret oc \<Rightarrow> oc_code oc | Panic \<Rightarrow> 101)"

abbreviation exits :: "fsys \<Rightarrow> nat \<Rightarrow> outcome run option" where
  "exits fs c \<equiv> Some (Ret \<lparr>oc_fs = fs, oc_stdout = [], oc_code = c\<rparr>)"

definition main_serve :: "ext \<Rightarrow> 'p world \<Rightarrow> string list \<Rightarrow> fsys \<Rightarrow> outcome run option" where
  "main_serve X w args fs =
     (let o1 = opt_loop serve_opt args serve_defaults;
          (fs, fabric) = (if fc_enabled (so_fabric o1) then
                            (case fabric_open X (so_dir o1) (so_fabric o1) (w_clock w) fs of
                               (fs, st) \<Rightarrow> (fs, Some st))
                          else (fs, None));
          (fs, pf) = (case so_pidfile o1 of
                        Some p \<Rightarrow> write_pidfile (w_dbg w) (w_pid w) p fs
                      | None \<Rightarrow> (fs, Inr ())) in
      case pf of
        Inl e \<Rightarrow> exits fs 1
      | Inr _ \<Rightarrow>
          (case serve (w_platform w) (w_os_error w) (w_bind w (so_addr o1)) (w_turns w) (w_start w) (w_now w) of
             None \<Rightarrow> None
           | Some r \<Rightarrow>
               let nd = \<lparr>nd_fs = fs, nd_limiter = rl_new (sc_put_rate (so_cfg o1)), nd_fabric = fabric\<rparr>;
                   served = nd_fs (serve_requests X (so_dir o1) (so_cfg o1) (w_requests w) nd);
                   cleared = (\<lambda>fs. case so_pidfile o1 of Some p \<Rightarrow> fs_remove p fs | None \<Rightarrow> fs) in
               (case r of
                  Killed sig \<Rightarrow> exits served (128 + sig)
                | Failed _ \<Rightarrow> exits (cleared fs) 1
                | Drained _ _ \<Rightarrow> exits (cleared served) 0)))"

definition main_fetch :: "ext \<Rightarrow> 'p world \<Rightarrow> string list \<Rightarrow> fsys \<Rightarrow> outcome run option" where
  "main_fetch X w args fs =
     (let o1 = opt_loop fetch_opt args \<lparr>fe_addr = [], fe_cid = [], fe_out = None\<rparr> in
      if fe_addr o1 = [] \<or> fe_cid o1 = [] then exits fs 2
      else
        (case fetch X (w_nets w 0) (fe_addr o1) (fe_cid o1) (fe_out o1) fs of
           (fs, Panic) \<Rightarrow> Some Panic
         | (fs, Ret (Inr _)) \<Rightarrow> exits fs 0
         | (fs, Ret (Inl _)) \<Rightarrow> exits fs 1))"

definition main_fabric :: "ext \<Rightarrow> 'p world \<Rightarrow> string list \<Rightarrow> fsys \<Rightarrow> outcome run option" where
  "main_fabric X w args fs =
     (let o1 = opt_loop fabric_opt args fabric_defaults in
      if fo_addr o1 = [] \<or> fo_sub o1 = [] \<or> fo_handle o1 = [] then exits fs 2
      else
        (case fabric_pub X (w_nets w 0) o1 of
           (out, Inr _) \<Rightarrow> Some (Ret \<lparr>oc_fs = fs, oc_stdout = out, oc_code = 0\<rparr>)
         | (out, Inl _) \<Rightarrow> Some (Ret \<lparr>oc_fs = fs, oc_stdout = out, oc_code = 1\<rparr>)))"

definition main_sync :: "ext \<Rightarrow> 'p world \<Rightarrow> string list \<Rightarrow> fsys \<Rightarrow> outcome run option" where
  "main_sync X w args fs =
     (let o1 = opt_loop sync_opt args \<lparr>sy_addr = [], sy_dir = ''.'', sy_token = []\<rparr> in
      if sy_addr o1 = [] then exits fs 2
      else
        (case sync X (w_nets w 0) (sy_addr o1) (sy_dir o1) fs of
           (fs, Panic) \<Rightarrow> Some Panic
         | (fs, Ret (Inr _)) \<Rightarrow> exits fs 0
         | (fs, Ret (Inl _)) \<Rightarrow> exits fs 1))"

definition main_push :: "ext \<Rightarrow> 'p world \<Rightarrow> string list \<Rightarrow> fsys \<Rightarrow> outcome run option" where
  "main_push X w args fs =
     (let o1 = opt_loop push_opt args \<lparr>sy_addr = [], sy_dir = ''.'', sy_token = []\<rparr> in
      if sy_addr o1 = [] then exits fs 2
      else
        (case push X (w_nets w 0) (sy_addr o1) (sy_dir o1) (sy_token o1) fs of
           Panic \<Rightarrow> Some Panic
         | Ret (Inr _) \<Rightarrow> exits fs 0
         | Ret (Inl _) \<Rightarrow> exits fs 1))"

definition main_peers :: "string list \<Rightarrow> fsys \<Rightarrow> outcome run option" where
  "main_peers args fs =
     (let o1 = opt_loop peers_opt args \<lparr>pe_dir = ''.'', pe_op = [], pe_addr = []\<rparr>;
          code = (\<lambda>(fs, r). exits fs (case r of Inr _ \<Rightarrow> 0 | Inl _ \<Rightarrow> 1)) in
      if pe_op o1 = ''add'' \<and> pe_addr o1 \<noteq> [] then code (peers_add (pe_dir o1) (pe_addr o1) fs)
      else if pe_op o1 = ''remove'' \<and> pe_addr o1 \<noteq> [] then code (peers_remove (pe_dir o1) (pe_addr o1) fs)
      else if pe_op o1 = ''list'' then
        Some (Ret \<lparr>oc_fs = fs, oc_stdout = peers_list (pe_dir o1) fs, oc_code = 0\<rparr>)
      else exits fs 2)"

definition main_sync_loop :: "ext \<Rightarrow> 'p world \<Rightarrow> string list \<Rightarrow> fsys \<Rightarrow> outcome run option" where
  "main_sync_loop X w args fs =
     (let o1 = opt_loop loop_opt args \<lparr>lo_dir = ''.'', lo_interval = 30, lo_once = False\<rparr> in
      case sync_loop X (w_nets w) (lo_dir o1) (lo_once o1) fs of
        None \<Rightarrow> None
      | Some (fs, Panic) \<Rightarrow> Some Panic
      | Some (fs, Ret (Inr (_, failed, _))) \<Rightarrow> exits fs (if lo_once o1 \<and> failed > 0 then 1 else 0)
      | Some (fs, Ret (Inl _)) \<Rightarrow> exits fs 1)"

text \<open>\<open>args\<close> includes the program name; \<open>None\<close> is a process that does not end.\<close>

definition main :: "ext \<Rightarrow> 'p world \<Rightarrow> string list \<Rightarrow> fsys \<Rightarrow> outcome run option" where
  "main X w args fs =
     (case args of
        _ # cmd # rest \<Rightarrow>
          if cmd = ''serve'' then main_serve X w rest fs
          else if cmd = ''fetch'' then main_fetch X w rest fs
          else if cmd = ''fabric'' then main_fabric X w rest fs
          else if cmd = ''sync'' then main_sync X w rest fs
          else if cmd = ''push'' then main_push X w rest fs
          else if cmd = ''peers'' then main_peers rest fs
          else if cmd = ''sync-loop'' then main_sync_loop X w rest fs
          else exits fs 2
      | _ \<Rightarrow> exits fs 2)"

end
