(* ===== verification/Client_Props.thy ===== *)
theory Client_Props
  imports Honest Peers_Facts Cli Server_Props
begin

text \<open>
  The properties of the clients, alone against any peer and composed with a node of this
  program, of the peers list, of the daemon's life and of the command line.
\<close>

section \<open>A node to talk to\<close>

definition to_node :: "ext \<Rightarrow> node \<Rightarrow> node stream" where
  "to_node X nd = \<lparr> s_in = [], s_out = [], s_broken = False, s_peer = nd,
     s_react = node_reacts X ''d'' ''ip'' \<lparr> sc_max_store_bytes = 0, sc_put_rate = 0, sc_token = None \<rparr> (\<lambda>_. 1000) \<rparr>"

lemma to_node_served:
  "served_by X ''d'' ''ip'' \<lparr> sc_max_store_bytes = 0, sc_put_rate = 0, sc_token = None \<rparr> (\<lambda>_. 1000) nd (to_node X nd)"
  by (simp add: served_by_def to_node_def)

lemma body_fs_full: "full_store demo_ext ''d'' body_fs [(0, sha256 demo_ext demo_body)]"
  by (simp add: full_store_def body_fs_def no_faults_def demo_cid_def demo_body_def MAX_BODY_BYTES_def)

section \<open>Pull\<close>

text \<open>
  C2. A pull from a node of this program converges: whatever the client has already, after
  one sync it holds, under the right name and with the right hash, every body of the peer's
  chain (up to the cap of 2000), nothing it had is changed, and the counters add up.
\<close>

theorem sync_converges:
  assumes "hex_law X" "served_by X dir ip cfg clk nd s" "hold_ok X dir (nd_fs nd)" "hold_ok X cdir fs"
    "chain_view dir (nd_fs nd) = Ret chain" "length chain \<le> 2000" "full_store X dir (nd_fs nd) chain"
    "writes_ok fs" "\<forall>p. \<not> flt_stat (fs_faults fs) p"
  shows "\<exists>s' fs' f h. sync_stream X s cdir fs = (s', fs', Ret (Inr (word_of_nat (length chain), f, h))) \<and>
    f + h = length chain \<and>
    (\<forall>(n, c)\<in>set chain. \<exists>g0. fs_lookup fs' (body_path cdir (hex_encode X c)) = Some g0 \<and> sha256 X (f_data g0) = c) \<and>
    (\<forall>p v. fs_lookup fs p = Some v \<longrightarrow> fs_lookup fs' p = Some v)"
proof -
  from sync_served [OF assms(1,2,3,5,6,7,8,9), of cdir] obtain s' fs' f h where
    run: "sync_stream X s cdir fs = (s', fs', Ret (Inr (word_of_nat (length chain), f, h)))" "f + h = length chain"
    and there: "\<forall>(n, c)\<in>set chain. fs_lookup fs' (body_path cdir (hex_encode X c)) \<noteq> None" by metis
  have ok: "hold_ok X cdir fs'" using sync_stream_hold_ok [OF run(1) assms(8,4)] .
  have "\<exists>g0. fs_lookup fs' (body_path cdir (hex_encode X c)) = Some g0 \<and> sha256 X (f_data g0) = c"
    if "(n, c) \<in> set chain" for n c
  proof -
    from there that obtain g0 where g0: "fs_lookup fs' (body_path cdir (hex_encode X c)) = Some g0" by fastforce
    have "length c = 32" using chain_view_id_length [OF assms(5)] that by blast
    moreover have "hex_decode (hex_encode X c) = Ret (Some c)" using assms(1) by (simp add: hex_law_encode hex_decode_hexs)
    ultimately show ?thesis using hold_okD [OF ok g0] g0 by blast
  qed
  moreover have "\<forall>p v. fs_lookup fs p = Some v \<longrightarrow> fs_lookup fs' p = Some v"
    using sync_stream_mono [OF run(1)] assms(9) by blast
  ultimately show ?thesis using run by blast
qed

theorem sync_converges_witness:
  "\<exists>s' fs' f h. sync_stream demo_ext (to_node demo_ext store_node) ''c'' empty_fs =
      (s', fs', Ret (Inr (word_of_nat (length [(0 :: u64, sha256 demo_ext demo_body)]), f, h))) \<and>
    f + h = length [(0 :: u64, sha256 demo_ext demo_body)] \<and>
    (\<forall>(n, c)\<in>set [(0 :: u64, sha256 demo_ext demo_body)].
       \<exists>g0. fs_lookup fs' (body_path ''c'' (hex_encode demo_ext c)) = Some g0 \<and> sha256 demo_ext (f_data g0) = c) \<and>
    (\<forall>p v. fs_lookup empty_fs p = Some v \<longrightarrow> fs_lookup fs' p = Some v)"
  by (rule sync_converges [OF hex_law_demo to_node_served _ empty_fs_ok])
    (simp_all add: store_node_def body_fs_ok body_fs_chain body_fs_full writes_ok_def empty_fs_def no_faults_def
      del: demo_ext_simps)

lemma sync_stream_new_files:
  assumes "sync_stream X s dir fs = (s', fs', r)" "writes_ok fs"
  shows "fs_lookup fs' p = fs_lookup fs p \<or> (\<exists>blid g0. p = body_path dir blid \<and> fs_lookup fs' p = Some g0 \<and>
    hex_decode blid = Ret (Some (sha256 X (f_data g0))))"
  using assms(1)
proof (cases rule: sync_stream_cases)
  case (ran s1 height entries er)
  let ?Inv = "\<lambda>g. writes_ok g \<and> (\<forall>p. fs_lookup g p = fs_lookup fs p \<or>
    (\<exists>blid g0. p = body_path dir blid \<and> fs_lookup g p = Some g0 \<and> hex_decode blid = Ret (Some (sha256 X (f_data g0)))))"
  have "?Inv fs'"
  proof (rule sync_entries_invariant [where Inv = ?Inv, OF _ ran(2)])
    fix s :: "'a stream" and i entry f h g s2 g2 n
    assume inv: "?Inv g" and e: "sync_entry X s dir i entry f h g = (s2, g2, n)"
    have w: "writes_ok g2" using inv sync_entry_faults [OF e] by (simp add: writes_ok_def)
    from e show "?Inv g2"
    proof (cases rule: sync_entry_cases)
      case nothing
      then show ?thesis using inv by simp
    next
      case (wrote blid body wr)
      have "g2 = fs_put (body_path dir blid) body g"
        using wrote(5) inv by (auto simp: fs_write_def writes_ok_def)
      then show ?thesis using w inv wrote(1) by (auto split: if_splits)
    qed
  qed (use assms(2) in simp)
  then show ?thesis by blast
qed simp

text \<open>
  C15. A pull from any peer, however it misbehaves, is safe: the store keeps its integrity,
  no file is changed, every new file is a verified body under the id that names it, and a
  completed pull fetched at most 2000 bodies.
\<close>

theorem sync_safe:
  assumes "sync_stream X s dir fs = (s', fs', r)" "writes_ok fs" "hold_ok X dir fs" "\<forall>p. \<not> flt_stat (fs_faults fs) p"
  shows "hold_ok X dir fs' \<and>
    (\<forall>p v. fs_lookup fs p = Some v \<longrightarrow> fs_lookup fs' p = Some v) \<and>
    (\<forall>p. fs_lookup fs' p = fs_lookup fs p \<or> (\<exists>blid g0. p = body_path dir blid \<and> fs_lookup fs' p = Some g0 \<and>
       hex_decode blid = Ret (Some (sha256 X (f_data g0))))) \<and>
    (\<forall>height f h. r = Ret (Inr (height, f, h)) \<longrightarrow> f \<le> 2000)"
proof (intro conjI)
  show "hold_ok X dir fs'" using sync_stream_hold_ok [OF assms(1,2,3)] .
  show "\<forall>p v. fs_lookup fs p = Some v \<longrightarrow> fs_lookup fs' p = Some v"
    using sync_stream_mono [OF assms(1)] assms(4) by blast
  show "\<forall>p. fs_lookup fs' p = fs_lookup fs p \<or> (\<exists>blid g0. p = body_path dir blid \<and> fs_lookup fs' p = Some g0 \<and>
       hex_decode blid = Ret (Some (sha256 X (f_data g0))))"
    using sync_stream_new_files [OF assms(1,2)] by blast
  show "\<forall>height f h. r = Ret (Inr (height, f, h)) \<longrightarrow> f \<le> 2000"
    using assms(1)
  proof (cases rule: sync_stream_cases)
    case (ran s1 height entries er)
    then show ?thesis using sync_entries_counts [of X s1 dir 0 entries 0 0 fs s' fs']
      by (force split: run.splits sum.splits)
  qed simp
qed

theorem sync_safe_witness:
  "hold_ok demo_ext ''d'' (fst (snd (sync_stream demo_ext (one_frame [0xFF]) ''d'' body_fs))) \<and>
    fs_lookup (fst (snd (sync_stream demo_ext (one_frame [0xFF]) ''d'' body_fs))) (body_path ''d'' demo_cid) =
      Some \<lparr>f_data = demo_body, f_mtime = 3\<rparr>"
proof -
  have "hold_ok demo_ext ''d'' body_fs" "writes_ok body_fs" "\<forall>p. \<not> flt_stat (fs_faults body_fs) p"
    "fs_lookup body_fs (body_path ''d'' demo_cid) = Some \<lparr>f_data = demo_body, f_mtime = 3\<rparr>"
    by (simp_all only: body_fs_ok) (simp_all add: writes_ok_def body_fs_def no_faults_def)
  then show ?thesis
    using sync_safe [OF triple [of "sync_stream demo_ext (one_frame [0xFF]) ''d'' body_fs"]] by blast
qed

section \<open>Fetch\<close>

text \<open>
  C36. A fetch never trusts its peer: the one-shot client writes nothing, or it writes a body
  whose hash is the requested id to the requested path; it reports success only if it had no
  output path or this write succeeded.
\<close>

theorem fetch_writes_verified:
  "case fetch X net addr cid out fs of (fs', r) \<Rightarrow>
     (fs' = fs \<and> (if r = Ret (Inr ()) then out = None else True)) \<or>
     (\<exists>path body. out = Some path \<and> fs' = fst (fs_write path body fs) \<and>
        hex_decode cid = Ret (Some (sha256 X body)) \<and> length (sha256 X body) = 32 \<and>
        (snd (fs_write path body fs) = Inr () \<longleftrightarrow> r = Ret (Inr ())))"
proof (cases "net addr")
  case (Inr s)
  obtain s' fs' r where f: "fetch_stream X s cid out fs = (s', fs', r)" by (rule prod_cases3)
  then have "fetch X net addr cid out fs = (fs', r)" by (simp add: fetch_def Inr)
  moreover from f have "(fs' = fs \<and> (if r = Ret (Inr ()) then out = None else True)) \<or>
     (\<exists>path body. out = Some path \<and> fs' = fst (fs_write path body fs) \<and>
        hex_decode cid = Ret (Some (sha256 X body)) \<and> length (sha256 X body) = 32 \<and>
        (snd (fs_write path body fs) = Inr () \<longleftrightarrow> r = Ret (Inr ())))"
  proof (cases rule: fetch_stream_cases)
    case (wrote path body w)
    then show ?thesis by (intro disjI2 exI [of _ path] exI [of _ body]) auto
  qed auto
  ultimately show ?thesis by simp
qed (simp add: fetch_def)

text \<open>serde_json prints an object that parses back to it and begins with a brace.\<close>

definition json_law :: "ext \<Rightarrow> json \<Rightarrow> bool" where
  "json_law X v \<longleftrightarrow> json_from_slice X (str_bytes (json_to_string X v)) = Some v \<and>
     (\<exists>rest. str_bytes (json_to_string X v) = 0x7B # rest)"

lemma exchange_served:
  assumes s: "served_by X dir ip cfg clk nd s" and req: "sendable p" "sendable q"
    and srv: "serve_frame X (conn []) p dir ip cfg clk nd = (fst (write_frame (conn []) q), nd', r)"
  obtains s1 s2 where "write_frame s p = (s1, Inr ())" "read_frame s1 = (s2, Inr q)" "served_by X dir ip cfg clk nd' s2"
proof -
  let ?s1 = "s\<lparr>s_out := s_out s @ frame_bytes p, s_peer := nd', s_in := s_in s @ frame_bytes q\<rparr>"
  have "s_react s (s_peer s) (frame_bytes p) = (nd', frame_bytes q)"
    using node_reacts_frame [OF req(1) srv] s by (simp add: served_by_def)
  moreover have "\<not> s_broken s" using s by (simp add: served_by_def)
  ultimately have w: "write_frame s p = (?s1, Inr ())" by (intro write_frame_ok)
  have "s_in ?s1 = frame_bytes q @ []" using s by (simp add: served_by_def)
  with req(2) have "read_frame ?s1 = (?s1\<lparr>s_in := []\<rparr>, Inr q)" by (rule read_frame_frame_bytes)
  with w show thesis by (rule that) (use s in \<open>simp add: served_by_def\<close>)
qed

text \<open>
  C37. Fetching from a node of this program delivers: a body that the node serves under an
  id arrives at the output path, unchanged, unless the answer frame as a whole happens to
  hash to the id.
\<close>

theorem fetch_delivers:
  assumes "json_law X (Object [(''cid'', String cid)])" "served_by X dir ip cfg clk nd s"
    "serve_body X dir cid (nd_fs nd) = Ret (Inr body)"
    "length (json_to_string X (Object [(''cid'', String cid)])) \<le> MAX_FRAME" "length body < MAX_FRAME"
    "sha256 X (frame_ok body) \<noteq> sha256 X body" "flt_write (fs_faults fs) path = None"
  shows "\<exists>s'. fetch_stream X s cid (Some path) fs = (s', fs_put path body fs, Ret (Inr ())) \<and>
    served_by X dir ip cfg clk nd s'"
proof -
  let ?p = "str_bytes (json_to_string X (Object [(''cid'', String cid)]))"
  from assms(1) obtain rest where p: "?p = 0x7B # rest" by (auto simp: json_law_def)
  have j: "json_from_slice X (0x7B # rest) = Some (Object [(''cid'', String cid)])"
    using assms(1) unfolding json_law_def p by simp
  have "serve_frame X (conn []) ?p dir ip cfg clk nd = (fst (write_frame (conn []) (frame_ok body)), nd, Ret ())"
    unfolding p serve_frame_json by (simp add: serve_json_def j assms(3))
  moreover have "sendable ?p"
  proof -
    have "length ?p \<le> MAX_FRAME" using assms(4) by simp
    then show ?thesis by (simp add: sendable_def p)
  qed
  moreover have "sendable (frame_ok body)" using assms(5) by (simp add: sendable_def frame_ok_def)
  ultimately obtain s1 s2 where x: "write_frame s ?p = (s1, Inr ())" "read_frame s1 = (s2, Inr (frame_ok body))"
    "served_by X dir ip cfg clk nd s2" using exchange_served [OF assms(2)] by metis
  have "parse_fetch_response X (frame_ok body) cid = Ret (Inr body)"
    using assms(3,6) by (simp add: serve_body_Ok parse_fetch_Ok frame_ok_def)
  then have "fetch_stream X s cid (Some path) fs = (s2, fs_put path body fs, Ret (Inr ()))"
    by (simp add: fetch_stream_def x(1,2) fs_write_def assms(7))
  then show ?thesis using x(3) by blast
qed

definition cid_ext :: ext where
  "cid_ext = demo_ext\<lparr>json_from_slice := \<lambda>_. Some (Object [(''cid'', String demo_cid)])\<rparr>"

theorem fetch_delivers_witness:
  "\<exists>s'. fetch_stream cid_ext (to_node cid_ext store_node) demo_cid (Some ''out'') empty_fs =
      (s', fs_put ''out'' demo_body empty_fs, Ret (Inr ())) \<and>
    served_by cid_ext ''d'' ''ip'' \<lparr> sc_max_store_bytes = 0, sc_put_rate = 0, sc_token = None \<rparr> (\<lambda>_. 1000) store_node s'"
proof (rule fetch_delivers [OF _ to_node_served])
  show "json_law cid_ext (Object [(''cid'', String demo_cid)])"
    by (simp add: json_law_def cid_ext_def demo_ext_def str_bytes_def byte_of_def)
  show "serve_body cid_ext ''d'' demo_cid (nd_fs store_node) = Ret (Inr demo_body)"
    using demo_cid_decode
    by (simp add: serve_body_Ok cid_ext_def store_node_def fs_read_def body_fs_def no_faults_def)
qed (simp_all add: cid_ext_def demo_ext_def MAX_FRAME_def demo_body_def frame_ok_def STATUS_OK_def empty_fs_def no_faults_def,
    simp add: numeral_eq_Suc)

section \<open>The peers list\<close>

text \<open>
  C38. Editing the peers list: a new peer is a host, a colon and a port between 1 and 65535,
  it is appended to the list as read back from the file, a known one changes nothing, and
  removing takes out exactly the address. An address that begins with a hash is the
  exception: the command reports it as added, but it is read as a comment.
\<close>

theorem peers_edit:
  assumes "valid_str addr" "peers_readable dir fs"
  shows "distinct (peers_list dir fs) \<and>
    (\<forall>fs'. peers_add dir addr fs = (fs', Inr True) \<longrightarrow>
       addr \<notin> set (peers_list dir fs) \<and>
       peers_list dir fs' = peers_list dir fs @ (if hd addr = CHR ''#'' then [] else [addr]) \<and>
       (\<exists>host port n. addr = host @ CHR '':'' # port \<and> host \<noteq> [] \<and> CHR '':'' \<notin> set port \<and>
          parse_uint 16 port = Some n \<and> 1 \<le> n \<and> n \<le> 65535)) \<and>
    (\<forall>fs'. peers_add dir addr fs = (fs', Inr False) \<longrightarrow> fs' = fs \<and> addr \<in> set (peers_list dir fs)) \<and>
    (\<forall>fs' b. peers_remove dir addr fs = (fs', Inr b) \<longrightarrow>
       peers_list dir fs' = filter (\<lambda>p. p \<noteq> addr) (peers_list dir fs))"
proof (intro conjI allI impI)
  show "distinct (peers_list dir fs)" using peers_list_ok by (simp add: entries_ok_def)
next
  fix fs' assume a: "peers_add dir addr fs = (fs', Inr True)"
  show "peers_list dir fs' = peers_list dir fs @ (if hd addr = CHR ''#'' then [] else [addr])"
    by (rule peers_add_list [OF a assms])
  from peers_add_cases [OF a] obtain u where v: "validate_peer_addr addr = Inr u"
    and n: "addr \<notin> set (peers_list dir fs)" by auto
  show "addr \<notin> set (peers_list dir fs)" by (rule n)
  show "\<exists>host port n. addr = host @ CHR '':'' # port \<and> host \<noteq> [] \<and> CHR '':'' \<notin> set port \<and>
          parse_uint 16 port = Some n \<and> 1 \<le> n \<and> n \<le> 65535"
    using v by (rule validate_peer_addr_shape) blast
next
  fix fs' assume "peers_add dir addr fs = (fs', Inr False)"
  from peers_add_cases [OF this] show "fs' = fs" "addr \<in> set (peers_list dir fs)" by auto
next
  fix fs' b assume "peers_remove dir addr fs = (fs', Inr b)"
  then show "peers_list dir fs' = filter (\<lambda>p. p \<noteq> addr) (peers_list dir fs)" by (rule peers_remove_list) (rule assms)
qed

lemma empty_fs_peers: "peers_list ''d'' empty_fs = []" "peers_readable ''d'' empty_fs"
  by (simp_all add: peers_list_def fs_read_to_string_def fs_read_def empty_fs_def peers_readable_def no_faults_def)

theorem peers_edit_witness:
  "\<exists>fs'. peers_add ''d'' ''h:1'' empty_fs = (fs', Inr True) \<and> peers_list ''d'' fs' = [''h:1'']"
proof -
  have "validate_peer_addr ''h:1'' = Inr ()"
  proof -
    have "\<not> has_whitespace ''h:1''"
      by (simp add: has_whitespace_def ws_strs_def ws_seqs_def bytes_str_def starts_with_def) code_simp
    then show ?thesis
      by (simp add: validate_peer_addr_def rsplit_colon_def parse_uint_def from_str_radix_def to_digit_def)
  qed
  then have "peers_add ''d'' ''h:1'' empty_fs =
      (fs_put (peers_path ''d'') (str_bytes (peers_body [''h:1''])) empty_fs, Inr True)"
    using empty_fs_peers(1)
    by (simp add: peers_add_def Let_def peers_write_def fs_create_dir_all_def fs_write_def empty_fs_def no_faults_def)
  moreover have "valid_str ''h:1''" by (simp add: literal_valid)
  ultimately show ?thesis using peers_edit [of "''h:1''" "''d''" empty_fs] empty_fs_peers by auto
qed

end
