(* ===== verification/Cli_Props.thy ===== *)
theory Cli_Props
  imports Cli Store_Props
begin

text \<open>
  The properties of the daemon's life and of the command line: what ends the accept loop and
  the drain, the exit codes, and the loop that never ends by itself.
\<close>

section \<open>The daemon\<close>

definition posix_ok :: platform where
  "posix_ok = Unix (\<lambda>_. 0)"

lemma serve_bound:
  assumes "install_shutdown_handler pf err = (handler, v)" "list_all (\<lambda>t. list_all (stops handler) (fst t)) turns"
  shows "serve pf err (Inr ()) turns start now =
     (if \<exists>t\<in>set turns. fst t \<noteq> [] then
        (let conns = conns_of (takeWhile (\<lambda>t. fst t = []) turns) in
         map_option (Drained conns) (drain_wait now (start + 5000) (length conns) 0))
      else None)"
  using assms by (simp add: serve_def accept_loop_turns Let_def SHUTDOWN_DRAIN_SECS_def)

text \<open>
  C39. Shutdown: with the handlers installed and no signal sent but those they cover (on Unix
  SIGTERM and SIGINT, on Windows every console event), the daemon stops
  exactly when one arrives, having handed every connection accepted before to a thread, in
  order. The drain is bounded but late: with no connection it does not wait, and after even
  one connection, finished or not, it runs to its deadline of five seconds, because nothing
  lowers the in-flight counter.
\<close>

theorem serve_drain:
  assumes "install_shutdown_handler pf err = (handler, Inr ())" "start + 5000 \<le> now k"
    "\<forall>t\<in>set turns. set (fst t) \<subseteq> stop_signals pf"
  shows "(serve pf err (Inr ()) turns start now = None \<longleftrightarrow> \<not> (\<exists>t\<in>set turns. fst t \<noteq> [])) \<and>
    (\<forall>r. serve pf err (Inr ()) turns start now = Some r \<longrightarrow>
       (\<exists>polls. r = Drained (conns_of (takeWhile (\<lambda>t. fst t = []) turns)) polls \<and>
          (if conns_of (takeWhile (\<lambda>t. fst t = []) turns) = [] then polls = 0 else start + 5000 \<le> now polls)))"
proof (intro conjI allI impI)
  let ?conns = "conns_of (takeWhile (\<lambda>t. fst t = []) turns)"
  have "list_all (\<lambda>t. list_all (stops handler) (fst t)) turns"
    using assms(3) install_stops [OF assms(1)] by (auto simp: list_all_iff)
  note run = serve_bound [OF assms(1) this, of start now]
  have "\<exists>p. drain_wait now (start + 5000) n 0 = Some p" for n
    by (rule drain_wait_ends [where k = k]) (use assms(2) in simp_all)
  then show "serve pf err (Inr ()) turns start now = None \<longleftrightarrow> \<not> (\<exists>t\<in>set turns. fst t \<noteq> [])"
    by (simp add: run Let_def) (metis not_Some_eq)
  fix r assume "serve pf err (Inr ()) turns start now = Some r"
  then obtain polls where d: "r = Drained ?conns polls" "drain_wait now (start + 5000) (length ?conns) 0 = Some polls"
    by (auto simp: run Let_def split: if_splits)
  show "\<exists>polls. r = Drained ?conns polls \<and> (if ?conns = [] then polls = 0 else start + 5000 \<le> now polls)"
    using d(1) drain_wait_late [OF d(2)] d(2) drain_wait_idle [of now "start + 5000" 0]
    by (intro exI [of _ polls]) auto
qed

theorem serve_drain_witness:
  "\<exists>polls. serve posix_ok [] (Inr ()) [([], Conn ()), ([], WouldBlock), ([SIGTERM], WouldBlock)] 100 (\<lambda>i. 100 + 100 * i) =
      Some (Drained [()] polls) \<and> 50 \<le> polls"
proof -
  let ?t = "[([], Conn ()), ([], WouldBlock), ([SIGTERM], WouldBlock)]" and ?now = "\<lambda>i :: nat. 100 + 100 * i"
  have inst: "install_shutdown_handler (Unix (\<lambda>_. 0)) [] = (\<lambda>sig flag. if sig \<in> set [SIGTERM, SIGINT] then Some (on_shutdown_signal sig flag) else None, Inr ())"
    by (simp add: install_shutdown_handler_def)
  have late: "100 + 5000 \<le> ?now 50" by simp
  have sigs: "\<forall>t\<in>set ?t. set (fst t) \<subseteq> stop_signals (Unix (\<lambda>_. 0))" by (simp add: stop_signals_def)
  note p = serve_drain [of "Unix (\<lambda>_. 0)" "[]" _ 100 ?now, OF inst late sigs, folded posix_ok_def]
  obtain r where r: "serve posix_ok [] (Inr ()) ?t 100 ?now = Some r"
    using p by (cases "serve posix_ok [] (Inr ()) ?t 100 ?now") auto
  then show ?thesis using p by (auto simp: List.map_filter_simps)
qed

section \<open>The command line\<close>


abbreviation code_ok :: "fsys \<Rightarrow> outcome \<Rightarrow> bool" where
  "code_ok fs oc \<equiv> oc_code oc \<le> 2 \<and> (oc_code oc = 2 \<longrightarrow> oc_fs oc = fs \<and> oc_stdout oc = [])"












lemma exits_code: "exits fs 2 = Some (Ret oc) \<Longrightarrow> code_ok fs oc"
  by auto







end
