(* ===== verification/Converge.thy ===== *)
theory Converge
  imports Honest Peers
begin

text \<open>
  A convergence pass between stores: what a pull leaves behind is again a store that a push
  can send from, so the two directions compose for one peer over one connection
  (\<open>sync_peer\<close>). The passes over all peers are in \<open>World\<close>.
\<close>

section \<open>The chain of a store that has grown\<close>

text \<open>The id a directory entry is listed under, without its time.\<close>

definition entry_id :: "string \<Rightarrow> bytes option run" where
  "entry_id raw_name =
     (let name = from_utf8_lossy (str_bytes raw_name) in
      if length name \<noteq> 64 + 5 \<or> \<not> ends_with name ''.body'' then Ret None
      else run_bind (str_slice name 0 64) (\<lambda>h.
        and_then (hex_decode h) (\<lambda>c. if length c \<noteq> 32 then Ret None else Ret (Some c))))"

lemma chain_entry_id:
  "chain_entry dir fs n =
     (case entry_id n of Panic \<Rightarrow> Panic | Ret None \<Rightarrow> Ret None
      | Ret (Some c) \<Rightarrow> Ret (Some (case fs_metadata (file_path dir n) fs of None \<Rightarrow> 0 | Some f \<Rightarrow> f_mtime f, c)))"
proof -
  let ?m = "from_utf8_lossy (str_bytes n)"
  show ?thesis
  proof (cases "str_slice ?m 0 64")
    case h: (Ret h)
    show ?thesis
    proof (cases "hex_decode h")
      case (Ret e)
      with h show ?thesis by (cases e) (simp_all add: chain_entry_def entry_id_def Let_def)
    qed (use h in \<open>simp add: chain_entry_def entry_id_def Let_def\<close>)
  qed (simp add: chain_entry_def entry_id_def Let_def)
qed

abbreviation opt_id :: "string \<Rightarrow> bytes option" where
  "opt_id n \<equiv> (case entry_id n of Ret e \<Rightarrow> e | Panic \<Rightarrow> None)"

lemma chain_entries_ids:
  "chain_entries dir fs ns = Ret es \<Longrightarrow> list_all (\<lambda>n. entry_id n \<noteq> Panic) ns \<and> map snd es = List.map_filter opt_id ns"
proof (induction ns arbitrary: es)
  case (Cons n ns)
  then show ?case
    by (auto simp: run_bind_Ret_conv chain_entry_id List.map_filter_simps split: run.splits option.splits)
qed (simp add: List.map_filter_simps)

lemma chain_entries_run: "list_all (\<lambda>n. entry_id n \<noteq> Panic) ns \<Longrightarrow> \<exists>es. chain_entries dir fs ns = Ret es"
proof (induction ns)
  case (Cons n ns)
  then obtain es where "chain_entries dir fs ns = Ret es" by auto
  with Cons.prems show ?case by (auto simp: chain_entry_id split: run.split option.split)
qed simp

lemma chain_view_ids:
  assumes "fs_read_dir dir fs = Some ns"
  shows "chain_view dir fs = Ret xs \<Longrightarrow> list_all (\<lambda>n. entry_id n \<noteq> Panic) ns \<and>
      length xs = length (List.map_filter opt_id ns) \<and> snd ` set xs = set (List.map_filter opt_id ns)"
    "list_all (\<lambda>n. entry_id n \<noteq> Panic) ns \<Longrightarrow> \<exists>xs. chain_view dir fs = Ret xs"
proof -
  assume "chain_view dir fs = Ret xs"
  then obtain es where es: "chain_entries dir fs ns = Ret es"
    and xs: "xs = map (\<lambda>(i, (_, c)). (word_of_nat i, c)) (enumerate 0 (sort_key fst es))"
    using assms by (auto simp: chain_view_def run_bind_Ret_conv)
  have "map snd xs = map snd (sort_key fst es)" unfolding xs by (rule snd_chain_list)
  then have s: "snd ` set xs = snd ` set es" "length xs = length es"
    by (metis list.set_map set_sort, metis length_map length_sort)
  note ids = chain_entries_ids [OF es]
  then have "snd ` set es = set (List.map_filter opt_id ns)" "length es = length (List.map_filter opt_id ns)"
    by (metis list.set_map, metis length_map)
  then show "list_all (\<lambda>n. entry_id n \<noteq> Panic) ns \<and> length xs = length (List.map_filter opt_id ns) \<and>
      snd ` set xs = set (List.map_filter opt_id ns)" using s ids by simp
next
  assume "list_all (\<lambda>n. entry_id n \<noteq> Panic) ns"
  from chain_entries_run [OF this, of dir fs] show "\<exists>xs. chain_view dir fs = Ret xs"
    by (auto simp: chain_view_def assms)
qed

lemma entry_id_body: "length c = 32 \<Longrightarrow> entry_id (hexs c @ ''.body'') = Ret (Some c)"
  using chain_entry_body [OF hex_decode_hexs, of c "[]" "undefined"]
  by (auto simp: chain_entry_id split: run.splits option.splits)

lemma map_filter_append: "List.map_filter f (xs @ ys) = List.map_filter f xs @ List.map_filter f ys"
  by (simp add: List.map_filter_def)

lemma map_filter_length: "length (List.map_filter f xs) \<le> length xs"
  by (induction xs) (auto simp: List.map_filter_simps split: option.split)

text \<open>Appended bodies appear in the chain view; nothing disappears, nothing else appears.\<close>

lemma chain_view_append:
  assumes cv: "chain_view dir fs = Ret local" and rd: "\<not> flt_readdir (fs_faults fs) dir"
    and fs': "fs_files fs' = fs_files fs @ new" "fs_faults fs' = fs_faults fs"
    and new: "\<And>p f. (p, f) \<in> set new \<Longrightarrow> \<exists>c\<in>C. length c = 32 \<and> p = body_path dir (hexs c)"
  obtains local' where "chain_view dir fs' = Ret local'" "length local' \<le> length local + length new"
    "snd ` set local' \<subseteq> snd ` set local \<union> C" "snd ` set local \<subseteq> snd ` set local'"
proof -
  let ?name = "\<lambda>(p, f). entry_name dir p"
  define ms where "ms = List.map_filter ?name new"
  have ns: "fs_read_dir dir fs = Some (List.map_filter ?name (fs_files fs))"
    and ns': "fs_read_dir dir fs' = Some (List.map_filter ?name (fs_files fs) @ ms)"
    using rd by (simp_all add: fs_read_dir_def fs' map_filter_append ms_def)
  have m: "\<exists>c\<in>C. entry_id n = Ret (Some c)" if n: "n \<in> set ms" for n
  proof -
    from n obtain p f where pf: "(p, f) \<in> set new" "entry_name dir p = Some n"
      by (auto simp: ms_def mem_map_filter)
    from new [OF pf(1)] obtain c where c: "c \<in> C" "length c = 32" "p = body_path dir (hexs c)" by blast
    then have "n = hexs c @ ''.body''" using pf(2) by (simp add: entry_name_Some body_path_file_path)
    then show ?thesis using c entry_id_body by blast
  qed
  note old = chain_view_ids(1) [OF ns cv]
  have "list_all (\<lambda>n. entry_id n \<noteq> Panic) (List.map_filter ?name (fs_files fs) @ ms)"
    using old m by (force simp: list_all_iff)
  then obtain local' where l': "chain_view dir fs' = Ret local'" using chain_view_ids(2) [OF ns'] by blast
  note n' = chain_view_ids(1) [OF ns' l', unfolded map_filter_append]
  have "length (List.map_filter opt_id ms) \<le> length new"
    using map_filter_length [of opt_id ms] map_filter_length [of ?name new] by (simp add: ms_def)
  then have "length local' \<le> length local + length new" using n' old by simp
  moreover have "set (List.map_filter opt_id ms) \<subseteq> C" using m by (force simp: mem_map_filter)
  then have "snd ` set local' \<subseteq> snd ` set local \<union> C" "snd ` set local \<subseteq> snd ` set local'" using n' old by auto
  ultimately show thesis using that l' by blast
qed

section \<open>A store to pull into and push from\<close>

text \<open>
  A store with its integrity, on a disk without faults, whose chain view is \<open>local\<close> and whose
  bodies are stored under their lower case names.
\<close>

definition good_store :: "ext \<Rightarrow> path \<Rightarrow> fsys \<Rightarrow> (u64 \<times> bytes) list \<Rightarrow> bool" where
  "good_store X dir fs local \<longleftrightarrow> hold_ok X dir fs \<and> writes_ok fs \<and>
     (\<forall>p. \<not> flt_stat (fs_faults fs) p \<and> flt_read (fs_faults fs) p = None) \<and> \<not> flt_readdir (fs_faults fs) dir \<and>
     chain_view dir fs = Ret local \<and> full_store X dir fs local"

text \<open>A stream to a node that takes pushes and holds the bodies of its chain.\<close>

definition accepting :: "ext \<Rightarrow> path \<Rightarrow> node \<Rightarrow> node stream \<Rightarrow> (u64 \<times> bytes) list \<Rightarrow> bool" where
  "accepting X dir nd s chain \<longleftrightarrow> (\<exists>ip cfg clk. served_by X dir ip cfg clk nd s \<and> open_node dir cfg nd) \<and>
     hold_ok X dir (nd_fs nd) \<and> chain_view dir (nd_fs nd) = Ret chain \<and> full_store X dir (nd_fs nd) chain"

lemma good_store_pulled:
  assumes law: "hex_law X" and g: "good_store X dir fs local" and p: "pulled X dir chain n fs fs'"
    and ok: "hold_ok X dir fs'" and ids: "\<forall>(h, c)\<in>set chain. length c = 32"
    and there: "\<forall>(h, c)\<in>set chain. fs_lookup fs' (body_path dir (hex_encode X c)) \<noteq> None"
  obtains local' where "good_store X dir fs' local'" "length local' \<le> length local + n"
    "snd ` set local' = snd ` set local \<union> snd ` set chain"
proof -
  from p obtain new where new: "fs_files fs' = fs_files fs @ new" "length new \<le> n"
    and fl: "fs_faults fs' = fs_faults fs"
    and bodies: "\<And>q f. (q, f) \<in> set new \<Longrightarrow> f_data f \<noteq> [] \<and> length (f_data f) \<le> MAX_BODY_BYTES \<and>
      (\<exists>h c. (h, c) \<in> set chain \<and> q = body_path dir (hex_encode X c))"
    unfolding pulled_def by blast
  have cv: "chain_view dir fs = Ret local" and rd: "\<not> flt_readdir (fs_faults fs) dir"
    using g by (simp_all add: good_store_def)
  have named: "\<exists>c\<in>snd ` set chain. length c = 32 \<and> q = body_path dir (hexs c)" if "(q, f) \<in> set new" for q f
    using bodies [OF that] ids law by (force simp: hex_law_encode)
  obtain local' where l': "chain_view dir fs' = Ret local'"
    "length local' \<le> length local + length new" "snd ` set local' \<subseteq> snd ` set local \<union> snd ` set chain"
    "snd ` set local \<subseteq> snd ` set local'"
    by (rule chain_view_append [OF cv rd new(1) fl, of "snd ` set chain"]) (use named in blast)+
  have dec: "hex_decode (hex_encode X c) = Ret (Some c)" for c using law by (simp add: hex_law_encode hex_decode_hexs)
  have "snd ` set chain \<subseteq> snd ` set local'"
    using chain_view_lists [OF l'(1) _ dec] ids there rd fl by force
  with l' have eq: "snd ` set local' = snd ` set local \<union> snd ` set chain" by blast
  have old: "\<exists>f. fs_lookup fs' (body_path dir (hex_encode X c)) = Some f \<and> f_data f \<noteq> [] \<and> length (f_data f) \<le> MAX_BODY_BYTES"
    if c: "c \<in> snd ` set local" for c
  proof -
    from c g obtain f where "fs_lookup fs (body_path dir (hex_encode X c)) = Some f" "f_data f \<noteq> []"
      "length (f_data f) \<le> MAX_BODY_BYTES" by (fastforce simp: good_store_def full_store_def)
    then show ?thesis by (auto simp: new(1) map_add_def)
  qed
  have "\<exists>f. fs_lookup fs' (body_path dir (hex_encode X c)) = Some f \<and> f_data f \<noteq> [] \<and> length (f_data f) \<le> MAX_BODY_BYTES"
    if hc: "(h, c) \<in> set local'" for h c
  proof (cases "c \<in> snd ` set local")
    case False
    have "c \<in> snd ` set local'" using hc by (rule image_eqI [rotated]) simp
    with False eq have "c \<in> snd ` set chain" by blast
    then obtain h' where h': "(h', c) \<in> set chain" by auto
    with ids have "length c = 32" by blast
    with chain_view_lists [OF cv rd dec] False have "fs_lookup fs (body_path dir (hex_encode X c)) = None" by blast
    moreover from there h' obtain f where f: "fs_lookup fs' (body_path dir (hex_encode X c)) = Some f" by fastforce
    ultimately have "(body_path dir (hex_encode X c), f) \<in> set new"
      by (auto simp: new(1) map_add_Some_iff dest: map_of_SomeD)
    with bodies f show ?thesis by blast
  qed (use old in blast)
  then have "full_store X dir fs' local'" using g by (auto simp: full_store_def good_store_def fl)
  then have "good_store X dir fs' local'" using g l'(1) ok by (simp add: good_store_def fl writes_ok_def)
  then show thesis using that l'(2) new(2) eq by simp
qed

lemma peers_no_body: "peers_path dir \<noteq> body_path dir h"
proof
  assume "peers_path dir = body_path dir h"
  then have "last (peers_path dir) = last (body_path dir h)" by (rule arg_cong)
  then show False by (simp add: peers_path_def body_path_def)
qed

section \<open>One peer\<close>

text \<open>
  A pull followed by a push over the same stream: the store grows to the union of the two
  chains and stays a good store, and the peer ends up with all of it.
\<close>

lemma pull_push_served:
  assumes law: "hex_law X" and g: "good_store X cdir fs local" and a: "accepting X dir nd s chain"
    and len: "length local + length chain \<le> 2000"
  obtains s1 s2 fs' local' nd' f h p had where
    "sync_stream X s cdir fs = (s1, fs', Ret (Inr (word_of_nat (length chain), f, h)))"
    "push_stream X s1 cdir [] fs' = (s2, Ret (Inr (word_of_nat (length chain), p, had)))"
    "good_store X cdir fs' local'" "length local' \<le> length local + length chain"
    "snd ` set local' = snd ` set local \<union> snd ` set chain"
    "f + h = length chain" "p = length (filter (\<lambda>(h, c). c \<notin> snd ` set chain) local')"
    "\<exists>ip cfg clk. served_by X dir ip cfg clk nd' s2" "hold_ok X dir (nd_fs nd')"
    "\<forall>c\<in>snd ` set local'. fs_lookup (nd_fs nd') (body_path dir (hex_encode X c)) \<noteq> None"
proof -
  from a obtain ip cfg clk where s: "served_by X dir ip cfg clk nd s" and nd: "open_node dir cfg nd"
    and ok: "hold_ok X dir (nd_fs nd)" and chain: "chain_view dir (nd_fs nd) = Ret chain"
    and full: "full_store X dir (nd_fs nd) chain" unfolding accepting_def by blast
  have cl: "writes_ok fs" "\<forall>p. \<not> flt_stat (fs_faults fs) p" and cok: "hold_ok X cdir fs"
    using g by (simp_all add: good_store_def)
  have "length chain \<le> 2000" using len by simp
  from sync_served [OF law s ok chain this full cl, of cdir] obtain s1 fs' f h where
    pull: "sync_stream X s cdir fs = (s1, fs', Ret (Inr (word_of_nat (length chain), f, h)))" and cnt: "f + h = length chain"
    and there: "\<forall>(n, c)\<in>set chain. fs_lookup fs' (body_path cdir (hex_encode X c)) \<noteq> None"
    and s1: "served_by X dir ip cfg clk nd s1" and p: "pulled X cdir chain (length chain) fs fs'" .
  have ok': "hold_ok X cdir fs'" using sync_stream_hold_ok [OF pull cl(1) cok] .
  have ids: "\<forall>(h, c)\<in>set chain. length c = 32" using chain_view_id_length [OF chain] by blast
  from good_store_pulled [OF law g p ok' ids there] obtain local' where
    l': "good_store X cdir fs' local'" "length local' \<le> length local + length chain"
    "snd ` set local' = snd ` set local \<union> snd ` set chain" .
  have len': "length local' \<le> 2000" "length chain \<le> 5000" using l'(2) len by simp_all
  have loc: "chain_view cdir fs' = Ret local'" "full_store X cdir fs' local'" using l'(1) by (simp_all add: good_store_def)
  have tok: "valid_str []" "length ([] :: string) \<le> 1024" by (simp_all add: literal_valid)
  from push_served [where P = "hold_ok X dir", OF law s1 nd chain len'(2) full ok' loc(1) len'(1) loc(2) tok ok
    pushes_keep_hold [OF law]] obtain s2 nd' p had where
    push: "push_stream X s1 cdir [] fs' = (s2, Ret (Inr (word_of_nat (length chain), p, had)))"
    and s2: "served_by X dir ip cfg clk nd' s2"
    and pc: "p = length (filter (\<lambda>(h, c). c \<notin> snd ` set chain) local')"
    and all: "\<forall>(h, c)\<in>set local'. fs_lookup (nd_fs nd') (body_path dir (hex_encode X c)) \<noteq> None"
    and hold: "hold_ok X dir (nd_fs nd')" by metis
  have all': "\<forall>c\<in>snd ` set local'. fs_lookup (nd_fs nd') (body_path dir (hex_encode X c)) \<noteq> None" using all by auto
  have ex: "\<exists>ip cfg clk. served_by X dir ip cfg clk nd' s2" using s2 by blast
  show thesis by (rule that [OF pull push l' cnt pc ex hold all'])
qed

end
