(* ===== verification/Converge_Props.thy ===== *)
theory Converge_Props
  imports Converge Client_Props
begin

text \<open>
  The properties of a convergence pass between nodes of this program, with a client that has
  nothing but a peers file and a node that has one body.
\<close>

definition has_body :: "ext \<Rightarrow> path \<Rightarrow> fsys \<Rightarrow> bytes \<Rightarrow> bool" where
  "has_body X dir fs c \<longleftrightarrow>
     (case fs_lookup fs (body_path dir (hex_encode X c)) of None \<Rightarrow> False | Some g \<Rightarrow> sha256 X (f_data g) = c)"

lemma has_bodyI:
  assumes "hex_law X" "hold_ok X dir fs" "length c = 32" "fs_lookup fs (body_path dir (hex_encode X c)) \<noteq> None"
  shows "has_body X dir fs c"
proof -
  have "hex_decode (hex_encode X c) = Ret (Some c)" using assms(1) by (simp add: hex_law_encode hex_decode_hexs)
  then show ?thesis using hold_okD [OF assms(2) _ _ assms(3)] assms(4) by (auto simp: has_body_def)
qed

lemma good_store_has:
  assumes "hex_law X" "good_store X dir fs local" "c \<in> snd ` set local"
  shows "length c = 32 \<and> has_body X dir fs c"
proof -
  have cv: "chain_view dir fs = Ret local" and ok: "hold_ok X dir fs" and full: "full_store X dir fs local"
    using assms(2) by (simp_all add: good_store_def)
  from assms(3) obtain h where h: "(h, c) \<in> set local" by auto
  with full obtain g where g: "fs_lookup fs (body_path dir (hex_encode X c)) = Some g"
    unfolding full_store_def by fast
  have "length c = 32" using chain_view_id_length [OF cv h] .
  then show ?thesis using has_bodyI [OF assms(1) ok] g by simp
qed

section \<open>A client with a peers file\<close>

definition listing_fs :: fsys where
  "listing_fs = fs_put (peers_path ''c'') (str_bytes (peers_body [''h:1'', ''i:1''])) empty_fs"

lemma listing_peers: "peers_list ''c'' listing_fs = [''h:1'', ''i:1'']"
proof (rule peers_list_body)
  show "fs_read (peers_path ''c'') listing_fs = Inr (str_bytes (peers_body [''h:1'', ''i:1'']))"
    by (simp add: fs_read_def listing_fs_def fs_put_def empty_fs_def no_faults_def)
  have "trimmed ''h:1''" "trimmed ''i:1''"
    by (rule trimmed_ends; simp add: byte_of_def ws_seqs_def)+
  then show "entries_ok [''h:1'', ''i:1'']" by (simp add: entries_ok_def line_ok_def literal_valid)
qed

lemma listing_good: "good_store demo_ext ''c'' listing_fs []"
proof -
  have e: "entry_name ''c'' (peers_path ''c'') = Some ''peers.txt''"
    by (simp add: entry_name_Some peers_path_def file_path_def)
  have "ascii_str ''peers.txt''" by (simp add: byte_of_ascii)
  then have "chain_entry ''c'' listing_fs ''peers.txt'' = Ret None"
    by (simp add: chain_entry_def lossy_body_name Let_def del: str_bytes_append)
  then have "chain_view ''c'' listing_fs = Ret []"
    using e by (simp add: chain_view_def fs_read_dir_def listing_fs_def fs_put_def empty_fs_def no_faults_def
        List.map_filter_simps)
  moreover have "hold_ok demo_ext ''c'' listing_fs"
    by (rule hold_okI) (auto simp: listing_fs_def fs_put_def empty_fs_def peers_no_body [symmetric] split: if_splits)
  ultimately show ?thesis
    by (simp add: good_store_def full_store_def writes_ok_def listing_fs_def fs_put_def empty_fs_def no_faults_def)
qed

definition free_node :: node where
  "free_node = \<lparr> nd_fs = body_fs, nd_limiter = rl_new 0, nd_fabric = None \<rparr>"

lemma free_node_accepting:
  "accepting demo_ext ''d'' free_node (to_node demo_ext free_node) [(0, sha256 demo_ext demo_body)]"
proof -
  have "open_node ''d'' \<lparr> sc_max_store_bytes = 0, sc_put_rate = 0, sc_token = None \<rparr> free_node"
    by (simp add: open_node_def free_node_def rl_new_def body_fs_def no_faults_def)
  with to_node_served [of demo_ext free_node] have
    "\<exists>ip cfg clk. served_by demo_ext ''d'' ip cfg clk free_node (to_node demo_ext free_node) \<and> open_node ''d'' cfg free_node"
    by blast
  then show ?thesis
    using body_fs_ok body_fs_chain body_fs_full by (simp add: accepting_def free_node_def del: demo_ext_simps)
qed

text \<open>The first address is the node, the second is down.\<close>

definition demo_net :: "node net" where
  "demo_net a = (if a = ''h:1'' then Inr (to_node demo_ext free_node) else Inl ''refused'')"

section \<open>One peer\<close>

text \<open>
  C3. One convergence step with a peer that is a node of this program: the pull and the push
  over the same connection both succeed, and afterwards the client and the peer each store,
  under its id and with the right hash, every body that either of them listed before; the
  client lists exactly these, and the report is the number of bodies moved in both directions.
\<close>

theorem peer_pass_converges:
  assumes "hex_law X" "good_store X cdir fs local" "accepting X dir nd s chain"
    "length local + length chain \<le> 2000" "net addr = Inr s"
  shows "\<exists>s1 s2 fs' local' nd' f h p had.
    sync_stream X s cdir fs = (s1, fs', Ret (Inr (word_of_nat (length chain), f, h))) \<and>
    push_stream X s1 cdir [] fs' = (s2, Ret (Inr (word_of_nat (length chain), p, had))) \<and>
    sync_peer X net cdir addr fs = (fs', Ret (Inr (word_of_nat (f + p)))) \<and>
    f + h = length chain \<and> p = length (filter (\<lambda>(h, c). c \<notin> snd ` set chain) local') \<and>
    chain_view cdir fs' = Ret local' \<and> snd ` set local' = snd ` set local \<union> snd ` set chain \<and>
    (\<exists>ip cfg clk. served_by X dir ip cfg clk nd' s2) \<and>
    (\<forall>c\<in>snd ` set local \<union> snd ` set chain. has_body X cdir fs' c \<and> has_body X dir (nd_fs nd') c)"
proof -
  from pull_push_served [OF assms(1-4)] obtain s1 s2 fs' local' nd' f h p had where
    pull: "sync_stream X s cdir fs = (s1, fs', Ret (Inr (word_of_nat (length chain), f, h)))"
    and push: "push_stream X s1 cdir [] fs' = (s2, Ret (Inr (word_of_nat (length chain), p, had)))"
    and g: "good_store X cdir fs' local'" and ids: "snd ` set local' = snd ` set local \<union> snd ` set chain"
    and cnt: "f + h = length chain" "p = length (filter (\<lambda>(h, c). c \<notin> snd ` set chain) local')"
    and s2: "\<exists>ip cfg clk. served_by X dir ip cfg clk nd' s2" and ok: "hold_ok X dir (nd_fs nd')"
    and there: "\<forall>c\<in>snd ` set local'. fs_lookup (nd_fs nd') (body_path dir (hex_encode X c)) \<noteq> None" by metis
  have run: "sync_peer X net cdir addr fs = (fs', Ret (Inr (word_of_nat (f + p))))"
    using assms(5) pull push by (simp add: sync_peer_def)
  have cv: "chain_view cdir fs' = Ret local'" using g by (simp add: good_store_def)
  have all: "\<forall>c\<in>snd ` set local \<union> snd ` set chain. has_body X cdir fs' c \<and> has_body X dir (nd_fs nd') c"
    unfolding ids [symmetric] using good_store_has [OF assms(1) g] has_bodyI [OF assms(1) ok] there by blast
  show ?thesis
    by (rule exI [of _ s1], rule exI [of _ s2], rule exI [of _ fs'], rule exI [of _ local'], rule exI [of _ nd'],
        rule exI [of _ f], rule exI [of _ h], rule exI [of _ p], rule exI [of _ had],
        intro conjI pull push run cnt cv ids s2 all)
qed

theorem peer_pass_converges_witness:
  "\<exists>fs'. (\<exists>n. sync_peer demo_ext demo_net ''c'' ''h:1'' listing_fs = (fs', Ret (Inr n))) \<and>
     has_body demo_ext ''c'' fs' (sha256 demo_ext demo_body)"
proof -
  have "demo_net ''h:1'' = Inr (to_node demo_ext free_node)" by (simp add: demo_net_def)
  from peer_pass_converges [where net = demo_net and addr = "''h:1''", OF hex_law_demo listing_good free_node_accepting _ this]
  show ?thesis by (simp del: demo_ext_simps) blast
qed

end
