(* ===== verification/World.thy ===== *)
theory World
  imports Converge Peers_Facts
begin

text \<open>
  Several nodes and the client that synchronises with all of them (\<open>sync_pass\<close>): the world
  maps an address to the node behind it, and every pass leaves the nodes changed by what the
  client pushed. Stores that hold each body once, under its lower case name, stay so and grow
  to the union of what takes part.
\<close>

section \<open>Tidy stores\<close>

text \<open>
  A store on a disk without faults that holds exactly the bodies with the ids \<open>C\<close>: every name
  below the directory that the chain view lists is the lower case name of an id of \<open>C\<close>.
\<close>

definition tidy :: "ext \<Rightarrow> path \<Rightarrow> fsys \<Rightarrow> bytes set \<Rightarrow> bool" where
  "tidy X dir fs C \<longleftrightarrow> fs_wf fs \<and> hold_ok X dir fs \<and> writes_ok fs \<and>
     (\<forall>p. \<not> flt_stat (fs_faults fs) p \<and> flt_read (fs_faults fs) p = None) \<and> \<not> flt_readdir (fs_faults fs) dir \<and>
     (\<forall>n. n \<noteq> [] \<and> CHR ''/'' \<notin> set n \<and> fs_lookup fs (file_path dir n) \<noteq> None \<longrightarrow>
        entry_id n = Ret None \<or> (\<exists>c\<in>C. n = hexs c @ ''.body'')) \<and>
     (\<forall>c\<in>C. length c = 32 \<and> (\<exists>f. fs_lookup fs (body_path dir (hexs c)) = Some f \<and> f_data f \<noteq> [] \<and>
        length (f_data f) \<le> MAX_BODY_BYTES))"

lemma distinct_map_filter:
  "distinct xs \<Longrightarrow> (\<And>x y z. x \<in> set xs \<Longrightarrow> y \<in> set xs \<Longrightarrow> f x = Some z \<Longrightarrow> f y = Some z \<Longrightarrow> x = y) \<Longrightarrow>
    distinct (List.map_filter f xs)"
proof (induction xs)
  case (Cons a xs)
  then have "distinct (List.map_filter f xs)" by (meson distinct.simps(2) list.set_intros(2))
  moreover have "z \<notin> set (List.map_filter f xs)" if "f a = Some z" for z
    using that Cons.prems by (auto simp: mem_map_filter)
  ultimately show ?case by (auto simp: List.map_filter_simps split: option.split)
qed (simp add: List.map_filter_simps)

lemma read_dir_distinct: "fs_wf fs \<Longrightarrow> fs_read_dir dir fs = Some ns \<Longrightarrow> distinct ns"
proof -
  assume wf: "fs_wf fs" and rd: "fs_read_dir dir fs = Some ns"
  have "distinct (List.map_filter (\<lambda>(p, f). entry_name dir p) (fs_files fs))"
  proof (rule distinct_map_filter)
    show "distinct (fs_files fs)" using wf by (simp add: fs_wf_def distinct_map)
    fix x y z
    assume "x \<in> set (fs_files fs)" "y \<in> set (fs_files fs)"
      "(case x of (p, f) \<Rightarrow> entry_name dir p) = Some z" "(case y of (p, f) \<Rightarrow> entry_name dir p) = Some z"
    then show "x = y" using wf by (auto simp: split_beta entry_name_Some fs_wf_def distinct_map inj_on_def)
  qed
  then show ?thesis using rd by (auto simp: fs_read_dir_def split: if_splits)
qed

lemma tidy_chain:
  assumes law: "hex_law X" and t: "tidy X dir fs C"
  obtains chain where "good_store X dir fs chain" "snd ` set chain = C" "distinct (map snd chain)"
    "length chain = card C"
proof -
  from t obtain ns where ns: "fs_read_dir dir fs = Some ns" by (simp add: tidy_def fs_read_dir_def)
  have id: "entry_id n = Ret None \<or> (\<exists>c\<in>C. n = hexs c @ ''.body'' \<and> entry_id n = Ret (Some c))" if "n \<in> set ns" for n
  proof -
    from that have n: "n \<noteq> []" "CHR ''/'' \<notin> set n" "fs_lookup fs (file_path dir n) \<noteq> None"
      using fs_read_dir_mem [OF ns] by simp_all
    then have "entry_id n = Ret None \<or> (\<exists>c\<in>C. n = hexs c @ ''.body'')" using t unfolding tidy_def by blast
    moreover have "length c = 32" if "c \<in> C" for c using t that unfolding tidy_def by blast
    ultimately show ?thesis using entry_id_body by blast
  qed
  then have run: "list_all (\<lambda>n. entry_id n \<noteq> Panic) ns" by (force simp: list_all_iff)
  then obtain chain where cv: "chain_view dir fs = Ret chain" using chain_view_ids(2) [OF ns] by blast
  note ids = chain_view_ids(1) [OF ns cv]
  have "C \<subseteq> set (List.map_filter opt_id ns)"
  proof
    fix c
    assume c: "c \<in> C"
    then have len: "length c = 32" and there: "fs_lookup fs (body_path dir (hexs c)) \<noteq> None" using t unfolding tidy_def by force+
    have "CHR ''/'' \<notin> set (hexs c)" using hex_decode_no_slash(1) [OF hex_decode_hexs] .
    then have "hexs c @ ''.body'' \<in> set ns" using there by (simp add: fs_read_dir_mem [OF ns] body_path_file_path)
    then show "c \<in> set (List.map_filter opt_id ns)" using entry_id_body [OF len] by (force simp: mem_map_filter)
  qed
  moreover have "set (List.map_filter opt_id ns) \<subseteq> C" using id by (force simp: mem_map_filter)
  ultimately have C: "set (List.map_filter opt_id ns) = C" by blast
  have "distinct (List.map_filter opt_id ns)"
    using read_dir_distinct [OF _ ns] t
  proof (intro distinct_map_filter)
    fix m n c
    assume "m \<in> set ns" "n \<in> set ns" "opt_id m = Some c" "opt_id n = Some c"
    then show "m = n" using id [of m] id [of n] by auto
  qed (simp add: tidy_def)
  then have "length chain = card C" using ids C by (simp add: distinct_card [symmetric])
  moreover have s: "snd ` set chain = C" using ids C by simp
  moreover have "distinct (map snd chain)"
    using s calculation by (intro card_distinct) simp
  moreover have "full_store X dir fs chain"
    unfolding full_store_def
  proof (clarify, intro conjI)
    fix h c
    assume "(h, c) \<in> set chain"
    then have "c \<in> C" using s by force
    then show "\<exists>f. fs_lookup fs (body_path dir (hex_encode X c)) = Some f \<and> f_data f \<noteq> [] \<and> length (f_data f) \<le> MAX_BODY_BYTES"
      using t law by (simp add: tidy_def hex_law_encode)
  qed (use t in \<open>simp add: tidy_def\<close>)
  ultimately show thesis using that t cv by (simp add: good_store_def tidy_def)
qed

lemma tidy_body:
  assumes t: "tidy X dir fs C" and c: "length c = 32" "fs_lookup fs (body_path dir (hexs c)) = Some f"
  shows "c \<in> C"
proof -
  let ?n = "hexs c @ ''.body''"
  have n: "?n \<noteq> [] \<and> CHR ''/'' \<notin> set ?n \<and> fs_lookup fs (file_path dir ?n) \<noteq> None"
    using hex_decode_no_slash(1) [OF hex_decode_hexs, of c] c(2) by (simp add: body_path_file_path)
  from t have "\<forall>n. n \<noteq> [] \<and> CHR ''/'' \<notin> set n \<and> fs_lookup fs (file_path dir n) \<noteq> None \<longrightarrow>
      entry_id n = Ret None \<or> (\<exists>c\<in>C. n = hexs c @ ''.body'')" unfolding tidy_def by (elim conjE)
  with n have "entry_id ?n = Ret None \<or> (\<exists>d\<in>C. ?n = hexs d @ ''.body'')" by blast
  then show ?thesis using entry_id_body [OF c(1)] by auto
qed

lemma tidy_finite: "hex_law X \<Longrightarrow> tidy X dir fs C \<Longrightarrow> finite C"
  by (erule (1) tidy_chain) auto

text \<open>New names that the chain view ignores, and new bodies, keep a store tidy.\<close>

lemma tidy_grow:
  assumes t: "tidy X dir fs C" and fs': "fs_wf fs'" "hold_ok X dir fs'" "fs_faults fs' = fs_faults fs"
    and names: "\<And>n. n \<noteq> [] \<Longrightarrow> CHR ''/'' \<notin> set n \<Longrightarrow> fs_lookup fs' (file_path dir n) \<noteq> None \<Longrightarrow>
      fs_lookup fs (file_path dir n) \<noteq> None \<or> entry_id n = Ret None \<or> (\<exists>c\<in>D. n = hexs c @ ''.body'')"
    and bodies: "\<And>c. c \<in> C \<union> D \<Longrightarrow> length c = 32 \<and>
      (\<exists>f. fs_lookup fs' (body_path dir (hexs c)) = Some f \<and> f_data f \<noteq> [] \<and> length (f_data f) \<le> MAX_BODY_BYTES)"
  shows "tidy X dir fs' (C \<union> D)"
proof -
  have "entry_id n = Ret None \<or> (\<exists>c\<in>C \<union> D. n = hexs c @ ''.body'')"
    if n: "n \<noteq> []" "CHR ''/'' \<notin> set n" "fs_lookup fs' (file_path dir n) \<noteq> None" for n
    using names [OF n] t n unfolding tidy_def by blast
  then show ?thesis using t fs' bodies unfolding tidy_def writes_ok_def by simp
qed

lemma tmp_name_no_entry: "entry_id (''.incoming-'' @ hexs c @ ''.part'') = Ret None"
proof -
  have "ascii_str (''.incoming-'' @ hexs c @ ''.part'')"
    using hex_decode_no_slash(3) [OF hex_decode_hexs, of c] by (simp add: byte_of_def)
  then show ?thesis by (simp add: entry_id_def lossy_body_name ends_with_def Let_def del: str_bytes_append append.simps)
qed

lemma pulled_tidy:
  assumes law: "hex_law X" and t: "tidy X dir fs C" and p: "pulled X dir chain n fs fs'"
    and fs': "fs_wf fs'" "hold_ok X dir fs'" and ids: "\<forall>(h, c)\<in>set chain. length c = 32"
    and there: "\<forall>(h, c)\<in>set chain. fs_lookup fs' (body_path dir (hex_encode X c)) \<noteq> None"
  shows "tidy X dir fs' (C \<union> snd ` set chain)"
proof -
  from p obtain new where files: "fs_files fs' = fs_files fs @ new" and fl: "fs_faults fs' = fs_faults fs"
    and new: "\<And>q f. (q, f) \<in> set new \<Longrightarrow> f_data f \<noteq> [] \<and> length (f_data f) \<le> MAX_BODY_BYTES \<and>
      (\<exists>h c. (h, c) \<in> set chain \<and> q = body_path dir (hex_encode X c))"
    unfolding pulled_def by blast
  have new_or_old: "fs_lookup fs q = Some f \<or> (fs_lookup fs q = None \<and> (q, f) \<in> set new)" if "fs_lookup fs' q = Some f" for q f
    using that by (auto simp: files map_add_Some_iff dest: map_of_SomeD)
  show ?thesis
  proof (rule tidy_grow [OF t fs' fl])
    fix m
    assume m: "fs_lookup fs' (file_path dir m) \<noteq> None"
    then obtain f where "fs_lookup fs' (file_path dir m) = Some f" by blast
    from new_or_old [OF this] show "fs_lookup fs (file_path dir m) \<noteq> None \<or> entry_id m = Ret None \<or>
        (\<exists>c\<in>snd ` set chain. m = hexs c @ ''.body'')"
      using new law by (force simp: hex_law_encode body_path_file_path)
  next
    fix c
    assume c: "c \<in> C \<union> snd ` set chain"
    show "length c = 32 \<and> (\<exists>f. fs_lookup fs' (body_path dir (hexs c)) = Some f \<and> f_data f \<noteq> [] \<and> length (f_data f) \<le> MAX_BODY_BYTES)"
    proof (cases "c \<in> C")
      case True
      then show ?thesis using t unfolding tidy_def by (fastforce simp: files map_add_def)
    next
      case False
      with c obtain h where h: "(h, c) \<in> set chain" by auto
      then have len: "length c = 32" and "fs_lookup fs' (body_path dir (hexs c)) \<noteq> None"
        using ids there law by (auto simp: hex_law_encode)
      then obtain f where f: "fs_lookup fs' (body_path dir (hexs c)) = Some f" by blast
      have "fs_lookup fs (body_path dir (hexs c)) = None"
        using tidy_body [OF t len] False by fastforce
      then show ?thesis using new_or_old [OF f] new f len by auto
    qed
  qed
qed

lemma stored_tidy:
  assumes law: "hex_law X" and t: "tidy X dir fs C" and b: "length (sha256 X body) = 32"
    and st: "store_body X dir body fs = (fs', Inr r)"
  shows "tidy X dir fs' (insert (sha256 X body) C)"
proof -
  let ?c = "sha256 X body"
  have hold: "hold_ok X dir fs'" using store_body_hold_ok [OF law st] t by (simp add: tidy_def)
  have wf: "fs_wf fs'" using st t
    by (auto simp: store_body_def tidy_def Let_def dest: fs_wf_write fs_wf_rename split: if_splits sum.splits prod.splits)
  have fl: "fs_faults fs' = fs_faults fs" using frames_keep_faults [OF st] .
  have body: "body \<noteq> []" "length body \<le> MAX_BODY_BYTES" using st by (cases rule: store_body_cases; simp)+
  have own: "\<exists>f. fs_lookup fs' (body_path dir (hexs ?c)) = Some f \<and> f_data f \<noteq> [] \<and> length (f_data f) \<le> MAX_BODY_BYTES"
    using st
  proof (cases rule: store_body_cases)
    case present
    then obtain f where f: "fs_lookup fs (body_path dir (hexs ?c)) = Some f"
      using law by (auto simp: fs_metadata_def hex_law_encode split: if_splits)
    from tidy_body [OF t b f] have "?c \<in> C" .
    then show ?thesis using t present(1) unfolding tidy_def by auto
  qed (use law body in \<open>auto simp: hex_law_encode\<close>)
  have "tidy X dir fs' (C \<union> {?c})"
  proof (rule tidy_grow [OF t wf hold fl])
    fix n
    assume n: "fs_lookup fs' (file_path dir n) \<noteq> None"
    show "fs_lookup fs (file_path dir n) \<noteq> None \<or> entry_id n = Ret None \<or> (\<exists>c\<in>{?c}. n = hexs c @ ''.body'')"
    proof (cases "file_path dir n = tmp_body_path dir (hexs ?c) \<or> file_path dir n = body_path dir (hexs ?c)")
      case True
      then show ?thesis using tmp_name_no_entry [of ?c]
        by (auto simp: file_path_def tmp_body_path_def body_path_def)
    next
      case False
      then show ?thesis using store_body_keeps [OF st, of "file_path dir n"] law n by (simp add: hex_law_encode)
    qed
  next
    fix c
    assume c: "c \<in> C \<union> {?c}"
    show "length c = 32 \<and> (\<exists>f. fs_lookup fs' (body_path dir (hexs c)) = Some f \<and> f_data f \<noteq> [] \<and> length (f_data f) \<le> MAX_BODY_BYTES)"
    proof (cases "c = ?c")
      case True
      then show ?thesis using own b by simp
    next
      case False
      then have "hexs c \<noteq> hexs ?c" by (metis hex_decode_hexs option.inject run.inject)
      then have "fs_lookup fs' (body_path dir (hexs c)) = fs_lookup fs (body_path dir (hexs c))"
        using store_body_keeps [OF st] law by (simp add: hex_law_encode)
      then show ?thesis using c False t unfolding tidy_def by simp
    qed
  qed
  then show ?thesis by simp
qed

section \<open>The world\<close>

text \<open>
  A node behind an address: the directory it serves, the address it sees, its configuration
  and clock, and its state. A connection runs the connection handler of that node; what the
  handler has done to the node when the client hangs up is what the next client meets.
\<close>

record remote =
  rn_dir :: path
  rn_ip :: string
  rn_cfg :: serve_config
  rn_clk :: clock
  rn_node :: node

type_synonym cluster = "string \<Rightarrow> remote option"

definition connected :: "ext \<Rightarrow> remote \<Rightarrow> node stream" where
  "connected X p = \<lparr> s_in = [], s_out = [], s_broken = False, s_peer = rn_node p,
     s_react = node_reacts X (rn_dir p) (rn_ip p) (rn_cfg p) (rn_clk p) \<rparr>"

definition world_net :: "ext \<Rightarrow> cluster \<Rightarrow> node net" where
  "world_net X W a = (case W a of None \<Rightarrow> Inl ''connection refused'' | Some p \<Rightarrow> Inr (connected X p))"

text \<open>The state of the other side after the traffic of \<open>sync_peer\<close>.\<close>

definition remote_after :: "ext \<Rightarrow> 'p stream \<Rightarrow> path \<Rightarrow> fsys \<Rightarrow> 'p" where
  "remote_after X s dir fs =
     (case sync_stream X s dir fs of
        (s, fs, Ret (Inr _)) \<Rightarrow> s_peer (fst (push_stream X s dir [] fs))
      | (s, fs, _) \<Rightarrow> s_peer s)"

definition after_peer :: "ext \<Rightarrow> path \<Rightarrow> fsys \<Rightarrow> remote \<Rightarrow> remote" where
  "after_peer X dir fs p = p\<lparr>rn_node := remote_after X (connected X p) dir fs\<rparr>"

text \<open>The world after \<open>sync_peers\<close>, which visits the addresses in order and stops at a panic.\<close>

fun world_after :: "ext \<Rightarrow> path \<Rightarrow> string list \<Rightarrow> fsys \<Rightarrow> cluster \<Rightarrow> cluster" where
  "world_after X dir [] fs W = W"
| "world_after X dir (addr # rest) fs W =
     (let W1 = W(addr := map_option (after_peer X dir fs) (W addr)) in
      case sync_peer X (world_net X W) dir addr fs of
        (fs, Panic) \<Rightarrow> W1
      | (fs, Ret _) \<Rightarrow> world_after X dir rest fs W1)"

text \<open>A node that takes pushes and holds exactly the bodies \<open>C\<close>.\<close>

definition ready :: "ext \<Rightarrow> remote \<Rightarrow> bytes set \<Rightarrow> bool" where
  "ready X p C \<longleftrightarrow> open_node (rn_dir p) (rn_cfg p) (rn_node p) \<and> tidy X (rn_dir p) (nd_fs (rn_node p)) C"

section \<open>One peer\<close>

lemma connected_served: "served_by X (rn_dir p) (rn_ip p) (rn_cfg p) (rn_clk p) (rn_node p) (connected X p)"
  by (simp add: served_by_def connected_def)

lemma listed_card:
  assumes "distinct (map snd chain)"
  shows "length (filter (\<lambda>(h, c). c \<notin> L) chain) = card (snd ` set chain - L)"
proof -
  have "map snd (filter (\<lambda>(h, c). c \<notin> L) chain) = filter (\<lambda>c. c \<notin> L) (map snd chain)"
    by (induction chain) auto
  then have "length (filter (\<lambda>(h, c). c \<notin> L) chain) = length (filter (\<lambda>c. c \<notin> L) (map snd chain))"
    by (metis length_map)
  also have "\<dots> = card (set (filter (\<lambda>c. c \<notin> L) (map snd chain)))" using assms by (simp only: distinct_card distinct_filter)
  also have "set (filter (\<lambda>c. c \<notin> L) (map snd chain)) = snd ` set chain - L" by auto
  finally show ?thesis .
qed

lemma pull_tidy:
  assumes law: "hex_law X" and t: "tidy X dir fs L" and r: "ready X p C" and card: "card C \<le> 2000"
  obtains s1 fs' f h where
    "sync_stream X (connected X p) dir fs = (s1, fs', Ret (Inr (word_of_nat (card C), f, h)))"
    "served_by X (rn_dir p) (rn_ip p) (rn_cfg p) (rn_clk p) (rn_node p) s1" "tidy X dir fs' (L \<union> C)"
    "f = card (C - L)" "C \<subseteq> L \<longrightarrow> fs' = fs" "fs_lookup fs' (peers_path dir) = fs_lookup fs (peers_path dir)"
    "fs_faults fs' = fs_faults fs"
proof -
  let ?d = "rn_dir p" and ?nd = "rn_node p"
  from r have rt: "tidy X ?d (nd_fs ?nd) C" by (simp add: ready_def)
  from tidy_chain [OF law rt] obtain chain where g: "good_store X ?d (nd_fs ?nd) chain" and C: "snd ` set chain = C"
    and dc: "distinct (map snd chain)" and lc: "length chain = card C" by metis
  have ids: "\<forall>(h, c)\<in>set chain. length c = 32" using C rt unfolding tidy_def by force
  have gs: "hold_ok X ?d (nd_fs ?nd)" "chain_view ?d (nd_fs ?nd) = Ret chain" "full_store X ?d (nd_fs ?nd) chain"
    using g by (simp_all add: good_store_def)
  have cl: "hold_ok X dir fs" "writes_ok fs" "\<forall>p. \<not> flt_stat (fs_faults fs) p" using t by (simp_all add: tidy_def)
  have lc': "length chain \<le> 2000" using lc card by simp
  from sync_served [OF law connected_served gs(1,2) lc' gs(3) cl(2,3), of dir] obtain s1 fs' f h where
    pull: "sync_stream X (connected X p) dir fs = (s1, fs', Ret (Inr (word_of_nat (length chain), f, h)))"
    and "f + h = length chain" and there: "\<forall>(n, c)\<in>set chain. fs_lookup fs' (body_path dir (hex_encode X c)) \<noteq> None"
    and s1: "served_by X ?d (rn_ip p) (rn_cfg p) (rn_clk p) ?nd s1" and pu: "pulled X dir chain (length chain) fs fs'"
    and old: "(\<forall>(n, c)\<in>set chain. fs_lookup fs (body_path dir (hex_encode X c)) \<noteq> None) \<longrightarrow> fs' = fs \<and> f = 0"
    and cnt: "distinct (map snd chain) \<longrightarrow> f = length (lacking X dir fs chain)" .
  have wf': "fs_wf fs'" using sync_stream_wf [OF pull] t by (simp add: tidy_def)
  have ok': "hold_ok X dir fs'" using sync_stream_hold_ok [OF pull cl(2,1)] .
  have t': "tidy X dir fs' (L \<union> C)" using pulled_tidy [OF law t pu wf' ok' ids there] C by simp
  have has: "fs_lookup fs (body_path dir (hex_encode X c)) = None \<longleftrightarrow> c \<notin> L" if "(h, c) \<in> set chain" for h c
  proof -
    have "length c = 32" using ids that by auto
    then show ?thesis using tidy_body [OF t] t law unfolding tidy_def by (fastforce simp: hex_law_encode)
  qed
  then have "lacking X dir fs chain = filter (\<lambda>(h, c). c \<notin> L) chain"
    unfolding lacking_def by (intro filter_cong) auto
  then have f: "f = card (C - L)" using cnt dc listed_card [OF dc] C by simp
  have same: "C \<subseteq> L \<longrightarrow> fs' = fs" using old has C by fastforce
  from pu obtain new where "fs_files fs' = fs_files fs @ new" "\<forall>(q, f)\<in>set new. \<exists>h c. q = body_path dir (hex_encode X c)"
    and fl: "fs_faults fs' = fs_faults fs" unfolding pulled_def by fast
  moreover from this have "map_of new (peers_path dir) = None" by (force simp: map_of_eq_None_iff peers_no_body)
  ultimately have "fs_lookup fs' (peers_path dir) = fs_lookup fs (peers_path dir)" by (simp add: map_add_def split: option.split)
  from that [OF pull [unfolded lc] s1 t' f same this fl] show thesis .
qed

lemma push_tidy:
  assumes law: "hex_law X" and t: "tidy X dir fs U" and r: "ready X p C" and C: "C \<subseteq> U" and card: "card U \<le> 2000"
    and s: "served_by X (rn_dir p) (rn_ip p) (rn_cfg p) (rn_clk p) (rn_node p) s"
  obtains s' nd n had where
    "push_stream X s dir [] fs = (s', Ret (Inr (word_of_nat (card C), n, had)))" "s_peer s' = nd"
    "ready X (p\<lparr>rn_node := nd\<rparr>) U" "n = card (U - C)" "U = C \<longrightarrow> nd = rn_node p"
proof -
  let ?d = "rn_dir p" and ?nd = "rn_node p"
  from r have op: "open_node ?d (rn_cfg p) ?nd" and rt: "tidy X ?d (nd_fs ?nd) C" by (simp_all add: ready_def)
  from tidy_chain [OF law rt] obtain chain where g: "good_store X ?d (nd_fs ?nd) chain" and Cc: "snd ` set chain = C"
    and lc: "length chain = card C" by metis
  from tidy_chain [OF law t] obtain local where l: "good_store X dir fs local" and Ul: "snd ` set local = U"
    and dl: "distinct (map snd local)" and ll: "length local = card U" by metis
  have "card C \<le> card U" using tidy_finite [OF law t] C by (rule card_mono)
  then have len: "length chain \<le> 5000" "length local \<le> 2000" using lc ll card by simp_all
  have gs: "chain_view ?d (nd_fs ?nd) = Ret chain" "full_store X ?d (nd_fs ?nd) chain"
    and loc: "hold_ok X dir fs" "chain_view dir fs = Ret local" "full_store X dir fs local"
    using g l by (simp_all add: good_store_def)
  have tok: "valid_str []" "length ([] :: string) \<le> 1024" by (simp_all add: literal_valid)
  have id: "length c = 32" if "c \<in> U" for c using t that unfolding tidy_def by blast
  define P where "P = (\<lambda>fs. \<exists>C'. C' \<subseteq> U \<and> tidy X ?d fs C')"
  have P: "P (nd_fs ?nd)" "pushes_keep X ?d (snd ` set local) P"
    using rt C stored_tidy [OF law] id unfolding P_def pushes_keep_def Ul by (blast, metis insert_subset)
  from push_served [where P = P, OF law s op gs(1) len(1) gs(2) loc(1,2) len(2) loc(3) tok P] obtain s' nd n had where
    push: "push_stream X s dir [] fs = (s', Ret (Inr (word_of_nat (length chain), n, had)))"
    and s': "served_by X ?d (rn_ip p) (rn_cfg p) (rn_clk p) nd s'" and op': "open_node ?d (rn_cfg p) nd"
    and n: "n = length (filter (\<lambda>(h, c). c \<notin> snd ` set chain) local)"
    and all: "\<forall>(h, c)\<in>set local. fs_lookup (nd_fs nd) (body_path ?d (hex_encode X c)) \<noteq> None"
    and "\<forall>h. fs_lookup (nd_fs ?nd) (body_path ?d h) \<noteq> None \<longrightarrow> fs_lookup (nd_fs nd) (body_path ?d h) \<noteq> None"
    and P': "P (nd_fs nd)" and idle: "snd ` set local \<subseteq> snd ` set chain \<longrightarrow> nd = ?nd" .
  from P' obtain C' where C': "C' \<subseteq> U" "tidy X ?d (nd_fs nd) C'" by (auto simp: P_def)
  have "c \<in> C'" if c: "c \<in> U" for c
  proof -
    have "c \<in> snd ` set local" unfolding Ul by (rule c)
    then obtain h where "(h, c) \<in> set local" by auto
    with all law obtain v where "fs_lookup (nd_fs nd) (body_path ?d (hexs c)) = Some v" by (fastforce simp: hex_law_encode)
    from tidy_body [OF C'(2) id [OF c] this] show ?thesis .
  qed
  with C' have "tidy X ?d (nd_fs nd) U" by (metis subsetI subset_antisym)
  with op' have "ready X (p\<lparr>rn_node := nd\<rparr>) U" by (simp add: ready_def)
  moreover have "U = C \<longrightarrow> nd = ?nd" using idle Ul Cc by simp
  moreover have "n = card (U - C)" using n listed_card [OF dl] Ul Cc by simp
  ultimately show thesis using that push [unfolded lc] s' by (simp add: served_by_def)
qed

text \<open>Client and peer end with the union of what they held; a peer with nothing new changes nothing.\<close>

lemma meet:
  assumes law: "hex_law X" and t: "tidy X dir fs L" and r: "ready X p C" and card: "card (L \<union> C) \<le> 2000"
    and net: "net a = Inr (connected X p)"
  obtains fs' where "sync_peer X net dir a fs = (fs', Ret (Inr (word_of_nat (card (C - L) + card (L - C)))))"
    "tidy X dir fs' (L \<union> C)" "ready X (after_peer X dir fs p) (L \<union> C)" "C \<subseteq> L \<longrightarrow> fs' = fs"
    "L = C \<longrightarrow> after_peer X dir fs p = p"
    "fs_lookup fs' (peers_path dir) = fs_lookup fs (peers_path dir)" "fs_faults fs' = fs_faults fs"
proof -
  have "finite (L \<union> C)" using tidy_finite [OF law] t r unfolding ready_def by blast
  then have "card C \<le> 2000" using card card_mono [of "L \<union> C" C] by simp
  from pull_tidy [OF law t r this] obtain s1 fs' f h where
    pull: "sync_stream X (connected X p) dir fs = (s1, fs', Ret (Inr (word_of_nat (card C), f, h)))"
    and s1: "served_by X (rn_dir p) (rn_ip p) (rn_cfg p) (rn_clk p) (rn_node p) s1" and t': "tidy X dir fs' (L \<union> C)"
    and f: "f = card (C - L)" and same: "C \<subseteq> L \<longrightarrow> fs' = fs"
    and keep: "fs_lookup fs' (peers_path dir) = fs_lookup fs (peers_path dir)" "fs_faults fs' = fs_faults fs" .
  from push_tidy [OF law t' r Un_upper2 card s1] obtain s2 nd n had where
    push: "push_stream X s1 dir [] fs' = (s2, Ret (Inr (word_of_nat (card C), n, had)))" and nd: "s_peer s2 = nd"
    and r': "ready X (p\<lparr>rn_node := nd\<rparr>) (L \<union> C)" and n: "n = card (L \<union> C - C)" and idle: "L \<union> C = C \<longrightarrow> nd = rn_node p" .
  have ap: "after_peer X dir fs p = p\<lparr>rn_node := nd\<rparr>"
    by (simp add: after_peer_def remote_after_def pull push nd)
  have "L \<union> C - C = L - C" by blast
  then have "sync_peer X net dir a fs = (fs', Ret (Inr (word_of_nat (card (C - L) + card (L - C)))))"
    using f n by (simp add: sync_peer_def net pull push)
  moreover have "L = C \<longrightarrow> after_peer X dir fs p = p" using idle by (simp add: ap)
  ultimately show thesis using that [OF _ t' r' [folded ap] same _ keep] by blast
qed

section \<open>All peers\<close>

lemma sync_peers_cong:
  "(\<And>a. a \<in> set addrs \<Longrightarrow> net a = net' a) \<Longrightarrow>
     sync_peers X net dir addrs good failed t fs = sync_peers X net' dir addrs good failed t fs"
proof (induction addrs arbitrary: good failed t fs)
  case (Cons a addrs)
  have eq: "net a = net' a" using Cons.prems by simp
  have "sync_peer X net dir a fs = sync_peer X net' dir a fs" unfolding sync_peer_def eq ..
  moreover have "\<And>good failed t fs. sync_peers X net dir addrs good failed t fs = sync_peers X net' dir addrs good failed t fs"
    by (rule Cons.IH) (use Cons.prems in simp)
  ultimately show ?case by (auto split: prod.split run.split sum.split)
qed simp

abbreviation live :: "cluster \<Rightarrow> string list \<Rightarrow> string list" where
  "live W addrs \<equiv> filter (\<lambda>a. W a \<noteq> None) addrs"

abbreviation dead :: "cluster \<Rightarrow> string list \<Rightarrow> string list" where
  "dead W addrs \<equiv> filter (\<lambda>a. W a = None) addrs"

text \<open>
  \<open>grown\<close>: from \<open>W\<close> to \<open>W'\<close> every live peer \<open>a\<close> among \<open>addrs\<close> went from \<open>C a\<close> to \<open>D a\<close>, which has at
  least what the client had at the start and nothing that is not in \<open>U\<close>; nobody else changed.
  \<open>copies\<close> counts what the client and the peers gained.
\<close>

definition grown :: "ext \<Rightarrow> string list \<Rightarrow> bytes set \<Rightarrow> (string \<Rightarrow> bytes set) \<Rightarrow> (string \<Rightarrow> bytes set) \<Rightarrow> bytes set \<Rightarrow>
    cluster \<Rightarrow> cluster \<Rightarrow> bool" where
  "grown X addrs L C D U W W' \<longleftrightarrow> (\<forall>a. a \<notin> set addrs \<or> W a = None \<longrightarrow> W' a = W a) \<and>
     (\<forall>a\<in>set (live W addrs). \<exists>p. W' a = Some p \<and> rn_dir p = rn_dir (the (W a)) \<and> ready X p (D a) \<and>
        L \<union> C a \<subseteq> D a \<and> D a \<subseteq> U)"

definition copies :: "string list \<Rightarrow> bytes set \<Rightarrow> bytes set \<Rightarrow> (string \<Rightarrow> bytes set) \<Rightarrow> (string \<Rightarrow> bytes set) \<Rightarrow> nat" where
  "copies addrs L U C D = card (U - L) + (\<Sum>a\<leftarrow>addrs. card (D a - C a))"

lemma grown_idle: "W a = None \<Longrightarrow> grown X addrs L C D U W W' \<Longrightarrow> grown X (a # addrs) L C D U W W'"
  by (simp add: grown_def)

lemma grown_step:
  assumes gr: "grown X addrs (L \<union> C a) C D U (W(a := Some q)) W'" and a: "a \<notin> set addrs"
    and q: "W a = Some p" "rn_dir q = rn_dir p" "ready X q (L \<union> C a)" and U: "L \<union> C a \<subseteq> U"
  shows "grown X (a # addrs) L C (D(a := L \<union> C a)) U W W'"
proof -
  have own: "W' a = Some q" using gr a by (simp add: grown_def)
  have "\<exists>p. W' b = Some p \<and> rn_dir p = rn_dir (the (W b)) \<and> ready X p ((D(a := L \<union> C a)) b) \<and>
      L \<union> C b \<subseteq> (D(a := L \<union> C a)) b \<and> (D(a := L \<union> C a)) b \<subseteq> U"
    if b: "b \<in> set (live W (a # addrs))" for b
  proof (cases "b = a")
    case True
    then show ?thesis using own q U by simp
  next
    case False
    then have "b \<in> set (live (W(a := Some q)) addrs)" using b q(1) by auto
    with gr obtain r where "W' b = Some r" "rn_dir r = rn_dir (the ((W(a := Some q)) b))" "ready X r (D b)"
      "L \<union> C a \<union> C b \<subseteq> D b" "D b \<subseteq> U" unfolding grown_def by blast
    then show ?thesis using False by (intro exI [of _ r]) auto
  qed
  moreover have "W' b = W b" if "b \<notin> set (a # addrs) \<or> W b = None" for b
    using gr that q(1) unfolding grown_def by (metis fun_upd_other list.set_intros option.discI)
  ultimately show ?thesis unfolding grown_def by blast
qed

lemma grown_next:
  assumes "grown X addrs L C D U W W'"
  shows "\<forall>a\<in>set addrs. \<forall>p. W' a = Some p \<longrightarrow> ready X p (D a)" "\<forall>a\<in>set (live W addrs). L \<union> C a \<subseteq> D a \<and> D a \<subseteq> U"
    "live W' addrs = live W addrs" "dead W' addrs = dead W addrs"
    "\<forall>a\<in>set (live W addrs). rn_dir (the (W' a)) = rn_dir (the (W a))"
proof -
  from assms have all: "\<forall>a\<in>set (live W addrs). \<exists>p. W' a = Some p \<and> rn_dir p = rn_dir (the (W a)) \<and> ready X p (D a) \<and>
        L \<union> C a \<subseteq> D a \<and> D a \<subseteq> U" by (simp add: grown_def)
  have same: "W' a = None \<longleftrightarrow> W a = None" if "a \<in> set addrs" for a
  proof (cases "W a")
    case None
    then show ?thesis using assms unfolding grown_def by metis
  next
    case (Some q)
    then show ?thesis using all that by force
  qed
  show "live W' addrs = live W addrs" "dead W' addrs = dead W addrs"
    by (rule filter_cong; use same in simp)+
  have "ready X q (D a)" if a: "a \<in> set addrs" "W' a = Some q" for a q
  proof -
    have "a \<in> set (live W addrs)" using same [OF a(1)] a by auto
    with all a(2) show ?thesis by auto
  qed
  then show "\<forall>a\<in>set addrs. \<forall>p. W' a = Some p \<longrightarrow> ready X p (D a)" by blast
  show "\<forall>a\<in>set (live W addrs). L \<union> C a \<subseteq> D a \<and> D a \<subseteq> U"
    "\<forall>a\<in>set (live W addrs). rn_dir (the (W' a)) = rn_dir (the (W a))" using all by auto
qed

lemma copies_step:
  assumes "finite U" "L \<union> Ca \<subseteq> U" "C a = Ca" "a \<notin> set addrs"
  shows "copies (a # addrs) L U C (D(a := L \<union> Ca)) = card (Ca - L) + card (L - Ca) + copies addrs (L \<union> Ca) U C D"
proof -
  have "U - L = (Ca - L) \<union> (U - (L \<union> Ca))" using assms(2) by blast
  moreover have "card ((Ca - L) \<union> (U - (L \<union> Ca))) = card (Ca - L) + card (U - (L \<union> Ca))"
    using assms(1,2) by (intro card_Un_disjoint) (auto intro: finite_subset)
  moreover have "L \<union> Ca - Ca = L - Ca" by blast
  moreover have "(\<Sum>b\<leftarrow>addrs. card ((D(a := L \<union> Ca)) b - C b)) = (\<Sum>b\<leftarrow>addrs. card (D b - C b))"
    using assms(4) by (intro arg_cong [where f = sum_list] map_cong) auto
  ultimately show ?thesis using assms(3) by (simp add: copies_def)
qed

text \<open>
  One pass: the client collects everything, each peer has at least what it and the client had,
  and the report is the number of bodies that came to be where they were not.
\<close>

lemma pass_over:
  assumes law: "hex_law X"
  shows "tidy X dir fs L \<Longrightarrow> distinct addrs \<Longrightarrow> (\<And>a p. a \<in> set addrs \<Longrightarrow> W a = Some p \<Longrightarrow> ready X p (C a)) \<Longrightarrow>
    card (L \<union> (\<Union>a\<in>set (live W addrs). C a)) \<le> 2000 \<Longrightarrow>
    \<exists>fs' D. sync_peers X (world_net X W) dir addrs good failed t fs =
        (fs', Ret (good + length (live W addrs), failed + length (dead W addrs),
          t + word_of_nat (copies (live W addrs) L (L \<union> (\<Union>a\<in>set (live W addrs). C a)) C D))) \<and>
      tidy X dir fs' (L \<union> (\<Union>a\<in>set (live W addrs). C a)) \<and>
      grown X addrs L C D (L \<union> (\<Union>a\<in>set (live W addrs). C a)) W (world_after X dir addrs fs W) \<and>
      ((\<Union>a\<in>set (live W addrs). C a) \<subseteq> L \<longrightarrow> fs' = fs) \<and>
      ((\<forall>a\<in>set (live W addrs). C a = L) \<longrightarrow> world_after X dir addrs fs W = W) \<and>
      fs_lookup fs' (peers_path dir) = fs_lookup fs (peers_path dir) \<and> fs_faults fs' = fs_faults fs"
proof (induction addrs arbitrary: fs L W good failed t)
  case (Cons a addrs)
  show ?case
  proof (cases "W a")
    case None
    then have run: "sync_peer X (world_net X W) dir a fs = (fs, Ret (Inl (''unreachable ('' @ ''connection refused'' @ '')'')))"
      by (simp add: sync_peer_def world_net_def)
    have "W(a := None) = W" using None by (simp add: fun_upd_idem)
    then have A: "world_after X dir (a # addrs) fs W = world_after X dir addrs fs W" using run None by simp
    have l: "live W (a # addrs) = live W addrs" "dead W (a # addrs) = a # dead W addrs" using None by simp_all
    let ?U = "L \<union> (\<Union>a\<in>set (live W addrs). C a)"
    have d: "distinct addrs" using Cons.prems(2) by simp
    from Cons.IH [OF Cons.prems(1) d Cons.prems(3) Cons.prems(4) [unfolded l(1)], of good "failed + 1" t] obtain fs' D where
      run': "sync_peers X (world_net X W) dir addrs good (failed + 1) t fs =
        (fs', Ret (good + length (live W addrs), failed + 1 + length (dead W addrs), t + word_of_nat (copies (live W addrs) L ?U C D)))"
      and ih: "tidy X dir fs' ?U" "grown X addrs L C D ?U W (world_after X dir addrs fs W)"
        "(\<Union>a\<in>set (live W addrs). C a) \<subseteq> L \<longrightarrow> fs' = fs"
        "(\<forall>a\<in>set (live W addrs). C a = L) \<longrightarrow> world_after X dir addrs fs W = W"
        "fs_lookup fs' (peers_path dir) = fs_lookup fs (peers_path dir)" "fs_faults fs' = fs_faults fs"
      using list.set_intros(2) [of _ addrs a] by metis
    have R: "sync_peers X (world_net X W) dir (a # addrs) good failed t fs =
        (fs', Ret (good + length (live W addrs), failed + length (dead W (a # addrs)), t + word_of_nat (copies (live W addrs) L ?U C D)))"
      using run run' None by simp
    note grown_idle [where W = W, OF None ih(2)]
    then show ?thesis unfolding l(1) A
      by (intro exI [of _ fs'] exI [of _ D] conjI R ih)
  next
    case (Some p)
    let ?U = "\<Union>b\<in>set (live W addrs). C b"
    have r: "ready X p (C a)" using Cons.prems(3) Some by simp
    have "finite (C b)" if b: "b \<in> set (live W (a # addrs))" for b
    proof -
      from b obtain q where "b \<in> set (a # addrs)" "W b = Some q" unfolding set_filter by blast
      then have "ready X q (C b)" by (rule Cons.prems(3))
      then show ?thesis using tidy_finite [OF law] unfolding ready_def by blast
    qed
    then have fin: "finite (L \<union> (\<Union>b\<in>set (live W (a # addrs)). C b))" using tidy_finite [OF law Cons.prems(1)] by blast
    moreover have "L \<union> C a \<subseteq> L \<union> (\<Union>b\<in>set (live W (a # addrs)). C b)" using Some by auto
    ultimately have card: "card (L \<union> C a) \<le> 2000" by (rule le_trans [OF card_mono Cons.prems(4)])
    have net: "world_net X W a = Inr (connected X p)" by (simp add: world_net_def Some)
    let ?m = "card (C a - L) + card (L - C a)"
    from meet [where net = "world_net X W" and a = a, OF law Cons.prems(1) r card net] obtain fs1 where
      run: "sync_peer X (world_net X W) dir a fs = (fs1, Ret (Inr (word_of_nat ?m)))" and t1: "tidy X dir fs1 (L \<union> C a)"
      and r1: "ready X (after_peer X dir fs p) (L \<union> C a)" and same: "C a \<subseteq> L \<longrightarrow> fs1 = fs"
      and idle: "L = C a \<longrightarrow> after_peer X dir fs p = p"
      and keep: "fs_lookup fs1 (peers_path dir) = fs_lookup fs (peers_path dir)" "fs_faults fs1 = fs_faults fs" .
    define W1 where "W1 = W(a := Some (after_peer X dir fs p))"
    have a: "a \<notin> set addrs" "distinct addrs" using Cons.prems(2) by simp_all
    have eq: "live W1 addrs = live W addrs" "dead W1 addrs = dead W addrs"
      using a by (auto simp: W1_def intro!: filter_cong)
    have W1: "W1 b = W b" if "b \<noteq> a" for b using that by (simp add: W1_def)
    have rest: "ready X q (C b)" if "b \<in> set addrs" "W1 b = Some q" for b q
      using Cons.prems(3) [of b q] that a by (auto simp: W1_def split: if_splits)
    have U: "L \<union> C a \<union> ?U = L \<union> (\<Union>b\<in>set (live W (a # addrs)). C b)" using Some by auto
    have "card (L \<union> C a \<union> (\<Union>b\<in>set (live W1 addrs). C b)) \<le> 2000" using Cons.prems(4) unfolding eq U .
    from Cons.IH [OF t1 a(2) rest this, of "good + 1" failed "t + word_of_nat ?m"] obtain fs' D where
      run': "sync_peers X (world_net X W1) dir addrs (good + 1) failed (t + word_of_nat ?m) fs1 =
        (fs', Ret (good + 1 + length (live W addrs), failed + length (dead W addrs),
          t + word_of_nat ?m + word_of_nat (copies (live W addrs) (L \<union> C a) (L \<union> C a \<union> ?U) C D)))"
      and t': "tidy X dir fs' (L \<union> C a \<union> ?U)"
      and gr: "grown X addrs (L \<union> C a) C D (L \<union> C a \<union> ?U) W1 (world_after X dir addrs fs1 W1)"
      and same': "?U \<subseteq> L \<union> C a \<longrightarrow> fs' = fs1"
      and idle': "(\<forall>b\<in>set (live W addrs). C b = L \<union> C a) \<longrightarrow> world_after X dir addrs fs1 W1 = W1"
      and keep': "fs_lookup fs' (peers_path dir) = fs_lookup fs1 (peers_path dir)" "fs_faults fs' = fs_faults fs1"
      unfolding eq by metis
    have "sync_peers X (world_net X W) dir addrs (good + 1) failed (t + word_of_nat ?m) fs1 =
        sync_peers X (world_net X W1) dir addrs (good + 1) failed (t + word_of_nat ?m) fs1"
    proof (rule sync_peers_cong)
      fix b
      assume "b \<in> set addrs"
      then have "b \<noteq> a" using a(1) by metis
      then have "W1 b = W b" by (rule W1)
      then show "world_net X W b = world_net X W1 b" by (simp add: world_net_def)
    qed
    moreover have "copies (live W (a # addrs)) L (L \<union> C a \<union> ?U) C (D(a := L \<union> C a)) =
        ?m + copies (live W addrs) (L \<union> C a) (L \<union> C a \<union> ?U) C D"
      using copies_step [where addrs = "live W addrs" and L = L and Ca = "C a" and C = C and D = D and a = a and U = "L \<union> C a \<union> ?U"]
        fin a(1) Some by (simp add: U)
    ultimately have R: "sync_peers X (world_net X W) dir (a # addrs) good failed t fs =
        (fs', Ret (good + length (live W (a # addrs)), failed + length (dead W (a # addrs)),
          t + word_of_nat (copies (live W (a # addrs)) L (L \<union> C a \<union> ?U) C (D(a := L \<union> C a)))))"
      using run run' Some by (simp add: add.assoc)
    have A: "world_after X dir (a # addrs) fs W = world_after X dir addrs fs1 W1"
      by (simp add: run Some W1_def)
    have "rn_dir (after_peer X dir fs p) = rn_dir p" by (simp add: after_peer_def)
    then have G: "grown X (a # addrs) L C (D(a := L \<union> C a)) (L \<union> C a \<union> ?U) W (world_after X dir addrs fs1 W1)"
      using grown_step [where C = C and a = a and q = "after_peer X dir fs p" and W = W, folded W1_def, OF gr a(1) Some _ r1]
      by simp
    have S: "(\<Union>b\<in>set (live W (a # addrs)). C b) \<subseteq> L \<longrightarrow> fs' = fs"
      using same same' Some by auto
    have I: "(\<forall>b\<in>set (live W (a # addrs)). C b = L) \<longrightarrow> world_after X dir addrs fs1 W1 = W"
    proof
      assume all: "\<forall>b\<in>set (live W (a # addrs)). C b = L"
      have C: "C a = L" "\<forall>b\<in>set (live W addrs). C b = L \<union> C a" using all Some by auto
      then have "W1 = W" using idle Some by (auto simp: W1_def fun_upd_idem)
      with idle' C show "world_after X dir addrs fs1 W1 = W" by simp
    qed
    show ?thesis unfolding A U [symmetric]
      by (intro exI [of _ fs'] exI [of _ "D(a := L \<union> C a)"] conjI R t' G S I)
        (simp_all add: keep keep')
  qed
qed (simp add: grown_def copies_def)

text \<open>The same for a run of the sync loop with \<open>--once\<close>.\<close>

lemma loop_over:
  assumes law: "hex_law X" and t: "tidy X dir fs L" and mk: "flt_mkdir (fs_faults fs) dir = None"
    and r: "\<forall>a\<in>set (peers_list dir fs). \<forall>p. W a = Some p \<longrightarrow> ready X p (C a)"
    and U: "L \<union> (\<Union>a\<in>set (live W (peers_list dir fs)). C a) = U" and card: "card U \<le> 2000"
  obtains fs' D where "sync_loop X (\<lambda>i. world_net X W) dir True fs =
      Some (fs', Ret (Inr (length (live W (peers_list dir fs)), length (dead W (peers_list dir fs)),
        word_of_nat (copies (live W (peers_list dir fs)) L U C D))))"
    "tidy X dir fs' U" "grown X (peers_list dir fs) L C D U W (world_after X dir (peers_list dir fs) fs W)"
    "U = L \<longrightarrow> fs' = fs"
    "(\<forall>a\<in>set (live W (peers_list dir fs)). C a = L) \<longrightarrow> world_after X dir (peers_list dir fs) fs W = W"
    "peers_list dir fs' = peers_list dir fs" "flt_mkdir (fs_faults fs') dir = None"
proof -
  let ?as = "peers_list dir fs"
  have d: "distinct ?as" using peers_list_ok by (simp add: entries_ok_def)
  from pass_over [OF law t d r [rule_format] card [folded U], of 0 0 0] obtain fs' D where
    run: "sync_peers X (world_net X W) dir ?as 0 0 0 fs = (fs', Ret (0 + length (live W ?as), 0 + length (dead W ?as),
      0 + word_of_nat (copies (live W ?as) L U C D)))"
    and t': "tidy X dir fs' U" and g: "grown X ?as L C D U W (world_after X dir ?as fs W)"
    and same: "(\<Union>a\<in>set (live W ?as). C a) \<subseteq> L \<longrightarrow> fs' = fs"
    and idle: "(\<forall>a\<in>set (live W ?as). C a = L) \<longrightarrow> world_after X dir ?as fs W = W"
    and keep: "fs_lookup fs' (peers_path dir) = fs_lookup fs (peers_path dir)" "fs_faults fs' = fs_faults fs"
    unfolding U by metis
  have "sync_loop X (\<lambda>i. world_net X W) dir True fs = Some (fs', Ret (Inr (length (live W ?as), length (dead W ?as),
      word_of_nat (copies (live W ?as) L U C D))))"
    using run by (simp add: sync_loop_def fs_create_dir_all_def mk sync_passes.simps [of _ _ _ _ 0] sync_pass_def)
  moreover have "peers_list dir fs' = ?as" unfolding peers_list_def fs_read_to_string_def fs_read_def keep ..
  ultimately show thesis using that [OF _ t' g _ idle] same mk keep(2) U by auto
qed

text \<open>The copies of two passes in a row add up to what was missing at the start.\<close>

lemma copies_add:
  assumes "finite U" "\<forall>a\<in>set as. C a \<subseteq> D a \<and> D a \<subseteq> U"
  shows "copies as L U C D + copies as U U D (\<lambda>a. U) = card (U - L) + (\<Sum>a\<leftarrow>as. card (U - C a))"
proof -
  have "card (D a - C a) + card (U - D a) = card (U - C a)" if "a \<in> set as" for a
  proof -
    from assms(2) that have s: "C a \<subseteq> D a" "D a \<subseteq> U" by simp_all
    then have "U - C a = (D a - C a) \<union> (U - D a)" by blast
    moreover have "card ((D a - C a) \<union> (U - D a)) = card (D a - C a) + card (U - D a)"
      using s assms(1) by (intro card_Un_disjoint) (auto intro: finite_subset)
    ultimately show ?thesis by simp
  qed
  then have "(\<Sum>a\<leftarrow>as. card (D a - C a)) + (\<Sum>a\<leftarrow>as. card (U - D a)) = (\<Sum>a\<leftarrow>as. card (U - C a))"
    by (induction as) force+
  then show ?thesis by (simp add: copies_def)
qed

lemma copies_cong: "\<forall>a\<in>set as. D a = E a \<Longrightarrow> copies as L U C D = copies as L U C E"
  by (induction as) (simp_all add: copies_def)

lemma two_loops:
  assumes law: "hex_law X" and t: "tidy X dir fs L" and mk: "flt_mkdir (fs_faults fs) dir = None"
    and r: "\<forall>a\<in>set (peers_list dir fs). \<forall>p. W a = Some p \<longrightarrow> ready X p (C a)"
    and U: "L \<union> (\<Union>a\<in>set (live W (peers_list dir fs)). C a) = U" and card: "card U \<le> 2000"
  obtains fs1 W1 W2 n1 n2 where
    "sync_loop X (\<lambda>i. world_net X W) dir True fs =
      Some (fs1, Ret (Inr (length (live W (peers_list dir fs)), length (dead W (peers_list dir fs)), n1)))"
    "W1 = world_after X dir (peers_list dir fs) fs W" "tidy X dir fs1 U" "peers_list dir fs1 = peers_list dir fs"
    "sync_loop X (\<lambda>i. world_net X W1) dir True fs1 =
      Some (fs1, Ret (Inr (length (live W (peers_list dir fs)), length (dead W (peers_list dir fs)), n2)))"
    "W2 = world_after X dir (peers_list dir fs) fs1 W1"
    "n1 + n2 = word_of_nat (card (U - L) + (\<Sum>a\<leftarrow>live W (peers_list dir fs). card (U - C a)))"
    "\<forall>a\<in>set (live W (peers_list dir fs)). \<exists>p. W2 a = Some p \<and> rn_dir p = rn_dir (the (W a)) \<and> ready X p U"
    "sync_loop X (\<lambda>i. world_net X W2) dir True fs1 =
      Some (fs1, Ret (Inr (length (live W (peers_list dir fs)), length (dead W (peers_list dir fs)), 0)))"
    "world_after X dir (peers_list dir fs) fs1 W2 = W2"
proof -
  let ?as = "peers_list dir fs"
  from loop_over [OF assms] obtain fs1 D where
    p1: "sync_loop X (\<lambda>i. world_net X W) dir True fs = Some (fs1, Ret (Inr (length (live W ?as), length (dead W ?as),
      word_of_nat (copies (live W ?as) L U C D))))"
    and t1: "tidy X dir fs1 U" and g1: "grown X ?as L C D U W (world_after X dir ?as fs W)"
    and "U = L \<longrightarrow> fs1 = fs" "(\<forall>a\<in>set (live W ?as). C a = L) \<longrightarrow> world_after X dir ?as fs W = W"
    and l1: "peers_list dir fs1 = ?as" and m1: "flt_mkdir (fs_faults fs1) dir = None" .
  define W1 where "W1 = world_after X dir ?as fs W"
  note n1 = grown_next [OF g1 [folded W1_def]]
  have U1: "U \<union> (\<Union>a\<in>set (live W1 ?as). D a) = U" using n1(2) unfolding n1(3) by blast
  from loop_over [OF law t1 m1 n1(1) [folded l1] U1 [folded l1] card, unfolded l1] obtain fs2 E where
    p2: "sync_loop X (\<lambda>i. world_net X W1) dir True fs1 = Some (fs2, Ret (Inr (length (live W1 ?as), length (dead W1 ?as),
      word_of_nat (copies (live W1 ?as) U U D E))))"
    and "tidy X dir fs2 U" and g2: "grown X ?as U D E U W1 (world_after X dir ?as fs1 W1)" and s2: "U = U \<longrightarrow> fs2 = fs1"
    and "(\<forall>a\<in>set (live W1 ?as). D a = U) \<longrightarrow> world_after X dir ?as fs1 W1 = W1"
    "peers_list dir fs2 = ?as" "flt_mkdir (fs_faults fs2) dir = None" .
  define W2 where "W2 = world_after X dir ?as fs1 W1"
  note n2 = grown_next [OF g2 [folded W2_def]]
  have EU: "\<forall>a\<in>set (live W1 ?as). E a = U" using n2(2) by blast
  then have U2: "U \<union> (\<Union>a\<in>set (live W2 ?as). E a) = U" unfolding n2(3) by blast
  from loop_over [OF law t1 m1 n2(1) [folded l1] U2 [folded l1] card, unfolded l1] obtain fs3 F where
    p3: "sync_loop X (\<lambda>i. world_net X W2) dir True fs1 = Some (fs3, Ret (Inr (length (live W2 ?as), length (dead W2 ?as),
      word_of_nat (copies (live W2 ?as) U U E F))))"
    and "tidy X dir fs3 U" and g3: "grown X ?as U E F U W2 (world_after X dir ?as fs1 W2)" and s3: "U = U \<longrightarrow> fs3 = fs1"
    and i3: "(\<forall>a\<in>set (live W2 ?as). E a = U) \<longrightarrow> world_after X dir ?as fs1 W2 = W2"
    and "peers_list dir fs3 = ?as" "flt_mkdir (fs_faults fs3) dir = None" .
  have "\<forall>a\<in>set (live W ?as). F a = U" using grown_next(2) [OF g3] unfolding n2(3) n1(3) by blast
  moreover have "\<forall>a\<in>set (live W ?as). E a = U" using EU unfolding n1(3) .
  ultimately have zero: "copies (live W ?as) U U E F = 0" by (simp add: copies_def)
  have add: "copies (live W ?as) L U C D + copies (live W ?as) U U D E = card (U - L) + (\<Sum>a\<leftarrow>live W ?as. card (U - C a))"
    using copies_add [OF tidy_finite [OF law t1], of "live W ?as" C D L] copies_cong [of "live W ?as" E "\<lambda>a. U" U U D]
      n1(2) EU unfolding n1(3) by auto
  have "\<exists>p. W2 a = Some p \<and> rn_dir p = rn_dir (the (W a)) \<and> ready X p U" if a: "a \<in> set (live W ?as)" for a
  proof -
    from a have "a \<in> set (live W2 ?as)" by (simp only: n2(3) n1(3))
    then obtain p where p: "W2 a = Some p" "a \<in> set ?as" by auto
    with n2(1) EU a have "ready X p U" unfolding n1(3) by metis
    moreover have "rn_dir p = rn_dir (the (W a))" using n1(5) n2(5) a p(1) unfolding n1(3) by (metis option.sel)
    ultimately show ?thesis using p(1) by blast
  qed
  then show thesis
    using that [OF p1 W1_def t1 l1 _ W2_def] p2 p3 s2 s3 i3 EU zero add unfolding n2(3,4) n1(3,4)
    by (simp flip: of_nat_add)
qed

end
