(* ===== verification/World_Props.thy ===== *)
theory World_Props
  imports World Converge_Props
begin

text \<open>
  The convergence of all stores: a client with a peers file and two nodes, of which one has a
  body and the other has none.
\<close>

text \<open>A store that lists exactly the ids \<open>U\<close>, each once, and has their bodies.\<close>

definition holds :: "ext \<Rightarrow> path \<Rightarrow> fsys \<Rightarrow> bytes set \<Rightarrow> bool" where
  "holds X dir fs U \<longleftrightarrow>
     (\<exists>chain. chain_view dir fs = Ret chain \<and> distinct (map snd chain) \<and> snd ` set chain = U) \<and>
     (\<forall>c\<in>U. has_body X dir fs c)"

lemma tidy_holds:
  assumes "hex_law X" "tidy X dir fs C"
  shows "holds X dir fs C"
proof -
  from tidy_chain [OF assms] obtain chain where g: "good_store X dir fs chain" and c: "snd ` set chain = C" "distinct (map snd chain)"
    by metis
  then have "chain_view dir fs = Ret chain" by (simp add: good_store_def)
  moreover have "has_body X dir fs c" if "c \<in> C" for c using good_store_has [OF assms(1) g] that unfolding c(1) by blast
  ultimately show ?thesis using c unfolding holds_def by blast
qed

section \<open>The demonstration world\<close>

lemma demo_cid_hexs: "demo_cid = hexs (sha256 demo_ext demo_body)"
  by (simp add: demo_cid_def)

lemma listing_tidy: "tidy demo_ext ''c'' listing_fs {}"
proof -
  have "ascii_str ''peers.txt''" by (simp add: byte_of_ascii)
  then have e: "entry_id ''peers.txt'' = Ret None"
    by (simp add: entry_id_def lossy_body_name Let_def del: str_bytes_append)
  have "n = ''peers.txt''" if "fs_lookup listing_fs (file_path ''c'' n) \<noteq> None" for n
    using that by (simp add: listing_fs_def fs_put_def empty_fs_def file_path_def peers_path_def split: if_splits)
  then have "\<forall>n. n \<noteq> [] \<and> CHR ''/'' \<notin> set n \<and> fs_lookup listing_fs (file_path ''c'' n) \<noteq> None \<longrightarrow>
      entry_id n = Ret None \<or> (\<exists>c\<in>{}. n = hexs c @ ''.body'')" using e by metis
  moreover have "fs_wf listing_fs" by (simp add: fs_wf_def listing_fs_def fs_put_def empty_fs_def)
  ultimately show ?thesis using listing_good by (simp add: tidy_def good_store_def)
qed

lemma body_tidy: "tidy demo_ext ''d'' body_fs {sha256 demo_ext demo_body}"
proof -
  have "n = hexs (sha256 demo_ext demo_body) @ ''.body''" if "fs_lookup body_fs (file_path ''d'' n) \<noteq> None" for n
    using that by (simp add: body_fs_def body_path_file_path demo_cid_hexs del: demo_ext_simps split: if_splits)
  then have "\<forall>n. n \<noteq> [] \<and> CHR ''/'' \<notin> set n \<and> fs_lookup body_fs (file_path ''d'' n) \<noteq> None \<longrightarrow>
      entry_id n = Ret None \<or> (\<exists>c\<in>{sha256 demo_ext demo_body}. n = hexs c @ ''.body'')" by blast
  moreover have "fs_lookup body_fs (body_path ''d'' (hexs (sha256 demo_ext demo_body))) = Some \<lparr>f_data = demo_body, f_mtime = 3\<rparr>"
    by (simp add: body_fs_def demo_cid_hexs del: demo_ext_simps)
  moreover have "length (sha256 demo_ext demo_body) = 32" using sha_law_demo by (simp add: sha_law_def del: demo_ext_simps)
  moreover have "demo_body \<noteq> []" "length demo_body \<le> MAX_BODY_BYTES" by (simp_all add: demo_body_def MAX_BODY_BYTES_def)
  moreover have "fs_wf body_fs" "writes_ok body_fs" "\<forall>p. \<not> flt_stat (fs_faults body_fs) p \<and> flt_read (fs_faults body_fs) p = None"
    "\<not> flt_readdir (fs_faults body_fs) ''d''" by (simp_all add: fs_wf_def body_fs_def writes_ok_def no_faults_def)
  ultimately show ?thesis using body_fs_ok unfolding tidy_def by simp
qed

lemma empty_tidy: "tidy demo_ext dir empty_fs {}"
  by (simp add: tidy_def fs_wf_def hold_ok_def writes_ok_def empty_fs_def no_faults_def)

definition demo_remote :: "path \<Rightarrow> fsys \<Rightarrow> remote" where
  "demo_remote dir fs = \<lparr> rn_dir = dir, rn_ip = ''ip'',
     rn_cfg = \<lparr> sc_max_store_bytes = 0, sc_put_rate = 0, sc_token = None \<rparr>, rn_clk = (\<lambda>_. 1000),
     rn_node = \<lparr> nd_fs = fs, nd_limiter = rl_new 0, nd_fabric = None \<rparr> \<rparr>"

lemma demo_ready: "tidy demo_ext dir fs C \<Longrightarrow> fs_faults fs = no_faults \<Longrightarrow> ready demo_ext (demo_remote dir fs) C"
  by (simp add: ready_def demo_remote_def open_node_def rl_new_def no_faults_def)

definition demo_cluster :: cluster where
  "demo_cluster = [''h:1'' \<mapsto> demo_remote ''d'' body_fs, ''i:1'' \<mapsto> demo_remote ''e'' empty_fs]"

section \<open>Two passes\<close>

text \<open>
  C4. Two passes of the sync loop over the listed peers bring every store that takes part to the
  union, and send no body twice. The peers are down, or nodes of this program that take pushes,
  each behind its own address; the first pass leaves the peers changed by what the client
  pushed, and the second pass meets them so. After the first, the client has everything; after
  the second, so has every live peer, each id once and with its body, and the two reports add
  up to the number of bodies that were missing anywhere; a third pass moves nothing and changes
  no store. Every pass counts the same peers as reached and as down.
\<close>

theorem two_passes_union:
  assumes "hex_law X" "tidy X cdir fs L" "flt_mkdir (fs_faults fs) cdir = None"
    "\<forall>a\<in>set (peers_list cdir fs). \<forall>p. W a = Some p \<longrightarrow> ready X p (C a)"
    "U = L \<union> (\<Union>a\<in>set (live W (peers_list cdir fs)). C a)" "card U \<le> 2000"
    "up = length (live W (peers_list cdir fs))" "down = length (dead W (peers_list cdir fs))"
  shows "\<exists>fs1 W1 W2 n1 n2.
    sync_loop X (\<lambda>i. world_net X W) cdir True fs = Some (fs1, Ret (Inr (up, down, n1))) \<and>
    W1 = world_after X cdir (peers_list cdir fs) fs W \<and> holds X cdir fs1 U \<and>
    sync_loop X (\<lambda>i. world_net X W1) cdir True fs1 = Some (fs1, Ret (Inr (up, down, n2))) \<and>
    W2 = world_after X cdir (peers_list cdir fs1) fs1 W1 \<and>
    n1 + n2 = word_of_nat (card (U - L) + (\<Sum>a\<leftarrow>live W (peers_list cdir fs). card (U - C a))) \<and>
    (\<forall>a\<in>set (live W (peers_list cdir fs)). \<exists>p. W2 a = Some p \<and> rn_dir p = rn_dir (the (W a)) \<and>
       holds X (rn_dir p) (nd_fs (rn_node p)) U) \<and>
    sync_loop X (\<lambda>i. world_net X W2) cdir True fs1 = Some (fs1, Ret (Inr (up, down, 0))) \<and>
    world_after X cdir (peers_list cdir fs1) fs1 W2 = W2"
proof -
  from two_loops [OF assms(1-4) assms(5) [symmetric] assms(6), folded assms(7,8)] obtain fs1 W1 W2 n1 n2 where r:
    "sync_loop X (\<lambda>i. world_net X W) cdir True fs = Some (fs1, Ret (Inr (up, down, n1)))"
    "W1 = world_after X cdir (peers_list cdir fs) fs W" "tidy X cdir fs1 U" "peers_list cdir fs1 = peers_list cdir fs"
    "sync_loop X (\<lambda>i. world_net X W1) cdir True fs1 = Some (fs1, Ret (Inr (up, down, n2)))"
    "W2 = world_after X cdir (peers_list cdir fs) fs1 W1"
    "n1 + n2 = word_of_nat (card (U - L) + (\<Sum>a\<leftarrow>live W (peers_list cdir fs). card (U - C a)))"
    "\<forall>a\<in>set (live W (peers_list cdir fs)). \<exists>p. W2 a = Some p \<and> rn_dir p = rn_dir (the (W a)) \<and> ready X p U"
    "sync_loop X (\<lambda>i. world_net X W2) cdir True fs1 = Some (fs1, Ret (Inr (up, down, 0)))"
    "world_after X cdir (peers_list cdir fs) fs1 W2 = W2" .
  have "\<forall>a\<in>set (live W (peers_list cdir fs)). \<exists>p. W2 a = Some p \<and> rn_dir p = rn_dir (the (W a)) \<and>
      holds X (rn_dir p) (nd_fs (rn_node p)) U"
    using r(8) tidy_holds [OF assms(1)] unfolding ready_def by blast
  then show ?thesis
    by (intro exI [of _ fs1] exI [of _ W1] exI [of _ W2] exI [of _ n1] exI [of _ n2], unfold r(4))
      (intro conjI r(1,2,5,6,7,9,10) tidy_holds [OF assms(1) r(3)])
qed

theorem two_passes_union_witness:
  "\<exists>fs1 W1 n1 W2. sync_loop demo_ext (\<lambda>i. world_net demo_ext demo_cluster) ''c'' True listing_fs = Some (fs1, Ret (Inr (2, 0, n1))) \<and>
     W1 = world_after demo_ext ''c'' (peers_list ''c'' listing_fs) listing_fs demo_cluster \<and>
     W2 = world_after demo_ext ''c'' (peers_list ''c'' fs1) fs1 W1 \<and>
     (\<exists>p. W2 ''i:1'' = Some p \<and> rn_dir p = ''e'' \<and> has_body demo_ext ''e'' (nd_fs (rn_node p)) (sha256 demo_ext demo_body))"
proof -
  let ?C = "\<lambda>a. if a = ''h:1'' then {sha256 demo_ext demo_body} else {}"
  have m: "flt_mkdir (fs_faults listing_fs) ''c'' = None"
    by (simp add: listing_fs_def fs_put_def empty_fs_def no_faults_def)
  have r: "\<forall>a\<in>set (peers_list ''c'' listing_fs). \<forall>p. demo_cluster a = Some p \<longrightarrow> ready demo_ext p (?C a)"
    using demo_ready [OF body_tidy] demo_ready [OF empty_tidy, of "''e''"]
    by (simp add: listing_peers demo_cluster_def body_fs_def empty_fs_def del: demo_ext_simps)
  have w: "demo_cluster ''h:1'' = Some (demo_remote ''d'' body_fs)" "demo_cluster ''i:1'' = Some (demo_remote ''e'' empty_fs)"
    by (simp_all add: demo_cluster_def)
  then have l: "live demo_cluster [''h:1'', ''i:1''] = [''h:1'', ''i:1'']" "dead demo_cluster [''h:1'', ''i:1''] = []" by simp_all
  have u: "{sha256 demo_ext demo_body} = {} \<union> (\<Union>a\<in>set (live demo_cluster (peers_list ''c'' listing_fs)). ?C a)"
    unfolding listing_peers l by simp
  have c: "card {sha256 demo_ext demo_body} \<le> 2000" by simp
  from two_passes_union [OF hex_law_demo listing_tidy m r u c refl refl]
  obtain fs1 W1 W2 n1 where run: "sync_loop demo_ext (\<lambda>i. world_net demo_ext demo_cluster) ''c'' True listing_fs = Some (fs1, Ret (Inr (2, 0, n1)))"
    and W: "W1 = world_after demo_ext ''c'' (peers_list ''c'' listing_fs) listing_fs demo_cluster"
    "W2 = world_after demo_ext ''c'' (peers_list ''c'' fs1) fs1 W1"
    and all: "\<forall>a\<in>set [''h:1'', ''i:1'']. \<exists>p. W2 a = Some p \<and> rn_dir p = rn_dir (the (demo_cluster a)) \<and>
       holds demo_ext (rn_dir p) (nd_fs (rn_node p)) {sha256 demo_ext demo_body}"
    unfolding listing_peers l by (elim exE conjE) (simp del: demo_ext_simps)
  have "''i:1'' \<in> set [''h:1'', ''i:1'']" by simp
  from bspec [OF all this] obtain p where p: "W2 ''i:1'' = Some p" "rn_dir p = rn_dir (the (demo_cluster ''i:1''))"
    "holds demo_ext (rn_dir p) (nd_fs (rn_node p)) {sha256 demo_ext demo_body}" by blast
  have d: "rn_dir p = ''e''" unfolding p(2) w(2) by (simp add: demo_remote_def)
  have "has_body demo_ext ''e'' (nd_fs (rn_node p)) (sha256 demo_ext demo_body)" using p(3) unfolding holds_def d by blast
  then show ?thesis
    by (intro exI [of _ fs1] exI [of _ W1] exI [of _ n1] exI [of _ W2] conjI run W exI [of _ p] p(1) d)
qed

end
