(* ===== verification/Hold_Threads.thy ===== *)
theory Hold_Threads
  imports Server Interfaces
begin

text \<open>
  Pushes on several connections at once. The handler of Peer.PutObject is cut where it
  touches what threads share: the limiter, the directory, and every file operation of
  \<open>store_body\<close>. \<open>fs::write\<close> is two operations, one that creates or truncates the temporary
  file and one that writes the body to the open file; the open file stays the same file when
  another thread renames it, and is no file of the directory any more when another thread
  replaces or removes it. Run without interruption the pieces are the handler; interleaved
  they keep the store's integrity whenever no write is in progress.
\<close>

section \<open>The pieces\<close>

text \<open>
  Where a thread stands, with the body from the moment it is decoded; \<open>Push_fill\<close> has the
  path at which the open temporary file is found by now.
\<close>

datatype push_pc =
    Push_gate
  | Push_quota bytes
  | Push_stat bytes
  | Push_create bytes
  | Push_fill bytes "path option"
  | Push_rename bytes
  | Push_clean bytes string

text \<open>The two paths of a body.\<close>

definition final_of :: "ext \<Rightarrow> path \<Rightarrow> bytes \<Rightarrow> path" where
  "final_of X dir body = body_path dir (hex_encode X (sha256 X body))"

definition tmp_of :: "ext \<Rightarrow> path \<Rightarrow> bytes \<Rightarrow> path" where
  "tmp_of X dir body = tmp_body_path dir (hex_encode X (sha256 X body))"

text \<open>
  Writing to an open file from its start. What is beyond the written part stays.
\<close>

definition write_open :: "bytes \<Rightarrow> path option \<Rightarrow> fsys \<Rightarrow> fsys" where
  "write_open d at fs =
     (case at of None \<Rightarrow> fs
      | Some p \<Rightarrow>
          (case fs_lookup fs p of None \<Rightarrow> fs
           | Some f \<Rightarrow> fs_put p (d @ drop (length d) (f_data f)) fs))"

text \<open>
  One piece: the new state, what it does to the paths of open files, and the next position
  or the outcome of the push (the id it reports, or the error text).
\<close>

fun push_step :: "ext \<Rightarrow> path \<Rightarrow> serve_config \<Rightarrow> string \<Rightarrow> u64 \<Rightarrow> rpc2_message \<Rightarrow> push_pc \<Rightarrow> fsys \<times> rate_limiter \<Rightarrow>
    (fsys \<times> rate_limiter) \<times> (path \<Rightarrow> path option) \<times> (push_pc + (string + string) run)" where
  "push_step X dir cfg ip now msg Push_gate (fs, lim) =
     (case hex_crate_decode X (str_or (get_str (rm_payload msg) ''BODY'') []) of
        Inl _ \<Rightarrow> ((fs, lim), Some, Inr (Ret (Inl ''400 body not valid hex'')))
      | Inr body \<Rightarrow>
          (case rl_allow lim ip now of (lim, allowed) \<Rightarrow>
             ((fs, lim), Some,
              if \<not> allowed then Inr (Ret (Inl ''429 put rate limit exceeded''))
              else if (case sc_token cfg of
                         Some tok \<Rightarrow> \<not> ct_eq (str_or (get_str (rm_payload msg) ''TOKEN'') []) tok
                       | None \<Rightarrow> False)
              then Inr (Ret (Inl ''401 bad write token''))
              else Inl (Push_quota body))))"
| "push_step X dir cfg ip now msg (Push_quota body) (fs, lim) =
     ((fs, lim), Some,
      if sc_max_store_bytes cfg > 0 \<and>
         sat_add (store_bytes dir fs) (word_of_nat (length body)) > sc_max_store_bytes cfg
      then Inr (Ret (Inl ''507 store full''))
      else
        (case hex_decode (str_or (get_str (rm_payload msg) ''BLID'') []) of
           Panic \<Rightarrow> Inr Panic
         | Ret blid \<Rightarrow>
             if \<not> (case blid of Some b \<Rightarrow> length b = 32 \<and> b = sha256 X body | None \<Rightarrow> False)
             then Inr (Ret (Inl ''400 body sha256 != BLID''))
             else if body = [] then Inr (Ret (Inl ''400 empty body''))
             else if length body > MAX_BODY_BYTES then Inr (Ret (Inl ''413 body too large''))
             else Inl (Push_stat body)))"
| "push_step X dir cfg ip now msg (Push_stat body) (fs, lim) =
     ((fs, lim), Some,
      if fs_metadata (final_of X dir body) fs \<noteq> None then Inr (Ret (Inr (hex_encode X (sha256 X body))))
      else
        (case fs_create_dir_all dir fs of
           Inl e \<Rightarrow> Inr (Ret (Inl (''dir '' @ dir @ '': '' @ e)))
         | Inr _ \<Rightarrow> Inl (Push_create body)))"
| "push_step X dir cfg ip now msg (Push_create body) (fs, lim) =
     (case flt_write (fs_faults fs) (tmp_of X dir body) of
        Some (e, None) \<Rightarrow> ((fs, lim), Some, Inr (Ret (Inl (''write '' @ tmp_of X dir body @ '': '' @ e))))
      | _ \<Rightarrow> ((fs_put (tmp_of X dir body) [] fs, lim), Some, Inl (Push_fill body (Some (tmp_of X dir body)))))"
| "push_step X dir cfg ip now msg (Push_fill body at) (fs, lim) =
     (case flt_write (fs_faults fs) (tmp_of X dir body) of
        None \<Rightarrow> ((write_open body at fs, lim), Some, Inl (Push_rename body))
      | Some (e, part) \<Rightarrow>
          ((write_open (case part of None \<Rightarrow> [] | Some d \<Rightarrow> d) at fs, lim), Some,
           Inr (Ret (Inl (''write '' @ tmp_of X dir body @ '': '' @ e)))))"
| "push_step X dir cfg ip now msg (Push_rename body) (fs, lim) =
     (case fs_rename (tmp_of X dir body) (final_of X dir body) fs of
        (fs, Inl e) \<Rightarrow> ((fs, lim), Some, Inl (Push_clean body e))
      | (fs, Inr _) \<Rightarrow>
          ((fs, lim),
           (\<lambda>q. if q = final_of X dir body then None
                else if q = tmp_of X dir body then Some (final_of X dir body) else Some q),
           Inr (Ret (Inr (hex_encode X (sha256 X body))))))"
| "push_step X dir cfg ip now msg (Push_clean body e) (fs, lim) =
     (let fs' = fs_remove (tmp_of X dir body) fs in
      ((fs', lim),
       (\<lambda>q. if q = tmp_of X dir body \<and> fs_lookup fs' q = None then None else Some q),
       Inr (Ret (Inl (''rename '' @ tmp_of X dir body @ '': '' @ e)))))"

section \<open>Without interruption\<close>

text \<open>A push alone: at most \<open>n\<close> pieces, \<open>None\<close> when it is not done by then.\<close>

fun push_run :: "ext \<Rightarrow> path \<Rightarrow> serve_config \<Rightarrow> string \<Rightarrow> u64 \<Rightarrow> rpc2_message \<Rightarrow> nat \<Rightarrow> push_pc \<Rightarrow>
    fsys \<times> rate_limiter \<Rightarrow> ((fsys \<times> rate_limiter) \<times> (string + string) run) option" where
  "push_run X dir cfg ip now msg 0 pc c = None"
| "push_run X dir cfg ip now msg (Suc n) pc c =
     (case push_step X dir cfg ip now msg pc c of
        (c', m, Inl pc') \<Rightarrow> push_run X dir cfg ip now msg n pc' c' | (c', m, Inr r) \<Rightarrow> Some (c', r))"

text \<open>The answer frame for an outcome.\<close>

definition push_answer :: "'p stream \<Rightarrow> u64 \<Rightarrow> (string + string) run \<Rightarrow> 'p stream \<times> unit run" where
  "push_answer s sq r =
     (case r of
        Panic \<Rightarrow> (s, Panic)
      | Ret (Inl e) \<Rightarrow> (refuse s sq e, Ret ())
      | Ret (Inr cid_hex) \<Rightarrow>
          (case hex_decode cid_hex of
             Panic \<Rightarrow> (s, Panic)
           | Ret None \<Rightarrow> (answer s sq (putobject_response (replicate 32 0)), Ret ())
           | Ret (Some b) \<Rightarrow>
               if length b \<noteq> 32 then (s, Panic) else (answer s sq (putobject_response b), Ret ())))"

lemma fs_put_put: "fs_put p d (fs_put p d' fs) = fs_put p d fs"
  by (simp add: fs_put_def)

lemma write_open_created: "write_open d (Some p) (fs_put p [] fs) = fs_put p d fs"
  by (simp add: write_open_def fs_put_put)

lemma push_run_store:
  assumes "body \<noteq> []" "length body \<le> MAX_BODY_BYTES"
  shows "push_run X dir cfg ip now msg 5 (Push_stat body) (fs, lim) =
    Some (case store_body X dir body fs of (fs', r) \<Rightarrow> ((fs', lim), Ret r))"
proof -
  have 5: "(5 :: nat) = Suc (Suc (Suc (Suc (Suc 0))))" by simp
  show ?thesis
    unfolding 5 using assms
    by (auto simp: store_body_def Let_def fs_write_def fs_create_dir_all_def write_open_created
        final_of_def tmp_of_def tmp_body_path_def split: option.split sum.split prod.split)
qed

lemma push_run_numeral:
  "push_run X dir cfg ip now msg (numeral k) pc c =
     (case push_step X dir cfg ip now msg pc c of
        (c', m, Inl pc') \<Rightarrow> push_run X dir cfg ip now msg (pred_numeral k) pc' c' | (c', m, Inr r) \<Rightarrow> Some (c', r))"
  by (simp add: numeral_eq_Suc)

lemma push_run_putobject:
  "map_option (\<lambda>((fs, lim), r). case push_answer s (rm_seq msg) r of (s', r') \<Rightarrow>
       (s', nd\<lparr>nd_limiter := lim, nd_fs := fs\<rparr>, r'))
     (push_run X dir cfg ip now msg 7 Push_gate (nd_fs nd, nd_limiter nd)) =
   Some (rpc2_putobject X s msg dir ip cfg now nd)"
proof -
  have same: "nd\<lparr>nd_limiter := l, nd_fs := nd_fs nd\<rparr> = nd\<lparr>nd_limiter := l\<rparr>" for l by simp
  let ?body = "hex_crate_decode X (str_or (get_str (rm_payload msg) ''BODY'') [])"
  show ?thesis
  proof (cases ?body)
    case (Inl e)
    then show ?thesis by (simp add: push_run_numeral rpc2_putobject_def push_answer_def)
  next
    case body: (Inr body)
    obtain lim allowed where lim: "rl_allow (nd_limiter nd) ip now = (lim, allowed)" by fastforce
    let ?pol = "enforce_write_policy cfg ip dir (nd_fs nd) (length body) (nd_limiter nd) now (rm_payload msg)"
    let ?blid = "hex_decode (str_or (get_str (rm_payload msg) ''BLID'') [])"
    show ?thesis
    proof (cases "snd ?pol")
      case (Inl e)
      then have "?pol = (lim, Inl e)"
        by (auto simp: enforce_write_policy_def lim split: if_splits)
      with body Inl lim show ?thesis
        by (auto simp: push_run_numeral rpc2_putobject_def push_answer_def Let_def enforce_write_policy_def split: if_splits)
    next
      case (Inr u)
      then have pol: "?pol = (lim, Inr u)"
        by (auto simp: enforce_write_policy_def lim split: if_splits)
      have gate: "push_run X dir cfg ip now msg 7 Push_gate (nd_fs nd, nd_limiter nd) =
          push_run X dir cfg ip now msg 6 (Push_quota body) (nd_fs nd, lim)"
        using pol by (auto simp: push_run_numeral [of _ _ _ _ _ _ "num.Bit1 (num.Bit1 num.One)"] body lim enforce_write_policy_def split: if_splits)
      have cap: "\<not> (sc_max_store_bytes cfg > 0 \<and> sat_add (store_bytes dir (nd_fs nd)) (word_of_nat (length body)) > sc_max_store_bytes cfg)"
        using pol by (auto simp: lim enforce_write_policy_def split: if_splits)
      show ?thesis
      proof (cases "?blid = Ret (Some (sha256 X body)) \<and> length (sha256 X body) = 32 \<and> body \<noteq> [] \<and> length body \<le> MAX_BODY_BYTES")
        case True
        then have "push_run X dir cfg ip now msg 6 (Push_quota body) (nd_fs nd, lim) =
            push_run X dir cfg ip now msg 5 (Push_stat body) (nd_fs nd, lim)"
          using cap by (auto simp: push_run_numeral [of _ _ _ _ _ _ "num.Bit0 (num.Bit1 num.One)"])
        then show ?thesis
          using True push_run_store [of body X dir cfg ip now msg "nd_fs nd" lim]
          by (auto simp: gate rpc2_putobject_def push_answer_def Let_def body pol split: prod.split sum.split run.split option.split)
      next
        case False
        note run = gate push_run_numeral [of X dir cfg ip now msg "num.Bit0 (num.Bit1 num.One)" "Push_quota body"]
        have lim': "\<not> (sc_max_store_bytes cfg > 0 \<and> sc_max_store_bytes cfg < sat_add (store_bytes dir (nd_fs nd)) (word_of_nat (length body)))"
          using cap by simp
        let ?good = "\<lambda>bl. case bl of Some b \<Rightarrow> length b = 32 \<and> b = sha256 X body | None \<Rightarrow> False"
        consider (panic) "?blid = Panic" | (bad) bl where "?blid = Ret bl" "\<not> ?good bl"
          | (empty) bl where "?blid = Ret bl" "?good bl" "body = []"
          | (big) bl where "?blid = Ret bl" "?good bl" "body \<noteq> []" "MAX_BODY_BYTES < length body"
          using False by (cases ?blid) (force split: option.splits)+
        then show ?thesis
        proof cases
          case panic
          then show ?thesis by (simp add: run lim' rpc2_putobject_def push_answer_def Let_def body pol)
        next
          case bad
          then show ?thesis by (simp add: run lim' rpc2_putobject_def push_answer_def Let_def body pol)
        next
          case empty
          have "push_step X dir cfg ip now msg (Push_quota body) (nd_fs nd, lim) =
              ((nd_fs nd, lim), Some, Inr (Ret (Inl ''400 empty body'')))"
            "store_body X dir body (nd_fs nd) = (nd_fs nd, Inl ''400 empty body'')"
            using empty lim' by (cases bl; auto simp: store_body_def)+
          then show ?thesis using empty(1,2) by (simp add: run rpc2_putobject_def push_answer_def Let_def body pol del: push_step.simps)
        next
          case big
          have "push_step X dir cfg ip now msg (Push_quota body) (nd_fs nd, lim) =
              ((nd_fs nd, lim), Some, Inr (Ret (Inl ''413 body too large'')))"
            "store_body X dir body (nd_fs nd) = (nd_fs nd, Inl ''413 body too large'')"
            using big lim' by (simp_all add: store_body_def)
          then show ?thesis using big(1,2) by (simp add: run rpc2_putobject_def push_answer_def Let_def body pol del: push_step.simps)
        qed
      qed
    qed
  qed
qed

section \<open>All connections at once\<close>

text \<open>
  A push in progress: remote address, time of the limiter, request and position. A run starts
  pushes whose bodies are in \<open>B\<close>, and lets any of them do its next piece; its events are the
  ids that pushes report as stored.
\<close>

datatype push_job = Push string u64 rpc2_message push_pc

record push_threads =
  pt_fs :: fsys
  pt_lim :: rate_limiter
  pt_jobs :: "push_job list"

fun moved :: "(path \<Rightarrow> path option) \<Rightarrow> push_job \<Rightarrow> push_job" where
  "moved m (Push ip now msg (Push_fill body (Some p))) = Push ip now msg (Push_fill body (m p))"
| "moved m job = job"

definition body_in :: "ext \<Rightarrow> bytes set \<Rightarrow> rpc2_message \<Rightarrow> bool" where
  "body_in X B msg \<longleftrightarrow>
     (case hex_crate_decode X (str_or (get_str (rm_payload msg) ''BODY'') []) of Inl _ \<Rightarrow> True | Inr body \<Rightarrow> body \<in> B)"

fun reported :: "(string + string) run \<Rightarrow> string option" where
  "reported (Ret (Inr cid)) = Some cid"
| "reported _ = None"

inductive pushes_do :: "ext \<Rightarrow> path \<Rightarrow> serve_config \<Rightarrow> bytes set \<Rightarrow> push_threads \<Rightarrow> string option \<Rightarrow> push_threads \<Rightarrow> bool"
  for X dir cfg B where
  accept: "body_in X B msg \<Longrightarrow>
    pushes_do X dir cfg B s None (s\<lparr>pt_jobs := pt_jobs s @ [Push ip now msg Push_gate]\<rparr>)"
| step: "j < length (pt_jobs s) \<Longrightarrow> pt_jobs s ! j = Push ip now msg pc \<Longrightarrow>
    push_step X dir cfg ip now msg pc (pt_fs s, pt_lim s) = ((fs, lim), m, Inl pc') \<Longrightarrow>
    pushes_do X dir cfg B s None
      (s\<lparr>pt_fs := fs, pt_lim := lim, pt_jobs := (map (moved m) (pt_jobs s))[j := Push ip now msg pc']\<rparr>)"
| reply: "j < length (pt_jobs s) \<Longrightarrow> pt_jobs s ! j = Push ip now msg pc \<Longrightarrow>
    push_step X dir cfg ip now msg pc (pt_fs s, pt_lim s) = ((fs, lim), m, Inr r) \<Longrightarrow>
    pushes_do X dir cfg B s (reported r)
      (s\<lparr>pt_fs := fs, pt_lim := lim, pt_jobs := map (moved m) (take j (pt_jobs s) @ drop (Suc j) (pt_jobs s))\<rparr>)"

section \<open>The invariant\<close>

text \<open>Where bodies are being written, and which bodies have a temporary file to rename.\<close>

fun fill_of :: "push_job \<Rightarrow> (bytes \<times> path) set" where
  "fill_of (Push ip now msg (Push_fill b (Some p))) = {(b, p)}"
| "fill_of job = {}"

fun work_of :: "push_job \<Rightarrow> bytes set" where
  "work_of (Push ip now msg (Push_fill b at)) = {b}"
| "work_of (Push ip now msg (Push_rename b)) = {b}"
| "work_of job = {}"

definition fills :: "push_job list \<Rightarrow> (bytes \<times> path) set" where
  "fills jobs = (\<Union>job\<in>set jobs. fill_of job)"

definition works :: "push_job list \<Rightarrow> bytes set" where
  "works jobs = (\<Union>job\<in>set jobs. work_of job)"

fun bodies_in :: "ext \<Rightarrow> bytes set \<Rightarrow> push_job \<Rightarrow> bool" where
  "bodies_in X B (Push ip now msg pc) \<longleftrightarrow>
     (case pc of Push_gate \<Rightarrow> body_in X B msg | Push_quota b \<Rightarrow> b \<in> B | Push_stat b \<Rightarrow> b \<in> B
      | Push_create b \<Rightarrow> b \<in> B | Push_fill b _ \<Rightarrow> b \<in> B | Push_rename b \<Rightarrow> b \<in> B | Push_clean b _ \<Rightarrow> b \<in> B)"

text \<open>
  A file under a body's name has the right hash, or some push is about to write it; the same
  holds of the temporary file of a push that is to rename it; an open file is empty or has
  the body already.
\<close>

definition disk_inv :: "ext \<Rightarrow> path \<Rightarrow> bytes set \<Rightarrow> fsys \<Rightarrow> (bytes \<times> path) set \<Rightarrow> bytes set \<Rightarrow> bool" where
  "disk_inv X dir B fs F W \<longleftrightarrow>
     (\<forall>b p. (b, p) \<in> F \<longrightarrow> b \<in> B \<and> (p = tmp_of X dir b \<or> p = final_of X dir b) \<and>
        (\<exists>f. fs_lookup fs p = Some f \<and> (f_data f = [] \<or> f_data f = b))) \<and>
     (\<forall>b\<in>W. b \<in> B \<and> (\<forall>f. fs_lookup fs (tmp_of X dir b) = Some f \<longrightarrow> f_data f = b \<or> (\<exists>b'. (b', tmp_of X dir b) \<in> F))) \<and>
     (\<forall>h f c. fs_lookup fs (body_path dir h) = Some f \<longrightarrow> hex_decode h = Ret (Some c) \<longrightarrow> length c = 32 \<longrightarrow>
        sha256 X (f_data f) = c \<or> (\<exists>b'. (b', body_path dir h) \<in> F))"

definition pushes_ok :: "ext \<Rightarrow> path \<Rightarrow> bytes set \<Rightarrow> push_threads \<Rightarrow> bool" where
  "pushes_ok X dir B s \<longleftrightarrow> (\<forall>p. flt_write (fs_faults (pt_fs s)) p = None) \<and> list_all (bodies_in X B) (pt_jobs s) \<and>
     disk_inv X dir B (pt_fs s) (fills (pt_jobs s)) (works (pt_jobs s))"

definition move_fills :: "(path \<Rightarrow> path option) \<Rightarrow> (bytes \<times> path) set \<Rightarrow> (bytes \<times> path) set" where
  "move_fills m F = {(b, q). \<exists>p. (b, p) \<in> F \<and> m p = Some q}"

lemma move_fills_simps [simp]:
  "move_fills m {} = {}" "move_fills m {(b, p)} = (case m p of None \<Rightarrow> {} | Some q \<Rightarrow> {(b, q)})"
  "fill_of (Push ip now msg (Push_fill b at)) = (case at of None \<Rightarrow> {} | Some p \<Rightarrow> {(b, p)})"
  by (auto simp: move_fills_def split: option.split)

lemma moved_simps [simp]:
  "fill_of (moved m job) = move_fills m (fill_of job)" "work_of (moved m job) = work_of job"
  "bodies_in X B (moved m job) = bodies_in X B job"
proof -
  have "moved m job = job \<and> fill_of job = {} \<or>
    (\<exists>ip now msg b p. job = Push ip now msg (Push_fill b (Some p)) \<and> moved m job = Push ip now msg (Push_fill b (m p)))"
    by (induction m job rule: moved.induct) simp_all
  then show "fill_of (moved m job) = move_fills m (fill_of job)" "work_of (moved m job) = work_of job"
    "bodies_in X B (moved m job) = bodies_in X B job" by auto
qed

lemma move_fills_UN: "move_fills m (\<Union>x\<in>A. f x) = (\<Union>x\<in>A. move_fills m (f x))"
  by (auto simp: move_fills_def)

lemma moved_jobs: "fills (map (moved m) jobs) = move_fills m (fills jobs)" "works (map (moved m) jobs) = works jobs"
  by (simp_all add: fills_def works_def move_fills_UN)

text \<open>The others keep their open files; only the job that made the step may close its own.\<close>

lemma jobs_update:
  assumes "j < length jobs" "jobs ! j = job"
  shows "fills ((map (moved m) jobs)[j := job']) \<subseteq> fill_of job' \<union> move_fills m (fills jobs)"
    "fill_of job' \<union> move_fills m (fills jobs - fill_of job) \<subseteq> fills ((map (moved m) jobs)[j := job'])"
    "works ((map (moved m) jobs)[j := job']) \<subseteq> work_of job' \<union> works jobs"
proof -
  let ?jobs = "(map (moved m) jobs)[j := job']"
  have sub: "set ?jobs \<subseteq> insert job' (set (map (moved m) jobs))" by (rule set_update_subset_insert)
  then have "fills ?jobs \<subseteq> fill_of job' \<union> fills (map (moved m) jobs)" unfolding fills_def by blast
  then show "fills ?jobs \<subseteq> fill_of job' \<union> move_fills m (fills jobs)" by (simp only: moved_jobs)
  have "works ?jobs \<subseteq> work_of job' \<union> works (map (moved m) jobs)" using sub unfolding works_def by blast
  then show "works ?jobs \<subseteq> work_of job' \<union> works jobs" by (simp only: moved_jobs)
  have own: "job' \<in> set ?jobs" using assms by (simp add: set_update_memI)
  have others: "moved m job1 \<in> set ?jobs" if "job1 \<in> set jobs" "job1 \<noteq> job" for job1
  proof -
    from that obtain i where "i < length jobs" "jobs ! i = job1" by (auto simp: in_set_conv_nth)
    moreover have "i \<noteq> j" using calculation that assms by auto
    ultimately have "i < length ?jobs" "?jobs ! i = moved m job1" by simp_all
    then show ?thesis by (metis nth_mem)
  qed
  have "move_fills m (fills jobs - fill_of job) \<subseteq> (\<Union>job1\<in>set jobs - {job}. move_fills m (fill_of job1))"
    by (auto simp: move_fills_def fills_def)
  also have "\<dots> \<subseteq> fills ?jobs" using others unfolding fills_def moved_simps(1) [symmetric] by blast
  finally show "fill_of job' \<union> move_fills m (fills jobs - fill_of job) \<subseteq> fills ?jobs"
    using own unfolding fills_def by blast
qed

lemma jobs_remove:
  assumes "j < length jobs" "jobs ! j = job"
  shows "fills (map (moved m) (take j jobs @ drop (Suc j) jobs)) \<subseteq> move_fills m (fills jobs)"
    "move_fills m (fills jobs - fill_of job) \<subseteq> fills (map (moved m) (take j jobs @ drop (Suc j) jobs))"
    "works (map (moved m) (take j jobs @ drop (Suc j) jobs)) \<subseteq> works jobs"
proof -
  let ?rest = "take j jobs @ drop (Suc j) jobs"
  have "take j jobs @ job # drop (Suc j) jobs = jobs" using assms by (metis id_take_nth_drop)
  then have s: "set jobs = insert job (set ?rest)" by (metis list.simps(15) set_append Un_insert_right)
  then have f: "fills jobs = fill_of job \<union> fills ?rest" "works jobs = work_of job \<union> works ?rest"
    by (simp_all add: fills_def works_def)
  then show "fills (map (moved m) ?rest) \<subseteq> move_fills m (fills jobs)"
    "move_fills m (fills jobs - fill_of job) \<subseteq> fills (map (moved m) ?rest)"
    "works (map (moved m) ?rest) \<subseteq> works jobs"
    unfolding moved_jobs by (auto simp: move_fills_def)
qed

section \<open>Every piece keeps the invariant\<close>

lemma disk_invI:
  assumes "\<And>b p. (b, p) \<in> F \<Longrightarrow> b \<in> B \<and> (p = tmp_of X dir b \<or> p = final_of X dir b) \<and>
      (\<exists>f. fs_lookup fs p = Some f \<and> (f_data f = [] \<or> f_data f = b))"
    "\<And>b. b \<in> W \<Longrightarrow> b \<in> B"
    "\<And>b f. b \<in> W \<Longrightarrow> fs_lookup fs (tmp_of X dir b) = Some f \<Longrightarrow> f_data f = b \<or> (\<exists>b'. (b', tmp_of X dir b) \<in> F)"
    "\<And>h f c. fs_lookup fs (body_path dir h) = Some f \<Longrightarrow> hex_decode h = Ret (Some c) \<Longrightarrow> length c = 32 \<Longrightarrow>
      sha256 X (f_data f) = c \<or> (\<exists>b'. (b', body_path dir h) \<in> F)"
  shows "disk_inv X dir B fs F W"
  unfolding disk_inv_def using assms by blast

lemma disk_invD:
  assumes "disk_inv X dir B fs F W"
  shows "(b, p) \<in> F \<Longrightarrow> b \<in> B \<and> (p = tmp_of X dir b \<or> p = final_of X dir b) \<and>
      (\<exists>f. fs_lookup fs p = Some f \<and> (f_data f = [] \<or> f_data f = b))"
    "b \<in> W \<Longrightarrow> b \<in> B"
    "b \<in> W \<Longrightarrow> fs_lookup fs (tmp_of X dir b) = Some f \<Longrightarrow> f_data f = b \<or> (\<exists>b'. (b', tmp_of X dir b) \<in> F)"
    "fs_lookup fs (body_path dir h) = Some f \<Longrightarrow> hex_decode h = Ret (Some c) \<Longrightarrow> length c = 32 \<Longrightarrow>
      sha256 X (f_data f) = c \<or> (\<exists>b'. (b', body_path dir h) \<in> F)"
proof -
  note inv = assms [unfolded disk_inv_def]
  show "(b, p) \<in> F \<Longrightarrow> b \<in> B \<and> (p = tmp_of X dir b \<or> p = final_of X dir b) \<and>
      (\<exists>f. fs_lookup fs p = Some f \<and> (f_data f = [] \<or> f_data f = b))" using inv by simp
  show "b \<in> W \<Longrightarrow> b \<in> B" using inv by simp
  show "b \<in> W \<Longrightarrow> fs_lookup fs (tmp_of X dir b) = Some f \<Longrightarrow> f_data f = b \<or> (\<exists>b'. (b', tmp_of X dir b) \<in> F)"
    using inv by simp
  show "fs_lookup fs (body_path dir h) = Some f \<Longrightarrow> hex_decode h = Ret (Some c) \<Longrightarrow> length c = 32 \<Longrightarrow>
      sha256 X (f_data f) = c \<or> (\<exists>b'. (b', body_path dir h) \<in> F)" using inv by simp
qed

lemma paths_differ [simp]:
  "tmp_of X dir b \<noteq> final_of X dir b'" "final_of X dir b' \<noteq> tmp_of X dir b"
  "tmp_of X dir b \<noteq> body_path dir h" "body_path dir h \<noteq> tmp_of X dir b"
  by (simp_all add: tmp_of_def final_of_def)

lemma paths_same:
  assumes "hex_law X" "inj_on (sha256 X) B" "b \<in> B" "b' \<in> B"
  shows "tmp_of X dir b = tmp_of X dir b' \<longleftrightarrow> b = b'" "final_of X dir b = final_of X dir b' \<longleftrightarrow> b = b'"
proof -
  have e: "hex_encode X (sha256 X b) = hex_encode X (sha256 X b') \<longleftrightarrow> b = b'"
    using assms by (simp add: hex_encode_inj inj_on_eq_iff)
  show "tmp_of X dir b = tmp_of X dir b' \<longleftrightarrow> b = b'" using e by (simp add: tmp_of_def tmp_body_path_def)
  show "final_of X dir b = final_of X dir b' \<longleftrightarrow> b = b'" using e by (simp add: final_of_def)
qed

lemma final_name:
  "hex_law X \<Longrightarrow> body_path dir h = final_of X dir b \<Longrightarrow> hex_decode h = Ret (Some c) \<Longrightarrow> c = sha256 X b"
  by (simp add: final_of_def hex_law_encode hex_decode_hexs)

lemma disk_inv_create:
  assumes law: "hex_law X" and inj: "inj_on (sha256 X) B" and inv: "disk_inv X dir B fs F W" and b: "b \<in> B" and W: "W' \<subseteq> insert b W"
  shows "disk_inv X dir B (fs_put (tmp_of X dir b) [] fs) (insert (b, tmp_of X dir b) F) W'"
proof (rule disk_invI)
  fix b' p assume "(b', p) \<in> insert (b, tmp_of X dir b) F"
  then consider "b' = b" "p = tmp_of X dir b" | "(b', p) \<in> F" by blast
  then show "b' \<in> B \<and> (p = tmp_of X dir b' \<or> p = final_of X dir b') \<and>
      (\<exists>f. fs_lookup (fs_put (tmp_of X dir b) [] fs) p = Some f \<and> (f_data f = [] \<or> f_data f = b'))"
    using b disk_invD(1) [OF inv, of b' p] by cases (simp, cases "p = tmp_of X dir b", simp_all)
next
  fix b' f assume "b' \<in> W'" "fs_lookup (fs_put (tmp_of X dir b) [] fs) (tmp_of X dir b') = Some f"
  then show "f_data f = b' \<or> (\<exists>b''. (b'', tmp_of X dir b') \<in> insert (b, tmp_of X dir b) F)"
    using disk_invD(3) [OF inv, of b' f] W by (cases "tmp_of X dir b' = tmp_of X dir b") auto
next
  fix h f c assume "fs_lookup (fs_put (tmp_of X dir b) [] fs) (body_path dir h) = Some f"
    "hex_decode h = Ret (Some c)" "length c = 32"
  then show "sha256 X (f_data f) = c \<or> (\<exists>b'. (b', body_path dir h) \<in> insert (b, tmp_of X dir b) F)"
    using disk_invD(4) [OF inv, of h f c] by auto
qed (use W b disk_invD(2) [OF inv] in auto)

lemma disk_inv_fill:
  assumes law: "hex_law X" and inj: "inj_on (sha256 X) B" and inv: "disk_inv X dir B fs F W" and bp: "(b, p) \<in> F" and F: "F' \<subseteq> F" "F - {(b, p)} \<subseteq> F'" and W: "W' \<subseteq> W"
  shows "disk_inv X dir B (write_open b (Some p) fs) F' W'"
proof -
  from disk_invD(1) [OF inv bp] obtain f0 where b: "b \<in> B" "p = tmp_of X dir b \<or> p = final_of X dir b"
    and f0: "fs_lookup fs p = Some f0" "f_data f0 = [] \<or> f_data f0 = b" by blast
  have w: "write_open b (Some p) fs = fs_put p b fs" using f0 by (auto simp: write_open_def)
  show ?thesis
    unfolding w
  proof (rule disk_invI)
    fix b' q assume "(b', q) \<in> F'"
    with F have "(b', q) \<in> F" by blast
    note old = disk_invD(1) [OF inv this]
    show "b' \<in> B \<and> (q = tmp_of X dir b' \<or> q = final_of X dir b') \<and>
      (\<exists>f. fs_lookup (fs_put p b fs) q = Some f \<and> (f_data f = [] \<or> f_data f = b'))"
      using old b paths_same [OF law inj, of b b' dir] by (cases "q = p") auto
  next
    fix b' f assume b': "b' \<in> W'" and f: "fs_lookup (fs_put p b fs) (tmp_of X dir b') = Some f"
    with W have W': "b' \<in> W" by blast
    show "f_data f = b' \<or> (\<exists>b''. (b'', tmp_of X dir b') \<in> F')"
    proof (cases "tmp_of X dir b' = p")
      case True
      with b(2) have "tmp_of X dir b = tmp_of X dir b'" by auto
      then have "b = b'" using paths_same [OF law inj b(1) disk_invD(2) [OF inv W']] by blast
      moreover from f True have "f = \<lparr>f_data = b, f_mtime = fs_now fs\<rparr>" by simp
      ultimately show ?thesis by simp
    next
      case False
      then show ?thesis using disk_invD(3) [OF inv W', of f] f F(2) by auto
    qed
  next
    fix h f c assume f: "fs_lookup (fs_put p b fs) (body_path dir h) = Some f" and d: "hex_decode h = Ret (Some c)"
      and c: "length c = 32"
    show "sha256 X (f_data f) = c \<or> (\<exists>b'. (b', body_path dir h) \<in> F')"
    proof (cases "body_path dir h = p")
      case True
      with b(2) have "body_path dir h = final_of X dir b" by auto
      from final_name [OF law this d] show ?thesis using f True by auto
    next
      case False
      then show ?thesis using disk_invD(4) [OF inv, of h f c] f d c F(2) by auto
    qed
  qed (use W disk_invD(2) [OF inv] in auto)
qed

lemma disk_inv_rename:
  assumes law: "hex_law X" and inj: "inj_on (sha256 X) B" and inv: "disk_inv X dir B fs F W" and b: "b \<in> W" and W: "W' \<subseteq> W"
    and ren: "fs_rename (tmp_of X dir b) (final_of X dir b) fs = (fs', Inr u)"
    and m: "m = (\<lambda>q. if q = final_of X dir b then None else if q = tmp_of X dir b then Some (final_of X dir b) else Some q)"
  shows "disk_inv X dir B fs' (move_fills m F) W'"
proof -
  from fs_rename_ok [OF ren] obtain f0 where f0: "fs_lookup fs (tmp_of X dir b) = Some f0"
    and fs': "fs_lookup fs' = (fs_lookup fs)(tmp_of X dir b := None, final_of X dir b \<mapsto> f0)" by blast
  have bB: "b \<in> B" using disk_invD(2) [OF inv b] .
  show ?thesis
  proof (rule disk_invI)
    fix b' q assume "(b', q) \<in> move_fills m F"
    then obtain p where p: "(b', p) \<in> F" "m p = Some q" by (auto simp: move_fills_def)
    note old = disk_invD(1) [OF inv p(1)]
    show "b' \<in> B \<and> (q = tmp_of X dir b' \<or> q = final_of X dir b') \<and>
      (\<exists>f. fs_lookup fs' q = Some f \<and> (f_data f = [] \<or> f_data f = b'))"
    proof (cases "p = tmp_of X dir b")
      case True
      with old have "tmp_of X dir b = tmp_of X dir b'" by auto
      then have "b' = b" using paths_same [OF law inj bB] old by blast
      then show ?thesis using old p(2) True f0 fs' by (simp add: m)
    next
      case False
      then have "q = p" "q \<noteq> tmp_of X dir b" "q \<noteq> final_of X dir b" using p(2) by (auto simp: m split: if_splits)
      then show ?thesis using old fs' by simp
    qed
  next
    fix b' f assume b': "b' \<in> W'" and f: "fs_lookup fs' (tmp_of X dir b') = Some f"
    then have ne: "tmp_of X dir b' \<noteq> tmp_of X dir b" and "fs_lookup fs (tmp_of X dir b') = Some f"
      by (auto simp: fs' split: if_splits)
    with disk_invD(3) [OF inv, of b' f] b' W have "f_data f = b' \<or> (\<exists>b''. (b'', tmp_of X dir b') \<in> F)" by blast
    then show "f_data f = b' \<or> (\<exists>b''. (b'', tmp_of X dir b') \<in> move_fills m F)"
      using ne by (force simp: move_fills_def m)
  next
    fix h f c assume f: "fs_lookup fs' (body_path dir h) = Some f" and d: "hex_decode h = Ret (Some c)" and c: "length c = 32"
    show "sha256 X (f_data f) = c \<or> (\<exists>b'. (b', body_path dir h) \<in> move_fills m F)"
    proof (cases "body_path dir h = final_of X dir b")
      case True
      with f fs' have "f = f0" by simp
      moreover from disk_invD(3) [OF inv b f0] have "f_data f0 = b \<or> (\<exists>b'. (b', final_of X dir b) \<in> move_fills m F)"
        by (force simp: move_fills_def m)
      ultimately show ?thesis using final_name [OF law True d] True by auto
    next
      case False
      with f fs' have "fs_lookup fs (body_path dir h) = Some f" by simp
      from disk_invD(4) [OF inv this d c] show ?thesis using False by (force simp: move_fills_def m)
    qed
  qed (use W disk_invD(2) [OF inv] in auto)
qed

lemma disk_inv_clean:
  assumes inv: "disk_inv X dir B fs F W" and W: "W' \<subseteq> W" and fs': "fs' = fs_remove (tmp_of X dir b) fs"
    and m: "m = (\<lambda>q. if q = tmp_of X dir b \<and> fs_lookup fs' q = None then None else Some q)"
  shows "disk_inv X dir B fs' (move_fills m F) W'"
proof -
  have sub: "fs_lookup fs q = Some f" if "fs_lookup fs' q = Some f" for q f
    using that unfolding fs' by (rule fs_remove_sub)
  have keep: "fs_lookup fs' q = fs_lookup fs q" if "q \<noteq> tmp_of X dir b" for q
    unfolding fs' using that by (rule fs_remove_other)
  have stay: "(b', q) \<in> move_fills m F" if "(b', q) \<in> F" "fs_lookup fs' q = Some f" for b' q f
    unfolding move_fills_def m using that by (auto intro!: exI [of _ q])
  show ?thesis
  proof (rule disk_invI)
    fix b' q assume "(b', q) \<in> move_fills m F"
    then have q: "(b', q) \<in> F" "q \<noteq> tmp_of X dir b \<or> fs_lookup fs' q \<noteq> None"
      by (auto simp: move_fills_def m split: if_splits)
    have "fs_lookup fs' q = fs_lookup fs q"
    proof (cases "q = tmp_of X dir b")
      case True
      with q(2) obtain f where "fs_lookup fs' q = Some f" by auto
      then show ?thesis using sub by simp
    qed (rule keep)
    with disk_invD(1) [OF inv q(1)] show "b' \<in> B \<and> (q = tmp_of X dir b' \<or> q = final_of X dir b') \<and>
      (\<exists>f. fs_lookup fs' q = Some f \<and> (f_data f = [] \<or> f_data f = b'))" by simp
  next
    fix b' f assume "b' \<in> W'" "fs_lookup fs' (tmp_of X dir b') = Some f"
    then show "f_data f = b' \<or> (\<exists>b''. (b'', tmp_of X dir b') \<in> move_fills m F)"
      using disk_invD(3) [OF inv, of b' f] sub stay W by blast
  next
    fix h f c assume "fs_lookup fs' (body_path dir h) = Some f" "hex_decode h = Ret (Some c)" "length c = 32"
    then show "sha256 X (f_data f) = c \<or> (\<exists>b'. (b', body_path dir h) \<in> move_fills m F)"
      using disk_invD(4) [OF inv, of h f c] sub stay by blast
  qed (use W disk_invD(2) [OF inv] in auto)
qed

lemma move_fills_Some [simp]: "move_fills Some F = F"
  by (auto simp: move_fills_def)

lemma disk_inv_mono: "disk_inv X dir B fs F W \<Longrightarrow> W' \<subseteq> W \<Longrightarrow> disk_inv X dir B fs F W'"
  unfolding disk_inv_def by blast

text \<open>What a finished or continued job writes next.\<close>

fun next_fill :: "push_pc + (string + string) run \<Rightarrow> (bytes \<times> path) set" where
  "next_fill (Inl (Push_fill b (Some p))) = {(b, p)}"
| "next_fill _ = {}"

fun next_work :: "push_pc + (string + string) run \<Rightarrow> bytes set" where
  "next_work (Inl (Push_fill b at)) = {b}"
| "next_work (Inl (Push_rename b)) = {b}"
| "next_work _ = {}"

lemma push_step_inv:
  assumes law: "hex_law X" and inj: "inj_on (sha256 X) B" and w: "\<forall>p. flt_write (fs_faults fs) p = None"
    and job: "bodies_in X B (Push ip now msg pc)"
    and inv: "disk_inv X dir B fs F W" and own: "fill_of (Push ip now msg pc) \<subseteq> F" "work_of (Push ip now msg pc) \<subseteq> W"
    and st: "push_step X dir cfg ip now msg pc (fs, lim) = ((fs', lim'), m, res)"
    and F: "F' \<subseteq> next_fill res \<union> move_fills m F" "next_fill res \<union> move_fills m (F - fill_of (Push ip now msg pc)) \<subseteq> F'"
    and W: "W' \<subseteq> next_work res \<union> W"
  shows "disk_inv X dir B fs' F' W' \<and> fs_faults fs' = fs_faults fs \<and>
    (case res of Inl pc' \<Rightarrow> bodies_in X B (Push ip now msg pc') | Inr _ \<Rightarrow> True)"
proof -
  have quiet: "disk_inv X dir B fs F' W'" if "m = Some" "next_fill res = {}" "next_work res = {}"
    "fill_of (Push ip now msg pc) = {}"
  proof -
    have "F' = F" "W' \<subseteq> W" using F W that by auto
    then show ?thesis using disk_inv_mono [OF inv] by simp
  qed
  show ?thesis
  proof (cases pc)
    case Push_gate
    then show ?thesis using st job quiet
      by (auto simp: body_in_def split: sum.splits prod.splits if_splits)
  next
    case (Push_quota b)
    then show ?thesis using st job quiet
      by (auto split: if_splits run.splits)
  next
    case (Push_stat b)
    then show ?thesis using st job quiet
      by (auto split: if_splits sum.splits)
  next
    case (Push_create b)
    then have e: "fs' = fs_put (tmp_of X dir b) [] fs" "m = Some" "res = Inl (Push_fill b (Some (tmp_of X dir b)))"
      using st w by auto
    have bB: "b \<in> B" using job Push_create by simp
    have "F' = insert (b, tmp_of X dir b) F" "W' \<subseteq> insert b W" using F W e(2,3) Push_create by auto
    then show ?thesis using disk_inv_create [OF law inj inv bB] bB e by simp
  next
    case (Push_fill b at)
    then have e: "fs' = write_open b at fs" "m = Some" "res = Inl (Push_rename b)" using st w by auto
    have bB: "b \<in> B" and W': "W' \<subseteq> W" using job W own(2) Push_fill e(3) by auto
    show ?thesis
    proof (cases at)
      case None
      then have "F' = F" using F e(2,3) Push_fill by auto
      then show ?thesis using disk_inv_mono [OF inv W'] bB e None by (simp add: write_open_def)
    next
      case (Some p)
      then have "(b, p) \<in> F" "F' \<subseteq> F" "F - {(b, p)} \<subseteq> F'" using own(1) F e(2,3) Push_fill by auto
      from disk_inv_fill [OF law inj inv this W'] show ?thesis
        using bB e Some by (simp add: write_open_def split: option.split)
    qed
  next
    case (Push_rename b)
    have bB: "b \<in> B" and bW: "b \<in> W" using job own(2) Push_rename by auto
    obtain fs2 r where r: "fs_rename (tmp_of X dir b) (final_of X dir b) fs = (fs2, r)" by fastforce
    show ?thesis
    proof (cases r)
      case (Inl er)
      then have "fs' = fs" "m = Some" "res = Inl (Push_clean b er)"
        using st r Push_rename fs_rename_err [of _ _ fs fs2 er] by auto
      then show ?thesis using quiet Push_rename bB by auto
    next
      case (Inr u)
      then have e: "fs' = fs2" "res = Inr (Ret (Inr (hex_encode X (sha256 X b))))"
        "m = (\<lambda>q. if q = final_of X dir b then None else if q = tmp_of X dir b then Some (final_of X dir b) else Some q)"
        using st r Push_rename by auto
      have FW: "F' = move_fills m F" "W' \<subseteq> W" using F W e(2) Push_rename by auto
      show ?thesis
        using disk_inv_rename [OF law inj inv bW FW(2) r [unfolded Inr] e(3)] fs_rename_keeps [OF r] e(1,2) FW(1) by simp
    qed
  next
    case (Push_clean b er)
    then have e: "fs' = fs_remove (tmp_of X dir b) fs"
      "m = (\<lambda>q. if q = tmp_of X dir b \<and> fs_lookup fs' q = None then None else Some q)" "next_fill res = {}" "next_work res = {}"
      "\<exists>r. res = Inr r"
      using st by (auto simp: Let_def)
    have FW: "F' = move_fills m F" "W' \<subseteq> W" using F W e(3,4) Push_clean by auto
    show ?thesis using disk_inv_clean [OF inv FW(2) e(1,2)] e(1,5) FW(1) by auto
  qed
qed

lemma own_fills: "j < length jobs \<Longrightarrow> fill_of (jobs ! j) \<subseteq> fills jobs \<and> work_of (jobs ! j) \<subseteq> works jobs"
  unfolding fills_def works_def using nth_mem by blast

lemma next_fill_job: "fill_of (Push ip now msg pc) = next_fill (Inl pc)" "work_of (Push ip now msg pc) = next_work (Inl pc)"
  by (cases pc; simp split: option.split)+

lemma pushes_do_ok:
  assumes law: "hex_law X" and inj: "inj_on (sha256 X) B" and st: "pushes_do X dir cfg B s ev s'" and ok: "pushes_ok X dir B s"
  shows "pushes_ok X dir B s'"
proof -
  have w: "\<forall>p. flt_write (fs_faults (pt_fs s)) p = None" and bodies: "list_all (bodies_in X B) (pt_jobs s)"
    and inv: "disk_inv X dir B (pt_fs s) (fills (pt_jobs s)) (works (pt_jobs s))"
    using ok by (simp_all add: pushes_ok_def)
  show ?thesis
    using st
  proof (cases rule: pushes_do.cases)
    case (accept msg ip now)
    have "fills (pt_jobs s @ [Push ip now msg Push_gate]) = fills (pt_jobs s)"
      "works (pt_jobs s @ [Push ip now msg Push_gate]) = works (pt_jobs s)" by (simp_all add: fills_def works_def)
    then show ?thesis using accept ok by (simp add: pushes_ok_def)
  next
    case (step j ip now msg pc fs lim m pc')
    let ?job' = "Push ip now msg pc'"
    have job: "bodies_in X B (Push ip now msg pc)" using bodies step by (metis list_all_length)
    have own: "fill_of (Push ip now msg pc) \<subseteq> fills (pt_jobs s)" "work_of (Push ip now msg pc) \<subseteq> works (pt_jobs s)"
      using own_fills step by metis+
    note up = jobs_update [OF step(3,4), where m = m and job' = ?job', unfolded next_fill_job(1) [of ip now msg pc'] next_fill_job(2) [of ip now msg pc']]
    from push_step_inv [OF law inj w job inv own step(5) up]
    have "disk_inv X dir B fs (fills ((map (moved m) (pt_jobs s))[j := ?job'])) (works ((map (moved m) (pt_jobs s))[j := ?job']))"
      and "fs_faults fs = fs_faults (pt_fs s)" and "bodies_in X B ?job'" by simp_all
    moreover have "list_all (bodies_in X B) ((map (moved m) (pt_jobs s))[j := ?job'])"
      using bodies \<open>bodies_in X B ?job'\<close> set_update_subset_insert [of "map (moved m) (pt_jobs s)" j ?job']
      by (fastforce simp: list_all_iff)
    ultimately show ?thesis using w step(2) by (simp add: pushes_ok_def)
  next
    case (reply j ip now msg pc fs lim m r)
    let ?rest = "take j (pt_jobs s) @ drop (Suc j) (pt_jobs s)"
    have job: "bodies_in X B (Push ip now msg pc)" using bodies reply by (metis list_all_length)
    have own: "fill_of (Push ip now msg pc) \<subseteq> fills (pt_jobs s)" "work_of (Push ip now msg pc) \<subseteq> works (pt_jobs s)"
      using own_fills reply by metis+
    have none: "next_fill (Inr r :: push_pc + _) = {}" "next_work (Inr r :: push_pc + _) = {}" by simp_all
    have up: "fills (map (moved m) ?rest) \<subseteq> next_fill (Inr r) \<union> move_fills m (fills (pt_jobs s))"
      "next_fill (Inr r) \<union> move_fills m (fills (pt_jobs s) - fill_of (Push ip now msg pc)) \<subseteq> fills (map (moved m) ?rest)"
      "works (map (moved m) ?rest) \<subseteq> next_work (Inr r) \<union> works (pt_jobs s)"
      unfolding none using jobs_remove [OF reply(3,4), where m = m] by simp_all
    from push_step_inv [OF law inj w job inv own reply(5) up]
    have "disk_inv X dir B fs (fills (map (moved m) ?rest)) (works (map (moved m) ?rest))"
      and "fs_faults fs = fs_faults (pt_fs s)" by simp_all
    moreover have "set ?rest \<subseteq> set (pt_jobs s)" by (auto dest: in_set_takeD in_set_dropD)
    then have "\<forall>job\<in>set ?rest. bodies_in X B job" using bodies unfolding list_all_iff by blast
    then have "list_all (bodies_in X B) (map (moved m) ?rest)" by (auto simp: list_all_iff)
    ultimately show ?thesis using w reply(2) by (simp add: pushes_ok_def)
  qed
qed

section \<open>The store as a growing set of ids\<close>

text \<open>
  The specification: ids only appear, and an id that is reported is the hash of some body in
  hex and is in the store.
\<close>

inductive store_step :: "ext \<Rightarrow> string set \<Rightarrow> string option \<Rightarrow> string set \<Rightarrow> bool" for X where
  grow: "S \<subseteq> S' \<Longrightarrow> store_step X S None S'"
| report: "S \<subseteq> S' \<Longrightarrow> hex_encode X (sha256 X b) \<in> S' \<Longrightarrow> store_step X S (Some (hex_encode X (sha256 X b))) S'"

inductive_simps store_step_simps [simp]: "store_step X S None S'" "store_step X S (Some cid) S'"

definition ids_of :: "path \<Rightarrow> push_threads \<Rightarrow> string set" where
  "ids_of dir s = {cid. fs_lookup (pt_fs s) (body_path dir cid) \<noteq> None}"

lemma store_trace:
  "trace (store_step X) S evs S' \<Longrightarrow>
   S \<subseteq> S' \<and> (\<forall>cid. Some cid \<in> set evs \<longrightarrow> (\<exists>b. cid = hex_encode X (sha256 X b)) \<and> cid \<in> S')"
proof (induction rule: trace.induct)
  case (snoc evs S1 ev S2)
  then show ?case by (cases ev) auto
qed simp

lemma push_step_faults:
  "push_step X dir cfg ip now msg pc (fs, lim) = ((fs', lim'), m, res) \<Longrightarrow> fs_faults fs' = fs_faults fs"
  by (cases pc) (auto simp: write_open_def Let_def dest!: fs_rename_keeps
      split: sum.splits prod.splits option.splits if_splits run.splits)

lemma push_step_report:
  "push_step X dir cfg ip now msg pc (fs, lim) = ((fs', lim'), m, Inr (Ret (Inr cid))) \<Longrightarrow>
   \<exists>b. cid = hex_encode X (sha256 X b)"
  by (cases pc) (auto simp: Let_def split: sum.splits prod.splits option.splits if_splits run.splits)

lemma push_step_ids:
  assumes st: "push_step X dir cfg ip now msg pc (fs, lim) = ((fs', lim'), m, res)"
  shows "fs_lookup fs (body_path dir cid) \<noteq> None \<Longrightarrow> fs_lookup fs' (body_path dir cid) \<noteq> None"
    "res = Inr (Ret (Inr cid)) \<Longrightarrow> fs_lookup fs' (body_path dir cid) \<noteq> None"
proof -
  have n: "body_path dir cid \<noteq> tmp_of X dir b" for b cid by simp
  show "fs_lookup fs (body_path dir cid) \<noteq> None \<Longrightarrow> fs_lookup fs' (body_path dir cid) \<noteq> None"
  proof (cases pc)
    case (Push_rename b)
    obtain fs2 r where r: "fs_rename (tmp_of X dir b) (final_of X dir b) fs = (fs2, r)" by fastforce
    assume "fs_lookup fs (body_path dir cid) \<noteq> None"
    then show ?thesis using st Push_rename r
      by (cases r) (auto dest: fs_rename_ok fs_rename_err)
  next
    case (Push_clean b e)
    assume "fs_lookup fs (body_path dir cid) \<noteq> None"
    then show ?thesis using st Push_clean fs_remove_other [where fs = fs, OF n [of cid b]] by (auto simp: Let_def)
  qed (use st in \<open>auto simp: write_open_def split: sum.splits prod.splits option.splits if_splits\<close>)
  show "res = Inr (Ret (Inr cid)) \<Longrightarrow> fs_lookup fs' (body_path dir cid) \<noteq> None"
  proof (cases pc)
    case (Push_rename b)
    obtain fs2 r where r: "fs_rename (tmp_of X dir b) (final_of X dir b) fs = (fs2, r)" by fastforce
    assume "res = Inr (Ret (Inr cid))"
    then show ?thesis using st Push_rename r
      by (cases r) (auto simp: final_of_def dest: fs_rename_ok)
  qed (use st in \<open>auto simp: fs_metadata_def final_of_def Let_def split: sum.splits prod.splits option.splits if_splits run.splits\<close>)
qed

lemma pushes_do_ids:
  assumes "pushes_do X dir cfg B s ev s'"
  shows "store_step X (ids_of dir s) ev (ids_of dir s')"
  using assms
proof (cases rule: pushes_do.cases)
  case (step j ip now msg pc fs lim m pc')
  then show ?thesis using push_step_ids(1) [OF step(5)] by (auto simp: ids_of_def)
next
  case (reply j ip now msg pc fs lim m r)
  have sub: "ids_of dir s \<subseteq> ids_of dir s'" using push_step_ids(1) [OF reply(5)] reply(2) by (auto simp: ids_of_def)
  show ?thesis
  proof (cases "reported r")
    case (Some cid)
    then have "r = Ret (Inr cid)" by (cases r rule: reported.cases) auto
    then have "cid \<in> ids_of dir s'" "\<exists>b. cid = hex_encode X (sha256 X b)"
      using push_step_ids(2) [OF reply(5)] push_step_report reply(2,5) by (auto simp: ids_of_def)
    then show ?thesis using sub Some reply(1) by auto
  qed (use sub reply(1) in simp)
qed (simp add: ids_of_def)

interpretation pushes: refinement "pushes_do X dir cfg B"
  "\<lambda>s. hex_law X \<and> inj_on (sha256 X) B \<and> pushes_ok X dir B s" "store_step X" "ids_of dir" for X dir cfg B
  by unfold_locales (auto intro: pushes_do_ok pushes_do_ids)

text \<open>With no push in progress the invariant is the store's integrity.\<close>

lemma pushes_ok_idle:
  "\<forall>p. flt_write (fs_faults fs) p = None \<Longrightarrow>
   pushes_ok X dir B \<lparr>pt_fs = fs, pt_lim = lim, pt_jobs = []\<rparr> \<longleftrightarrow> hold_ok X dir fs"
  by (auto simp: pushes_ok_def fills_def works_def disk_inv_def hold_ok_def)

lemma pushes_ok_hold:
  "pushes_ok X dir B s \<Longrightarrow> fills (pt_jobs s) = {} \<Longrightarrow> hold_ok X dir (pt_fs s)"
  by (auto simp: pushes_ok_def disk_inv_def hold_ok_def)

end
