(* ===== verification/Fabric_Threads.thy ===== *)
theory Fabric_Threads
  imports Fabric_Spec
begin

text \<open>
  The verbs of the relay, cut at the points where a connection thread holds no lock. fput
  reads the registry, asks the limiter and checks the pointer, writes the envelope file,
  renames it and then takes the queue lock; fpop asks the limiter, reads the registry and
  then takes the queue lock; freg holds the registry lock throughout. Run without
  interruption the pieces are the verbs; interleaved with those of other threads, and
  stopped by a crash between any two, they still implement a mailbox in which nothing is
  invented or misrouted.
\<close>

section \<open>The pieces\<close>

text \<open>Where a thread in fput stands: the handle, then the envelope and its file name.\<close>

datatype fput_pc =
    Put_registry
  | Put_limiter string
  | Put_write string envelope string
  | Put_rename string envelope string
  | Put_enqueue string envelope string

text \<open>The checks of the pointer, which touch nothing shared.\<close>

definition fput_checks :: "ext \<Rightarrow> fabric_config \<Rightarrow> json \<Rightarrow> clock \<Rightarrow> string \<Rightarrow> fput_pc + (string + json) run" where
  "fput_checks X cfg req clk h =
     (case get_str req ''pointer_hex'' of
        None \<Rightarrow> Inr (Ret (Inl ''400 fput needs pointer_hex''))
      | Some ptr_hex \<Rightarrow>
          if length ptr_hex \<noteq> 2 * POINTER_LEN
          then Inr (Ret (Inl ''400 pointer must be 74-byte hex''))
          else
            (case hex_crate_decode X ptr_hex of
               Inl _ \<Rightarrow> Inr (Ret (Inl ''400 pointer must be 74-byte hex''))
             | Inr pointer \<Rightarrow>
                 if length pointer \<noteq> POINTER_LEN
                 then Inr (Ret (Inl ''400 pointer must be 74-byte hex''))
                 else if pointer ! 0 \<noteq> 1 \<or> pointer ! 1 \<noteq> 0
                 then Inr (Ret (Inl ''400 bad pointer payload header''))
                 else
                   let deadline = pointer_deadline pointer in
                   if deadline = 0 then Inr (Ret (Inl ''400 zero pointer deadline''))
                   else
                     let now = clk 2 in
                     if deadline \<le> now then Inr (Ret (Inl ''410 gone''))
                     else if deadline > now + fc_max_deadline_horizon_sec cfg
                     then Inr (Ret (Inl ''400 deadline beyond horizon cap''))
                     else
                       (case hex_crate_decode X h of
                          Inl _ \<Rightarrow> Inr Panic
                        | Inr hb \<Rightarrow>
                            if length hb \<noteq> 32 then Inr Panic
                            else
                              let env = \<lparr>e_handle = hb, e_pointer = pointer, e_received_at = clk 3\<rparr> in
                              Inl (Put_write h env (hex_encode X (sha256 X (marshal_envelope env)))))))"

fun fput_step :: "ext \<Rightarrow> path \<Rightarrow> json \<Rightarrow> string \<Rightarrow> clock \<Rightarrow> fput_pc \<Rightarrow> relay \<Rightarrow>
    relay \<times> (fput_pc + (string + json) run)" where
  "fput_step X dir req ip clk Put_registry (st, fs) =
     ((st, fs),
      case get_str req ''handle'' of
        None \<Rightarrow> Inr (Ret (Inl ''400 fput needs handle''))
      | Some h0 \<Rightarrow>
          if length h0 \<noteq> 64 then Inr (Ret (Inl ''400 handle must be 32-byte hex''))
          else
            let h = to_lowercase (uni_lower X) h0 in
            (case map_of (fab_reg st) h of
               None \<Rightarrow> Inr (Ret (Inl ''404 unknown handle''))
             | Some r \<Rightarrow>
                 if reg_expires r \<le> clk 0 then Inr (Ret (Inl ''404 handle lease expired''))
                 else Inl (Put_limiter h)))"
| "fput_step X dir req ip clk (Put_limiter h) (st, fs) =
     (case rl_allow (fab_fput_limiter st) ip (clk 1) of (lim, allowed) \<Rightarrow>
        ((st\<lparr>fab_fput_limiter := lim\<rparr>, fs),
         if \<not> allowed then Inr (Ret (Inl ''429 fput rate''))
         else fput_checks X (fab_cfg st) req clk h))"
| "fput_step X dir req ip clk (Put_write h env cid) (st, fs) =
     (case fs_write (fenv_tmp_path dir cid) (marshal_envelope env) fs of
        (fs, Inl e) \<Rightarrow> ((st, fs), Inr (Ret (Inl (''500 envelope write: '' @ e))))
      | (fs, Inr _) \<Rightarrow> ((st, fs), Inl (Put_rename h env cid)))"
| "fput_step X dir req ip clk (Put_rename h env cid) (st, fs) =
     (case fs_rename (fenv_tmp_path dir cid) (fenv_path dir cid) fs of
        (fs, Inl e) \<Rightarrow> ((st, fs), Inr (Ret (Inl (''500 envelope rename: '' @ e))))
      | (fs, Inr _) \<Rightarrow> ((st, fs), Inl (Put_enqueue h env cid)))"
| "fput_step X dir req ip clk (Put_enqueue h env cid) (st, fs) =
     (case fput_enqueue dir (fc_max_per_handle (fab_cfg st)) (e_pointer env) cid
         (pointer_deadline (e_pointer env)) (e_received_at env) (queue_of (fab_queues st) h) fs of
        (q, fs) \<Rightarrow>
          (case compost dir (clk 4) q fs of (q, fs) \<Rightarrow>
             ((st\<lparr>fab_queues := AList.update h q (fab_queues st)\<rparr>, fs),
              Inr (Ret (Inr (Object [(''queued'', Bool True)]))))))"

datatype fpop_pc =
    Pop_limiter
  | Pop_registry string
  | Pop_drain string

fun fpop_step :: "ext \<Rightarrow> path \<Rightarrow> json \<Rightarrow> string \<Rightarrow> clock \<Rightarrow> fpop_pc \<Rightarrow> relay \<Rightarrow>
    relay \<times> (fpop_pc + (string + json) run)" where
  "fpop_step X dir req ip clk Pop_limiter (st, fs) =
     (case get_str req ''handle'' of
        None \<Rightarrow> ((st, fs), Inr (Ret (Inl ''400 fpop needs handle'')))
      | Some h0 \<Rightarrow>
          if length h0 \<noteq> 64 then ((st, fs), Inr (Ret (Inl ''400 handle must be 32-byte hex'')))
          else
            (case rl_allow (fab_fput_limiter st) ip (clk 0) of (lim, allowed) \<Rightarrow>
               ((st\<lparr>fab_fput_limiter := lim\<rparr>, fs),
                if \<not> allowed then Inr (Ret (Inl ''429 fpop rate''))
                else Inl (Pop_registry (to_lowercase (uni_lower X) h0)))))"
| "fpop_step X dir req ip clk (Pop_registry h) (st, fs) =
     ((st, fs),
      case map_of (fab_reg st) h of
        None \<Rightarrow> Inr (Ret (Inl ''404 unknown handle''))
      | Some r \<Rightarrow>
          if reg_expires r \<le> clk 1 \<or> \<not> ct_eq (reg_token r) (str_or (get_str req ''token'') [])
          then Inr (Ret (Inl ''403 wrong token'')) else Inl (Pop_drain h))"
| "fpop_step X dir req ip clk (Pop_drain h) (st, fs) =
     (case map_of (fab_queues st) h of
        None \<Rightarrow> ((st, fs), Inr (Ret (Inr (Object [(''pointers'', Array [])]))))
      | Some q \<Rightarrow>
          (case drain X dir (clk 2) (unat (min (u64_or (get_u64 req ''max'') 8) 64)) q fs [] of
             (q', fs', out) \<Rightarrow>
               ((st\<lparr>fab_queues := AList.update h q' (fab_queues st)\<rparr>, fs'),
                Inr (Ret (Inr (Object [(''pointers'', Array (map String out))]))))))"

text \<open>A request in progress: the request, the remote address, the thread's clock, the position.\<close>

datatype job =
    Freg json clock
  | Fput json string clock fput_pc
  | Fpop json string clock fpop_pc

fun job_step :: "ext \<Rightarrow> path \<Rightarrow> job \<Rightarrow> relay \<Rightarrow> relay \<times> (job + (string + json) run)" where
  "job_step X dir (Freg req clk) (st, fs) =
     (case run_freg X st req clk of (st', r) \<Rightarrow> ((st', fs), Inr (Ret r)))"
| "job_step X dir (Fput req ip clk pc) c =
     (case fput_step X dir req ip clk pc c of
        (c', Inl pc') \<Rightarrow> (c', Inl (Fput req ip clk pc')) | (c', Inr r) \<Rightarrow> (c', Inr r))"
| "job_step X dir (Fpop req ip clk pc) c =
     (case fpop_step X dir req ip clk pc c of
        (c', Inl pc') \<Rightarrow> (c', Inl (Fpop req ip clk pc')) | (c', Inr r) \<Rightarrow> (c', Inr r))"

section \<open>Without interruption\<close>

text \<open>A job alone: at most \<open>n\<close> steps, \<open>None\<close> when it is not done by then.\<close>

fun job_run :: "ext \<Rightarrow> path \<Rightarrow> nat \<Rightarrow> job \<Rightarrow> relay \<Rightarrow> (relay \<times> (string + json) run) option" where
  "job_run X dir 0 job c = None"
| "job_run X dir (Suc n) job c =
     (case job_step X dir job c of
        (c', Inl job') \<Rightarrow> job_run X dir n job' c' | (c', Inr r) \<Rightarrow> Some (c', r))"

lemma job_run_Fput:
  "job_run X dir (Suc n) (Fput req ip clk pc) c =
     (case fput_step X dir req ip clk pc c of
        (c', Inl pc') \<Rightarrow> job_run X dir n (Fput req ip clk pc') c' | (c', Inr r) \<Rightarrow> Some (c', r))"
  by (simp split: prod.split sum.split)

lemma job_run_Fpop:
  "job_run X dir (Suc n) (Fpop req ip clk pc) c =
     (case fpop_step X dir req ip clk pc c of
        (c', Inl pc') \<Rightarrow> job_run X dir n (Fpop req ip clk pc') c' | (c', Inr r) \<Rightarrow> Some (c', r))"
  by (simp split: prod.split sum.split)

lemma job_run_fput:
  "job_run X dir 5 (Fput req ip clk Put_registry) (st, fs) =
     Some (case run_fput X st req dir ip clk fs of (st', fs', r) \<Rightarrow> ((st', fs'), r))"
proof -
  have 5: "(5 :: nat) = Suc (Suc (Suc (Suc (Suc 0))))" by simp
  show ?thesis unfolding 5
    by (simp add: run_fput_def fput_checks_def job_run_Fput persist_envelope_def Let_def del: job_run.simps
        split: option.split sum.split prod.split if_split)
qed

lemma job_run_fpop:
  "job_run X dir 3 (Fpop req ip clk Pop_limiter) (st, fs) =
     Some (case run_fpop X st req dir ip clk fs of (st', fs', r) \<Rightarrow> ((st', fs'), Ret r))"
proof -
  have 3: "(3 :: nat) = Suc (Suc (Suc 0))" by simp
  show ?thesis unfolding 3
    by (simp add: run_fpop_def job_run_Fpop Let_def del: job_run.simps
        split: option.split sum.split prod.split if_split)
qed

section \<open>What the pieces leave alone\<close>

lemma fput_checks_Write:
  assumes "fput_checks X cfg req clk h = Inl pc"
  obtains env where "pc = Put_write h env (hex_encode X (sha256 X (marshal_envelope env)))"
    "hex_crate_decode X (str_or (get_str req ''pointer_hex'') []) = Inr (e_pointer env)"
    "hex_crate_decode X h = Inr (e_handle env)" "env_wf env"
proof -
  from assms obtain ptr p hb where p: "get_str req ''pointer_hex'' = Some ptr" "hex_crate_decode X ptr = Inr p"
    "hex_crate_decode X h = Inr hb" "length p = POINTER_LEN" "p ! 0 = 1" "p ! 1 = 0" "length hb = 32"
    and pc: "pc = (let env = \<lparr>e_handle = hb, e_pointer = p, e_received_at = clk 3\<rparr> in
      Put_write h env (hex_encode X (sha256 X (marshal_envelope env))))"
    by (auto simp: fput_checks_def Let_def split: option.splits sum.splits if_splits)
  show thesis
    by (rule that [of "\<lparr>e_handle = hb, e_pointer = p, e_received_at = clk 3\<rparr>"])
      (use p pc in \<open>simp_all add: Let_def env_wf_def\<close>)
qed

lemma fput_checks_no_panic: "reg_key_ok X h \<Longrightarrow> fput_checks X cfg req clk h \<noteq> Inr Panic"
  by (auto simp: fput_checks_def reg_key_ok_def Let_def split: option.splits sum.splits if_splits)

lemma drain_files: "drain X dir now mx q fs [] = (q', fs', out) \<Longrightarrow> \<exists>taken. q = taken @ q' \<and> fs' = drops dir taken fs"
  by (erule drain_eq) auto

lemma enqueue_files:
  assumes "fput_enqueue dir mx ptr cid dl received q fs = (q1, fs1)"
  shows "\<exists>ys. fs1 = drops dir ys fs"
  using assms
proof (cases rule: enqueue_cases)
  case (refreshed ys x zs)
  then show ?thesis by (cases "q_env_cid_hex x = cid") (auto intro: exI [of _ "[]"] exI [of _ "[x]"])
qed auto

lemma fput_step_frame:
  assumes "fput_step X dir req ip clk pc (st, fs) = ((st', fs'), r)"
  shows "fab_reg st' = fab_reg st" "fab_cfg st' = fab_cfg st" "fs_faults fs' = fs_faults fs"
    "(\<And>h env cid. pc \<noteq> Put_enqueue h env cid) \<Longrightarrow> fab_queues st' = fab_queues st"
proof -
  have *: "fab_reg st' = fab_reg st \<and> fab_cfg st' = fab_cfg st \<and> fs_faults fs' = fs_faults fs \<and>
    ((\<forall>h env cid. pc \<noteq> Put_enqueue h env cid) \<longrightarrow> fab_queues st' = fab_queues st)"
  proof (cases pc)
    case (Put_enqueue h env cid)
    then show ?thesis using assms enqueue_files
      by (fastforce simp: compost_eq split: prod.splits)
  qed (use assms in \<open>auto split: prod.splits sum.splits dest: fs_write_keeps fs_rename_keeps\<close>)
  then show "fab_reg st' = fab_reg st" "fab_cfg st' = fab_cfg st" "fs_faults fs' = fs_faults fs"
    "(\<And>h env cid. pc \<noteq> Put_enqueue h env cid) \<Longrightarrow> fab_queues st' = fab_queues st" by auto
qed

lemma fpop_step_frame:
  assumes "fpop_step X dir req ip clk pc (st, fs) = ((st', fs'), r)"
  shows "fab_reg st' = fab_reg st" "fab_cfg st' = fab_cfg st" "\<exists>ys. fs' = drops dir ys fs"
    "(\<And>h. pc \<noteq> Pop_drain h) \<Longrightarrow> fab_queues st' = fab_queues st"
proof -
  have nil: "\<exists>ys. fs = drops dir ys fs" by (rule exI [of _ "[]"]) simp
  have *: "fab_reg st' = fab_reg st \<and> fab_cfg st' = fab_cfg st \<and> (\<exists>ys. fs' = drops dir ys fs) \<and>
    ((\<forall>h. pc \<noteq> Pop_drain h) \<longrightarrow> fab_queues st' = fab_queues st)"
    by (cases pc) (use assms nil drain_files in \<open>fastforce split: prod.splits option.splits if_splits\<close>)+
  then show "fab_reg st' = fab_reg st" "fab_cfg st' = fab_cfg st" "\<exists>ys. fs' = drops dir ys fs"
    "(\<And>h. pc \<noteq> Pop_drain h) \<Longrightarrow> fab_queues st' = fab_queues st" by auto
qed

section \<open>The threads together\<close>

text \<open>
  The relay with the requests in progress. \<open>ft_offered\<close> is a history variable: the handles
  and pointers that have passed the checks of an fput.
\<close>

record fabric_threads =
  ft_relay :: relay
  ft_jobs :: "job list"
  ft_offered :: "(string \<times> bytes) set"

text \<open>
  The events: what moves a pointer, as in the mailbox, and the offer of a pointer by an fput
  that passed its checks. The label of a step comes from the job, its next position and its
  reply.
\<close>

datatype box_event = Mail mail_event | Offer string bytes

fun fresh :: "job \<Rightarrow> bool" where
  "fresh (Freg req clk) = True"
| "fresh (Fput req ip clk pc) \<longleftrightarrow> pc = Put_registry"
| "fresh (Fpop req ip clk pc) \<longleftrightarrow> pc = Pop_limiter"

fun job_event :: "ext \<Rightarrow> job \<Rightarrow> job + (string + json) run \<Rightarrow> box_event \<Rightarrow> bool" where
  "job_event X (Fput req ip clk (Put_limiter h)) (Inl (Fput _ _ _ (Put_write _ env _))) ev \<longleftrightarrow>
     ev = Offer h (e_pointer env)"
| "job_event X (Fput req ip clk pc) (Inr r) ev \<longleftrightarrow> ev = Mail (put_label X req r)"
| "job_event X (Fpop req ip clk pc) (Inr (Ret r)) ev \<longleftrightarrow> (\<exists>m. ev = Mail m \<and> pop_label X req r m)"
| "job_event X job res ev \<longleftrightarrow> ev = Mail Quiet"

definition offered_after :: "box_event \<Rightarrow> (string \<times> bytes) set \<Rightarrow> (string \<times> bytes) set" where
  "offered_after ev S = (case ev of Offer h p \<Rightarrow> insert (h, p) S | Mail _ \<Rightarrow> S)"

inductive threads_do :: "ext \<Rightarrow> path \<Rightarrow> fabric_threads \<Rightarrow> box_event \<Rightarrow> fabric_threads \<Rightarrow> bool" for X dir where
  accept: "fresh job \<Longrightarrow> threads_do X dir s (Mail Quiet) (s\<lparr>ft_jobs := ft_jobs s @ [job]\<rparr>)"
| step: "j < length (ft_jobs s) \<Longrightarrow> job_step X dir (ft_jobs s ! j) (ft_relay s) = (c, Inl job) \<Longrightarrow>
    job_event X (ft_jobs s ! j) (Inl job) ev \<Longrightarrow>
    threads_do X dir s ev
      (s\<lparr>ft_relay := c, ft_jobs := (ft_jobs s)[j := job], ft_offered := offered_after ev (ft_offered s)\<rparr>)"
| reply: "j < length (ft_jobs s) \<Longrightarrow> job_step X dir (ft_jobs s ! j) (ft_relay s) = (c, Inr r) \<Longrightarrow>
    job_event X (ft_jobs s ! j) (Inr r) ev \<Longrightarrow>
    threads_do X dir s ev
      (s\<lparr>ft_relay := c, ft_jobs := take j (ft_jobs s) @ drop (Suc j) (ft_jobs s)\<rparr>)"
| crash: "fabric_open X dir (fab_cfg (fst (ft_relay s))) clk (snd (ft_relay s)) = (fs, st) \<Longrightarrow>
    threads_do X dir s (Mail Restart) (s\<lparr>ft_relay := (st, fs), ft_jobs := []\<rparr>)"

section \<open>The mailbox under crashes\<close>

text \<open>
  The specification: the mailbox, in which only an offered pointer is put, and whose restart
  may bring back any offered pointer: an accepted one, or one whose fput was cut short.
\<close>

type_synonym box = "mailbox \<times> (string \<times> bytes) set"

inductive box_step :: "nat \<Rightarrow> box \<Rightarrow> box_event \<Rightarrow> box \<Rightarrow> bool" for mx where
  mail: "mail_step mx b m b' \<Longrightarrow> m \<noteq> Restart \<Longrightarrow> (\<And>h p. m = Put h p \<Longrightarrow> (h, p) \<in> S) \<Longrightarrow>
    box_step mx (b, S) (Mail m) (b', S)"
| offer: "box_step mx (b, S) (Offer h p) (b, insert (h, p) S)"
| restart: "(\<And>h p. p \<in> set (b' h) \<Longrightarrow> (h, p) \<in> S) \<Longrightarrow> box_step mx (b, S) (Mail Restart) (b', S)"

inductive_cases box_stepE: "box_step mx x ev y"

definition box_ok :: "box \<Rightarrow> bool" where
  "box_ok x \<longleftrightarrow> (\<forall>h. \<forall>p\<in>set (fst x h). (h, p) \<in> snd x)"

abbreviation box_trace :: "nat \<Rightarrow> box \<Rightarrow> box_event list \<Rightarrow> box \<Rightarrow> bool" where
  "box_trace mx \<equiv> trace (box_step mx)"

definition offers :: "box_event list \<Rightarrow> (string \<times> bytes) set" where
  "offers evs = {(h, p). Offer h p \<in> set evs}"

definition mails :: "box_event list \<Rightarrow> mail_event list" where
  "mails evs = List.map_filter (\<lambda>ev. case ev of Mail m \<Rightarrow> Some m | Offer _ _ \<Rightarrow> None) evs"

lemma offers_simps [simp]: "offers [] = {}" "offers (evs @ [ev]) = offered_after ev (offers evs)"
  by (auto simp: offers_def offered_after_def split: box_event.split)

lemma mails_simps [simp]:
  "mails [] = []" "mails (evs @ [Mail m]) = mails evs @ [m]" "mails (evs @ [Offer h p]) = mails evs"
  by (simp_all add: mails_def List.map_filter_def)

text \<open>What a mailbox step can hold or hand out.\<close>

lemma mail_step_contents:
  assumes "mail_step mx b m b'" "m \<noteq> Restart"
  shows "set (b' h) \<union> \<Union> {set out | out. m = Pop h out} \<subseteq> set (b h) \<union> {p. m = Put h p}"
  using assms(1)
proof (cases rule: mail_step.cases)
  case (put h' p now)
  then show ?thesis using put_spec_sub [of mx now p "b h'"] by auto
next
  case (pop now n h' rest out)
  from pop_spec_parts [OF pop(3)] have "set rest \<subseteq> set (b h')" "set out \<subseteq> set (b h')" by auto
  with pop show ?thesis by auto
qed (use assms(2) in auto)

lemma box_trace_offered:
  assumes "box_trace mx x evs y" "box_ok x"
  shows "snd y = snd x \<union> offers evs \<and> box_ok y \<and> (\<forall>h. \<forall>p\<in>pops h (mails evs). (h, p) \<in> snd y)"
  using assms
proof (induction rule: trace.induct)
  case none
  then show ?case by simp
next
  case (snoc evs y ev z)
  then have IH: "snd y = snd x \<union> offers evs" "box_ok y" "\<And>h p. p \<in> pops h (mails evs) \<Longrightarrow> (h, p) \<in> snd y" by auto
  from snoc.hyps(2) show ?case
  proof (cases rule: box_step.cases)
    case (mail b m b' S)
    have new: "(h, p) \<in> S" if "p \<in> set (b' h) \<union> \<Union> {set out | out. m = Pop h out}" for h p
    proof -
      from that mail_step_contents [OF mail(4,5), of h] have "p \<in> set (b h) \<or> m = Put h p" by blast
      then show ?thesis using mail(1,6) IH(2) by (auto simp: box_ok_def)
    qed
    have "box_ok z" using new mail(3) by (auto simp: box_ok_def)
    moreover have "(h, p) \<in> snd z" if "p \<in> pops h (mails (evs @ [ev]))" for h p
      using that new [of p h] IH(3) [of p h] mail(1-3) by auto
    ultimately show ?thesis using IH(1) mail(1-3) by (simp add: offered_after_def)
  next
    case (offer b S h p)
    then show ?thesis using IH by (auto simp: box_ok_def offered_after_def)
  next
    case (restart b' S b)
    then show ?thesis using IH by (auto simp: box_ok_def offered_after_def)
  qed
qed

text \<open>Without a crash the mailbox is exactly the one of the accepted puts.\<close>

lemma box_trace_mail:
  "box_trace mx x evs y \<Longrightarrow> Mail Restart \<notin> set evs \<Longrightarrow> mail_trace mx (fst x) (mails evs) (fst y)"
proof (induction rule: trace.induct)
  case (snoc evs y ev z)
  from snoc.hyps(2) show ?case
  proof (cases rule: box_step.cases)
    case (mail b m b' S)
    then show ?thesis using snoc by (auto intro: trace.snoc)
  next
    case (offer b S h p)
    then show ?thesis using snoc by simp
  next
    case restart
    then show ?thesis using snoc.prems by simp
  qed
qed (simp add: trace.none)

section \<open>The invariant\<close>

text \<open>What a thread in the middle of a verb knows.\<close>

definition admitted :: "ext \<Rightarrow> (string \<times> bytes) set \<Rightarrow> json \<Rightarrow> string \<Rightarrow> envelope \<Rightarrow> bool" where
  "admitted X S req h env \<longleftrightarrow> h = req_handle X req \<and> env_wf env \<and> hex_encode X (e_handle env) = h \<and>
     hex_crate_decode X (str_or (get_str req ''pointer_hex'') []) = Inr (e_pointer env) \<and> (h, e_pointer env) \<in> S"

fun job_ok :: "ext \<Rightarrow> (string \<times> bytes) set \<Rightarrow> job \<Rightarrow> bool" where
  "job_ok X S (Fput req ip clk (Put_limiter h)) \<longleftrightarrow> h = req_handle X req \<and> handle_canon X h"
| "job_ok X S (Fput req ip clk (Put_write h env cid)) \<longleftrightarrow> admitted X S req h env"
| "job_ok X S (Fput req ip clk (Put_rename h env cid)) \<longleftrightarrow> admitted X S req h env"
| "job_ok X S (Fput req ip clk (Put_enqueue h env cid)) \<longleftrightarrow> admitted X S req h env"
| "job_ok X S (Fpop req ip clk (Pop_registry h)) \<longleftrightarrow> h = req_handle X req"
| "job_ok X S (Fpop req ip clk (Pop_drain h)) \<longleftrightarrow> h = req_handle X req"
| "job_ok X S job \<longleftrightarrow> True"

text \<open>The files of the relay, by name.\<close>

definition relay_path :: "path \<Rightarrow> bool" where
  "relay_path p \<longleftrightarrow> ends_with p ''.fenv'' \<or> ends_with p ''.tmp''"

lemma relay_paths [simp]: "relay_path (fenv_path dir cid)" "relay_path (fenv_tmp_path dir cid)"
proof -
  have "fenv_path dir cid = (dir @ ''/'' @ cid) @ ''.fenv''" "fenv_tmp_path dir cid = (dir @ ''/'' @ cid) @ ''.tmp''"
    by (simp_all add: fenv_path_def fenv_tmp_path_def)
  then show "relay_path (fenv_path dir cid)" "relay_path (fenv_tmp_path dir cid)"
    unfolding relay_path_def using ends_with_append by metis+
qed

lemma relay_path_entry: "path_extension n = Some ''fenv'' \<Longrightarrow> relay_path (file_path dir n)"
proof -
  assume n: "path_extension n = Some ''fenv''"
  let ?ext = "takeWhile (\<lambda>c. c \<noteq> CHR ''.'') (rev n)"
  from n have ext: "rev ?ext = ''fenv''" and dot: "CHR ''.'' \<in> set n"
    by (auto simp: path_extension_def Let_def split: if_splits)
  from ext have e: "?ext = rev ''fenv''" by (metis rev_rev_ident)
  let ?rest = "dropWhile (\<lambda>c. c \<noteq> CHR ''.'') (rev n)"
  have ne: "?rest \<noteq> []" using dot by (auto simp: dropWhile_eq_Nil_conv)
  then obtain c rest where c: "?rest = c # rest" by (cases ?rest) auto
  have "c = CHR ''.''" using hd_dropWhile [OF ne] c by simp
  with c have "?rest = CHR ''.'' # rest" by simp
  then have "rev n = rev ''fenv'' @ CHR ''.'' # rest" using takeWhile_dropWhile_id [of _ "rev n"] e by metis
  then have "n = rev (rev ''fenv'' @ CHR ''.'' # rest)" by (metis rev_rev_ident)
  then have "file_path dir n = (dir @ ''/'' @ rev rest) @ ''.fenv''" by (simp add: file_path_def)
  then show ?thesis unfolding relay_path_def using ends_with_append by metis
qed

text \<open>Envelopes on the disk were offered; a write cut short leaves less than an envelope.\<close>

definition files_ok :: "ext \<Rightarrow> (string \<times> bytes) set \<Rightarrow> fsys \<Rightarrow> bool" where
  "files_ok X S fs \<longleftrightarrow> (\<forall>p f e. relay_path p \<longrightarrow> fs_lookup fs p = Some f \<longrightarrow> parse_envelope (f_data f) = Inr e \<longrightarrow>
     (hex_encode X (e_handle e), e_pointer e) \<in> S)"

definition short_writes :: "fsys \<Rightarrow> bool" where
  "short_writes fs \<longleftrightarrow> (\<forall>p e part. flt_write (fs_faults fs) p = Some (e, Some part) \<longrightarrow> length part < ENVELOPE_LEN)"

definition queued_ok :: "(string \<times> bytes) set \<Rightarrow> (string \<times> queued list) list \<Rightarrow> bool" where
  "queued_ok S qs \<longleftrightarrow> (\<forall>h. \<forall>x\<in>set (queue_of qs h). timed x \<and> (h, q_pointer x) \<in> S)"

definition sound :: "ext \<Rightarrow> (string \<times> bytes) set \<Rightarrow> relay \<Rightarrow> bool" where
  "sound X S c \<longleftrightarrow> reg_wf X (fst c) \<and> queued_ok S (fab_queues (fst c)) \<and> files_ok X S (snd c) \<and>
     short_writes (snd c)"

definition threads_ok :: "ext \<Rightarrow> fabric_threads \<Rightarrow> bool" where
  "threads_ok X s \<longleftrightarrow> sound X (ft_offered s) (ft_relay s) \<and> list_all (job_ok X (ft_offered s)) (ft_jobs s)"

lemma job_ok_mono: "job_ok X S job \<Longrightarrow> S \<subseteq> S' \<Longrightarrow> job_ok X S' job"
  by (cases "(X, S, job)" rule: job_ok.cases) (auto simp: admitted_def)

lemma offered_after_sub: "S \<subseteq> offered_after ev S"
  by (auto simp: offered_after_def split: box_event.split)

lemma files_okD: "files_ok X S fs \<Longrightarrow> relay_path p \<Longrightarrow> fs_lookup fs p = Some f \<Longrightarrow> parse_envelope (f_data f) = Inr e \<Longrightarrow>
    (hex_encode X (e_handle e), e_pointer e) \<in> S"
  by (auto simp: files_ok_def)

lemma files_ok_sub:
  "files_ok X S fs \<Longrightarrow> (\<And>p f. relay_path p \<Longrightarrow> fs_lookup fs' p = Some f \<Longrightarrow>
     \<exists>p'. relay_path p' \<and> fs_lookup fs p' = Some f) \<Longrightarrow> files_ok X S fs'"
  unfolding files_ok_def by metis

lemma files_ok_mono: "files_ok X S fs \<Longrightarrow> S \<subseteq> S' \<Longrightarrow> files_ok X S' fs"
  by (auto simp: files_ok_def)

lemma files_ok_drops: "files_ok X S fs \<Longrightarrow> files_ok X S (drops dir ys fs)"
  by (erule files_ok_sub) (blast dest: drops_sub)

lemma files_ok_write:
  assumes w: "fs_write p (marshal_envelope env) fs = (fs', r)" and ok: "files_ok X S fs" "short_writes fs"
    and env: "env_wf env" "(hex_encode X (e_handle env), e_pointer env) \<in> S"
  shows "files_ok X S fs'"
proof -
  have "(hex_encode X (e_handle e), e_pointer e) \<in> S"
    if "relay_path q" "fs_lookup fs' q = Some f" "parse_envelope (f_data f) = Inr e" for q f e
  proof -
    have "fs_lookup fs q = Some f \<or> f_data f = marshal_envelope env \<or> length (f_data f) < ENVELOPE_LEN"
      using that(2) w ok(2) by (auto simp: fs_write_def short_writes_def split: option.splits if_splits)
    then consider "fs_lookup fs q = Some f" | "f_data f = marshal_envelope env" | "length (f_data f) < ENVELOPE_LEN"
      by blast
    then show ?thesis
    proof cases
      case 1
      then show ?thesis using files_okD [OF ok(1) that(1) _ that(3)] by blast
    next
      case 2
      then show ?thesis using that(3) env by (simp add: parse_marshal)
    next
      case 3
      have "length (f_data f) = ENVELOPE_LEN" using that(3) by (auto simp: parse_envelope_iff length_marshal)
      with 3 show ?thesis by simp
    qed
  qed
  then show ?thesis by (auto simp: files_ok_def)
qed

lemma files_ok_rename: "fs_rename a b fs = (fs', r) \<Longrightarrow> relay_path a \<Longrightarrow> files_ok X S fs \<Longrightarrow> files_ok X S fs'"
proof (erule files_ok_sub)
  fix p f assume "fs_rename a b fs = (fs', r)" "relay_path a" "relay_path p" "fs_lookup fs' p = Some f"
  then show "\<exists>p'. relay_path p' \<and> fs_lookup fs p' = Some f"
    by (cases r) (auto dest!: fs_rename_err fs_rename_ok split: if_splits)
qed

lemma queued_ok_update:
  "queued_ok S qs \<Longrightarrow> (\<And>x. x \<in> set q \<Longrightarrow> timed x \<and> (h, q_pointer x) \<in> S) \<Longrightarrow> queued_ok S (AList.update h q qs)"
  by (auto simp: queued_ok_def queue_of_update)

section \<open>A crash keeps it\<close>

lemma open_entry_ok:
  assumes "open_entry X dir cfg t1 t2 n (fs, qs) = (fs', qs')" "files_ok X S fs" "queued_ok S qs"
  shows "files_ok X S fs' \<and> queued_ok S qs'"
proof
  have fst: "fs' \<in> {fs, fs_remove (file_path dir n) fs}"
    using open_entry_fst(1) [of X dir cfg t1 t2 n fs qs] assms(1) by simp
  then show "files_ok X S fs'"
    using files_ok_sub [OF assms(2), of "fs_remove (file_path dir n) fs"] assms(2) fs_remove_sub by blast
  have qs': "qs' = (case open_item X dir cfg t1 t2 fs n of None \<Rightarrow> qs
      | Some (h, x) \<Rightarrow> AList.update h (queue_of qs h @ [x]) qs)"
    using open_entry_snd [of X dir cfg t1 t2 n fs qs] assms(1) by simp
  show "queued_ok S qs'"
  proof (cases "open_item X dir cfg t1 t2 fs n")
    case (Some i)
    obtain h x where i: "i = (h, x)" by (cases i)
    from Some [unfolded i] obtain e where e: "env_at dir fs n = Some e" "h = hex_encode X (e_handle e)"
      "q_pointer x = e_pointer e" "q_deadline x = pointer_deadline (e_pointer e)"
      unfolding open_item_Some by blast
    with env_at_Some [OF e(1)] files_okD [OF assms(2) relay_path_entry] have "timed x" "(h, q_pointer x) \<in> S" by auto
    moreover have "timed y \<and> (h, q_pointer y) \<in> S" if "y \<in> set (queue_of qs h)" for y
      using assms(3) that by (simp add: queued_ok_def)
    ultimately show ?thesis unfolding qs' Some i by (auto intro!: queued_ok_update [OF assms(3)])
  qed (simp add: qs' assms(3))
qed

lemma open_loop_ok:
  "files_ok X S fs \<Longrightarrow> queued_ok S qs \<Longrightarrow>
   files_ok X S (fst (open_loop X dir cfg clk i ns (fs, qs))) \<and> queued_ok S (snd (open_loop X dir cfg clk i ns (fs, qs)))"
proof (induction ns arbitrary: i fs qs)
  case (Cons n ns)
  obtain fs1 qs1 where e: "open_entry X dir cfg (clk i) (clk (i + 1)) n (fs, qs) = (fs1, qs1)" by fastforce
  from Cons.IH open_entry_ok [OF e Cons.prems] e show ?case by simp
qed simp

lemma crash_ok:
  assumes "fabric_open X dir cfg clk fs = (fs', st')" "files_ok X S fs"
  shows "files_ok X S fs' \<and> queued_ok S (fab_queues st')"
  using fabric_open_loop [OF assms(1)]
proof cases
  case (1 ns)
  have q: "queue_of (map (\<lambda>(h, q). (h, sort_key q_key q)) qs) h = sort_key q_key (queue_of qs h)" for qs h
    by (induction qs) (auto simp: queue_of_def)
  have "queued_ok S []" by (simp add: queued_ok_def queue_of_def)
  from open_loop_ok [OF assms(2) this, of dir cfg clk 0 ns] 1 show ?thesis by (simp add: queued_ok_def q)
qed

section \<open>A piece keeps it\<close>

lemma short_writes_cong: "fs_faults fs' = fs_faults fs \<Longrightarrow> short_writes fs' = short_writes fs"
  by (simp add: short_writes_def)

lemma sound_mono: "sound X S c \<Longrightarrow> S \<subseteq> S' \<Longrightarrow> sound X S' c"
  by (auto simp: sound_def queued_ok_def intro: files_ok_mono)

lemma sound_frame:
  assumes "sound X S (st, fs)" "fab_reg st' = fab_reg st" "fab_cfg st' = fab_cfg st"
    "fs_faults fs' = fs_faults fs" "queued_ok S (fab_queues st')" "files_ok X S fs'"
  shows "sound X S (st', fs')"
  using assms by (simp add: sound_def reg_wf_def short_writes_def)

lemma enqueue_sound:
  assumes adm: "admitted X S req h env" and ok: "sound X S (st, fs)"
    and run: "fput_step X dir req ip clk (Put_enqueue h env cid) (st, fs) = ((st', fs'), r)"
  shows "sound X S (st', fs')"
    "mail_step (fc_max_per_handle (fab_cfg st)) (mail st) (Put h (e_pointer env)) (mail st')"
    "r = Inr (Ret (Inr (Object [(''queued'', Bool True)])))"
proof -
  let ?q = "queue_of (fab_queues st) h" and ?p = "e_pointer env"
  from run obtain q1 fs2 q2 where en: "fput_enqueue dir (fc_max_per_handle (fab_cfg st)) ?p cid
      (pointer_deadline ?p) (e_received_at env) ?q fs = (q1, fs2)"
    and co: "compost dir (clk 4) q1 fs2 = (q2, fs')"
    and st': "st' = st\<lparr>fab_queues := AList.update h q2 (fab_queues st)\<rparr>"
    and r: "r = Inr (Ret (Inr (Object [(''queued'', Bool True)])))"
    by (auto split: prod.splits)
  have q: "timed x \<and> (h, q_pointer x) \<in> S" if "x \<in> set ?q" for x
    using that ok by (simp add: sound_def queued_ok_def)
  note e = enqueue_mail [OF en]
  have t1: "\<forall>x\<in>set q1. timed x" using e(2) q by blast
  have p: "(h, ?p) \<in> S" using adm unfolding admitted_def by blast
  have sub: "set (map q_pointer q1) \<subseteq> insert ?p (set (map q_pointer ?q))"
    unfolding e(1) by (auto dest: in_set_dropD)
  have q1: "(h, q_pointer x) \<in> S" if x: "x \<in> set q1" for x
  proof -
    consider "q_pointer x = ?p" | y where "y \<in> set ?q" "q_pointer x = q_pointer y" using sub x by auto
    then show ?thesis using p q by cases simp_all
  qed
  have "set q2 \<subseteq> set q1" using co by (auto simp: compost_eq)
  then have ent: "queued_ok S (fab_queues st')"
    unfolding st' using ok t1 q1 by (auto simp: sound_def intro!: queued_ok_update)
  have files: "files_ok X S fs'" "fs_faults fs' = fs_faults fs"
    using ok enqueue_files [OF en] co by (auto simp: sound_def compost_eq intro: files_ok_drops)
  show "sound X S (st', fs')" by (rule sound_frame [OF ok]) (use ent files in \<open>simp_all add: st'\<close>)
  have "mail st' = (mail st)(h := map q_pointer q2)"
    by (auto simp: st' mail_def queue_of_update fun_eq_iff)
  moreover have "map q_pointer q2 = put_spec (fc_max_per_handle (fab_cfg st)) (clk 4) ?p (mail st h)"
    unfolding compost_mail [OF co t1] e(1) put_spec_def by (simp add: mail_def)
  ultimately show "mail_step (fc_max_per_handle (fab_cfg st)) (mail st) (Put h ?p) (mail st')"
    by (auto simp: mail_step_simps)
  show "r = Inr (Ret (Inr (Object [(''queued'', Bool True)])))" by (rule r)
qed

lemma pop_reply_inj:
  assumes "hex_law X" "Object [(''pointers'', Array (map (\<lambda>p. String (hex_encode X p)) ps))] =
    Object [(''pointers'', Array (map String (map (hex_encode X) ps')))]"
  shows "ps = ps'"
proof -
  have "inj (\<lambda>p. String (hex_encode X p))" using assms(1) by (simp add: inj_def hex_law_encode)
  moreover have "map (\<lambda>p. String (hex_encode X p)) ps = map (\<lambda>p. String (hex_encode X p)) ps'"
    using assms(2) by (simp add: comp_def)
  ultimately show ?thesis by (simp add: inj_map_eq_map)
qed

lemma drain_sound:
  assumes law: "hex_law X" and ok: "sound X S (st, fs)" and h: "h = req_handle X req"
    and run: "fpop_step X dir req ip clk (Pop_drain h) (st, fs) = ((st', fs'), Inr (Ret r))"
    and lab: "pop_label X req r m"
  shows "mail_step mx (mail st) m (mail st')" "queued_ok S (fab_queues st')" "m \<noteq> Restart"
    "\<And>h p. m \<noteq> Put h p"
proof -
  show "m \<noteq> Restart" "\<And>h p. m \<noteq> Put h p" using lab by (auto simp: pop_label_def split: sum.splits)
  have "mail_step mx (mail st) m (mail st') \<and> queued_ok S (fab_queues st')"
  proof (cases "map_of (fab_queues st) h")
    case None
    then have "st' = st" "m = Pop h []" "mail st h = []"
      using run lab h by (auto simp: pop_label_def mail_def queue_of_def)
    then show ?thesis using ok by (auto simp: mail_step_simps sound_def intro!: exI [of _ 0])
  next
    case (Some q)
    then obtain mx0 q' out where d: "drain X dir (clk 2) mx0 q fs [] = (q', fs', out)"
      and st': "st' = st\<lparr>fab_queues := AList.update h q' (fab_queues st)\<rparr>"
      and r: "r = Inr (Object [(''pointers'', Array (map String out))])"
      using run by (auto split: prod.splits)
    have q: "timed x \<and> (h, q_pointer x) \<in> S" if "x \<in> set q" for x
    proof -
      have "x \<in> set (queue_of (fab_queues st) h)" using that Some by (simp add: queue_of_def)
      then show ?thesis using ok by (simp add: sound_def queued_ok_def)
    qed
    from drain_mail [OF d] q obtain ps' where p: "pop_spec (clk 2) mx0 (map q_pointer q) = (map q_pointer q', ps')"
      "out = map (hex_encode X) ps'" by auto
    from lab r p(2) h obtain ps where m: "m = Pop h ps"
      "Object [(''pointers'', Array (map (\<lambda>p. String (hex_encode X p)) ps))] =
         Object [(''pointers'', Array (map String (map (hex_encode X) ps')))]"
      by (auto simp: pop_label_def)
    have "mail st' = (mail st)(h := map q_pointer q')"
      by (rule ext) (simp add: mail_def st' queue_of_update)
    moreover have "mail st h = map q_pointer q" using Some by (simp add: mail_def queue_of_def)
    ultimately have "mail_step mx (mail st) m (mail st')"
      using p(1) pop_reply_inj [OF law m(2)] unfolding m(1) by (auto simp: mail_step_simps)
    moreover have "set q' \<subseteq> set q" using drain_files [OF d] by auto
    then have "queued_ok S (fab_queues st')"
      unfolding st' using ok q by (auto simp: sound_def intro!: queued_ok_update)
    ultimately show ?thesis ..
  qed
  then show "mail_step mx (mail st) m (mail st')" "queued_ok S (fab_queues st')" by blast+
qed

text \<open>One piece of any job: the invariant, the specification's step, no panic.\<close>

lemma job_event_mail: "job_event X job (Inr r) ev \<Longrightarrow> \<exists>m. ev = Mail m"
  by (cases "(X, job, Inr r :: job + (string + json) run, ev)" rule: job_event.cases) auto

lemma offered_after_mail [simp]: "offered_after (Mail m) S = S" "offered_after (Offer h p) S = insert (h, p) S"
  by (simp_all add: offered_after_def)

lemma put_label_refused: "put_label X req (Ret (Inl e)) = Quiet" "put_label X req Panic = Quiet"
  by (simp_all add: put_label_def)

lemma quiet_box: "mail st' = mail st \<Longrightarrow> box_step mx (mail st, S) (Mail Quiet) (mail st', S)"
  by (auto intro: box_step.mail simp: mail_step_simps)

lemma put_job_ok:
  assumes law: "hex_law X" and ok: "sound X S (st, fs)" and job: "job_ok X S (Fput req ip clk pc)"
    and run: "fput_step X dir req ip clk pc (st, fs) = ((st', fs'), r)"
    and ev: "job_event X (Fput req ip clk pc) (case r of Inl pc' \<Rightarrow> Inl (Fput req ip clk pc') | Inr v \<Rightarrow> Inr v) ev"
  shows "sound X (offered_after ev S) (st', fs')"
    "box_step (fc_max_per_handle (fab_cfg st)) (mail st, S) ev (mail st', offered_after ev S)"
    "r = Inl pc' \<Longrightarrow> job_ok X (offered_after ev S) (Fput req ip clk pc')" "r \<noteq> Inr Panic"
proof -
  note fr = fput_step_frame [OF run]
  have quiet: "mail st' = mail st" "queued_ok S (fab_queues st')" if "\<And>h env cid. pc \<noteq> Put_enqueue h env cid"
    using fr(4) that ok by (auto simp: sound_def intro: mail_cong)
  have *: "sound X (offered_after ev S) (st', fs') \<and>
    box_step (fc_max_per_handle (fab_cfg st)) (mail st, S) ev (mail st', offered_after ev S) \<and>
    (\<forall>pc'. r = Inl pc' \<longrightarrow> job_ok X (offered_after ev S) (Fput req ip clk pc')) \<and> r \<noteq> Inr Panic"
  proof (cases pc)
    case Put_registry
    have e: "ev = Mail Quiet"
      using ev run Put_registry by (auto simp: put_label_refused Let_def split: option.splits if_splits)
    have "st' = st" "fs' = fs" "r \<noteq> Inr Panic" using run Put_registry by (auto simp: Let_def split: option.splits if_splits)
    moreover have "job_ok X S (Fput req ip clk pc')" if "r = Inl pc'" for pc'
      using that run Put_registry ok
      by (auto simp: Let_def req_handle_def sound_def split: option.splits if_splits dest: reg_wf_key)
    ultimately show ?thesis using ok e by (simp add: quiet_box)
  next
    case (Put_limiter h)
    note q = quiet [unfolded Put_limiter, simplified]
    have h: "h = req_handle X req" "handle_canon X h" using job unfolding Put_limiter job_ok.simps by blast+
    have fs: "fs' = fs" using run Put_limiter by (simp split: prod.splits)
    have snd: "sound X S (st', fs')" by (rule sound_frame [OF ok fr(1-3) q(2)]) (use ok fs in \<open>simp add: sound_def\<close>)
    have r: "r = Inr (Ret (Inl ''429 fput rate'')) \<or> r = fput_checks X (fab_cfg st) req clk h"
      using run Put_limiter by (auto split: prod.splits if_splits)
    then have np: "r \<noteq> Inr Panic"
      using fput_checks_no_panic [OF handle_canon_ok [OF h(2)], of "fab_cfg st" req clk] by (elim disjE) simp_all
    show ?thesis
    proof (cases r)
      case (Inl pc')
      with r have "fput_checks X (fab_cfg st) req clk h = Inl pc'" by auto
      then obtain env where env: "pc' = Put_write h env (hex_encode X (sha256 X (marshal_envelope env)))"
        "hex_crate_decode X (str_or (get_str req ''pointer_hex'') []) = Inr (e_pointer env)"
        "hex_crate_decode X h = Inr (e_handle env)" "env_wf env" by (rule fput_checks_Write)
      have e: "ev = Offer h (e_pointer env)" using ev Inl env(1) Put_limiter by simp
      have "admitted X (insert (h, e_pointer env) S) req h env"
        using env(2-4) h by (simp add: admitted_def handle_canon_def)
      then show ?thesis
        using snd q(1) Inl np env(1) e by (auto intro: sound_mono [OF snd] box_step.offer)
    next
      case (Inr v)
      have "v \<noteq> Ret (Inr j)" for j
        using r Inr by (auto simp: fput_checks_def Let_def split: option.splits sum.splits if_splits)
      then have "put_label X req v = Quiet" by (auto simp: put_label_def split: run.splits sum.splits)
      then have e: "ev = Mail Quiet" using ev Inr Put_limiter by simp
      show ?thesis using snd q(1) Inr np by (simp add: e quiet_box)
    qed
  next
    case (Put_write h env cid)
    note q = quiet [unfolded Put_write, simplified]
    have adm: "admitted X S req h env" using job Put_write by simp
    obtain w where w: "fs_write (fenv_tmp_path dir cid) (marshal_envelope env) fs = (fs', w)"
      and r: "r = (case w of Inl e \<Rightarrow> Inr (Ret (Inl (''500 envelope write: '' @ e))) | Inr _ \<Rightarrow> Inl (Put_rename h env cid))"
      using run Put_write by (auto split: prod.splits sum.splits)
    have "files_ok X S fs'" using files_ok_write [OF w] ok adm by (auto simp: sound_def admitted_def)
    then have snd: "sound X S (st', fs')" by (rule sound_frame [OF ok fr(1-3) q(2)])
    have e: "ev = Mail Quiet" using ev r Put_write by (auto simp: put_label_refused split: sum.splits)
    show ?thesis using snd q(1) adm r by (auto simp: e quiet_box split: sum.splits)
  next
    case (Put_rename h env cid)
    note q = quiet [unfolded Put_rename, simplified]
    have adm: "admitted X S req h env" using job Put_rename by simp
    obtain w where w: "fs_rename (fenv_tmp_path dir cid) (fenv_path dir cid) fs = (fs', w)"
      and r: "r = (case w of Inl e \<Rightarrow> Inr (Ret (Inl (''500 envelope rename: '' @ e))) | Inr _ \<Rightarrow> Inl (Put_enqueue h env cid))"
      using run Put_rename by (auto split: prod.splits sum.splits)
    have "files_ok X S fs'" using files_ok_rename [OF w] ok by (simp add: sound_def)
    then have snd: "sound X S (st', fs')" by (rule sound_frame [OF ok fr(1-3) q(2)])
    have e: "ev = Mail Quiet" using ev r Put_rename by (auto simp: put_label_refused split: sum.splits)
    show ?thesis using snd q(1) adm r by (auto simp: e quiet_box split: sum.splits)
  next
    case (Put_enqueue h env cid)
    have adm: "admitted X S req h env" using job Put_enqueue by simp
    note es = enqueue_sound [OF adm ok run [unfolded Put_enqueue]]
    have e: "ev = Mail (Put h (e_pointer env))"
      using ev es(3) adm Put_enqueue by (simp add: put_label_def admitted_def)
    have "(h, e_pointer env) \<in> S" using adm unfolding admitted_def by blast
    then show ?thesis using es by (auto simp: e intro: box_step.mail)
  qed
  then show "sound X (offered_after ev S) (st', fs')"
    "box_step (fc_max_per_handle (fab_cfg st)) (mail st, S) ev (mail st', offered_after ev S)"
    "r = Inl pc' \<Longrightarrow> job_ok X (offered_after ev S) (Fput req ip clk pc')" "r \<noteq> Inr Panic" by auto
qed

lemma pop_job_ok:
  assumes law: "hex_law X" and ok: "sound X S (st, fs)" and job: "job_ok X S (Fpop req ip clk pc)"
    and run: "fpop_step X dir req ip clk pc (st, fs) = ((st', fs'), r)"
    and ev: "job_event X (Fpop req ip clk pc) (case r of Inl pc' \<Rightarrow> Inl (Fpop req ip clk pc') | Inr v \<Rightarrow> Inr v) ev"
  shows "sound X S (st', fs')" "box_step mx (mail st, S) ev (mail st', S)" "offered_after ev S = S"
    "r = Inl pc' \<Longrightarrow> job_ok X S (Fpop req ip clk pc')" "r \<noteq> Inr Panic"
proof -
  note fr = fpop_step_frame [OF run]
  have files: "fs_faults fs' = fs_faults fs" "files_ok X S fs'"
    using fr(3) ok by (auto simp: sound_def intro: files_ok_drops)
  have np: "r \<noteq> Inr Panic" using run
    by (cases pc) (auto simp: Let_def split: option.splits prod.splits if_splits)
  have res: "(\<exists>pc'. r = Inl pc' \<and> job_ok X S (Fpop req ip clk pc')) \<or> (\<exists>v. r = Inr (Ret v))"
    using run job by (cases pc) (auto simp: req_handle_def Let_def split: option.splits prod.splits if_splits)
  have "sound X S (st', fs') \<and> box_step mx (mail st, S) ev (mail st', S) \<and> offered_after ev S = S"
  proof (cases "\<exists>h. pc = Pop_drain h")
    case True
    then obtain h where h: "pc = Pop_drain h" by blast
    then obtain v where v: "r = Inr (Ret v)" using run by (auto split: option.splits prod.splits)
    then obtain m where m: "ev = Mail m" "pop_label X req v m" using ev by auto
    have hq: "h = req_handle X req" using job h by simp
    note d = drain_sound [OF law ok hq run [unfolded h v] m(2)]
    show ?thesis using sound_frame [OF ok fr(1,2) files(1) d(2) files(2)] d by (auto simp: m(1) intro: box_step.mail)
  next
    case False
    then have q: "mail st' = mail st" "queued_ok S (fab_queues st')"
      using fr(4) ok by (auto simp: sound_def intro: mail_cong)
    have "ev = Mail Quiet"
      using ev run False
      by (cases pc) (auto simp: pop_label_def Let_def split: option.splits prod.splits if_splits)
    then show ?thesis using sound_frame [OF ok fr(1,2) files(1) q(2) files(2)] q(1) by (simp add: quiet_box)
  qed
  then show "sound X S (st', fs')" "box_step mx (mail st, S) ev (mail st', S)" "offered_after ev S = S" by blast+
  show "r = Inl pc' \<Longrightarrow> job_ok X S (Fpop req ip clk pc')" using res by auto
  show "r \<noteq> Inr Panic" by (rule np)
qed

lemma job_step_ok:
  assumes law: "hex_law X" and ok: "sound X S c" and job: "job_ok X S job"
    and run: "job_step X dir job c = (c', res)" and ev: "job_event X job res ev"
  shows "sound X (offered_after ev S) c'"
    "box_step (fc_max_per_handle (fab_cfg (fst c))) (mail (fst c), S) ev (mail (fst c'), offered_after ev S)"
    "\<And>job'. res = Inl job' \<Longrightarrow> job_ok X (offered_after ev S) job'" "res \<noteq> Inr Panic"
    "fab_cfg (fst c') = fab_cfg (fst c)"
proof -
  obtain st fs st' fs' where c: "c = (st, fs)" "c' = (st', fs')" by (metis surj_pair)
  have "sound X (offered_after ev S) c' \<and>
    box_step (fc_max_per_handle (fab_cfg (fst c))) (mail (fst c), S) ev (mail (fst c'), offered_after ev S) \<and>
    (\<forall>job'. res = Inl job' \<longrightarrow> job_ok X (offered_after ev S) job') \<and> res \<noteq> Inr Panic \<and>
    fab_cfg (fst c') = fab_cfg (fst c)"
  proof (cases job)
    case (Freg req clk)
    then obtain r where r: "run_freg X st req clk = (st', r)" "fs' = fs" "res = Inr (Ret r)"
      using run c by (auto split: prod.splits)
    have e: "ev = Mail Quiet" using ev Freg r(3) by simp
    have "sound X S (st', fs)"
      using ok run_freg_wf [OF law r(1)] run_freg_keeps(2) [OF r(1)] by (simp add: sound_def c)
    moreover have "mail st' = mail st" by (rule mail_cong) (rule run_freg_keeps(2) [OF r(1)])
    ultimately show ?thesis using r run_freg_keeps(1) [OF r(1)] by (simp add: c e quiet_box)
  next
    case (Fput req ip clk pc)
    then obtain r where r: "fput_step X dir req ip clk pc (st, fs) = ((st', fs'), r)"
      "res = (case r of Inl pc' \<Rightarrow> Inl (Fput req ip clk pc') | Inr v \<Rightarrow> Inr v)"
      using run c by (auto split: prod.splits sum.splits)
    have jo: "job_ok X S (Fput req ip clk pc)" and ev': "job_event X (Fput req ip clk pc) (case r of
        Inl pc' \<Rightarrow> Inl (Fput req ip clk pc') | Inr v \<Rightarrow> Inr v) ev" using job ev Fput r(2) by simp_all
    note p = put_job_ok [OF law ok [unfolded c] jo r(1) ev']
    show ?thesis using p fput_step_frame(2) [OF r(1)] r(2) by (auto simp: c split: sum.splits)
  next
    case (Fpop req ip clk pc)
    then obtain r where r: "fpop_step X dir req ip clk pc (st, fs) = ((st', fs'), r)"
      "res = (case r of Inl pc' \<Rightarrow> Inl (Fpop req ip clk pc') | Inr v \<Rightarrow> Inr v)"
      using run c by (auto split: prod.splits sum.splits)
    have jo: "job_ok X S (Fpop req ip clk pc)" and ev': "job_event X (Fpop req ip clk pc) (case r of
        Inl pc' \<Rightarrow> Inl (Fpop req ip clk pc') | Inr v \<Rightarrow> Inr v) ev" using job ev Fpop r(2) by simp_all
    note p = pop_job_ok [OF law ok [unfolded c] jo r(1) ev']
    show ?thesis using p fpop_step_frame(2) [OF r(1)] r(2) by (auto simp: c split: sum.splits)
  qed
  then show "sound X (offered_after ev S) c'"
    "box_step (fc_max_per_handle (fab_cfg (fst c))) (mail (fst c), S) ev (mail (fst c'), offered_after ev S)"
    "\<And>job'. res = Inl job' \<Longrightarrow> job_ok X (offered_after ev S) job'" "res \<noteq> Inr Panic"
    "fab_cfg (fst c') = fab_cfg (fst c)" by blast+
qed

section \<open>The threads refine the mailbox\<close>

definition box_of :: "fabric_threads \<Rightarrow> box" where
  "box_of s = (mail (fst (ft_relay s)), ft_offered s)"

abbreviation ft_cap :: "fabric_threads \<Rightarrow> nat" where
  "ft_cap s \<equiv> fc_max_per_handle (fab_cfg (fst (ft_relay s)))"

lemma fresh_ok: "fresh job \<Longrightarrow> job_ok X S job"
  by (cases job) auto

lemma jobs_ok_mono: "list_all (job_ok X S) jobs \<Longrightarrow> list_all (job_ok X (offered_after ev S)) jobs"
  by (auto simp: list_all_iff intro: job_ok_mono [OF _ offered_after_sub])

lemma threads_do_ok:
  assumes law: "hex_law X" and step: "threads_do X dir s ev s'" and ok: "threads_ok X s"
  shows "threads_ok X s' \<and> box_step (ft_cap s) (box_of s) ev (box_of s') \<and> ft_cap s' = ft_cap s"
  using step
proof (cases rule: threads_do.cases)
  case (accept job)
  then show ?thesis using ok fresh_ok by (auto simp: threads_ok_def box_of_def intro: quiet_box)
next
  case (step j c job)
  have j: "job_ok X (ft_offered s) (ft_jobs s ! j)" and c: "sound X (ft_offered s) (ft_relay s)"
    using ok step(2) by (auto simp: threads_ok_def list_all_length)
  note p = job_step_ok [OF law c j step(3,4)]
  have "list_all (job_ok X (offered_after ev (ft_offered s))) ((ft_jobs s)[j := job])"
    using jobs_ok_mono [of X "ft_offered s" "ft_jobs s" ev] ok p(3) [OF refl] step(2)
    by (auto simp: threads_ok_def list_all_length nth_list_update)
  then show ?thesis using p(1,2,5) by (simp add: step(1) threads_ok_def box_of_def)
next
  case (reply j c r)
  have j: "job_ok X (ft_offered s) (ft_jobs s ! j)" and c: "sound X (ft_offered s) (ft_relay s)"
    using ok reply(2) by (auto simp: threads_ok_def list_all_length)
  note p = job_step_ok [OF law c j reply(3,4)]
  have "offered_after ev (ft_offered s) = ft_offered s" using job_event_mail [OF reply(4)] by auto
  moreover have "list_all (job_ok X (ft_offered s)) (take j (ft_jobs s) @ drop (Suc j) (ft_jobs s))"
    using ok by (auto simp: threads_ok_def list_all_iff dest: in_set_takeD in_set_dropD)
  ultimately show ?thesis using p(1,2,5) by (simp add: reply(1) threads_ok_def box_of_def)
next
  case (crash clk fs st)
  have f: "files_ok X (ft_offered s) (snd (ft_relay s))" "short_writes (snd (ft_relay s))"
    using ok by (simp_all add: threads_ok_def sound_def)
  note cr = crash_ok [OF crash(3) f(1)]
  note st = fabric_open_state [OF crash(3)]
  have "short_writes fs" using f(2) fabric_open_disk(1) [OF crash(3)] by (simp add: short_writes_def)
  moreover have "box_step (ft_cap s) (box_of s) ev (box_of s')"
  proof -
    have "(h, p) \<in> ft_offered s" if "p \<in> set (mail st h)" for h p
      using that cr by (auto simp: queued_ok_def mail_def)
    then have "box_step (ft_cap s) (mail (fst (ft_relay s)), ft_offered s) (Mail Restart) (mail st, ft_offered s)"
      by (rule box_step.restart)
    then show ?thesis by (simp add: crash(1,2) box_of_def)
  qed
  ultimately show ?thesis using cr st by (simp add: crash(1,2) threads_ok_def sound_def reg_wf_def)
qed

interpretation boxes: refinement "threads_do X dir" "\<lambda>s. hex_law X \<and> threads_ok X s \<and> ft_cap s = mx"
    "box_step mx" box_of for X dir mx
proof (unfold_locales, goal_cases)
  case (1 s ev s')
  then show ?case using threads_do_ok by auto
next
  case (2 s ev s')
  then show ?case using threads_do_ok by auto
qed

lemma box_ok_threads: "threads_ok X s \<Longrightarrow> box_ok (box_of s)"
  by (auto simp: threads_ok_def sound_def queued_ok_def box_ok_def box_of_def mail_def)

text \<open>A relay without requests in progress, whose disk and queues hold offered pointers only.\<close>

definition idle :: "relay \<Rightarrow> (string \<times> bytes) set \<Rightarrow> fabric_threads" where
  "idle c S = \<lparr>ft_relay = c, ft_jobs = [], ft_offered = S\<rparr>"

lemma idle_ok: "threads_ok X (idle c S) \<longleftrightarrow> sound X S c"
  by (simp add: idle_def threads_ok_def)

text \<open>A relay that has just been opened, on a disk whose envelopes count as offered.\<close>

lemma open_threads_ok:
  assumes "fabric_open X dir cfg clk fs = (fs', st')" "files_ok X S fs" "short_writes fs"
  shows "threads_ok X (idle (st', fs') S)"
  using crash_ok [OF assms(1,2)] fabric_open_state [OF assms(1)] fabric_open_disk(1) [OF assms(1)] assms(3)
  by (simp add: idle_ok sound_def reg_wf_def short_writes_def)

lemma threads_no_panic:
  assumes "hex_law X" "job \<in> set (ft_jobs s)" "threads_ok X s"
  shows "snd (job_step X dir job (ft_relay s)) \<noteq> Inr Panic"
proof
  assume panic: "snd (job_step X dir job (ft_relay s)) = Inr Panic"
  then obtain c where run: "job_step X dir job (ft_relay s) = (c, Inr Panic)" by (metis surjective_pairing)
  have "\<exists>ev. job_event X job (Inr Panic) ev"
  proof (cases job)
    case (Fput req ip clk pc)
    then show ?thesis by (cases pc) auto
  qed auto
  then obtain ev where ev: "job_event X job (Inr Panic) ev" ..
  have "job_ok X (ft_offered s) job" "sound X (ft_offered s) (ft_relay s)"
    using assms(2,3) by (auto simp: threads_ok_def list_all_iff)
  from job_step_ok(4) [OF assms(1) this(2,1) run ev] show False by simp
qed

end
