(* ===== verification/Node_Threads.thy ===== *)
theory Node_Threads
  imports Hold_Threads Fabric_Threads
begin

text \<open>
  The node with all its threads: pushes and relay verbs, each cut into its pieces, interleaved
  on one directory, with crashes. The relay and the store meet only in the file system, where
  their files have different extensions; so both keep their invariants, and the node refines
  the mailbox of the relay and the growing set of ids of the store at once.
\<close>

section \<open>Whose files a piece touches\<close>

lemma body_not_relay [simp]:
  "\<not> relay_path (body_path dir h)" "\<not> relay_path (tmp_body_path dir h)"
  "\<not> relay_path (final_of X dir b)" "\<not> relay_path (tmp_of X dir b)"
proof -
  have b: "\<not> relay_path (body_path dir h)" for h
    by (auto simp: relay_path_def body_path_def dest!: ends_withD arg_cong [of _ _ last])
  have t: "\<not> relay_path (tmp_body_path dir h)" for h
    by (auto simp: relay_path_def tmp_body_path_def dest!: ends_withD arg_cong [of _ _ last])
  show "\<not> relay_path (body_path dir h)" "\<not> relay_path (tmp_body_path dir h)"
    "\<not> relay_path (final_of X dir b)" "\<not> relay_path (tmp_of X dir b)"
    using b t by (simp_all add: final_of_def tmp_of_def)
qed

lemma drops_apart: "\<not> relay_path q \<Longrightarrow> fs_lookup (drops dir ys fs) q = fs_lookup fs q"
proof (induction ys arbitrary: fs)
  case (Cons y ys)
  have "q \<noteq> fenv_path dir (q_env_cid_hex y)" using Cons.prems by auto
  then show ?case using Cons by (simp add: drop_envelope_def fs_remove_other)
qed simp

lemma fput_step_other:
  assumes run: "fput_step X dir req ip clk pc (st, fs) = ((st', fs'), r)" and q: "\<not> relay_path q"
  shows "fs_lookup fs' q = fs_lookup fs q"
proof (cases pc)
  case (Put_write h env cid)
  obtain fs1 w where w: "fs_write (fenv_tmp_path dir cid) (marshal_envelope env) fs = (fs1, w)" by fastforce
  have "q \<noteq> fenv_tmp_path dir cid" using q by auto
  with fs_write_other [OF w] show ?thesis using run w Put_write by (auto split: sum.splits)
next
  case (Put_rename h env cid)
  obtain fs1 w where w: "fs_rename (fenv_tmp_path dir cid) (fenv_path dir cid) fs = (fs1, w)" by fastforce
  have "q \<noteq> fenv_tmp_path dir cid" "q \<noteq> fenv_path dir cid" using q by auto
  with fs_rename_other [OF w] show ?thesis using run w Put_rename by (auto split: sum.splits)
next
  case (Put_enqueue h env cid)
  then obtain q1 fs1 where en: "fput_enqueue dir (fc_max_per_handle (fab_cfg st)) (e_pointer env) cid
         (pointer_deadline (e_pointer env)) (e_received_at env) (queue_of (fab_queues st) h) fs = (q1, fs1)"
    and "fs' = snd (compost dir (clk 4) q1 fs1)" using run by (auto split: prod.splits)
  with enqueue_files [OF en] show ?thesis by (auto simp: compost_eq drops_apart [OF q])
qed (use run in \<open>auto simp: Let_def split: prod.splits option.splits if_splits\<close>)

lemma job_step_other:
  assumes "job_step X dir job (st, fs) = ((st', fs'), r)" "\<not> relay_path q"
  shows "fs_lookup fs' q = fs_lookup fs q \<and> fs_faults fs' = fs_faults fs"
proof (cases job)
  case (Freg req clk)
  then show ?thesis using assms(1) by (auto split: prod.splits)
next
  case (Fput req ip clk pc)
  then obtain v where r: "fput_step X dir req ip clk pc (st, fs) = ((st', fs'), v)"
    using assms(1) by (auto split: prod.splits sum.splits)
  show ?thesis using fput_step_other [OF r assms(2)] fput_step_frame(3) [OF r] by simp
next
  case (Fpop req ip clk pc)
  then obtain v where "fpop_step X dir req ip clk pc (st, fs) = ((st', fs'), v)"
    using assms(1) by (auto split: prod.splits sum.splits)
  from fpop_step_frame(3) [OF this] obtain ys where "fs' = drops dir ys fs" by blast
  then show ?thesis using drops_apart [OF assms(2)] by simp
qed

lemma open_entry_other:
  "\<not> relay_path q \<Longrightarrow> fs_lookup (fst (open_entry X dir cfg t1 t2 n (fs, qs))) q = fs_lookup fs q"
proof -
  assume q: "\<not> relay_path q"
  have "fs_lookup (fs_remove (file_path dir n) fs) q = fs_lookup fs q" if "path_extension n = Some ''fenv''"
    using relay_path_entry [OF that, of dir] q by (intro fs_remove_other) auto
  then show ?thesis by (auto simp: open_entry_def Let_def split: option.splits sum.splits if_splits)
qed

lemma open_loop_other:
  "\<not> relay_path q \<Longrightarrow> fs_lookup (fst (open_loop X dir cfg clk i ns (fs, qs))) q = fs_lookup fs q"
proof (induction ns arbitrary: i fs qs)
  case (Cons n ns)
  obtain fs1 qs1 where e: "open_entry X dir cfg (clk i) (clk (i + 1)) n (fs, qs) = (fs1, qs1)" by fastforce
  then show ?case using Cons open_entry_other [OF Cons.prems, of X dir cfg "clk i" "clk (i + 1)" n fs qs] by simp
qed simp

lemma fabric_open_other:
  "fabric_open X dir cfg clk fs = (fs', st) \<Longrightarrow> \<not> relay_path q \<Longrightarrow> fs_lookup fs' q = fs_lookup fs q"
  using open_loop_other [of q X dir cfg clk 0 _ fs "[]"]
  by (auto simp: fabric_open_def split: option.splits prod.splits) (metis fst_conv)

text \<open>A piece of a verb leaves the files of the store, a restart too.\<close>

lemma threads_do_other:
  assumes "threads_do X dir s ev s'" "\<not> relay_path q"
  shows "fs_lookup (snd (ft_relay s')) q = fs_lookup (snd (ft_relay s)) q \<and>
    fs_faults (snd (ft_relay s')) = fs_faults (snd (ft_relay s))"
  using assms(1)
proof (cases rule: threads_do.cases)
  case (step j c job)
  then show ?thesis using job_step_other [OF _ assms(2)] by (cases "ft_relay s"; cases c) auto
next
  case (reply j c r)
  then show ?thesis using job_step_other [OF _ assms(2)] by (cases "ft_relay s"; cases c) auto
next
  case (crash clk fs st)
  then show ?thesis using fabric_open_other [OF crash(3) assms(2)] fabric_open_disk(1) [OF crash(3)] by simp
qed simp

text \<open>A piece of a push leaves the files of the relay, as long as it writes where it should.\<close>

definition fills_named :: "ext \<Rightarrow> path \<Rightarrow> (bytes \<times> path) set \<Rightarrow> bool" where
  "fills_named X dir F \<longleftrightarrow> (\<forall>b p. (b, p) \<in> F \<longrightarrow> p = tmp_of X dir b \<or> p = final_of X dir b)"

lemma push_step_other:
  assumes run: "push_step X dir cfg ip now msg pc (fs, lim) = ((fs', lim'), m, res)" and q: "relay_path q"
    and own: "fills_named X dir (fill_of (Push ip now msg pc))"
  shows "fs_lookup fs' q = fs_lookup fs q"
proof -
  have ne: "q \<noteq> tmp_of X dir b" "q \<noteq> final_of X dir b" for b using q body_not_relay(3,4) by metis+
  show ?thesis
  proof (cases pc)
    case (Push_fill b at)
    have "q \<noteq> p" if "at = Some p" for p
      using own ne that by (auto simp: fills_named_def Push_fill)
    then show ?thesis using run Push_fill
      by (auto simp: write_open_def split: option.splits)
  next
    case (Push_rename b)
    obtain fs1 w where w: "fs_rename (tmp_of X dir b) (final_of X dir b) fs = (fs1, w)" by fastforce
    from fs_rename_other [OF w ne] show ?thesis using run w Push_rename by (auto split: sum.splits)
  next
    case (Push_clean b e)
    then show ?thesis using run fs_remove_other [OF ne(1)] by (auto simp: Let_def)
  qed (use run ne in \<open>auto split: sum.splits prod.splits option.splits if_splits run.splits\<close>)
qed

lemma tmp_final_same: "tmp_of X dir b = tmp_of X dir b' \<Longrightarrow> final_of X dir b = final_of X dir b'"
  by (simp add: tmp_of_def final_of_def tmp_body_path_def)

lemma fills_named_sub: "fills_named X dir F \<Longrightarrow> F' \<subseteq> F \<Longrightarrow> fills_named X dir F'"
  by (auto simp: fills_named_def)

lemma push_step_named:
  assumes run: "push_step X dir cfg ip now msg pc (fs, lim) = ((fs', lim'), m, res)" and F: "fills_named X dir F"
  shows "fills_named X dir (next_fill res \<union> move_fills m F)"
proof -
  have quiet: ?thesis if "m = Some" "next_fill res = {}" using F that by simp
  show ?thesis
  proof (cases pc)
    case (Push_create b)
    have "m = Some" "next_fill res \<subseteq> {(b, tmp_of X dir b)}" using run Push_create by (auto split: option.splits)
    then show ?thesis using F by (auto simp: fills_named_def)
  next
    case (Push_rename b)
    obtain fs1 w where w: "fs_rename (tmp_of X dir b) (final_of X dir b) fs = (fs1, w)" by fastforce
    show ?thesis
    proof (cases w)
      case (Inl e)
      then show ?thesis using run w Push_rename quiet by auto
    next
      case (Inr u)
      then have m: "m = (\<lambda>q. if q = final_of X dir b then None else if q = tmp_of X dir b then Some (final_of X dir b) else Some q)"
        and res: "next_fill res = {}" using run w Push_rename by auto
      have "q = tmp_of X dir b' \<or> q = final_of X dir b'" if "(b', q) \<in> move_fills m F" for b' q
      proof -
        from that obtain p where p: "(b', p) \<in> F" "m p = Some q" by (auto simp: move_fills_def)
        then have "p = tmp_of X dir b' \<or> p = final_of X dir b'" using F by (simp add: fills_named_def)
        then show ?thesis using p(2) tmp_final_same [of X dir b' b] by (auto simp: m split: if_splits)
      qed
      then show ?thesis unfolding res fills_named_def by simp
    qed
  next
    case (Push_clean b e)
    have "move_fills m F \<subseteq> F" "next_fill res = {}"
      using run Push_clean by (auto simp: Let_def move_fills_def split: if_splits)
    then show ?thesis using fills_named_sub [OF F] by simp
  next
    case Push_gate
    then show ?thesis using run quiet by (auto split: sum.splits prod.splits if_splits)
  next
    case (Push_quota b)
    then show ?thesis using run quiet by (auto split: if_splits run.splits)
  next
    case (Push_stat b)
    then show ?thesis using run quiet by (auto split: if_splits sum.splits)
  next
    case (Push_fill b at)
    then show ?thesis using run quiet by (auto split: option.splits)
  qed
qed

text \<open>One piece of any push: the relay's files, the names, the faults.\<close>

lemma pushes_do_relay:
  assumes st: "pushes_do X dir cfg B s ev s'" and F: "fills_named X dir (fills (pt_jobs s))"
  shows "fills_named X dir (fills (pt_jobs s'))" "fs_faults (pt_fs s') = fs_faults (pt_fs s)"
    "relay_path q \<Longrightarrow> fs_lookup (pt_fs s') q = fs_lookup (pt_fs s) q"
proof -
  have own: "fills_named X dir (fill_of (pt_jobs s ! j))" if "j < length (pt_jobs s)" for j
    using fills_named_sub [OF F] own_fills [OF that] by blast
  have "fills_named X dir (fills (pt_jobs s')) \<and> fs_faults (pt_fs s') = fs_faults (pt_fs s) \<and>
    (\<forall>q. relay_path q \<longrightarrow> fs_lookup (pt_fs s') q = fs_lookup (pt_fs s) q)"
    using st
  proof (cases rule: pushes_do.cases)
    case (accept msg ip now)
    have "fills (pt_jobs s @ [Push ip now msg Push_gate]) = fills (pt_jobs s)" by (simp add: fills_def)
    then show ?thesis using accept F by simp
  next
    case (step j ip now msg pc fs lim m pc')
    have "fills ((map (moved m) (pt_jobs s))[j := Push ip now msg pc']) \<subseteq> next_fill (Inl pc') \<union> move_fills m (fills (pt_jobs s))"
      using jobs_update(1) [OF step(3,4), where m = m and job' = "Push ip now msg pc'"] next_fill_job(1) by metis
    then show ?thesis
      using fills_named_sub [OF push_step_named [OF step(5) F]] push_step_faults [OF step(5)]
        push_step_other [OF step(5)] own [OF step(3)] step(2,4) by simp
  next
    case (reply j ip now msg pc fs lim m r)
    have "fills (map (moved m) (take j (pt_jobs s) @ drop (Suc j) (pt_jobs s))) \<subseteq> next_fill (Inr r) \<union> move_fills m (fills (pt_jobs s))"
      using jobs_remove(1) [OF reply(3,4), where m = m] by simp
    then show ?thesis
      using fills_named_sub [OF push_step_named [OF reply(5) F]] push_step_faults [OF reply(5)]
        push_step_other [OF reply(5)] own [OF reply(3)] reply(2,4) by simp
  qed
  then show "fills_named X dir (fills (pt_jobs s'))" "fs_faults (pt_fs s') = fs_faults (pt_fs s)"
    "relay_path q \<Longrightarrow> fs_lookup (pt_fs s') q = fs_lookup (pt_fs s) q" by blast+
qed

section \<open>The node with its threads\<close>

text \<open>The disk, the limiter of pushes and the pushes in progress, the relay and its requests in progress.\<close>

record node_threads =
  nt_fs :: fsys
  nt_lim :: rate_limiter
  nt_pushes :: "push_job list"
  nt_relay :: fabric_state
  nt_jobs :: "job list"
  nt_offered :: "(string \<times> bytes) set"

definition store_part :: "node_threads \<Rightarrow> push_threads" where
  "store_part s = \<lparr>pt_fs = nt_fs s, pt_lim = nt_lim s, pt_jobs = nt_pushes s\<rparr>"

definition relay_part :: "node_threads \<Rightarrow> fabric_threads" where
  "relay_part s = \<lparr>ft_relay = (nt_relay s, nt_fs s), ft_jobs = nt_jobs s, ft_offered = nt_offered s\<rparr>"

definition with_store :: "push_threads \<Rightarrow> node_threads \<Rightarrow> node_threads" where
  "with_store p s = s\<lparr>nt_fs := pt_fs p, nt_lim := pt_lim p, nt_pushes := pt_jobs p\<rparr>"

definition with_relay :: "fabric_threads \<Rightarrow> node_threads \<Rightarrow> node_threads" where
  "with_relay t s =
     s\<lparr>nt_fs := snd (ft_relay t), nt_relay := fst (ft_relay t), nt_jobs := ft_jobs t, nt_offered := ft_offered t\<rparr>"

datatype node_event = Store_event "string option" | Relay_event box_event

text \<open>A crash ends all requests in progress; the relay is rebuilt from the disk.\<close>

inductive node_does :: "ext \<Rightarrow> path \<Rightarrow> serve_config \<Rightarrow> bytes set \<Rightarrow> node_threads \<Rightarrow> node_event \<Rightarrow> node_threads \<Rightarrow> bool"
  for X dir cfg B where
  push: "pushes_do X dir cfg B (store_part s) ev p \<Longrightarrow>
    node_does X dir cfg B s (Store_event ev) (with_store p s)"
| verb: "threads_do X dir (relay_part s) ev t \<Longrightarrow> ev \<noteq> Mail Restart \<Longrightarrow>
    node_does X dir cfg B s (Relay_event ev) (with_relay t s)"
| crash: "threads_do X dir (relay_part s) (Mail Restart) t \<Longrightarrow>
    node_does X dir cfg B s (Relay_event (Mail Restart))
      (with_relay t (s\<lparr>nt_lim := rl_new (sc_put_rate cfg), nt_pushes := []\<rparr>))"

lemma with_sel [simp]:
  "store_part (with_store p s) = p" "relay_part (with_relay t s) = t"
  "nt_fs (with_store p s) = pt_fs p" "nt_pushes (with_store p s) = pt_jobs p"
  "nt_relay (with_store p s) = nt_relay s" "nt_jobs (with_store p s) = nt_jobs s" "nt_offered (with_store p s) = nt_offered s"
  "nt_fs (with_relay t s) = snd (ft_relay t)" "nt_pushes (with_relay t s) = nt_pushes s"
  "nt_relay (with_relay t s) = fst (ft_relay t)" "nt_jobs (with_relay t s) = ft_jobs t" "nt_offered (with_relay t s) = ft_offered t"
  by (simp_all add: store_part_def relay_part_def with_store_def with_relay_def)

lemma parts_sel [simp]:
  "pt_fs (store_part s) = nt_fs s" "pt_jobs (store_part s) = nt_pushes s"
  "ft_relay (relay_part s) = (nt_relay s, nt_fs s)" "ft_jobs (relay_part s) = nt_jobs s" "ft_offered (relay_part s) = nt_offered s"
  by (simp_all add: store_part_def relay_part_def)

section \<open>What the node implements\<close>

text \<open>The mailbox and the set of ids, side by side.\<close>

inductive node_spec :: "ext \<Rightarrow> nat \<Rightarrow> box \<times> string set \<Rightarrow> node_event \<Rightarrow> box \<times> string set \<Rightarrow> bool" for X mx where
  store: "store_step X S ev S' \<Longrightarrow> node_spec X mx (b, S) (Store_event ev) (b, S')"
| relay: "box_step mx b ev b' \<Longrightarrow> node_spec X mx (b, S) (Relay_event ev) (b', S)"

inductive_cases node_specE: "node_spec X mx x ev y"

definition relay_events :: "node_event list \<Rightarrow> box_event list" where
  "relay_events evs = List.map_filter (\<lambda>ev. case ev of Relay_event e \<Rightarrow> Some e | Store_event _ \<Rightarrow> None) evs"

definition store_events :: "node_event list \<Rightarrow> string option list" where
  "store_events evs = List.map_filter (\<lambda>ev. case ev of Store_event e \<Rightarrow> Some e | Relay_event _ \<Rightarrow> None) evs"

lemma events_simps [simp]:
  "relay_events [] = []" "relay_events (evs @ [ev]) = relay_events evs @ (case ev of Relay_event e \<Rightarrow> [e] | Store_event _ \<Rightarrow> [])"
  "store_events [] = []" "store_events (evs @ [ev]) = store_events evs @ (case ev of Store_event e \<Rightarrow> [e] | Relay_event _ \<Rightarrow> [])"
  by (simp_all add: relay_events_def store_events_def List.map_filter_def split: node_event.split)

lemma node_spec_trace:
  "trace (node_spec X mx) x evs y \<Longrightarrow>
   box_trace mx (fst x) (relay_events evs) (fst y) \<and> trace (store_step X) (snd x) (store_events evs) (snd y)"
proof (induction rule: trace.induct)
  case (snoc evs y ev z)
  from snoc.hyps(2) snoc.IH show ?case
    by (cases rule: node_specE) (auto intro: trace.snoc)
qed (simp add: trace.none)

definition node_abs :: "path \<Rightarrow> node_threads \<Rightarrow> box \<times> string set" where
  "node_abs dir s = (box_of (relay_part s), ids_of dir (store_part s))"

definition node_threads_ok :: "ext \<Rightarrow> path \<Rightarrow> node_threads \<Rightarrow> bool" where
  "node_threads_ok X dir s \<longleftrightarrow> threads_ok X (relay_part s) \<and> fills_named X dir (fills (nt_pushes s))"

abbreviation nt_cap :: "node_threads \<Rightarrow> nat" where
  "nt_cap s \<equiv> ft_cap (relay_part s)"

lemma threads_ok_files:
  assumes "threads_ok X t" "ft_jobs t' = ft_jobs t" "ft_offered t' = ft_offered t" "fst (ft_relay t') = fst (ft_relay t)"
    "\<And>q. relay_path q \<Longrightarrow> fs_lookup (snd (ft_relay t')) q = fs_lookup (snd (ft_relay t)) q"
    "fs_faults (snd (ft_relay t')) = fs_faults (snd (ft_relay t))"
  shows "threads_ok X t'"
  using assms by (simp add: threads_ok_def sound_def files_ok_def short_writes_def)

lemma ids_of_same:
  "(\<And>q. \<not> relay_path q \<Longrightarrow> fs_lookup (pt_fs t) q = fs_lookup (pt_fs s) q) \<Longrightarrow> ids_of dir t = ids_of dir s"
  by (simp add: ids_of_def)

lemma node_does_ok:
  assumes law: "hex_law X" and st: "node_does X dir cfg B s ev s'" and ok: "node_threads_ok X dir s"
  shows "node_threads_ok X dir s' \<and> node_spec X (nt_cap s) (node_abs dir s) ev (node_abs dir s') \<and> nt_cap s' = nt_cap s"
proof -
  have t: "threads_ok X (relay_part s)" and n: "fills_named X dir (fills (pt_jobs (store_part s)))"
    using ok by (simp_all add: node_threads_ok_def)
  show ?thesis
    using st
  proof (cases rule: node_does.cases)
    case (push ev' p)
    note r = pushes_do_relay [OF push(3) n]
    have "threads_ok X (relay_part s')"
      by (rule threads_ok_files [OF t]) (use r push(2) in simp_all)
    moreover have "store_step X (ids_of dir (store_part s)) ev' (ids_of dir (store_part s'))"
      using pushes_do_ids [OF push(3)] push(2) by simp
    moreover have "box_of (relay_part s') = box_of (relay_part s)" by (simp add: box_of_def push(2))
    ultimately show ?thesis using r(1) push(1,2) by (simp add: node_threads_ok_def node_abs_def node_spec.store)
  next
    case (verb ev' t')
    note r = threads_do_ok [OF law verb(3) t]
    have "ids_of dir (store_part s') = ids_of dir (store_part s)"
      by (rule ids_of_same) (use threads_do_other [OF verb(3)] verb(2) in simp)
    then show ?thesis using r n verb(1,2)
      by (simp add: node_threads_ok_def node_abs_def node_spec.relay)
  next
    case (crash t')
    note r = threads_do_ok [OF law crash(3) t]
    have "ids_of dir (store_part s') = ids_of dir (store_part s)"
      by (rule ids_of_same) (use threads_do_other [OF crash(3)] crash(2) in simp)
    then show ?thesis using r crash(1,2)
      by (simp add: node_threads_ok_def node_abs_def node_spec.relay fills_def fills_named_def)
  qed
qed

interpretation nodes: refinement "node_does X dir cfg B"
  "\<lambda>s. hex_law X \<and> node_threads_ok X dir s \<and> nt_cap s = mx" "node_spec X mx" "node_abs dir" for X dir cfg B mx
proof (unfold_locales, goal_cases)
  case (1 s ev s')
  then show ?case using node_does_ok by auto
next
  case (2 s ev s')
  then show ?case using node_does_ok by auto
qed

section \<open>Without a crash\<close>

text \<open>As long as the process lives, the invariant of the store holds as well.\<close>

lemma disk_inv_cong:
  assumes "\<And>q. \<not> relay_path q \<Longrightarrow> fs_lookup fs' q = fs_lookup fs q"
  shows "disk_inv X dir B fs' F W \<longleftrightarrow> disk_inv X dir B fs F W"
proof -
  have "(b, p) \<in> F \<longrightarrow> b \<in> B \<and> (p = tmp_of X dir b \<or> p = final_of X dir b) \<and>
      (\<exists>f. fs_lookup fs' p = Some f \<and> (f_data f = [] \<or> f_data f = b)) \<longleftrightarrow>
    (b, p) \<in> F \<longrightarrow> b \<in> B \<and> (p = tmp_of X dir b \<or> p = final_of X dir b) \<and>
      (\<exists>f. fs_lookup fs p = Some f \<and> (f_data f = [] \<or> f_data f = b))" for b p
    using assms by auto
  then show ?thesis using assms unfolding disk_inv_def by simp
qed

definition alive :: "ext \<Rightarrow> path \<Rightarrow> serve_config \<Rightarrow> bytes set \<Rightarrow> node_threads \<Rightarrow> node_threads \<Rightarrow> bool" where
  "alive X dir cfg B s s' \<longleftrightarrow> (\<exists>ev. node_does X dir cfg B s ev s' \<and> ev \<noteq> Relay_event (Mail Restart))"

lemma alive_ok:
  assumes "hex_law X" "inj_on (sha256 X) B" "alive X dir cfg B s s'" "pushes_ok X dir B (store_part s)"
  shows "pushes_ok X dir B (store_part s')"
proof -
  from assms(3) obtain ev where st: "node_does X dir cfg B s ev s'" "ev \<noteq> Relay_event (Mail Restart)"
    by (auto simp: alive_def)
  show ?thesis
    using st(1)
  proof (cases rule: node_does.cases)
    case (push ev' p)
    then show ?thesis using pushes_do_ok [OF assms(1,2) push(3) assms(4)] by simp
  next
    case (verb ev' t')
    have o: "fs_faults (pt_fs (store_part s')) = fs_faults (pt_fs (store_part s))"
      using threads_do_other [OF verb(3), of "body_path dir []"] verb(2) by simp
    have "fs_lookup (pt_fs (store_part s')) q = fs_lookup (pt_fs (store_part s)) q" if "\<not> relay_path q" for q
      using threads_do_other [OF verb(3) that] verb(2) by simp
    from disk_inv_cong [OF this] show ?thesis
      using assms(4) o verb(2) by (simp add: pushes_ok_def)
  qed (use st(2) in simp)
qed

interpretation calm: invariant_system "alive X dir cfg B"
  "\<lambda>s. hex_law X \<and> inj_on (sha256 X) B \<and> pushes_ok X dir B (store_part s)" for X dir cfg B
  by unfold_locales (auto intro: alive_ok)

lemma trace_alive:
  "trace (node_does X dir cfg B) s evs s' \<Longrightarrow> Relay_event (Mail Restart) \<notin> set evs \<Longrightarrow> (alive X dir cfg B)\<^sup>*\<^sup>* s s'"
proof (induction rule: trace.induct)
  case (snoc evs s1 ev s2)
  then have "alive X dir cfg B s1 s2" by (auto simp: alive_def)
  then show ?case using snoc by (simp add: rtranclp.rtrancl_into_rtrancl)
qed simp

lemma node_faults: "trace (node_does X dir cfg B) s evs s' \<Longrightarrow> node_threads_ok X dir s \<Longrightarrow> hex_law X \<Longrightarrow>
   fs_faults (nt_fs s') = fs_faults (nt_fs s)"
proof (induction rule: trace.induct)
  case (snoc evs s1 ev s2)
  have "node_threads_ok X dir s1" using nodes.trace_ok [OF snoc.hyps(1)] snoc.prems by blast
  then have n: "fills_named X dir (fills (pt_jobs (store_part s1)))" by (simp add: node_threads_ok_def)
  from snoc.hyps(2) have "fs_faults (nt_fs s2) = fs_faults (nt_fs s1)"
  proof (cases rule: node_does.cases)
    case (push ev' p)
    then show ?thesis using pushes_do_relay(2) [OF push(3) n] by simp
  next
    case (verb ev' t)
    then show ?thesis using threads_do_other [OF verb(3), of "body_path dir []"] by (simp add: with_relay_def)
  next
    case (crash t)
    then show ?thesis using threads_do_other [OF crash(3), of "body_path dir []"] by (simp add: with_relay_def)
  qed
  then show ?case using snoc by simp
qed simp

section \<open>Runs of a part are runs of the node\<close>

lemma with_same [simp]:
  "with_store (store_part s) s = s" "with_relay (relay_part s) s = s"
  "with_store p' (with_store p s) = with_store p' s" "with_relay t' (with_relay t s) = with_relay t' s"
  by (simp_all add: store_part_def relay_part_def with_store_def with_relay_def)

lemma store_run:
  "trace (pushes_do X dir cfg B) (store_part s) evs p \<Longrightarrow>
   trace (node_does X dir cfg B) s (map Store_event evs) (with_store p s)"
proof (induction rule: trace.induct)
  case (snoc evs p1 ev p2)
  from snoc.hyps(2) have "node_does X dir cfg B (with_store p1 s) (Store_event ev) (with_store p2 (with_store p1 s))"
    by (intro node_does.push) simp
  from trace.snoc [OF snoc.IH this] show ?case by simp
qed (simp add: trace.none)

lemma relay_run:
  "trace (threads_do X dir) (relay_part s) evs t \<Longrightarrow> Mail Restart \<notin> set evs \<Longrightarrow>
   trace (node_does X dir cfg B) s (map Relay_event evs) (with_relay t s)"
proof (induction rule: trace.induct)
  case (snoc evs t1 ev t2)
  from snoc.hyps(2) have "node_does X dir cfg B (with_relay t1 s) (Relay_event ev) (with_relay t2 (with_relay t1 s))"
    using snoc.prems by (intro node_does.verb) auto
  with snoc show ?case by (auto intro: trace.snoc)
qed (simp add: trace.none)

lemma events_map [simp]:
  "relay_events (map Relay_event evs @ map Store_event evs') = evs"
  "store_events (map Relay_event evs @ map Store_event evs') = evs'"
  by (induction evs) (simp_all add: relay_events_def store_events_def List.map_filter_def comp_def)

end
