(* ===== verification/Thread_Props.thy ===== *)
theory Thread_Props
  imports Fabric_Threads Relay_Props
begin

text \<open>
  A schedule of concurrent relay requests: two equal fputs and an fpop between their last
  steps. It shows what the code does not guarantee under concurrency: an accepted pointer
  without its file.
\<close>

section \<open>A schedule\<close>

abbreviation fts :: "relay \<Rightarrow> job list \<Rightarrow> (string \<times> bytes) set \<Rightarrow> fabric_threads" where
  "fts c jobs S \<equiv> \<lparr>ft_relay = c, ft_jobs = jobs, ft_offered = S\<rparr>"

lemma sched_accept:
  "fresh job \<Longrightarrow> trace (threads_do X dir) (fts c (jobs @ [job]) S) evs s \<Longrightarrow>
   trace (threads_do X dir) (fts c jobs S) (Mail Quiet # evs) s"
  using threads_do.accept [of job X dir "fts c jobs S"] by (auto intro: trace_Cons)

lemma sched_step:
  "jobs ! j = job \<Longrightarrow> job_step X dir job c = (c', Inl job') \<Longrightarrow> j < length jobs \<Longrightarrow>
   job_event X job (Inl job') ev \<Longrightarrow>
   trace (threads_do X dir) (fts c' (jobs[j := job']) (offered_after ev S)) evs s \<Longrightarrow>
   trace (threads_do X dir) (fts c jobs S) (ev # evs) s"
  using threads_do.step [of j "fts c jobs S" X dir c' job' ev] by (auto intro: trace_Cons)

lemma sched_reply:
  "jobs ! j = job \<Longrightarrow> job_step X dir job c = (c', Inr r) \<Longrightarrow> j < length jobs \<Longrightarrow>
   job_event X job (Inr r) ev \<Longrightarrow>
   trace (threads_do X dir) (fts c' (take j jobs @ drop (Suc j) jobs) S) evs s \<Longrightarrow>
   trace (threads_do X dir) (fts c jobs S) (ev # evs) s"
  using threads_do.reply [of j "fts c jobs S" X dir c' r ev] by (auto intro: trace_Cons)

abbreviation at1000 :: clock where
  "at1000 \<equiv> \<lambda>_. 1000"

abbreviation putting :: "fput_pc \<Rightarrow> job" where
  "putting pc \<equiv> Fput fput_req ''ip'' at1000 pc"

abbreviation popping :: "fpop_pc \<Rightarrow> job" where
  "popping pc \<equiv> Fpop fpop_req ''ip'' at1000 pc"

definition demo_fs_tmp :: "fsys \<Rightarrow> fsys" where
  "demo_fs_tmp fs = fs_put (fenv_tmp_path ''d'' demo_env_cid) (marshal_envelope demo_env) fs"

lemma demo_keys: "req_handle demo_ext fput_req = demo_key" "req_handle demo_ext fpop_req = demo_key"
  by (simp_all add: req_handle_def fput_req_def fpop_req_def demo_lower)

lemma demo_put1:
  "job_step demo_ext ''d'' (putting Put_registry) (demo_fab, fs) = ((demo_fab, fs), Inl (putting (Put_limiter demo_key)))"
  using demo_key_ok(2) by (simp add: fput_req_def demo_lower demo_fab_def Let_def)

lemma demo_put2:
  "job_step demo_ext ''d'' (putting (Put_limiter demo_key)) (demo_fab, fs) =
     ((demo_fab, fs), Inl (putting (Put_write demo_key demo_env demo_env_cid)))"
proof -
  have raw: "\<lparr>e_handle = demo_handle, e_pointer = demo_pointer, e_received_at = 1000\<rparr> = demo_env"
    by (simp add: demo_env_def)
  have cid: "hex_encode demo_ext (sha256 demo_ext (marshal_envelope demo_env)) = demo_env_cid"
    by (simp add: demo_env_cid_def)
  show ?thesis
    using demo_pointer_facts demo_key_decode
    by (simp add: fput_checks_def fput_req_def rl_allow_unlimited demo_fab_def demo_decode
        Let_def POINTER_LEN_def rl_new_def fabric_config_default_def raw cid del: demo_ext_simps)
qed

lemma demo_put3:
  "fs_faults fs = no_faults \<Longrightarrow>
   job_step demo_ext ''d'' (putting (Put_write demo_key demo_env demo_env_cid)) (st, fs) =
     ((st, demo_fs_tmp fs), Inl (putting (Put_rename demo_key demo_env demo_env_cid)))"
  by (simp add: fs_write_def demo_fs_tmp_def no_faults_def)

lemma demo_put4:
  assumes "fs = demo_fs \<or> fs = demo_fs1"
  shows "job_step demo_ext ''d'' (putting (Put_rename demo_key demo_env demo_env_cid)) (st, demo_fs_tmp fs) =
     ((st, demo_fs1), Inl (putting (Put_enqueue demo_key demo_env demo_env_cid)))"
  using assms by (auto simp: demo_fs_tmp_def fs_put_def fs_rename_def demo_fs_def demo_fs1_def no_faults_def)

definition popped_fab :: fabric_state where
  "popped_fab = demo_fab1\<lparr>fab_queues := [(demo_key, [])]\<rparr>"

lemma demo_put5:
  assumes "st = demo_fab \<or> st = popped_fab"
  shows "job_step demo_ext ''d'' (putting (Put_enqueue demo_key demo_env demo_env_cid)) (st, fs) =
     ((demo_fab1, fs), Inr (Ret (Inr (Object [(''queued'', Bool True)]))))"
  using assms
  by (auto simp: fput_enqueue_def demo_env_def demo_entry_def demo_pointer_facts queue_of_def
      fabric_config_default_def demo_fab_def demo_fab1_def popped_fab_def)

lemma demo_pop1:
  "job_step demo_ext ''d'' (popping Pop_limiter) (demo_fab1, fs) = ((demo_fab1, fs), Inl (popping (Pop_registry demo_key)))"
  using demo_key_ok(2) by (simp add: fpop_req_def demo_lower demo_fab1_def demo_fab_def rl_allow_unlimited rl_new_def)

lemma demo_pop2:
  "job_step demo_ext ''d'' (popping (Pop_registry demo_key)) (demo_fab1, fs) = ((demo_fab1, fs), Inl (popping (Pop_drain demo_key)))"
  by (simp add: fpop_req_def demo_fab1_def demo_fab_def)

lemma demo_pop3:
  "job_step demo_ext ''d'' (popping (Pop_drain demo_key)) (demo_fab1, demo_fs1) =
     ((popped_fab, demo_fs),
      Inr (Ret (Inr (Object [(''pointers'', Array [String (hexs demo_pointer)])]))))"
  by (simp add: fpop_req_def demo_fab1_def popped_fab_def demo_fab_def demo_entry_def min_def drop_envelope_def fs_remove_def
      demo_fs1_def demo_fs_def no_faults_def)

lemma demo_put_label: "put_label demo_ext fput_req (Ret (Inr v)) = Put demo_key demo_pointer"
proof -
  have "hex_crate_decode demo_ext (str_or (get_str fput_req ''pointer_hex'') []) = Inr demo_pointer"
    by (simp add: fput_req_def demo_decode)
  then show ?thesis by (simp add: put_label_def demo_keys)
qed

text \<open>
  Both fputs write and rename the same file; the first enqueues; the fpop drains and removes
  the file; the second enqueues.
\<close>

definition demo_schedule :: "box_event list" where
  "demo_schedule =
     [Mail Quiet, Mail Quiet, Mail Quiet,
      Mail Quiet, Offer demo_key demo_pointer, Mail Quiet, Mail Quiet,
      Mail Quiet, Offer demo_key demo_pointer, Mail Quiet, Mail Quiet,
      Mail (Put demo_key demo_pointer),
      Mail Quiet, Mail Quiet, Mail (Pop demo_key [demo_pointer]),
      Mail (Put demo_key demo_pointer)]"

lemma demo_schedule_runs:
  "trace (threads_do demo_ext ''d'') (idle (demo_fab, demo_fs) {}) demo_schedule
     (idle (demo_fab1, demo_fs) {(demo_key, demo_pointer)})"
proof -
  have flt: "fs_faults demo_fs = no_faults" "fs_faults demo_fs1 = no_faults" by (simp_all add: demo_fs_def demo_fs1_def)
  have pop: "pop_label demo_ext fpop_req (Inr (Object [(''pointers'', Array [String (hexs demo_pointer)])]))
      (Pop demo_key [demo_pointer])"
    by (auto simp: pop_label_def demo_keys intro: exI [of _ "[demo_pointer]"])
  have ptr: "e_pointer demo_env = demo_pointer" by (simp add: demo_env_def)
  show ?thesis
    unfolding demo_schedule_def idle_def
    apply (rule sched_accept [of "putting Put_registry"], simp)
    apply (rule sched_accept [of "putting Put_registry"], simp)
    apply (rule sched_accept [of "popping Pop_limiter"], simp)
    apply (rule sched_step [where j = 0], simp, rule demo_put1, simp, simp)
    apply (rule sched_step [where j = 0], simp, rule demo_put2, simp, simp add: ptr)
    apply (rule sched_step [where j = 0], simp, rule demo_put3 [OF flt(1)], simp, simp)
    apply (rule sched_step [where j = 0], simp, rule demo_put4, simp, simp, simp)
    apply (rule sched_step [where j = 1], simp, rule demo_put1, simp, simp)
    apply (rule sched_step [where j = 1], simp, rule demo_put2, simp, simp add: ptr)
    apply (rule sched_step [where j = 1], simp, rule demo_put3 [OF flt(2)], simp, simp)
    apply (rule sched_step [where j = 1], simp, rule demo_put4, simp, simp, simp)
    apply (rule sched_reply [where j = 0], simp, rule demo_put5, simp, simp, simp add: demo_put_label)
    apply (rule sched_step [where j = 1], simp, rule demo_pop1, simp, simp)
    apply (rule sched_step [where j = 1], simp, rule demo_pop2, simp, simp)
    apply (rule sched_reply [where j = 1], simp, rule demo_pop3, simp, simp add: pop)
    apply (rule sched_reply [where j = 0], simp, rule demo_put5, simp, simp, simp add: demo_put_label)
    apply (simp add: trace_simps)
    done
qed

lemma demo_idle_ok: "threads_ok demo_ext (idle (demo_fab, demo_fs) {})"
  using demo_fab_wf
  by (simp add: idle_ok sound_def queued_ok_def files_ok_def short_writes_def demo_fab_def queue_of_def demo_fs_def no_faults_def)

section \<open>What concurrency breaks\<close>

text \<open>
  An accepted pointer without its file: the schedule ends with every request answered and the
  pointer queued, but the file its entry names is gone, so the next start loses it.
\<close>

lemma fput_race:
  "trace (threads_do demo_ext ''d'') (idle (demo_fab, demo_fs) {}) demo_schedule
     (idle (demo_fab1, demo_fs) {(demo_key, demo_pointer)})"
  "mail demo_fab1 demo_key = [demo_pointer]" "\<not> index_ok demo_ext ''d'' (fab_queues demo_fab1) demo_fs"
  "mail (snd (fabric_open demo_ext ''d'' (fab_cfg demo_fab1) (\<lambda>_. 1200) demo_fs)) demo_key = []"
proof -
  show "trace (threads_do demo_ext ''d'') (idle (demo_fab, demo_fs) {}) demo_schedule
     (idle (demo_fab1, demo_fs) {(demo_key, demo_pointer)})" by (rule demo_schedule_runs)
  show "mail demo_fab1 demo_key = [demo_pointer]"
    by (simp add: mail_def queue_of_def demo_fab1_def demo_entry_def)
  show "\<not> index_ok demo_ext ''d'' (fab_queues demo_fab1) demo_fs"
    by (simp add: index_ok_def demo_fab1_def queue_ok_def backs_def demo_fs_def)
  show "mail (snd (fabric_open demo_ext ''d'' (fab_cfg demo_fab1) (\<lambda>_. 1200) demo_fs)) demo_key = []"
    by (simp add: fabric_open_def fs_read_dir_def demo_fs_def no_faults_def mail_def queue_of_def List.map_filter_def)
qed

end
