(* ===== verification/Push_Props.thy ===== *)
theory Push_Props
  imports Hold_Threads Server_Props Fabric_Threads
begin

text \<open>
  Requests cut into pieces: the pieces, run without interruption, are the handlers. Two
  schedules show what concurrent pushes do not guarantee: a push can be reported as stored
  while the file is empty, and two pushes can together exceed the cap.
\<close>

section \<open>The cut is the code\<close>

text \<open>
  A request run without interruption, piece by piece, is the request as a whole, so the
  interleaved model and the sequential one agree on what a handler does. Five pieces suffice
  for fput, three for fpop, one for freg and seven for Peer.PutObject.
\<close>

lemma pieces_sequential:
  "job_run X dir 5 (Fput req ip clk Put_registry) (st, fs) =
     Some (case run_fput X st req dir ip clk fs of (st', fs', r) \<Rightarrow> ((st', fs'), r)) \<and>
   job_run X dir 3 (Fpop req ip clk Pop_limiter) (st, fs) =
     Some (case run_fpop X st req dir ip clk fs of (st', fs', r) \<Rightarrow> ((st', fs'), Ret r)) \<and>
   job_run X dir 1 (Freg req clk) (st, fs) =
     Some (case run_freg X st req clk of (st', r) \<Rightarrow> ((st', fs), Ret r)) \<and>
   map_option (\<lambda>((fs', lim), r). case push_answer s (rm_seq msg) r of (s', r') \<Rightarrow>
       (s', nd\<lparr>nd_limiter := lim, nd_fs := fs'\<rparr>, r'))
     (push_run X dir cfg ip now msg 7 Push_gate (nd_fs nd, nd_limiter nd)) =
     Some (rpc2_putobject X s msg dir ip cfg now nd)"
  by (intro conjI job_run_fput job_run_fpop push_run_putobject) (simp split: prod.split)

section \<open>A schedule\<close>

declare demo_ext_simps [simp del]

abbreviation demo_pushes :: "push_threads \<Rightarrow> string option list \<Rightarrow> push_threads \<Rightarrow> bool" where
  "demo_pushes \<equiv> trace (pushes_do demo_ext ''d'' demo_serve {demo_body, [9]})"

abbreviation pts :: "(path \<times> fnode) list \<Rightarrow> push_job list \<Rightarrow> push_threads" where
  "pts files jobs \<equiv> \<lparr>pt_fs = \<lparr>fs_files = files, fs_now = 0, fs_faults = no_faults\<rparr>, pt_lim = rl_new 0, pt_jobs = jobs\<rparr>"

lemma push_does:
  "jobs ! j = Push ip now msg pc \<Longrightarrow> j < length jobs \<Longrightarrow>
   push_step demo_ext ''d'' demo_serve ip now msg pc (\<lparr>fs_files = files, fs_now = 0, fs_faults = no_faults\<rparr>, rl_new 0) =
     ((\<lparr>fs_files = files', fs_now = 0, fs_faults = no_faults\<rparr>, rl_new 0), m, Inl pc') \<Longrightarrow>
   demo_pushes (pts files' ((map (moved m) jobs)[j := Push ip now msg pc'])) evs s \<Longrightarrow>
   demo_pushes (pts files jobs) (None # evs) s"
  using pushes_do.step [of j "pts files jobs" ip now msg pc demo_ext "''d''" demo_serve _ _ m pc' "{demo_body, [9]}"]
  by (auto intro: trace_Cons)

lemma push_replies:
  "jobs ! j = Push ip now msg pc \<Longrightarrow> j < length jobs \<Longrightarrow>
   push_step demo_ext ''d'' demo_serve ip now msg pc (\<lparr>fs_files = files, fs_now = 0, fs_faults = no_faults\<rparr>, rl_new 0) =
     ((\<lparr>fs_files = files', fs_now = 0, fs_faults = no_faults\<rparr>, rl_new 0), m, Inr r) \<Longrightarrow>
   demo_pushes (pts files' (map (moved m) (take j jobs @ drop (Suc j) jobs))) evs s \<Longrightarrow>
   demo_pushes (pts files jobs) (reported r # evs) s"
  using pushes_do.reply [of j "pts files jobs" ip now msg pc demo_ext "''d''" demo_serve _ _ m r "{demo_body, [9]}"]
  by (auto intro: trace_Cons)

definition push_msg :: "bytes \<Rightarrow> rpc2_message" where
  "push_msg b = \<lparr>rm_method = ''Peer.PutObject'', rm_seq = 7, rm_error = [],
     rm_payload = Object [(''BLID'', String (hexs (sha256 demo_ext b))), (''BODY'', String (hexs b))]\<rparr>"

abbreviation pushing :: "bytes \<Rightarrow> push_pc \<Rightarrow> push_job" where
  "pushing b pc \<equiv> Push ''ip'' 5 (push_msg b) pc"

abbreviation demo_step :: "bytes \<Rightarrow> push_pc \<Rightarrow> (path \<times> fnode) list \<Rightarrow>
    (fsys \<times> rate_limiter) \<times> (path \<Rightarrow> path option) \<times> (push_pc + (string + string) run)" where
  "demo_step b pc files \<equiv> push_step demo_ext ''d'' demo_serve ''ip'' 5 (push_msg b) pc
     (\<lparr>fs_files = files, fs_now = 0, fs_faults = no_faults\<rparr>, rl_new 0)"

abbreviation demo_end :: "(path \<times> fnode) list \<Rightarrow> (fsys \<times> rate_limiter)" where
  "demo_end files \<equiv> (\<lparr>fs_files = files, fs_now = 0, fs_faults = no_faults\<rparr>, rl_new 0)"

lemma demo_decodes:
  "hex_crate_decode demo_ext (hexs b) = Inr b" "hex_decode (hexs (sha256 demo_ext b)) = Ret (Some (sha256 demo_ext b))"
  "length (sha256 demo_ext b) = 32"
  using hex_law_demo sha_law_demo by (simp_all add: hex_law_decode unhexs_hexs hex_decode_hexs sha_law_def)

lemma demo_fields:
  "get_str (rm_payload (push_msg b)) ''BODY'' = Some (hexs b)"
  "get_str (rm_payload (push_msg b)) ''BLID'' = Some (hexs (sha256 demo_ext b))"
  by (simp_all add: push_msg_def get_str_def)

lemma push_accept:
  assumes "b \<in> {demo_body, [9]}" "demo_pushes (pts files (jobs @ [pushing b Push_gate])) evs s"
  shows "demo_pushes (pts files jobs) (None # evs) s"
proof (rule trace_Cons [OF _ assms(2)])
  have "body_in demo_ext {demo_body, [9]} (push_msg b)" using assms(1) by (simp add: body_in_def demo_fields demo_decodes)
  from pushes_do.accept [OF this, of "''d''" demo_serve "pts files jobs" "''ip''" 5]
  show "pushes_do demo_ext ''d'' demo_serve {demo_body, [9]} (pts files jobs) None (pts files (jobs @ [pushing b Push_gate]))"
    by simp
qed

lemma demo_gate: "demo_step b Push_gate files = (demo_end files, Some, Inl (Push_quota b))"
  by (simp add: demo_fields demo_decodes rl_allow_def rl_new_def demo_serve_def)

lemma demo_quota:
  assumes "length b = 1 \<or> length b = 2"
  shows "demo_step b (Push_quota b) [] = (demo_end [], Some, Inl (Push_stat b))"
proof -
  have "b \<noteq> []" using assms by auto
  then show ?thesis using assms
    by (auto simp: demo_fields demo_decodes demo_serve_def store_bytes_def fs_read_dir_def no_faults_def
        List.map_filter_simps sat_add_def MAX_BODY_BYTES_def)
qed

lemma demo_create:
  "demo_step b (Push_create b) files =
    (demo_end (AList.update (tmp_of demo_ext ''d'' b) \<lparr>f_data = [], f_mtime = 0\<rparr> files), Some, Inl (Push_fill b (Some (tmp_of demo_ext ''d'' b))))"
  by (simp add: no_faults_def fs_put_def)

abbreviation dtmp :: "bytes \<Rightarrow> path" where
  "dtmp b \<equiv> tmp_of demo_ext ''d'' b"

abbreviation dfinal :: "bytes \<Rightarrow> path" where
  "dfinal b \<equiv> final_of demo_ext ''d'' b"

abbreviation demo_file :: "bytes \<Rightarrow> fnode" where
  "demo_file d \<equiv> \<lparr>f_data = d, f_mtime = 0\<rparr>"

lemma demo_stat:
  "map_of files (dfinal b) = None \<Longrightarrow> demo_step b (Push_stat b) files = (demo_end files, Some, Inl (Push_create b))"
  by (simp add: no_faults_def fs_metadata_def fs_create_dir_all_def)

lemma demo_fill:
  "map_of files p = Some f \<Longrightarrow> demo_step b (Push_fill b (Some p)) files =
    (demo_end (AList.update p (demo_file (b @ drop (length b) (f_data f))) files), Some, Inl (Push_rename b))"
  by (simp add: no_faults_def write_open_def fs_put_def)

lemma demo_rename:
  "map_of files (dtmp b) = Some f \<Longrightarrow> demo_step b (Push_rename b) files =
    (demo_end (AList.update (dfinal b) f (AList.delete (dtmp b) files)),
     (\<lambda>q. if q = dfinal b then None else if q = dtmp b then Some (dfinal b) else Some q),
     Inr (Ret (Inr (hex_encode demo_ext (sha256 demo_ext b)))))"
  by (simp add: no_faults_def fs_rename_def)

lemma demo_rename_gone:
  "map_of files (dtmp b) = None \<Longrightarrow> demo_step b (Push_rename b) files =
    (demo_end files, Some, Inl (Push_clean b ''No such file or directory (os error 2)''))"
  by (simp add: no_faults_def fs_rename_def)

lemma demo_clean:
  "map_of files (dtmp b) = None \<Longrightarrow> demo_step b (Push_clean b e) files =
    (demo_end files, (\<lambda>q. if q = dtmp b then None else Some q), Inr (Ret (Inl (''rename '' @ dtmp b @ '': '' @ e))))"
  by (simp add: no_faults_def fs_remove_def delete_id map_of_eq_None_iff) (auto simp: fun_eq_iff map_of_eq_None_iff)

text \<open>
  Two pushes of one body. Both pass their checks, the first writes the temporary file, the
  second truncates it, and the first renames it: the id is reported, the file is empty.
\<close>

definition race_start :: "string option list" where
  "race_start = [None, None, None, None, None, None, None, None, None, None, None, Some demo_cid]"

definition race_rest :: "string option list" where
  "race_rest = [None, None, None]"

definition half_stored :: push_threads where
  "half_stored = pts [(dfinal demo_body, demo_file [])] [pushing demo_body (Push_fill demo_body (Some (dfinal demo_body)))]"

lemma push_stored:
  "jobs ! j = pushing b (Push_rename b) \<Longrightarrow> map_of files (dtmp b) = Some f \<Longrightarrow> j < length jobs \<Longrightarrow>
   demo_pushes (pts (AList.update (dfinal b) f (AList.delete (dtmp b) files))
     (map (moved (\<lambda>q. if q = dfinal b then None else if q = dtmp b then Some (dfinal b) else Some q))
       (take j jobs @ drop (Suc j) jobs))) evs s \<Longrightarrow>
   demo_pushes (pts files jobs) (Some (hexs (sha256 demo_ext b)) # evs) s"
  using push_replies [OF _ _ demo_rename, of jobs j b files f evs s] hex_law_demo
  by (simp add: hex_law_encode)

lemma race_start_runs: "demo_pushes (pts [] []) race_start half_stored"
proof -
  let ?b = demo_body
  have len: "length ?b = 1 \<or> length ?b = 2" by (simp add: demo_body_def)
  show ?thesis
    unfolding race_start_def half_stored_def demo_cid_def
    apply (rule push_accept [of ?b], simp, rule push_accept [of ?b], simp)
    apply (rule push_does [where j = 0, OF _ _ demo_gate], simp, simp, simp)
    apply (rule push_does [where j = 0, OF _ _ demo_quota [OF len]], simp, simp, simp)
    apply (rule push_does [where j = 1, OF _ _ demo_gate], simp, simp, simp)
    apply (rule push_does [where j = 1, OF _ _ demo_quota [OF len]], simp, simp, simp)
    apply (rule push_does [where j = 0, OF _ _ demo_stat], simp, simp, simp, simp)
    apply (rule push_does [where j = 0, OF _ _ demo_create], simp, simp, simp)
    apply (rule push_does [where j = 0, OF _ _ demo_fill], simp, simp, simp, simp)
    apply (rule push_does [where j = 1, OF _ _ demo_stat], simp, simp, simp, simp)
    apply (rule push_does [where j = 1, OF _ _ demo_create], simp, simp, simp)
    apply (rule push_stored [where j = 0], simp, simp, simp)
    apply (simp add: trace.none)
    done
qed

lemma race_rest_runs: "demo_pushes half_stored race_rest (pts [(dfinal demo_body, demo_file demo_body)] [])"
proof -
  have r: "reported (Ret (Inl e)) = None" for e by simp
  show ?thesis
    unfolding race_rest_def half_stored_def
    apply (rule push_does [where j = 0, OF _ _ demo_fill], simp, simp, simp, simp)
    apply (rule push_does [where j = 0, OF _ _ demo_rename_gone], simp, simp, simp, simp)
    apply (rule push_replies [where j = 0, OF _ _ demo_clean, unfolded r], simp, simp, simp)
    apply (simp add: trace.none)
    done
qed

lemma demo_inj: "inj_on (sha256 demo_ext) {demo_body, [9]}"
  by (simp add: inj_on_def demo_body_def demo_ext_simps)

lemma dfinal_path: "dfinal demo_body = body_path ''d'' demo_cid"
  by (simp add: final_of_def demo_cid_def hex_law_encode [OF hex_law_demo])

section \<open>What concurrency breaks\<close>

text \<open>
  A push is reported as stored while its file is empty: a client that fetches it now gets
  an error, and if the process ends here, the file stays empty for good, because every later
  push of the body is answered as stored without writing.
\<close>

lemma push_race:
  "demo_pushes (pts [] []) race_start half_stored" "Some demo_cid \<in> set race_start"
  "serve_body demo_ext ''d'' demo_cid (pt_fs half_stored) = Ret (Inl ''500 cid mismatch'')"
  "store_body demo_ext ''d'' demo_body (pt_fs half_stored) = (pt_fs half_stored, Inr demo_cid)"
proof -
  show "demo_pushes (pts [] []) race_start half_stored" by (rule race_start_runs)
  show "Some demo_cid \<in> set race_start" by (simp add: race_start_def)
  have "hd (sha256 demo_ext []) \<noteq> hd (sha256 demo_ext demo_body)" by (simp add: demo_body_def demo_ext_simps)
  then have "sha256 demo_ext [] \<noteq> sha256 demo_ext demo_body" by metis
  then show "serve_body demo_ext ''d'' demo_cid (pt_fs half_stored) = Ret (Inl ''500 cid mismatch'')"
    by (simp add: serve_body_def demo_cid_decode demo_decodes half_stored_def dfinal_path fs_read_def no_faults_def)
  have "hex_encode demo_ext (sha256 demo_ext demo_body) = demo_cid"
    by (simp add: demo_cid_def hex_law_encode [OF hex_law_demo])
  then show "store_body demo_ext ''d'' demo_body (pt_fs half_stored) = (pt_fs half_stored, Inr demo_cid)"
    by (simp add: store_body_def half_stored_def dfinal_path fs_metadata_def no_faults_def MAX_BODY_BYTES_def)
      (simp add: demo_body_def)
qed

text \<open>
  Two pushes that fit the cap one by one: both are checked against the empty store, and both
  are stored.
\<close>

definition quota_run :: "string option list" where
  "quota_run = [None, None, None, None, None, None, None, None, None, Some demo_cid,
     None, None, None, Some (hexs (sha256 demo_ext [9]))]"

lemma quota_race:
  "demo_pushes (pts [] []) quota_run (pts [(dfinal demo_body, demo_file demo_body), (dfinal [9], demo_file [9])] [])"
  "unat (sc_max_store_bytes demo_serve) <
     hold_total ''d'' (pt_fs (pts [(dfinal demo_body, demo_file demo_body), (dfinal [9], demo_file [9])] []))"
proof -
  let ?b = demo_body
  have len: "length ?b = 1 \<or> length ?b = 2" "length [9 :: byte] = 1 \<or> length [9 :: byte] = 2" by (simp_all add: demo_body_def)
  have ne: "?b \<noteq> [9]" "[9] \<noteq> ?b" by (simp_all add: demo_body_def)
  have paths: "dtmp ?b \<noteq> dtmp [9]" "dfinal [9] \<noteq> dfinal ?b" "dfinal ?b \<noteq> dfinal [9]"
    using paths_same [OF hex_law_demo demo_inj, of ?b "[9]" "''d''"] ne by auto
  show "demo_pushes (pts [] []) quota_run (pts [(dfinal ?b, demo_file ?b), (dfinal [9], demo_file [9])] [])"
    unfolding quota_run_def demo_cid_def
    apply (rule push_accept [of ?b], simp, rule push_accept [of "[9]"], simp)
    apply (rule push_does [where j = 0, OF _ _ demo_gate], simp, simp, simp)
    apply (rule push_does [where j = 0, OF _ _ demo_quota [OF len(1)]], simp, simp, simp)
    apply (rule push_does [where j = 1, OF _ _ demo_gate], simp, simp, simp)
    apply (rule push_does [where j = 1, OF _ _ demo_quota [OF len(2)]], simp, simp, simp)
    apply (rule push_does [where j = 0, OF _ _ demo_stat], simp, simp, simp, simp)
    apply (rule push_does [where j = 0, OF _ _ demo_create], simp, simp, simp)
    apply (rule push_does [where j = 0, OF _ _ demo_fill], simp, simp, simp, simp)
    apply (rule push_stored [where j = 0], simp, simp, simp, simp)
    apply (rule push_does [where j = 0, OF _ _ demo_stat], simp, simp, simp add: paths, simp)
    apply (rule push_does [where j = 0, OF _ _ demo_create], simp, simp, simp)
    apply (rule push_does [where j = 0, OF _ _ demo_fill], simp, simp, simp, simp)
    apply (rule push_stored [where j = 0], simp, simp, simp)
    apply (simp add: trace.none paths)
    done
  have ne': "hexs (sha256 demo_ext b) \<noteq> []" for b
  proof
    assume "hexs (sha256 demo_ext b) = []"
    then have "length (hexs (sha256 demo_ext b)) = 0" by simp
    then show False using demo_decodes(3) [of b] by simp
  qed
  have e: "entry_name ''d'' (dfinal b) = Some (hexs (sha256 demo_ext b) @ ''.body'')" for b
    using hex_decode_no_slash(1) [OF demo_decodes(2) [of b]]
    by (simp add: entry_name_Some final_of_def body_path_file_path hex_law_encode [OF hex_law_demo])
  show "unat (sc_max_store_bytes demo_serve) <
     hold_total ''d'' (pt_fs (pts [(dfinal ?b, demo_file ?b), (dfinal [9], demo_file [9])] []))"
    using path_extension_body [OF ne'] by (simp add: hold_total_def body_weight_def e demo_serve_def demo_body_def)
qed

end
