(* ===== verification/Node_Props.thy ===== *)
theory Node_Props
  imports Node_Threads Thread_Props Push_Props
begin

text \<open>
  The properties of the node with all its threads, with one run as the instance: the schedule
  of relay requests of \<open>Thread_Props\<close>, then the schedule of pushes of \<open>Push_Props\<close>.
\<close>

section \<open>A run\<close>

definition node_start :: node_threads where
  "node_start = \<lparr>nt_fs = demo_fs, nt_lim = rl_new 0, nt_pushes = [], nt_relay = demo_fab, nt_jobs = [], nt_offered = {}\<rparr>"

definition node_end :: node_threads where
  "node_end = \<lparr>nt_fs = \<lparr>fs_files = [(dfinal demo_body, demo_file demo_body)], fs_now = 0, fs_faults = no_faults\<rparr>,
     nt_lim = rl_new 0, nt_pushes = [], nt_relay = demo_fab1, nt_jobs = [], nt_offered = {(demo_key, demo_pointer)}\<rparr>"

definition node_run :: "node_event list" where
  "node_run = map Relay_event demo_schedule @ map Store_event (race_start @ race_rest)"

lemma node_runs: "trace (node_does demo_ext ''d'' demo_serve {demo_body, [9]}) node_start node_run node_end"
proof -
  let ?mid = "with_relay (idle (demo_fab1, demo_fs) {(demo_key, demo_pointer)}) node_start"
  have "relay_part node_start = idle (demo_fab, demo_fs) {}" by (simp add: relay_part_def node_start_def idle_def)
  moreover have "Mail Restart \<notin> set demo_schedule" by (simp add: demo_schedule_def)
  ultimately have r: "trace (node_does demo_ext ''d'' demo_serve {demo_body, [9]}) node_start (map Relay_event demo_schedule) ?mid"
    using relay_run demo_schedule_runs by metis
  have "store_part ?mid = pts [] []"
    by (simp add: store_part_def with_relay_def node_start_def idle_def demo_fs_def)
  then have "trace (node_does demo_ext ''d'' demo_serve {demo_body, [9]}) ?mid (map Store_event (race_start @ race_rest))
      (with_store (pts [(dfinal demo_body, demo_file demo_body)] []) ?mid)"
    using store_run trace_trans [OF race_rest_runs race_start_runs] by metis
  moreover have "with_store (pts [(dfinal demo_body, demo_file demo_body)] []) ?mid = node_end"
    by (simp add: with_store_def with_relay_def node_start_def node_end_def idle_def)
  ultimately show ?thesis using trace_trans r unfolding node_run_def by metis
qed

lemma node_start_ok: "node_threads_ok demo_ext ''d'' node_start"
proof -
  have "relay_part node_start = idle (demo_fab, demo_fs) {}" by (simp add: relay_part_def node_start_def idle_def)
  then show ?thesis using demo_idle_ok by (simp add: node_threads_ok_def node_start_def fills_def fills_named_def)
qed

section \<open>The properties\<close>

text \<open>
  C6. Requests of all connections, cut anywhere, and crashes at any point, invent, misroute
  and lose nothing they should not: whatever fpop hands out for a handle and whatever is
  queued for it was offered for that handle by an fput that passed its checks, or was there
  at the start; no relay request in progress can panic; a file under a body's name never
  disappears, and every id that a push reported as stored has its file.
\<close>

theorem threads_no_misrouting:
  assumes "hex_law X" "trace (node_does X dir cfg B) s evs s'" "node_threads_ok X dir s"
  shows "(\<forall>h. pops h (mails (relay_events evs)) \<union> set (mail (nt_relay s') h) \<subseteq>
      {p. (h, p) \<in> nt_offered s \<union> offers (relay_events evs)}) \<and>
    (\<forall>job\<in>set (nt_jobs s'). snd (job_step X dir job (nt_relay s', nt_fs s')) \<noteq> Inr Panic) \<and>
    {cid. fs_lookup (nt_fs s) (body_path dir cid) \<noteq> None} \<union> {cid. Some cid \<in> set (store_events evs)} \<subseteq>
      {cid. fs_lookup (nt_fs s') (body_path dir cid) \<noteq> None}"
proof (intro conjI ballI allI)
  have t: "threads_ok X (relay_part s)" "threads_ok X (relay_part s')"
    using assms(3) nodes.trace_ok [OF assms(2)] assms(1,3) by (auto simp: node_threads_ok_def)
  have "trace (node_spec X (nt_cap s)) (node_abs dir s) evs (node_abs dir s')"
    by (rule nodes.trace_spec [OF assms(2)]) (simp add: assms)
  note spec = node_spec_trace [OF this, unfolded node_abs_def fst_conv snd_conv]
  have "snd (box_of (relay_part s')) = snd (box_of (relay_part s)) \<union> offers (relay_events evs) \<and> box_ok (box_of (relay_part s')) \<and>
      (\<forall>h. \<forall>p\<in>pops h (mails (relay_events evs)). (h, p) \<in> snd (box_of (relay_part s')))"
    by (rule box_trace_offered [OF conjunct1 [OF spec] box_ok_threads [OF t(1)]])
  then show "pops h (mails (relay_events evs)) \<union> set (mail (nt_relay s') h) \<subseteq>
      {p. (h, p) \<in> nt_offered s \<union> offers (relay_events evs)}" for h
    by (auto simp: box_ok_def box_of_def)
  show "snd (job_step X dir job (nt_relay s', nt_fs s')) \<noteq> Inr Panic" if "job \<in> set (nt_jobs s')" for job
    using threads_no_panic [OF assms(1) _ t(2), of job] that by simp
  show "{cid. fs_lookup (nt_fs s) (body_path dir cid) \<noteq> None} \<union> {cid. Some cid \<in> set (store_events evs)} \<subseteq>
      {cid. fs_lookup (nt_fs s') (body_path dir cid) \<noteq> None}"
    using store_trace [OF conjunct2 [OF spec]] by (auto simp: ids_of_def)
qed

theorem threads_no_misrouting_witness:
  "pops demo_key (mails (relay_events node_run)) \<union> set (mail (nt_relay node_end) demo_key) \<subseteq>
     {p. (demo_key, p) \<in> nt_offered node_start \<union> offers (relay_events node_run)} \<and>
   {cid. Some cid \<in> set (store_events node_run)} \<subseteq> {cid. fs_lookup (nt_fs node_end) (body_path ''d'' cid) \<noteq> None}"
  using threads_no_misrouting [OF hex_law_demo node_runs node_start_ok] by blast

text \<open>
  C7. As long as the process lives, the relay within the node is the mailbox: the accepted
  puts, in the order in which they take the queue lock, and the pops are a trace of the
  mailbox specification from the first queues to the last, whatever pushes do meanwhile.
\<close>

theorem threads_refine_mailbox:
  assumes "hex_law X" "trace (node_does X dir cfg B) s evs s'" "node_threads_ok X dir s"
    "Relay_event (Mail Restart) \<notin> set evs"
  shows "mail_trace (fc_max_per_handle (fab_cfg (nt_relay s))) (mail (nt_relay s)) (mails (relay_events evs)) (mail (nt_relay s'))"
proof -
  have "trace (node_spec X (nt_cap s)) (node_abs dir s) evs (node_abs dir s')"
    by (rule nodes.trace_spec [OF assms(2)]) (simp add: assms)
  then have "box_trace (nt_cap s) (box_of (relay_part s)) (relay_events evs) (box_of (relay_part s'))"
    using node_spec_trace by (fastforce simp: node_abs_def)
  moreover have "Mail Restart \<notin> set (relay_events evs)"
    using assms(4) by (auto simp: relay_events_def mem_map_filter split: node_event.splits)
  ultimately show ?thesis using box_trace_mail by (fastforce simp: box_of_def)
qed

theorem threads_refine_mailbox_witness:
  "mail_trace (fc_max_per_handle (fab_cfg demo_fab)) (mail demo_fab) (mails demo_schedule) (mail demo_fab1)"
proof -
  have n: "Relay_event (Mail Restart) \<notin> set node_run" by (auto simp: node_run_def demo_schedule_def)
  have e: "relay_events node_run = demo_schedule" by (simp add: node_run_def del: map_append)
  from threads_refine_mailbox [OF hex_law_demo node_runs node_start_ok n] show ?thesis
    by (simp add: e node_start_def node_end_def)
qed

text \<open>
  C8. Pushes interleaved between any two file operations, and with relay requests, keep the
  store, as long as the process lives, reads and writes do not fail and bodies do not
  collide: whenever no write is in progress, every file under a body's name has the right
  hash, and every id that any push has reported as stored is served.
\<close>

theorem concurrent_pushes:
  assumes "hex_law X" "sha_law X" "inj_on (sha256 X) B" "hold_ok X dir (nt_fs s)" "node_threads_ok X dir s"
    "nt_pushes s = []" "\<forall>p. flt_write (fs_faults (nt_fs s)) p = None \<and> flt_read (fs_faults (nt_fs s)) p = None"
    "trace (node_does X dir cfg B) s evs s'" "Relay_event (Mail Restart) \<notin> set evs" "fills (nt_pushes s') = {}"
  shows "hold_ok X dir (nt_fs s') \<and>
    {cid. Some cid \<in> set (store_events evs)} \<subseteq> {cid. \<exists>data. serve_body X dir cid (nt_fs s') = Ret (Inr data)}"
proof -
  have "pushes_ok X dir B (store_part s)"
    unfolding store_part_def assms(6) using assms(4,7) by (subst pushes_ok_idle) simp_all
  then have "pushes_ok X dir B (store_part s')"
    using calm.reach_ok [OF trace_alive [OF assms(8,9)]] assms(1,3) by blast
  from pushes_ok_hold [OF this] have hold: "hold_ok X dir (nt_fs s')" using assms(10) by simp
  have "trace (node_spec X (nt_cap s)) (node_abs dir s) evs (node_abs dir s')"
    by (rule nodes.trace_spec [OF assms(8)]) (simp add: assms)
  note ids = store_trace [OF conjunct2 [OF node_spec_trace [OF this]], unfolded node_abs_def snd_conv]
  have rd: "flt_read (fs_faults (nt_fs s')) p = None" for p
    using node_faults [OF assms(8,5,1)] assms(7) by simp
  have "\<exists>data. serve_body X dir cid (nt_fs s') = Ret (Inr data)" if ev: "Some cid \<in> set (store_events evs)" for cid
  proof -
    from ids ev obtain b where b: "cid = hex_encode X (sha256 X b)" and "cid \<in> ids_of dir (store_part s')" by blast
    then obtain f where f: "fs_lookup (nt_fs s') (body_path dir cid) = Some f" by (auto simp: ids_of_def)
    have "hex_decode cid = Ret (Some (sha256 X b))" using assms(1) b by (simp add: hex_law_encode hex_decode_hexs)
    moreover have "length (sha256 X b) = 32" using assms(2) by (simp add: sha_law_def)
    ultimately show ?thesis using serve_body_hold [OF hold _ _ f rd] by blast
  qed
  then show ?thesis using hold by blast
qed

theorem concurrent_pushes_witness:
  "hold_ok demo_ext ''d'' (nt_fs node_end) \<and> (\<exists>data. serve_body demo_ext ''d'' demo_cid (nt_fs node_end) = Ret (Inr data))"
proof -
  have n: "Relay_event (Mail Restart) \<notin> set node_run" by (auto simp: node_run_def demo_schedule_def)
  have e: "store_events node_run = race_start @ race_rest" by (simp add: node_run_def del: map_append)
  have h: "hold_ok demo_ext ''d'' (nt_fs node_start)" "nt_pushes node_start = []" "fills (nt_pushes node_end) = {}"
    "\<forall>p. flt_write (fs_faults (nt_fs node_start)) p = None \<and> flt_read (fs_faults (nt_fs node_start)) p = None"
    by (simp_all add: hold_ok_def node_start_def node_end_def demo_fs_def no_faults_def fills_def)
  from concurrent_pushes [OF hex_law_demo sha_law_demo demo_inj h(1) node_start_ok h(2,4) node_runs n h(3)]
  show ?thesis by (simp add: e race_start_def) blast
qed

end
