(* ===== verification/Conformance_Wire.thy ===== *)
theory Conformance_Wire
  imports Wire_Sizes
begin

text \<open>
  The unit tests of \<open>src/p2p.rs\<close> on the model: each test is a definition that is true when all
  its assertions hold, and a lemma that proves it, whatever the crates compute.
\<close>

section \<open>Assertions\<close>

text \<open>\<open>v[i]\<close> on a \<open>serde_json::Value\<close> gives \<open>Null\<close> outside an array's range.\<close>

definition json_index :: "json \<Rightarrow> nat \<Rightarrow> json" where
  "json_index v i = (case v of Array xs \<Rightarrow> if i < length xs then xs ! i else Null | _ \<Rightarrow> Null)"

text \<open>What a test asserts of a value it unwraps.\<close>

definition expect_some :: "'a option run \<Rightarrow> ('a \<Rightarrow> bool) \<Rightarrow> bool" where
  "expect_some r P = (case r of Ret (Some x) \<Rightarrow> P x | _ \<Rightarrow> False)"

definition expect_ok :: "('e + 'a) run \<Rightarrow> ('a \<Rightarrow> bool) \<Rightarrow> bool" where
  "expect_ok r P = (case r of Ret (Inr x) \<Rightarrow> P x | _ \<Rightarrow> False)"

definition expect_err :: "('e + 'a) run \<Rightarrow> ('e \<Rightarrow> bool) \<Rightarrow> bool" where
  "expect_err r P = (case r of Ret (Inl e) \<Rightarrow> P e | _ \<Rightarrow> False)"

lemma expect_simps [simp]:
  "expect_some (Ret (Some x)) P \<longleftrightarrow> P x" "\<not> expect_some (Ret None) P"
  "expect_ok (Ret (Inr y)) Q \<longleftrightarrow> Q y" "\<not> expect_ok (Ret (Inl e)) Q"
  "expect_err (Ret (Inl e)) R \<longleftrightarrow> R e" "\<not> expect_err (Ret (Inr y)) R"
  by (simp_all add: expect_some_def expect_ok_def expect_err_def)

section \<open>The tests\<close>

definition decode_message_roundtrips_header_and_payload :: "ext \<Rightarrow> bool" where
  "decode_message_roundtrips_header_and_payload X =
     (let body = chain_response [(7, replicate 32 9), (6, replicate 32 3)];
          frame = cbor_message ''Peer.Chain'' 42 [] body in
      expect_some (decode_message X frame) (\<lambda>m.
        rm_method m = ''Peer.Chain'' \<and> rm_seq m = 42 \<and> rm_error m = [] \<and>
        (case as_array (rm_payload m) of None \<Rightarrow> False
         | Some pairs \<Rightarrow> length pairs = 2 \<and> as_u64 (json_index (pairs ! 0) 0) = Some 7 \<and>
             as_str (json_index (pairs ! 0) 1) = Some (hex_encode X (replicate 32 9)))))"

text \<open>A chain listing in a message of any method.\<close>

lemma chain_message_decodes:
  assumes "\<forall>(h, b)\<in>set pairs. length b = 32" "valid_str meth" "length meth \<le> 64" "length pairs \<le> 5000"
  shows "decode_message X (cbor_message meth sq [] (chain_response pairs)) =
    Ret (Some \<lparr>rm_method = meth, rm_seq = sq, rm_error = [],
      rm_payload = Array (map (\<lambda>(h, c). Array [Number (PosInt h), String (hex_encode X c)]) pairs)\<rparr>)"
proof -
  have "length meth + length ([] :: string) + length (chain_response pairs) \<le> MAX_FRAME - 66"
    using length_chain_le [OF assms(1)] assms(3,4) by (simp add: MAX_FRAME_def)
  moreover have "decodes X (Suc 1) (chain_response pairs)
      (Array (map (\<lambda>(h, c). Array [Number (PosInt h), String (hex_encode X c)]) pairs))"
    by (rule chain_response_decodes) (use assms in auto)
  ultimately show ?thesis
    using message_decodes(2) [OF assms(2), of "[]"] by (simp add: literal_valid MAX_DEPTH_def)
qed

lemma test_decode_message_roundtrips_header_and_payload: "decode_message_roundtrips_header_and_payload X"
  using chain_message_decodes [of "[(7, replicate 32 9), (6, replicate 32 3)]" "''Peer.Chain''"]
  by (simp add: decode_message_roundtrips_header_and_payload_def json_index_def literal_valid)

definition decode_message_handles_error_response :: "ext \<Rightarrow> bool" where
  "decode_message_handles_error_response X =
     (let frame = cbor_message [] 5 ''404 not found'' [] in
      expect_some (decode_message X frame) (\<lambda>m.
        rm_method m = [] \<and> rm_error m = ''404 not found'' \<and> rm_seq m = 5))"

lemma header_decodes:
  assumes "valid_str meth" "valid_str e" "length meth < 2 ^ 62" "length e < 2 ^ 62"
  shows "decode_message X (cbor_header meth sq e) =
    Ret (Some \<lparr>rm_method = meth, rm_seq = sq, rm_error = e, rm_payload = Null\<rparr>)"
  using length_header_le [of meth sq e] assms by (intro decode_message_no_payload) simp_all

lemma error_frame_decodes:
  assumes "valid_str meth" "valid_str e" "length meth < 2 ^ 62" "length e < 2 ^ 62"
  shows "decode_message X (cbor_message meth sq e []) =
    Ret (Some \<lparr>rm_method = meth, rm_seq = sq, rm_error = e, rm_payload = Null\<rparr>)"
  using header_decodes [OF assms] by (simp add: cbor_message_def)

lemma test_decode_message_handles_error_response: "decode_message_handles_error_response X"
  by (simp add: decode_message_handles_error_response_def error_frame_decodes literal_valid)

definition decode_message_without_payload_is_null :: "ext \<Rightarrow> bool" where
  "decode_message_without_payload_is_null X =
     (let frame = cbor_header ''Peer.Handshake'' 1 [] in
      expect_some (decode_message X frame) (\<lambda>m. rm_method m = ''Peer.Handshake'' \<and> rm_payload m = Null))"

lemma test_decode_message_without_payload_is_null: "decode_message_without_payload_is_null X"
  by (simp add: decode_message_without_payload_is_null_def header_decodes literal_valid)

definition getobject_payload_is_hex_body :: "ext \<Rightarrow> bool" where
  "getobject_payload_is_hex_body X =
     (let body = str_bytes (''BINARY'' @ [CHR 0x00] @ ''DATA'');
          frame = cbor_message [] 3 [] (getobject_response body) in
      expect_some (decode_message X frame) (\<lambda>m. as_str (rm_payload m) = Some (hex_encode X body)))"

lemma test_getobject_payload_is_hex_body: "getobject_payload_is_hex_body X"
proof -
  let ?b = "str_bytes (''BINARY'' @ [CHR 0x00] @ ''DATA'')"
  have "length (getobject_response ?b) \<le> MAX_FRAME - 66"
    using length_getobject_le(2) [of ?b] by (simp add: MAX_FRAME_def)
  then have "decode_message X (cbor_message [] 3 [] (getobject_response ?b)) =
      Ret (Some \<lparr>rm_method = [], rm_seq = 3, rm_error = [], rm_payload = String (hex_encode X ?b)\<rparr>)"
    using message_decodes(2) [of "[]" "[]" "getobject_response ?b" X 0 "String (hex_encode X ?b)"]
    by (simp add: literal_valid getobject_response_decodes)
  then show ?thesis by (simp add: getobject_payload_is_hex_body_def Let_def)
qed

definition decode_message_rejects_garbage :: "ext \<Rightarrow> bool" where
  "decode_message_rejects_garbage X \<longleftrightarrow>
     decode_message X [0xff, 0xff, 0xff] = Ret None \<and> decode_message X [] = Ret None"

lemma test_decode_message_rejects_garbage: "decode_message_rejects_garbage X"
  by (simp add: decode_message_rejects_garbage_def decode_message_def decode_value.simps decode_head_def MAX_DEPTH_def)

definition putobject_roundtrips_blid_and_body :: "ext \<Rightarrow> bool" where
  "putobject_roundtrips_blid_and_body X =
     (let blid = replicate 32 7; body = str_bytes ''pushed body bytes'';
          frame = cbor_message ''Peer.PutObject'' 11 [] (putobject_request blid body []);
          resp = cbor_message [] 11 [] (putobject_response blid) in
      expect_some (decode_message X frame) (\<lambda>m.
        rm_method m = ''Peer.PutObject'' \<and>
        get_str (rm_payload m) ''BLID'' = Some (hex_encode X blid) \<and>
        hex_crate_decode X (str_or (get_str (rm_payload m) ''BODY'') []) = Inr body) \<and>
      expect_some (decode_message X resp) (\<lambda>m. get_str (rm_payload m) ''BLID'' = Some (hex_encode X blid)))"

lemma test_putobject_roundtrips_blid_and_body:
  assumes "hex_law X"
  shows "putobject_roundtrips_blid_and_body X"
proof -
  let ?id = "replicate 32 7 :: bytes" and ?b = "str_bytes ''pushed body bytes''"
  have v: "valid_str ''Peer.PutObject''" "valid_str []" by (simp_all add: literal_valid)
  have "length ''Peer.PutObject'' + length ([] :: string) + length (putobject_request ?id ?b []) \<le> MAX_FRAME - 66"
    using length_putobject_le [of ?id ?b "[]"] by (simp add: MAX_FRAME_def)
  from message_decodes(2) [OF v this putobject_request_decodes]
  have req: "decode_message X (cbor_message ''Peer.PutObject'' 11 [] (putobject_request ?id ?b [])) =
      Ret (Some \<lparr>rm_method = ''Peer.PutObject'', rm_seq = 11, rm_error = [],
        rm_payload = Object [(''BLID'', String (hex_encode X ?id)), (''BODY'', String (hex_encode X ?b))]\<rparr>)"
    using v by (simp add: MAX_DEPTH_def)
  have "length ([] :: string) + length ([] :: string) + length (putobject_response ?id) \<le> MAX_FRAME - 66"
    using length_kv_le [of "''BLID''" "cbor_hash32 ?id"] length_bytes_le [of ?id] length_map_le(1) [of 1]
    by (simp add: putobject_response_def cbor_hash32_def MAX_FRAME_def)
  from message_decodes(2) [OF v(2,2) this putobject_response_decodes]
  have "decode_message X (cbor_message [] 11 [] (putobject_response ?id)) =
      Ret (Some \<lparr>rm_method = [], rm_seq = 11, rm_error = [], rm_payload = Object [(''BLID'', String (hex_encode X ?id))]\<rparr>)"
    by (simp add: MAX_DEPTH_def)
  then show ?thesis using req assms
    by (simp add: putobject_roundtrips_blid_and_body_def Let_def hex_law_decode hex_law_encode unhexs_hexs)
qed

end
