(* ===== verification/Conformance_Store.thy ===== *)
theory Conformance_Store
  imports Conformance_Wire Policy Chain_Facts
begin

text \<open>
  Unit tests of \<open>src/spore_peer.rs\<close> that need no socket, on the model: the body store, the
  response frames and the fetch classifier. A test that relies on two texts not having the same
  digest says so as a premise; otherwise the crates are arbitrary.
\<close>

section \<open>Fixtures\<close>

text \<open>A new directory: nothing in it, and a disk that works.\<close>

definition mk_temp_dir :: fsys where
  "mk_temp_dir = \<lparr> fs_files = [], fs_now = 0, fs_faults = no_faults \<rparr>"

definition sha256_hex :: "ext \<Rightarrow> bytes \<Rightarrow> string" where
  "sha256_hex X data = hex_encode X (sha256 X data)"

definition fixture_dir :: "ext \<Rightarrow> path \<Rightarrow> bytes \<Rightarrow> fsys \<times> string" where
  "fixture_dir X dir body =
     (let cid = sha256_hex X body in
      (fst (fs_write (file_path dir (cid @ ''.body'')) body mk_temp_dir), cid))"

definition zeros_cid :: string where
  "zeros_cid = replicate 64 (CHR ''0'')"

lemma sha256_hex_decode: "hex_law X \<Longrightarrow> hex_decode (sha256_hex X b) = Ret (Some (sha256 X b))"
  by (simp add: sha256_hex_def hex_law_encode hex_decode_hexs)

lemma sha_length: "sha_law X \<Longrightarrow> length (sha256 X b) = 32"
  by (simp add: sha_law_def)

lemma hexdig_01: "hexdig 0 = CHR ''0''" "hexdig 1 = CHR ''1''" "hexdig (Suc 0) = CHR ''1''"
  by code_simp+

lemma hexs_replicate:
  "hexs (replicate n 0) = replicate (2 * n) (CHR ''0'')" "hexs (replicate n 0x11) = replicate (2 * n) (CHR ''1'')"
  by (induction n) (auto simp: hexdig_01)

lemma zeros_decode: "hex_decode zeros_cid = Ret (Some (replicate 32 0))"
  using hex_decode_hexs [of "replicate 32 0"] hexs_replicate(1) [of 32] by (simp add: zeros_cid_def)

lemma fixture_files:
  "fixture_dir X dir body = (fs, cid) \<longleftrightarrow> cid = sha256_hex X body \<and>
     fs = \<lparr> fs_files = [(body_path dir cid, \<lparr>f_data = body, f_mtime = 0\<rparr>)], fs_now = 0, fs_faults = no_faults \<rparr>"
  by (auto simp: fixture_dir_def fs_write_def fs_put_def mk_temp_dir_def no_faults_def body_path_file_path Let_def)

section \<open>serve_body\<close>

definition serve_body_serves_body_starting_with_4 :: "ext \<Rightarrow> path \<Rightarrow> bool" where
  "serve_body_serves_body_starting_with_4 X dir =
     (let body = str_bytes ''4444 this body starts with the ASCII byte that broke the old client'' in
      case fixture_dir X dir body of (fs, cid) \<Rightarrow> serve_body X dir cid fs = Ret (Inr body))"

lemma serve_fixture:
  assumes "hex_law X" "sha_law X"
  shows "case fixture_dir X dir body of (fs, cid) \<Rightarrow> serve_body X dir cid fs = Ret (Inr body)"
  using assms
  by (auto simp: fixture_files serve_body_Ok sha256_hex_decode sha_length fs_read_def no_faults_def split: prod.split)

lemma test_serve_body_serves_body_starting_with_4:
  "hex_law X \<Longrightarrow> sha_law X \<Longrightarrow> serve_body_serves_body_starting_with_4 X dir"
  unfolding serve_body_serves_body_starting_with_4_def Let_def by (rule serve_fixture)

definition serve_body_not_found :: "ext \<Rightarrow> path \<Rightarrow> bool" where
  "serve_body_not_found X dir =
     (let cid = ''0123456789abcdef0123456789abcdef0123456789abcdef0123456789abcdef'' in
      serve_body X dir cid mk_temp_dir = Ret (Inl ''404 not found''))"

lemma repeated_hexs:
  "''0123456789abcdef0123456789abcdef0123456789abcdef0123456789abcdef'' =
     hexs (concat (replicate 4 [0x01, 0x23, 0x45, 0x67, 0x89, 0xab, 0xcd, 0xef]))"
  by code_simp

lemma test_serve_body_not_found: "serve_body_not_found X dir"
  unfolding serve_body_not_found_def Let_def repeated_hexs serve_body_def hex_decode_hexs
  by (simp add: fs_read_def mk_temp_dir_def no_faults_def length_concat sum_list_replicate)

definition serve_body_bad_cid :: "ext \<Rightarrow> path \<Rightarrow> bool" where
  "serve_body_bad_cid X dir =
     (let fs = mk_temp_dir; bad = Ret (Inl ''400 bad cid'') in
      serve_body X dir ''nothex'' fs = bad \<and> serve_body X dir ''abcd'' fs = bad \<and>
      serve_body X dir (replicate 63 (CHR ''a'')) fs = bad \<and> serve_body X dir ''../../etc/passwd'' fs = bad)"

lemma hex_decode_bad:
  "hex_decode ''nothex'' = Ret None" "hex_decode ''abcd'' = Ret (Some [0xab, 0xcd])"
  "hex_decode (replicate 63 c) = Ret None" "hex_decode ''../../etc/passwd'' = Ret None"
proof -
  show "hex_decode (replicate 63 c) = Ret None" by (simp add: hex_decode_def)
qed code_simp+

lemma test_serve_body_bad_cid: "serve_body_bad_cid X dir"
  by (simp add: serve_body_bad_cid_def serve_body_def hex_decode_bad)

definition serve_body_rejects_cid_mismatch :: "ext \<Rightarrow> path \<Rightarrow> bool" where
  "serve_body_rejects_cid_mismatch X dir =
     (let bogus_cid = replicate 64 (CHR ''1'');
          fs = fst (fs_write (file_path dir (bogus_cid @ ''.body'')) (str_bytes ''actual bytes'') mk_temp_dir) in
      serve_body X dir bogus_cid fs = Ret (Inl ''500 cid mismatch''))"

lemma ones_decode: "hex_decode (replicate 64 (CHR ''1'')) = Ret (Some (replicate 32 0x11))"
  using hex_decode_hexs [of "replicate 32 0x11"] hexs_replicate(2) [of 32] by simp

lemma test_serve_body_rejects_cid_mismatch:
  "sha256 X (str_bytes ''actual bytes'') \<noteq> replicate 32 0x11 \<Longrightarrow> serve_body_rejects_cid_mismatch X dir"
  by (simp add: serve_body_rejects_cid_mismatch_def serve_body_def ones_decode fs_write_def mk_temp_dir_def no_faults_def
      fs_put_def fs_read_def body_path_file_path Let_def)

section \<open>Frames and the fetch classifier\<close>

definition frame_ok_err_prefixes :: bool where
  "frame_ok_err_prefixes =
     (let f = frame_ok (str_bytes ''BODY''); e = frame_err ''404 not found'' in
      f ! 0 = STATUS_OK \<and> drop 1 f = str_bytes ''BODY'' \<and> e ! 0 = STATUS_ERR \<and> drop 1 e = str_bytes ''404 not found'')"

lemma test_frame_ok_err_prefixes: frame_ok_err_prefixes
  by (simp add: frame_ok_err_prefixes_def frame_ok_def frame_err_def)

definition client_accepts_v2_body_starting_with_4 :: "ext \<Rightarrow> bool" where
  "client_accepts_v2_body_starting_with_4 X =
     (let body = str_bytes ''5555 body starting with the byte that used to look like an error'';
          cid = sha256_hex X body; resp = frame_ok body in
      expect_ok (parse_fetch_response X resp cid) (\<lambda>got. got = body))"

text \<open>
  A frame with status 0 is accepted as its body, unless its bytes with the status happen to
  have the digest of the body: then the frame itself is what was asked for.
\<close>

lemma parse_v2:
  assumes "hex_law X" "sha_law X" "sha256 X (frame_ok body) \<noteq> sha256 X body"
  shows "parse_fetch_response X (frame_ok body) (sha256_hex X body) = Ret (Inr body)"
  using assms by (simp add: parse_fetch_response_def sha256_hex_decode sha_length frame_ok_def)

lemma parse_legacy:
  assumes "hex_law X" "sha_law X"
  shows "parse_fetch_response X body (sha256_hex X body) = Ret (Inr body)"
  using assms by (simp add: parse_fetch_response_def sha256_hex_decode sha_length)

lemma test_client_accepts_v2_body_starting_with_4:
  assumes "hex_law X" "sha_law X" "\<And>b. sha256 X (frame_ok b) \<noteq> sha256 X b"
  shows "client_accepts_v2_body_starting_with_4 X"
  using assms by (simp add: client_accepts_v2_body_starting_with_4_def parse_v2 Let_def)

text \<open>\<open>resp[last] ^= 0xff\<close>\<close>

definition client_rejects_v2_tampered_body :: "ext \<Rightarrow> bool" where
  "client_rejects_v2_tampered_body X =
     (let body = str_bytes ''legit body''; cid = sha256_hex X body; resp = frame_ok body;
          i = length resp - 1; resp = resp[i := (resp ! i) XOR 0xff] in
      expect_err (parse_fetch_response X resp cid) (\<lambda>e. True))"

lemma parse_reject:
  assumes "hex_law X" "sha_law X" "sha256 X resp \<noteq> sha256 X body" "sha256 X (tl resp) \<noteq> sha256 X body"
  shows "\<exists>e. parse_fetch_response X resp (sha256_hex X body) = Ret (Inl e)"
  using assms by (cases resp) (auto simp: parse_fetch_response_def sha256_hex_decode sha_length)

lemma test_client_rejects_v2_tampered_body:
  assumes "hex_law X" "sha_law X" "\<And>b. sha256 X b = sha256 X (str_bytes ''legit body'') \<Longrightarrow> b = str_bytes ''legit body''"
  shows "client_rejects_v2_tampered_body X"
proof -
  let ?b = "str_bytes ''legit body''" and ?r = "frame_ok (str_bytes ''legit body'')"
  let ?t = "?r[length ?r - 1 := (?r ! (length ?r - 1)) XOR 0xff]"
  have "length ?t \<noteq> length ?b" by (simp add: frame_ok_def)
  then have "?t \<noteq> ?b" by metis
  moreover have "last (tl ?t) \<noteq> last ?b" by code_simp
  then have "tl ?t \<noteq> ?b" by metis
  ultimately have "sha256 X ?t \<noteq> sha256 X ?b" "sha256 X (tl ?t) \<noteq> sha256 X ?b" using assms(3) by blast+
  from parse_reject [OF assms(1,2) this] show ?thesis
    unfolding client_rejects_v2_tampered_body_def Let_def by (auto simp: expect_err_def)
qed

definition client_reports_v2_error_string :: "ext \<Rightarrow> bool" where
  "client_reports_v2_error_string X =
     expect_err (parse_fetch_response X (frame_err ''404 not found'') zeros_cid) (\<lambda>e. e = ''404 not found'')"

lemma parse_zeros:
  assumes "sha256 X resp \<noteq> replicate 32 0" "sha256 X (tl resp) \<noteq> replicate 32 0"
  shows "parse_fetch_response X resp zeros_cid =
    Ret (Inl (case resp of [] \<Rightarrow> ''body sha256 does not match cid (tampered)''
      | st # body \<Rightarrow> if st = STATUS_ERR then from_utf8_lossy body else ''body sha256 does not match cid (tampered)''))"
  using assms by (cases resp) (auto simp: parse_fetch_response_def zeros_decode STATUS_OK_def STATUS_ERR_def)

lemma lossy_error_text: "ascii_str s \<Longrightarrow> from_utf8_lossy (str_bytes s) = s"
  by (rule lossy_body_name)

lemma test_client_reports_v2_error_string:
  assumes "\<And>b. sha256 X b \<noteq> replicate 32 0"
  shows "client_reports_v2_error_string X"
proof -
  have "ascii_str ''404 not found''" by (simp add: byte_of_ascii)
  then show ?thesis using assms
    by (simp add: client_reports_v2_error_string_def parse_zeros frame_err_def lossy_error_text)
qed

definition client_legacy_fallback_hash_decides :: "ext \<Rightarrow> bool" where
  "client_legacy_fallback_hash_decides X =
     (let body = str_bytes ''4444 legacy raw body starting with the trouble byte''; cid = sha256_hex X body in
      expect_ok (parse_fetch_response X body cid) (\<lambda>got. got = body) \<and>
      expect_err (parse_fetch_response X (str_bytes ''404 not found'') zeros_cid) (\<lambda>e. True))"

lemma test_client_legacy_fallback_hash_decides:
  assumes "hex_law X" "sha_law X" "\<And>b. sha256 X b \<noteq> replicate 32 0"
  shows "client_legacy_fallback_hash_decides X"
  using assms by (simp add: client_legacy_fallback_hash_decides_def parse_legacy parse_zeros Let_def)

section \<open>Hostile frames\<close>

definition hostile_legacy_body_starting_with_status_byte_is_accepted :: "ext \<Rightarrow> bool" where
  "hostile_legacy_body_starting_with_status_byte_is_accepted X =
     list_all (\<lambda>first.
       let body = first # str_bytes ''legacy body that begins with a status-byte value''; cid = sha256_hex X body in
       expect_ok (parse_fetch_response X body cid) (\<lambda>got. got = body)) [0x00, 0x01]"

lemma test_hostile_legacy_body_starting_with_status_byte_is_accepted:
  "hex_law X \<Longrightarrow> sha_law X \<Longrightarrow> hostile_legacy_body_starting_with_status_byte_is_accepted X"
  by (simp add: hostile_legacy_body_starting_with_status_byte_is_accepted_def parse_legacy Let_def)

definition hostile_v2_ok_frame_with_status_like_body_is_accepted :: "ext \<Rightarrow> bool" where
  "hostile_v2_ok_frame_with_status_like_body_is_accepted X =
     list_all (\<lambda>first.
       let body = first # str_bytes ''v2 ciphertext beginning with a status-like byte''; cid = sha256_hex X body;
           resp = frame_ok body in
       expect_ok (parse_fetch_response X resp cid) (\<lambda>got. got = body)) [0x00, 0x01]"

lemma test_hostile_v2_ok_frame_with_status_like_body_is_accepted:
  "hex_law X \<Longrightarrow> sha_law X \<Longrightarrow> (\<And>b. sha256 X (frame_ok b) \<noteq> sha256 X b) \<Longrightarrow>
    hostile_v2_ok_frame_with_status_like_body_is_accepted X"
  by (simp add: hostile_v2_ok_frame_with_status_like_body_is_accepted_def parse_v2 Let_def)

text \<open>The loop \<open>for b in 0u8..=255\<close>.\<close>

definition all_bytes :: bytes where
  "all_bytes = map word_of_nat [0..<256]"

definition hostile_no_sniff_sweep_all_256_first_bytes :: "ext \<Rightarrow> bool" where
  "hostile_no_sniff_sweep_all_256_first_bytes X =
     list_all (\<lambda>b.
       let body = b # str_bytes (''sweep body '' @ dec_digits (unat b)); cid = sha256_hex X body in
       expect_ok (parse_fetch_response X body cid) (\<lambda>_. True) \<and>
       (let resp = frame_ok body in expect_ok (parse_fetch_response X resp cid) (\<lambda>_. True))) all_bytes"

lemma test_hostile_no_sniff_sweep_all_256_first_bytes:
  "hex_law X \<Longrightarrow> sha_law X \<Longrightarrow> (\<And>b. sha256 X (frame_ok b) \<noteq> sha256 X b) \<Longrightarrow>
    hostile_no_sniff_sweep_all_256_first_bytes X"
  by (simp add: hostile_no_sniff_sweep_all_256_first_bytes_def parse_legacy parse_v2 Let_def list_all_iff)

definition hostile_only_status_byte_yields_error_text :: "ext \<Rightarrow> bool" where
  "hostile_only_status_byte_yields_error_text X =
     list_all (\<lambda>b.
       let frame = b # str_bytes ''404 not found'' in
       expect_err (parse_fetch_response X frame zeros_cid) (\<lambda>err.
         if b = 0x01 then err = ''404 not found'' else err = ''body sha256 does not match cid (tampered)'')) all_bytes"

lemma test_hostile_only_status_byte_yields_error_text:
  assumes "\<And>b. sha256 X b \<noteq> replicate 32 0"
  shows "hostile_only_status_byte_yields_error_text X"
proof -
  have "ascii_str ''404 not found''" by (simp add: byte_of_ascii)
  then show ?thesis using assms
    by (simp add: hostile_only_status_byte_yields_error_text_def parse_zeros STATUS_ERR_def lossy_error_text Let_def list_all_iff)
qed

text \<open>The generator of the corpus, and one mutant: 1 to 4 bytes of the base replaced.\<close>

definition xorshift :: "u64 \<Rightarrow> u64" where
  "xorshift state =
     (let state = state XOR push_bit 13 state; state = state XOR drop_bit 7 state in state XOR push_bit 17 state)"

fun flip_bytes :: "nat \<Rightarrow> u64 \<Rightarrow> bytes \<Rightarrow> u64 \<times> bytes" where
  "flip_bytes 0 state mutated = (state, mutated)"
| "flip_bytes (Suc k) state mutated =
     (let s1 = xorshift state; idx = unat s1 mod length mutated; s2 = xorshift s1 in
      flip_bytes k s2 (mutated[idx := ucast (s2 AND 0xFF)]))"

fun corpus_loop :: "ext \<Rightarrow> string \<Rightarrow> bytes \<Rightarrow> nat \<Rightarrow> u64 \<Rightarrow> bool" where
  "corpus_loop X cid base 0 state = True"
| "corpus_loop X cid base (Suc n) state =
     (let s1 = xorshift state; flips = 1 + unat (s1 mod 4) in
      case flip_bytes flips s1 base of (s2, mutated) \<Rightarrow>
        (case parse_fetch_response X mutated cid of
           Panic \<Rightarrow> False
         | Ret (Inl _) \<Rightarrow> True
         | Ret (Inr body) \<Rightarrow> body = base) \<and>
        corpus_loop X cid base n s2)"

definition hostile_mutated_legacy_corpus_never_misclassified :: "ext \<Rightarrow> bool" where
  "hostile_mutated_legacy_corpus_never_misclassified X =
     (let base = str_bytes ''mutate me: a perfectly valid legacy ciphertext body''; cid = sha256_hex X base in
      corpus_loop X cid base 20000 0xC1D5F00D12345678)"

lemma parse_no_panic:
  "hex_law X \<Longrightarrow> parse_fetch_response X resp (sha256_hex X body) \<noteq> Panic"
  by (auto simp: parse_fetch_response_def sha256_hex_decode split: if_splits list.split)

text \<open>Whatever the mutants are: what is accepted has the digest of the base.\<close>

lemma corpus_safe:
  assumes "hex_law X" "\<And>b. sha256 X b = sha256 X base \<Longrightarrow> b = base"
  shows "corpus_loop X (sha256_hex X base) base n state"
proof (induction n arbitrary: state)
  case (Suc n)
  have "case parse_fetch_response X m (sha256_hex X base) of Panic \<Rightarrow> False | Ret (Inl _) \<Rightarrow> True | Ret (Inr body) \<Rightarrow> body = base" for m
    using parse_no_panic [OF assms(1), of m base] assms parse_fetch_Ok [of X m "sha256_hex X base"]
    by (auto simp: sha256_hex_decode split: run.split sum.split)
  with Suc show ?case by (simp add: Let_def split: prod.split)
qed simp

lemma test_hostile_mutated_legacy_corpus_never_misclassified:
  assumes "hex_law X" "\<And>b c. sha256 X b = sha256 X c \<Longrightarrow> b = c \<or> c \<noteq> str_bytes ''mutate me: a perfectly valid legacy ciphertext body''"
  shows "hostile_mutated_legacy_corpus_never_misclassified X"
  unfolding hostile_mutated_legacy_corpus_never_misclassified_def Let_def
  by (rule corpus_safe [OF assms(1)]) (use assms(2) in blast)

definition hostile_empty_and_tiny_fetch_responses :: "ext \<Rightarrow> bool" where
  "hostile_empty_and_tiny_fetch_responses X =
     (let cid = sha256_hex X (str_bytes ''x'') in
      expect_err (parse_fetch_response X [] cid) (\<lambda>err. err = ''body sha256 does not match cid (tampered)'') \<and>
      expect_err (parse_fetch_response X [0x00] cid) (\<lambda>err. err = ''body sha256 does not match cid (tampered)'') \<and>
      expect_err (parse_fetch_response X [0x01] cid) (\<lambda>err. err = []) \<and>
      expect_err (parse_fetch_response X [0x00] ''zz'') (\<lambda>_. True) \<and>
      expect_err (parse_fetch_response X [0x00] (replicate 63 (CHR ''a''))) (\<lambda>_. True))"

lemma test_hostile_empty_and_tiny_fetch_responses:
  assumes "hex_law X" "sha_law X" "\<And>b. sha256 X b = sha256 X (str_bytes ''x'') \<Longrightarrow> b = str_bytes ''x''"
  shows "hostile_empty_and_tiny_fetch_responses X"
proof -
  have "[] \<noteq> str_bytes ''x''" "[0x00] \<noteq> str_bytes ''x''" "[0x01] \<noteq> str_bytes ''x''" by code_simp+
  then have ne: "sha256 X [] \<noteq> sha256 X (str_bytes ''x'')" "sha256 X [0x00] \<noteq> sha256 X (str_bytes ''x'')"
    "sha256 X [0x01] \<noteq> sha256 X (str_bytes ''x'')"
    using assms(3) by blast+
  have "hex_decode ''zz'' = Ret None" by code_simp
  moreover have "from_utf8_lossy [] = []" by code_simp
  ultimately show ?thesis using ne assms(1,2)
    by (simp add: hostile_empty_and_tiny_fetch_responses_def parse_fetch_response_def sha256_hex_decode sha_length
        hex_decode_bad STATUS_OK_def STATUS_ERR_def Let_def)
qed

definition hostile_store_rejects_bodies_that_do_not_hash_to_requested_cid :: "ext \<Rightarrow> path \<Rightarrow> bool" where
  "hostile_store_rejects_bodies_that_do_not_hash_to_requested_cid X dir =
     (let real_body = str_bytes ''the body that was actually written'';
          fake_cid = sha256_hex X (str_bytes ''a completely different body'');
          fs = fst (fs_write (file_path dir (fake_cid @ ''.body'')) real_body mk_temp_dir);
          good = str_bytes ''honest body''; good_cid = sha256_hex X good;
          fs1 = fst (fs_write (file_path dir (good_cid @ ''.body'')) good fs) in
      expect_err (serve_body X dir fake_cid fs) (\<lambda>err. err = ''500 cid mismatch'') \<and>
      expect_ok (serve_body X dir good_cid fs1) (\<lambda>b. b = good))"

lemma works_put:
  assumes "fs_faults fs = no_faults"
  shows "fst (fs_write p d fs) = fs_put p d fs" "fs_read p (fs_put p d fs) = Inr d"
  using assms by (simp_all add: fs_write_def fs_read_def no_faults_def)

lemma mk_temp_dir_faults [simp]: "fs_faults mk_temp_dir = no_faults"
  by (simp add: mk_temp_dir_def)

lemma serve_put:
  assumes "hex_law X" "sha_law X" "fs_faults fs = no_faults"
  shows "serve_body X dir (sha256_hex X b) (fs_put (file_path dir (sha256_hex X b @ ''.body'')) d fs) =
    Ret (if sha256 X d = sha256 X b then Inr d else Inl ''500 cid mismatch'')"
  using assms works_put(2) [OF assms(3)]
  by (simp add: serve_body_def sha256_hex_decode sha_length flip: body_path_file_path)

lemma test_hostile_store_rejects_bodies_that_do_not_hash_to_requested_cid:
  assumes "hex_law X" "sha_law X"
    "sha256 X (str_bytes ''the body that was actually written'') \<noteq> sha256 X (str_bytes ''a completely different body'')"
  shows "hostile_store_rejects_bodies_that_do_not_hash_to_requested_cid X dir"
  using assms unfolding hostile_store_rejects_bodies_that_do_not_hash_to_requested_cid_def Let_def
  by (simp add: works_put(1) serve_put)

definition hostile_rpc2_error_responses_are_never_treated_as_bodies :: "ext \<Rightarrow> bool" where
  "hostile_rpc2_error_responses_are_never_treated_as_bodies X =
     (let resp = error_response 5 ''404 not found'' in
      expect_some (decode_message X resp) (\<lambda>m. rm_error m = ''404 not found'' \<and> rm_payload m = Null))"

lemma test_hostile_rpc2_error_responses_are_never_treated_as_bodies:
  "hostile_rpc2_error_responses_are_never_treated_as_bodies X"
  by (simp add: hostile_rpc2_error_responses_are_never_treated_as_bodies_def error_response_def error_frame_decodes literal_valid)

definition rpc2_chain_response_matches_dero_wire_shape :: "ext \<Rightarrow> bool" where
  "rpc2_chain_response_matches_dero_wire_shape X =
     (let pairs = [(2, replicate 32 0xAA), (1, replicate 32 0x11)];
          payload = chain_response pairs; frame = cbor_message [] 9 [] payload in
      expect_some (decode_message X frame) (\<lambda>m.
        case as_array (rm_payload m) of None \<Rightarrow> False
        | Some arr \<Rightarrow> length arr = 2 \<and> as_u64 (json_index (arr ! 0) 0) = Some 2 \<and>
            as_str (json_index (arr ! 0) 1) = Some (hex_encode X (replicate 32 0xAA)) \<and>
            as_u64 (json_index (arr ! 1) 0) = Some 1))"

lemma test_rpc2_chain_response_matches_dero_wire_shape: "rpc2_chain_response_matches_dero_wire_shape X"
proof -
  have "decode_message X (cbor_message [] 9 [] (chain_response [(2, replicate 32 0xAA), (1, replicate 32 0x11)])) =
      Ret (Some \<lparr>rm_method = [], rm_seq = 9, rm_error = [],
        rm_payload = Array [Array [Number (PosInt 2), String (hex_encode X (replicate 32 0xAA))],
          Array [Number (PosInt 1), String (hex_encode X (replicate 32 0x11))]]\<rparr>)"
    using chain_message_decodes [of "[(2, replicate 32 0xAA), (1, replicate 32 0x11)]" "[]"] by (simp add: literal_valid)
  then show ?thesis by (simp add: rpc2_chain_response_matches_dero_wire_shape_def json_index_def)
qed

end
