(* ===== verification/Conformance_Peers.thy ===== *)
theory Conformance_Peers
  imports Conformance_Store Peers_Facts
begin

text \<open>The unit tests of \<open>src/spore_peer.rs\<close> about the peers list, on the model.\<close>

section \<open>Adding and removing on a disk that works\<close>

lemma peers_write_works:
  assumes "fs_faults fs = no_faults"
  shows "peers_write dir ls fs = (fs_put (peers_path dir) (str_bytes (peers_body ls)) fs, Inr ())"
  using assms by (simp add: peers_write_def fs_create_dir_all_def fs_write_def no_faults_def)

lemma peers_readable_works: "fs_faults fs = no_faults \<Longrightarrow> peers_readable dir fs"
  by (simp add: peers_readable_def no_faults_def)

lemma add_new:
  assumes "fs_faults fs = no_faults" "validate_peer_addr a = Inr ()" "valid_str a" "hd a \<noteq> CHR ''#''"
    "peers_list dir fs = ls" "a \<notin> set ls"
  obtains fs' where "peers_add dir a fs = (fs', Inr True)" "peers_list dir fs' = ls @ [a]" "fs_faults fs' = no_faults"
proof -
  let ?fs = "fs_put (peers_path dir) (str_bytes (peers_body (peers_list dir fs @ [a]))) fs"
  have "peers_add dir a fs = (?fs, Inr True)"
    using assms by (simp add: peers_add_def peers_write_works Let_def)
  with peers_add_list [OF this assms(3) peers_readable_works [OF assms(1)]] show thesis
    using assms by (intro that [of ?fs]) simp_all
qed

lemma add_known: "validate_peer_addr a = Inr () \<Longrightarrow> a \<in> set (peers_list dir fs) \<Longrightarrow> peers_add dir a fs = (fs, Inr False)"
  by (simp add: peers_add_def Let_def)

lemma remove_known:
  assumes "fs_faults fs = no_faults" "peers_list dir fs = ls" "a \<in> set ls"
  obtains fs' where "peers_remove dir a fs = (fs', Inr True)" "peers_list dir fs' = filter (\<lambda>p. p \<noteq> a) ls"
    "fs_faults fs' = no_faults"
proof -
  have less: "length (filter (\<lambda>p. p \<noteq> a) ls) \<noteq> length ls" using assms(3) length_filter_less [of a ls "\<lambda>p. p \<noteq> a"] by simp
  let ?fs = "fs_put (peers_path dir) (str_bytes (peers_body (filter (\<lambda>p. p \<noteq> a) ls))) fs"
  have "peers_remove dir a fs = (?fs, Inr True)"
    using assms less by (simp add: peers_remove_def peers_write_works Let_def)
  with peers_remove_list [OF this peers_readable_works [OF assms(1)]] show thesis using assms by (intro that [of ?fs]) simp_all
qed

lemma remove_unknown: "a \<notin> set (peers_list dir fs) \<Longrightarrow> peers_remove dir a fs = (fs, Inr False)"
proof -
  assume "a \<notin> set (peers_list dir fs)"
  then have "filter (\<lambda>p. p \<noteq> a) (peers_list dir fs) = peers_list dir fs" by (auto simp: filter_id_conv)
  then show ?thesis by (simp add: peers_remove_def)
qed

lemma no_peers: "peers_list dir mk_temp_dir = []"
  by (simp add: peers_list_def fs_read_to_string_def fs_read_def mk_temp_dir_def no_faults_def)

section \<open>The tests\<close>

definition edited_peers :: string where
  "edited_peers = ''# comment'' @ [CHR 0x0A, CHR 0x0A] @ ''10.0.0.3:8099'' @ [CHR 0x0A] @ ''  10.0.0.4:8099  '' @ [CHR 0x0A]"

definition peers_add_list_remove_dedupe_and_persist :: "path \<Rightarrow> bool" where
  "peers_add_list_remove_dedupe_and_persist d =
     (let fs = mk_temp_dir in
      peers_list d fs = [] \<and>
      (case peers_add d ''10.0.0.1:8099'' fs of (fs, r1) \<Rightarrow>
       case peers_add d ''10.0.0.1:8099'' fs of (fs, r2) \<Rightarrow>
       case peers_add d ''10.0.0.2:8099'' fs of (fs, r3) \<Rightarrow>
         r1 = Inr True \<and> r2 = Inr False \<and> r3 = Inr True \<and>
         peers_list d fs = [''10.0.0.1:8099'', ''10.0.0.2:8099''] \<and> length (peers_list d fs) = 2 \<and>
         (let fs = fst (fs_write (peers_path d) (str_bytes edited_peers) fs) in
          peers_list d fs = [''10.0.0.3:8099'', ''10.0.0.4:8099''] \<and>
          (case peers_remove d ''10.0.0.3:8099'' fs of (fs, r4) \<Rightarrow>
           case peers_remove d ''10.0.0.3:8099'' fs of (fs, r5) \<Rightarrow>
             r4 = Inr True \<and> r5 = Inr False \<and> peers_list d fs = [''10.0.0.4:8099'']))))"

text \<open>Printable ASCII without blanks has no white space.\<close>

lemma contains_str_set: "contains_str s p \<Longrightarrow> set p \<subseteq> set s"
proof (induction s)
  case (Cons c s)
  then show ?case
    by (auto simp: starts_with_def dest: in_set_takeD simp del: take_Suc_Cons)
       (metis in_set_takeD list.set_intros set_ConsD subset_iff)+
qed simp

lemma graphic_no_whitespace:
  assumes "list_all (\<lambda>c. 32 < (of_char c :: nat) \<and> (of_char c :: nat) < 128) s"
  shows "\<not> has_whitespace s"
proof
  assume "has_whitespace s"
  then obtain b where b: "b \<in> set ws_seqs" "contains_str s (bytes_str b)"
    by (auto simp: has_whitespace_def list_ex_iff ws_strs_def)
  have "b \<noteq> []" using b(1) ws_seqs_ok by (auto simp: list_all_iff)
  then have "chr_of (hd b) \<in> set s" using contains_str_set [OF b(2)] by (cases b) (auto simp: bytes_str_def)
  then have "32 < (of_char (chr_of (hd b)) :: nat) \<and> (of_char (chr_of (hd b)) :: nat) < 128"
    using assms by (simp add: list_all_iff)
  then have "32 < unat (hd b) \<and> unat (hd b) < 128" by (simp add: chr_of_def unat_byte_less)
  with b(1) show False by (auto simp: ws_seqs_def)
qed

lemma addresses_ok:
  "validate_peer_addr ''10.0.0.1:8099'' = Inr ()" "validate_peer_addr ''10.0.0.2:8099'' = Inr ()"
  "validate_peer_addr ''localhost:8099'' = Inr ()" "validate_peer_addr ''::1:8099'' = Inr ()"
  "validate_peer_addr ''[::1]:8099'' = Inr ()"
  by (simp_all add: validate_peer_addr_def graphic_no_whitespace rsplit_colon_def parse_uint_def from_str_radix_def to_digit_def)

lemma blank_whitespace: "has_whitespace ''bad host:8099''"
proof -
  have "contains_str ''bad host:8099'' (bytes_str [0x20])"
    by (simp add: starts_with_def bytes_str_def chr_of_def) (simp add: char_of_def bit_simps)
  then show ?thesis by (simp add: has_whitespace_def ws_strs_def ws_seqs_def)
qed

lemma addresses_bad:
  "isl (validate_peer_addr ''no-port'')" "isl (validate_peer_addr ''host:0'')" "isl (validate_peer_addr ''host:99999'')"
  "isl (validate_peer_addr '':8099'')" "isl (validate_peer_addr ''bad host:8099'')"
  "isl (validate_peer_addr ''../../etc:8099'')"
  by (simp_all add: validate_peer_addr_def graphic_no_whitespace blank_whitespace rsplit_colon_def parse_uint_def
      from_str_radix_def to_digit_def)

lemma trim_with_blank:
  assumes "[CHR '' ''] \<in> set pats" "\<forall>q\<in>set pats. q \<noteq> [] \<and> (hd q = CHR '' '' \<longrightarrow> q = [CHR '' ''])"
  shows "trim_with pats (CHR '' '' # s) = trim_with pats s"
proof -
  have "starts_with (CHR '' '' # s) [CHR '' '']" by (simp add: starts_with_def)
  with assms(1) obtain q where q: "find (starts_with (CHR '' '' # s)) pats = Some q"
    by (cases "find (starts_with (CHR '' '' # s)) pats") (auto simp: find_None_iff)
  then have "q \<in> set pats" "starts_with (CHR '' '' # s) q" by (auto simp: find_Some_iff)
  with assms(2) have "q = [CHR '' '']" by (cases q) (auto simp: starts_with_def)
  with q show ?thesis by (subst trim_with.simps) (simp add: ws_prefix_def)
qed

lemma blank_byte: "byte_of (CHR '' '') = 0x20"
  by code_simp

lemma blank_first:
  "[CHR '' ''] \<in> set ws_strs" "\<forall>q\<in>set ws_strs. q \<noteq> [] \<and> (hd q = CHR '' '' \<longrightarrow> q = [CHR '' ''])"
  "[CHR '' ''] \<in> set (map rev ws_strs)"
  "\<forall>q\<in>set (map rev ws_strs). q \<noteq> [] \<and> (hd q = CHR '' '' \<longrightarrow> q = [CHR '' ''])"
proof -
  have seqs: "[0x20] \<in> set ws_seqs"
    "\<forall>b\<in>set ws_seqs. b \<noteq> [] \<and> (hd b = 0x20 \<longrightarrow> b = [0x20]) \<and> (last b = 0x20 \<longrightarrow> b = [0x20])"
    by (simp_all add: ws_seqs_def)
  have blank: "chr_of b = CHR '' '' \<longleftrightarrow> b = 0x20" for b
    by (metis byte_of_chr_of chr_of_byte_of blank_byte)
  have one: "bytes_str [0x20] = [CHR '' '']" using blank by (simp add: bytes_str_def)
  have mem: "[CHR '' ''] \<in> set ws_strs" using imageI [OF seqs(1), of bytes_str] by (simp add: one ws_strs_def)
  have ends: "q \<noteq> []" "hd q = CHR '' '' \<Longrightarrow> q = [CHR '' '']" "last q = CHR '' '' \<Longrightarrow> q = [CHR '' '']"
    if q: "q \<in> set ws_strs" for q
  proof -
    from q obtain b where b: "b \<in> set ws_seqs" "q = bytes_str b" unfolding ws_strs_def by auto
    with seqs(2) have ne: "b \<noteq> []" by blast
    then have "hd q = chr_of (hd b)" "last q = chr_of (last b)" "q \<noteq> []" by (simp_all add: b(2) bytes_str_def hd_map last_map)
    then show "q \<noteq> []" "hd q = CHR '' '' \<Longrightarrow> q = [CHR '' '']" "last q = CHR '' '' \<Longrightarrow> q = [CHR '' '']"
      using bspec [OF seqs(2) b(1)] blank [of "hd b"] blank [of "last b"] unfolding b(2) by (metis one)+
  qed
  show "[CHR '' ''] \<in> set ws_strs" "[CHR '' ''] \<in> set (map rev ws_strs)"
    using mem imageI [OF mem, of rev] by simp_all
  show "\<forall>q\<in>set ws_strs. q \<noteq> [] \<and> (hd q = CHR '' '' \<longrightarrow> q = [CHR '' ''])"
    "\<forall>q\<in>set (map rev ws_strs). q \<noteq> [] \<and> (hd q = CHR '' '' \<longrightarrow> q = [CHR '' ''])"
    using ends by (auto simp: hd_rev)
qed

lemma trim_blanks:
  assumes "trimmed s" "s \<noteq> []"
  shows "trim_str (''  '' @ s @ ''  '') = s"
proof -
  have "\<not> starts_with (s @ ''  '') p" if p: "p \<in> set ws_strs" for p
  proof
    assume "starts_with (s @ ''  '') p"
    then have e: "p = take (length p) s @ take (length p - length s) ''  ''" by (simp add: starts_with_def)
    show False
    proof (cases "length p \<le> length s")
      case True
      with e have "starts_with s p" by (simp add: starts_with_def)
      with assms(1) p show False by (simp add: trimmed_def)
    next
      case False
      then obtain k where k: "length p - length s = Suc k" by (cases "length p - length s") simp_all
      have "last p = CHR '' ''" by (subst e) (use k False in \<open>cases k; simp add: take_Cons'\<close>)
      then have "p = [CHR '' '']" using blank_first(4) p by (fastforce simp: hd_rev)
      with False assms(2) show False by (cases s) simp_all
    qed
  qed
  then have no: "trim_with ws_strs (s @ ''  '') = s @ ''  ''" by (intro trim_with_stop) (simp add: ws_prefix_None)
  have "trim_with (map rev ws_strs) (rev s) = rev s"
    using assms(1) by (intro trim_with_stop) (auto simp: trimmed_def ws_prefix_None)
  then show ?thesis
    using no by (simp add: trim_str_def trim_start_def trim_end_def trim_with_blank blank_first)
qed

lemma edited_lines: "peers_lines (str_lines edited_peers) [] = [''10.0.0.3:8099'', ''10.0.0.4:8099'']"
proof -
  have ls: "str_lines edited_peers = [''# comment'', [], ''10.0.0.3:8099'', ''  '' @ ''10.0.0.4:8099'' @ ''  '']"
    by (simp add: str_lines_def edited_peers_def chomp_cr_def)
  have t: "trimmed ''# comment''" "trimmed ''10.0.0.3:8099''" "trimmed ''10.0.0.4:8099''"
    by (rule trimmed_ends; simp add: byte_of_def ws_seqs_def)+
  have "trim_str [] = []" by code_simp
  then show ?thesis unfolding ls
    using trimmed_id [OF t(1)] trimmed_id [OF t(2)] trim_blanks [OF t(3)] by (simp add: starts_with_def)
qed

lemma edited_valid: "valid_str edited_peers"
  by (simp add: edited_peers_def literal_valid)

lemma test_peers_add_list_remove_dedupe_and_persist: "peers_add_list_remove_dedupe_and_persist d"
proof -
  have v: "valid_str ''10.0.0.1:8099''" "valid_str ''10.0.0.2:8099''" by (simp_all add: literal_valid)
  obtain fs1 where a1: "peers_add d ''10.0.0.1:8099'' mk_temp_dir = (fs1, Inr True)"
    "peers_list d fs1 = [] @ [''10.0.0.1:8099'']" "fs_faults fs1 = no_faults"
    by (rule add_new [OF mk_temp_dir_faults addresses_ok(1) v(1) _ no_peers]) simp_all
  have a2: "peers_add d ''10.0.0.1:8099'' fs1 = (fs1, Inr False)"
    by (rule add_known) (simp_all add: a1(2) addresses_ok)
  obtain fs2 where a3: "peers_add d ''10.0.0.2:8099'' fs1 = (fs2, Inr True)"
    "peers_list d fs2 = ([] @ [''10.0.0.1:8099'']) @ [''10.0.0.2:8099'']" "fs_faults fs2 = no_faults"
    by (rule add_new [OF a1(3) addresses_ok(2) v(2) _ a1(2)]) simp_all
  define fs3 where "fs3 = fst (fs_write (peers_path d) (str_bytes edited_peers) fs2)"
  have fs3: "fs3 = fs_put (peers_path d) (str_bytes edited_peers) fs2" "fs_faults fs3 = no_faults"
    using works_put(1) [OF a3(3)] a3(3) by (simp_all add: fs3_def)
  have l3: "peers_list d fs3 = [''10.0.0.3:8099'', ''10.0.0.4:8099'']"
    unfolding peers_list_def fs_read_to_string_def fs3(1) works_put(2) [OF a3(3)] sum.case
    by (simp only: from_utf8_str edited_valid option.case edited_lines)
  obtain fs4 where r1: "peers_remove d ''10.0.0.3:8099'' fs3 = (fs4, Inr True)"
    "peers_list d fs4 = filter (\<lambda>p. p \<noteq> ''10.0.0.3:8099'') [''10.0.0.3:8099'', ''10.0.0.4:8099'']" "fs_faults fs4 = no_faults"
    by (rule remove_known [OF fs3(2) l3, of "''10.0.0.3:8099''"]) simp_all
  have r2: "peers_remove d ''10.0.0.3:8099'' fs4 = (fs4, Inr False)" by (rule remove_unknown) (simp add: r1(2))
  show ?thesis
    unfolding peers_add_list_remove_dedupe_and_persist_def Let_def a1(1) prod.case a2 a3(1) fs3_def [symmetric] l3 r1(1) r2
    by (simp add: no_peers a3(2) r1(2))
qed

definition peers_reject_bad_addrs :: "path \<Rightarrow> bool" where
  "peers_reject_bad_addrs d =
     (let fs = mk_temp_dir; refused = (\<lambda>a. isl (snd (peers_add d a fs))) in
      refused ''no-port'' \<and> refused ''host:0'' \<and> refused ''host:99999'' \<and> refused '':8099'' \<and>
      refused ''bad host:8099'' \<and> refused ''../../etc:8099'' \<and>
      (case peers_add d ''localhost:8099'' fs of (fs, r1) \<Rightarrow>
       case peers_add d ''::1:8099'' fs of (fs, r2) \<Rightarrow>
       case peers_add d ''[::1]:8099'' fs of (fs, r3) \<Rightarrow> r1 = Inr True \<and> r2 = Inr True \<and> r3 = Inr True))"

lemma refused: "isl (validate_peer_addr a) \<Longrightarrow> isl (snd (peers_add d a fs))"
  by (cases "validate_peer_addr a") (simp_all add: peers_add_def)

lemma test_peers_reject_bad_addrs: "peers_reject_bad_addrs d"
proof -
  have v: "valid_str ''localhost:8099''" "valid_str ''::1:8099''" "valid_str ''[::1]:8099''" by (simp_all add: literal_valid)
  obtain fs1 where a1: "peers_add d ''localhost:8099'' mk_temp_dir = (fs1, Inr True)"
    "peers_list d fs1 = [] @ [''localhost:8099'']" "fs_faults fs1 = no_faults"
    by (rule add_new [OF mk_temp_dir_faults addresses_ok(3) v(1) _ no_peers]) simp_all
  obtain fs2 where a2: "peers_add d ''::1:8099'' fs1 = (fs2, Inr True)"
    "peers_list d fs2 = ([] @ [''localhost:8099'']) @ [''::1:8099'']" "fs_faults fs2 = no_faults"
    by (rule add_new [OF a1(3) addresses_ok(4) v(2) _ a1(2)]) simp_all
  obtain fs3 where a3: "peers_add d ''[::1]:8099'' fs2 = (fs3, Inr True)"
    by (rule add_new [OF a2(3) addresses_ok(5) v(3) _ a2(2)]) simp_all
  show ?thesis unfolding peers_reject_bad_addrs_def Let_def a1(1) prod.case a2(1) a3
    using addresses_bad by (simp add: refused)
qed

text \<open>\<open>sync_pass\<close> on a directory without a list connects to nobody.\<close>

definition sync_pass_empty_list_is_a_clean_noop :: "ext \<Rightarrow> 'p net \<Rightarrow> path \<Rightarrow> bool" where
  "sync_pass_empty_list_is_a_clean_noop X net dir =
     (case sync_pass X net dir mk_temp_dir of (fs, Ret r) \<Rightarrow> r = (0, 0, 0) | (fs, Panic) \<Rightarrow> False)"

lemma test_sync_pass_empty_list_is_a_clean_noop: "sync_pass_empty_list_is_a_clean_noop X net dir"
  by (simp add: sync_pass_empty_list_is_a_clean_noop_def sync_pass_def no_peers)

end
