(* ===== verification/Conformance_Policy.thy ===== *)
theory Conformance_Policy
  imports Conformance_Store Peers_Facts Quota
begin

text \<open>
  Unit tests of \<open>src/spore_peer.rs\<close> on the model, continued: storing, the write policy and the
  peers list.
\<close>

section \<open>Storing\<close>

definition fixture_writes_body_file :: "ext \<Rightarrow> path \<Rightarrow> bool" where
  "fixture_writes_body_file X dir =
     (case fixture_dir X dir (str_bytes ''probe'') of (fs, cid) \<Rightarrow>
        fs_metadata (file_path dir (cid @ ''.body'')) fs \<noteq> None \<and> length cid = 64 \<and>
        (let fs = fst (fs_write (file_path dir ''x'') [] fs) in
         fs_read (file_path dir (cid @ ''.body'')) fs = Inr (str_bytes ''probe'')))"

lemma body_not_short: "length n < 5 \<Longrightarrow> file_path dir (cid @ ''.body'') \<noteq> file_path dir n"
  by (auto simp: file_path_def)

lemma test_fixture_writes_body_file: "hex_law X \<Longrightarrow> sha_law X \<Longrightarrow> fixture_writes_body_file X dir"
  using body_not_short [of "''x''" dir "sha256_hex X (str_bytes ''probe'')"]
  by (auto simp: fixture_writes_body_file_def fixture_files fs_metadata_def fs_write_def fs_put_def fs_read_def no_faults_def
      body_path_file_path sha256_hex_def hex_law_encode sha_length split: prod.split)

definition store_body_names_files_by_computed_hash :: "ext \<Rightarrow> path \<Rightarrow> bool" where
  "store_body_names_files_by_computed_hash X dir =
     (let body = str_bytes ''hash-named body'' in
      case store_body X dir body mk_temp_dir of
        (fs, Inl _) \<Rightarrow> False
      | (fs, Inr cid) \<Rightarrow>
          cid = sha256_hex X body \<and> fs_read (file_path dir (cid @ ''.body'')) fs = Inr body \<and>
          (case store_body X dir body fs of
             (fs, Inl _) \<Rightarrow> False
           | (fs, Inr again) \<Rightarrow>
               again = cid \<and>
               (case store_body X dir [] fs of
                  (fs, Inr _) \<Rightarrow> False
                | (fs, Inl _) \<Rightarrow>
                    (let before = map_option length (fs_read_dir dir fs); big = replicate (MAX_BODY_BYTES + 1) 0 in
                     case store_body X dir big fs of
                       (fs, Inr _) \<Rightarrow> False
                     | (fs, Inl _) \<Rightarrow>
                         map_option length (fs_read_dir dir fs) = before \<and>
                         (case fs_read_dir dir fs of None \<Rightarrow> False
                          | Some names \<Rightarrow> \<not> list_ex (\<lambda>n. starts_with n ''.incoming-'') names)))))"

text \<open>Into an empty directory, the body ends as its only file.\<close>

lemma store_first:
  assumes "hex_law X" "body \<noteq> []" "length body \<le> MAX_BODY_BYTES"
  shows "store_body X dir body mk_temp_dir =
    (\<lparr> fs_files = [(body_path dir (sha256_hex X body), \<lparr>f_data = body, f_mtime = 0\<rparr>)], fs_now = 0, fs_faults = no_faults \<rparr>,
     Inr (sha256_hex X body))"
  using assms
  by (simp add: store_body_def Let_def mk_temp_dir_def no_faults_def fs_metadata_def fs_create_dir_all_def fs_write_def
      fs_put_def fs_rename_def sha256_hex_def)

lemma test_cid_no_dot: "CHR ''.'' \<notin> set (hexs c)" "CHR ''/'' \<notin> set (hexs c)"
  using hex_decode_no_slash [OF hex_decode_hexs] by blast+

lemma body_entry: "hex_law X \<Longrightarrow> entry_name dir (body_path dir (sha256_hex X b)) = Some (sha256_hex X b @ ''.body'')"
  by (simp add: entry_name_Some body_path_file_path sha256_hex_def hex_law_encode test_cid_no_dot)

lemma test_store_body_names_files_by_computed_hash:
  assumes "hex_law X" "sha_law X"
  shows "store_body_names_files_by_computed_hash X dir"
proof -
  let ?b = "str_bytes ''hash-named body''"
  let ?c = "sha256_hex X ?b"
  let ?fs = "\<lparr> fs_files = [(body_path dir ?c, \<lparr>f_data = ?b, f_mtime = 0\<rparr>)], fs_now = 0, fs_faults = no_faults \<rparr>"
  have b: "?b \<noteq> []" "length ?b \<le> MAX_BODY_BYTES" by (simp_all add: str_bytes_def MAX_BODY_BYTES_def)
  have again: "store_body X dir ?b ?fs = (?fs, Inr ?c)"
    using b by (simp add: store_body_def Let_def fs_metadata_def no_faults_def sha256_hex_def)
  have bad: "store_body X dir [] ?fs = (?fs, Inl ''400 empty body'')"
    "store_body X dir (replicate (MAX_BODY_BYTES + 1) 0) ?fs = (?fs, Inl ''413 body too large'')"
    by (simp_all add: store_body_def)
  have ls: "fs_read_dir dir ?fs = Some [?c @ ''.body'']"
    using body_entry [OF assms(1)] by (simp add: fs_read_dir_def no_faults_def List.map_filter_simps)
  have "\<not> starts_with (?c @ ''.body'') ''.incoming-''"
  proof
    assume s: "starts_with (?c @ ''.body'') ''.incoming-''"
    have len: "length ?c = 64" using assms by (simp add: sha256_hex_def hex_law_encode sha_length)
    then obtain x xs where "?c = x # xs" by (cases "?c") auto
    with s have "x = CHR ''.''" by (simp add: starts_with_def)
    with \<open>?c = x # xs\<close> show False using test_cid_no_dot(1) [of "sha256 X ?b"] assms(1)
      by (metis hex_law_encode list.set_intros(1) sha256_hex_def)
  qed
  moreover have "fs_read (file_path dir (?c @ ''.body'')) ?fs = Inr ?b"
    by (simp add: fs_read_def no_faults_def flip: body_path_file_path)
  ultimately show ?thesis
    unfolding store_body_names_files_by_computed_hash_def Let_def store_first [OF assms(1) b] prod.case sum.case again bad ls
      option.case by simp
qed

definition store_bytes_counts_only_body_files :: "ext \<Rightarrow> path \<Rightarrow> bool" where
  "store_bytes_counts_only_body_files X dir =
     (case fixture_dir X dir (str_bytes ''quota-probe'') of (fs, _) \<Rightarrow>
        let fs = fst (fs_write (file_path dir ''noise.bin'') [] fs) in store_bytes dir fs = 11)"

lemma sat_add_0: "sat_add 0 w = w"
  using unat_u64_less [of w] by (simp add: sat_add_def)

section \<open>The write policy\<close>

definition rate_limiter_blocks_after_max_per_window :: bool where
  "rate_limiter_blocks_after_max_per_window =
     (let l = rl_new 2; now = 1000 in
      case rl_allow l ''1.2.3.4'' now of (l, b1) \<Rightarrow>
      case rl_allow l ''1.2.3.4'' now of (l, b2) \<Rightarrow>
      case rl_allow l ''1.2.3.4'' now of (l, b3) \<Rightarrow>
      case rl_allow l ''5.6.7.8'' now of (l, b4) \<Rightarrow>
      case rl_allow l ''1.2.3.4'' (now + 61) of (l, b5) \<Rightarrow>
        b1 \<and> b2 \<and> \<not> b3 \<and> b4 \<and> b5)"

lemma test_rate_limiter_blocks_after_max_per_window: rate_limiter_blocks_after_max_per_window
  by code_simp

definition serve_config_default :: serve_config where
  "serve_config_default = \<lparr> sc_max_store_bytes = 0, sc_put_rate = 0, sc_token = None \<rparr>"

definition enforce_write_policy_token_gate :: "ext \<Rightarrow> path \<Rightarrow> u64 \<Rightarrow> bool" where
  "enforce_write_policy_token_gate X dir now =
     (let cfg = serve_config_default\<lparr>sc_token := Some ''s3cret''\<rparr>; lim = rl_new 0;
          fs = fst (fixture_dir X dir (str_bytes ''tok''));
          ok = Object [(''TOKEN'', String ''s3cret'')]; bad = Object [(''TOKEN'', String ''wrong'')];
          none = Object [(''BLID'', String ''aa'')];
          gate = (\<lambda>cfg payload. \<not> isl (snd (enforce_write_policy cfg ''ip'' dir fs 10 lim now payload))) in
      gate cfg ok \<and> \<not> gate cfg bad \<and> \<not> gate cfg none \<and> gate serve_config_default none)"

lemma test_enforce_write_policy_token_gate: "enforce_write_policy_token_gate X dir now"
proof -
  have "ct_eq ''s3cret'' ''s3cret''" "\<not> ct_eq ''wrong'' ''s3cret''" "\<not> ct_eq [] ''s3cret''" by code_simp+
  then show ?thesis
    by (simp add: enforce_write_policy_token_gate_def enforce_write_policy_def serve_config_default_def rl_allow_def rl_new_def Let_def)
qed

definition enforce_write_policy_store_quota :: "ext \<Rightarrow> path \<Rightarrow> u64 \<Rightarrow> bool" where
  "enforce_write_policy_store_quota X dir now =
     (let cfg = serve_config_default\<lparr>sc_max_store_bytes := 11\<rparr>; lim = rl_new 0;
          fs = fst (fixture_dir X dir (str_bytes ''quota-one''));
          gate = (\<lambda>n. \<not> isl (snd (enforce_write_policy cfg ''ip'' dir fs n lim now (Object [])))) in
      gate 0 \<and> \<not> gate 3)"

text \<open>The name of a body file has the extension that \<open>store_bytes\<close> looks for.\<close>

lemma body_extension: "c \<noteq> [] \<Longrightarrow> path_extension (hexs c @ ''.body'') = Some ''body''"
  using path_extension_dot [of "''body''" "hexs c"] by (cases c) simp_all

lemma fixture_bytes:
  assumes "hex_law X" "sha_law X" "fixture_dir X dir body = (fs, cid)"
  shows "store_bytes dir fs = word_of_nat (length body)"
proof -
  have ne: "sha256 X body \<noteq> []" using sha_length [OF assms(2), of body] by auto
  have "fs_read_dir dir fs = Some [cid @ ''.body'']"
    using assms(3) body_entry [OF assms(1), of dir body]
    by (simp add: fixture_files fs_read_dir_def no_faults_def List.map_filter_simps)
  then show ?thesis using assms(1,3) body_extension [OF ne]
    by (simp add: store_bytes_def fixture_files fs_metadata_def no_faults_def sat_add_0 body_path_file_path
        sha256_hex_def hex_law_encode)
qed

lemma test_enforce_write_policy_store_quota:
  assumes "hex_law X" "sha_law X"
  shows "enforce_write_policy_store_quota X dir now"
proof -
  let ?b = "str_bytes ''quota-one''"
  have "store_bytes dir (fst (fixture_dir X dir ?b)) = 9"
    using fixture_bytes [OF assms, of dir ?b] by (cases "fixture_dir X dir ?b") (simp add: str_bytes_def)
  moreover have "sat_add 9 0 = (9 :: u64)" "sat_add 9 3 = (12 :: u64)" by (simp_all add: sat_add_def)
  ultimately show ?thesis
    by (simp add: enforce_write_policy_store_quota_def enforce_write_policy_def serve_config_default_def rl_allow_def rl_new_def Let_def)
qed

definition ct_eq_rejects_differing_lengths_and_bytes :: bool where
  "ct_eq_rejects_differing_lengths_and_bytes \<longleftrightarrow>
     ct_eq ''abc'' ''abc'' \<and> \<not> ct_eq ''abc'' ''abd'' \<and> \<not> ct_eq ''abc'' ''abcd'' \<and> \<not> ct_eq [] ''x''"

lemma test_ct_eq_rejects_differing_lengths_and_bytes: ct_eq_rejects_differing_lengths_and_bytes
  by code_simp

lemma test_store_bytes_counts_only_body_files:
  assumes "hex_law X" "sha_law X"
  shows "store_bytes_counts_only_body_files X dir"
proof -
  let ?b = "str_bytes ''quota-probe''"
  let ?c = "sha256_hex X ?b"
  obtain fs cid where f: "fixture_dir X dir ?b = (fs, cid)" by (cases "fixture_dir X dir ?b")
  then have fs: "fs = \<lparr> fs_files = [(body_path dir ?c, \<lparr>f_data = ?b, f_mtime = 0\<rparr>)], fs_now = 0, fs_faults = no_faults \<rparr>"
    by (simp add: fixture_files)
  have n: "path_extension ''noise.bin'' = Some ''bin''" by code_simp
  have "last (file_path dir ''noise.bin'') \<noteq> last (body_path dir ?c)" by (simp add: file_path_def body_path_def)
  then have ne: "file_path dir ''noise.bin'' \<noteq> body_path dir ?c" by metis
  have "entry_name dir (file_path dir ''noise.bin'') = Some ''noise.bin''" by (simp add: entry_name_Some)
  then have "fs_read_dir dir (fst (fs_write (file_path dir ''noise.bin'') [] fs)) = Some [?c @ ''.body'', ''noise.bin'']"
    using body_entry [OF assms(1), of dir ?b] ne
    by (simp add: fs fs_read_dir_def fs_write_def fs_put_def no_faults_def List.map_filter_simps)
  moreover have "sha256 X ?b \<noteq> []" using sha_length [OF assms(2), of ?b] by auto
  then have "path_extension (?c @ ''.body'') = Some ''body''"
    using assms(1) by (simp add: body_extension sha256_hex_def hex_law_encode)
  ultimately have "store_bytes dir (fst (fs_write (file_path dir ''noise.bin'') [] fs)) = sat_add 0 (word_of_nat (length ?b))"
    using ne n by (simp add: store_bytes_def fs fs_write_def fs_put_def fs_metadata_def no_faults_def flip: body_path_file_path)
  moreover have "length ?b = 11" by (simp add: str_bytes_def)
  ultimately show ?thesis using f by (simp add: store_bytes_counts_only_body_files_def Let_def sat_add_0)
qed

end
