(* ===== verification/Conformance_Fabric.thy ===== *)
theory Conformance_Fabric
  imports Conformance_Policy Client_Props Fabric_Restart
begin

text \<open>
  The unit tests of \<open>src/fabric.rs\<close> on the model: the relay behind \<open>handle_client\<close> on one
  connection, with a test client that sends one JSON request per frame. The clock of the node
  stands still during a test except where the test sleeps; the JSON crate is used within
  \<open>serde_law\<close>.
\<close>

section \<open>The JSON crate on flat objects\<close>

fun flat :: "json \<Rightarrow> bool" where
  "flat (Array vs) \<longleftrightarrow> list_all (\<lambda>v. case v of String _ \<Rightarrow> True | _ \<Rightarrow> False) vs"
| "flat (String s) \<longleftrightarrow> True"
| "flat (Number (PosInt n)) \<longleftrightarrow> True"
| "flat (Bool b) \<longleftrightarrow> True"
| "flat _ \<longleftrightarrow> False"

fun flat_size :: "json \<Rightarrow> nat" where
  "flat_size (Array vs) = sum_list (map (\<lambda>v. case v of String s \<Rightarrow> Suc (length s) | _ \<Rightarrow> 0) vs)"
| "flat_size (String s) = length s"
| "flat_size _ = 0"

definition flat_object :: "(string \<times> json) list \<Rightarrow> bool" where
  "flat_object m \<longleftrightarrow> keys_sorted m \<and> list_all (\<lambda>(k, v). flat v) m"

definition object_size :: "(string \<times> json) list \<Rightarrow> nat" where
  "object_size m = 64 + sum_list (map (\<lambda>(k, v). 64 + 6 * (length k + flat_size v)) m)"

text \<open>
  What serde_json documents: an object of strings, unsigned numbers, booleans and arrays of
  strings prints as one text that begins with a brace and parses back to it, and every
  character takes at most six bytes (\<open>\u00XX\<close>).
\<close>

definition serde_law :: "ext \<Rightarrow> bool" where
  "serde_law X \<longleftrightarrow> (\<forall>m. flat_object m \<longrightarrow> json_law X (Object m) \<and> length (json_to_string X (Object m)) \<le> object_size m)"

section \<open>The test client\<close>

definition rpc :: "ext \<Rightarrow> 'p stream \<Rightarrow> json \<Rightarrow> 'p stream \<times> (byte \<times> json) run" where
  "rpc X c req =
     (case write_all c (frame_bytes (str_bytes (json_to_string X req))) of
        (c1, Inl _) \<Rightarrow> (c1, Panic)
      | (c1, Inr _) \<Rightarrow>
          (case read_exact c1 4 of
             (c2, Inl _) \<Rightarrow> (c2, Panic)
           | (c2, Inr buf) \<Rightarrow>
               (case read_exact c2 (le_nat buf) of
                  (c3, Inl _) \<Rightarrow> (c3, Panic)
                | (c3, Inr []) \<Rightarrow> (c3, Panic)
                | (c3, Inr (status # body)) \<Rightarrow>
                    (c3, Ret (status, case json_from_slice X body of None \<Rightarrow> Null | Some v \<Rightarrow> v)))))"

definition local_ip :: string where
  "local_ip = ''127.0.0.1''"

definition fabric_server :: "ext \<Rightarrow> path \<Rightarrow> fabric_config \<Rightarrow> u64 \<Rightarrow> fsys \<Rightarrow> node stream" where
  "fabric_server X dir fcfg now fs =
     (case fabric_open X dir fcfg (\<lambda>_. now) fs of (fs', st) \<Rightarrow>
       \<lparr>s_in = [], s_out = [], s_broken = False,
        s_peer = \<lparr>nd_fs = fs', nd_limiter = rl_new 0, nd_fabric = Some st\<rparr>,
        s_react = node_reacts X dir local_ip serve_config_default (\<lambda>_. now)\<rparr>)"

text \<open>After \<open>thread::sleep\<close> the node reads a later clock.\<close>

definition sleep_until :: "ext \<Rightarrow> path \<Rightarrow> u64 \<Rightarrow> node stream \<Rightarrow> node stream" where
  "sleep_until X dir now c = c\<lparr>s_react := node_reacts X dir local_ip serve_config_default (\<lambda>_. now)\<rparr>"

text \<open>
  A test is a script: requests with what is asserted of the status and the payload, looks at
  the directory, and sleeps.
\<close>

datatype test_step =
    Ask json "byte \<Rightarrow> json \<Rightarrow> bool"
  | Look "fsys \<Rightarrow> bool"
  | Sleep u64

fun run_script :: "ext \<Rightarrow> path \<Rightarrow> node stream \<Rightarrow> test_step list \<Rightarrow> bool" where
  "run_script X dir c [] \<longleftrightarrow> True"
| "run_script X dir c (Ask req ok # rest) \<longleftrightarrow>
     (case rpc X c req of (c', Ret (status, body)) \<Rightarrow> ok status body \<and> run_script X dir c' rest
      | (_, Panic) \<Rightarrow> False)"
| "run_script X dir c (Look ok # rest) \<longleftrightarrow> ok (nd_fs (s_peer c)) \<and> run_script X dir c rest"
| "run_script X dir c (Sleep now # rest) \<longleftrightarrow> run_script X dir (sleep_until X dir now c) rest"

definition valid_pointer :: "ext \<Rightarrow> u64 \<Rightarrow> byte \<Rightarrow> string" where
  "valid_pointer X deadline tag =
     hex_encode X ([1, 0] @ replicate 32 tag @ replicate 32 (0xA5 + tag) @ le_bytes 8 (unat deadline))"

definition fabric_cfg :: fabric_config where
  "fabric_cfg = fabric_config_default\<lparr>fc_enabled := True\<rparr>"

text \<open>The \<open>json!\<close> objects of the tests (a \<open>BTreeMap\<close>: keys in order).\<close>

definition json_freg :: "string \<Rightarrow> string \<Rightarrow> u64 \<Rightarrow> json" where
  "json_freg handle token lease = Object [(''handle'', String handle), (''lease'', Number (PosInt lease)),
     (''token'', String token), (''verb'', String ''freg'')]"

definition json_refresh :: "string \<Rightarrow> string \<Rightarrow> string \<Rightarrow> u64 \<Rightarrow> json" where
  "json_refresh handle token prev lease = Object [(''handle'', String handle), (''lease'', Number (PosInt lease)),
     (''prev_token'', String prev), (''token'', String token), (''verb'', String ''freg'')]"

definition json_fput :: "string \<Rightarrow> string \<Rightarrow> u64 \<Rightarrow> json" where
  "json_fput handle ptr deadline = Object [(''deadline'', Number (PosInt deadline)), (''handle'', String handle),
     (''pointer_hex'', String ptr), (''verb'', String ''fput'')]"

definition json_fpop :: "string \<Rightarrow> string \<Rightarrow> json" where
  "json_fpop handle token = Object [(''handle'', String handle), (''max'', Number (PosInt 8)),
     (''token'', String token), (''verb'', String ''fpop'')]"

definition pointers :: "json \<Rightarrow> json list option" where
  "pointers body = Option.bind (jget body ''pointers'') as_array"

section \<open>One exchange\<close>

definition run_verb :: "ext \<Rightarrow> fabric_state \<Rightarrow> json \<Rightarrow> path \<Rightarrow> u64 \<Rightarrow> fsys \<Rightarrow> fabric_state \<times> fsys \<times> (string + json) run" where
  "run_verb X st req dir now fs =
     (if get_str req ''verb'' = Some ''freg'' then (case run_freg X st req (\<lambda>_. now) of (st', r) \<Rightarrow> (st', fs, Ret r))
      else if get_str req ''verb'' = Some ''fput'' then run_fput X st req dir local_ip (\<lambda>_. now) fs
      else (case run_fpop X st req dir local_ip (\<lambda>_. now) fs of (st', fs', r) \<Rightarrow> (st', fs', Ret r)))"

definition talks :: "ext \<Rightarrow> path \<Rightarrow> u64 \<Rightarrow> fabric_state \<Rightarrow> fsys \<Rightarrow> node stream \<Rightarrow> bool" where
  "talks X dir now st fs c \<longleftrightarrow> served_by X dir local_ip serve_config_default (\<lambda>_. now)
     \<lparr>nd_fs = fs, nd_limiter = rl_new 0, nd_fabric = Some st\<rparr> c"

lemma talks_later: "talks X dir now st fs c \<Longrightarrow> talks X dir now' st fs (sleep_until X dir now' c)"
  by (simp add: talks_def served_by_def sleep_until_def)

lemma rpc_frames:
  assumes "write_frame c (str_bytes (json_to_string X req)) = (c1, Inr ())" "read_frame c1 = (c2, Inr (status # body))"
  shows "rpc X c req = (c2, Ret (status, case json_from_slice X body of None \<Rightarrow> Null | Some v \<Rightarrow> v))"
  using assms by (auto simp: rpc_def write_frame_def read_frame_def Let_def split: prod.splits sum.splits if_splits)

lemma rpc_served:
  assumes "served_by X dir ip cfg clk nd c" "json_law X req" "length (json_to_string X req) \<le> MAX_FRAME"
    "get_str req ''verb'' \<noteq> None"
    "handle_verb X (conn []) req dir (nd_fabric nd) ip clk (nd_fs nd) =
      (fst (write_frame (conn []) (status # body)), fab, fs, Ret ())" "length body < MAX_FRAME"
  obtains c' where "rpc X c req = (c', Ret (status, case json_from_slice X body of None \<Rightarrow> Null | Some v \<Rightarrow> v))"
    "served_by X dir ip cfg clk (nd\<lparr>nd_fabric := fab, nd_fs := fs\<rparr>) c'"
proof -
  let ?p = "str_bytes (json_to_string X req)"
  from assms(2) obtain rest where p: "?p = 0x7B # rest" and j: "json_from_slice X ?p = Some req" by (auto simp: json_law_def)
  have "serve_frame X (conn []) ?p dir ip cfg clk nd =
      (fst (write_frame (conn []) (status # body)), nd\<lparr>nd_fabric := fab, nd_fs := fs\<rparr>, Ret ())"
    using j assms(4,5) unfolding p serve_frame_json by (simp add: serve_json_def on_fabric_def)
  moreover have "sendable ?p"
  proof -
    have "length ?p \<le> MAX_FRAME" using assms(3) by simp
    then show ?thesis by (simp add: sendable_def p)
  qed
  moreover have "sendable (status # body)" using assms(6) by (simp add: sendable_def)
  ultimately show thesis using exchange_served [OF assms(1)] rpc_frames that by metis
qed

definition small_object :: "json \<Rightarrow> bool" where
  "small_object v \<longleftrightarrow> (case v of Object m \<Rightarrow> flat_object m \<and> object_size m \<le> 100000 | _ \<Rightarrow> False)"

definition request_ok :: "json \<Rightarrow> bool" where
  "request_ok req \<longleftrightarrow> small_object req \<and> get_str req ''verb'' \<in> Some ` {''freg'', ''fput'', ''fpop''}"

lemma verb_step:
  assumes serde: "serde_law X" and c: "talks X dir now st fs c"
    and req: "request_ok req" and run: "run_verb X st req dir now fs = (st', fs', Ret r)"
    and r: "case r of Inl e \<Rightarrow> length e \<le> 1000 | Inr v \<Rightarrow> small_object v"
  obtains c' body where "rpc X c req = (c', Ret (case r of Inl _ \<Rightarrow> (0x01, body) | Inr v \<Rightarrow> (0x00, v)))"
    "talks X dir now st' fs' c'"
proof -
  define q where "q = (case r of Inl e \<Rightarrow> frame_err e | Inr v \<Rightarrow> frame_ok (str_bytes (json_to_string X v)))"
  from req obtain m where m: "req = Object m" "flat_object m" "object_size m \<le> 100000"
    "get_str req ''verb'' \<in> Some ` {''freg'', ''fput'', ''fpop''}"
    by (cases req) (auto simp: request_ok_def small_object_def)
  have req': "json_law X req" "length (json_to_string X req) \<le> MAX_FRAME"
    using serde m(2,3) by (auto simp: serde_law_def MAX_FRAME_def m(1) elim!: allE [of _ m])
  have v: "get_str req ''verb'' \<noteq> None" using m(4) by auto
  let ?nd = "\<lparr>nd_fs = fs, nd_limiter = rl_new 0, nd_fabric = Some st\<rparr>"
  have h: "handle_verb X (conn []) req dir (nd_fabric ?nd) local_ip (\<lambda>_. now) (nd_fs ?nd) =
      (fst (write_frame (conn []) q), Some st', fs', Ret ())"
    using run m(4) unfolding run_verb_def q_def
    by (auto simp: handle_verb_def reply_def split: prod.splits sum.splits)
  show thesis
  proof (cases r)
    case (Inl e)
    then have q: "q = 0x01 # str_bytes e" and s: "length (str_bytes e) < MAX_FRAME"
      using r by (simp_all add: q_def frame_err_def STATUS_ERR_def MAX_FRAME_def)
    from rpc_served [OF c [unfolded talks_def] req' v h [unfolded q] s] Inl that show thesis
      by (auto simp: talks_def)
  next
    case (Inr v)
    then obtain m' where m': "v = Object m'" "flat_object m'" "object_size m' \<le> 100000" using r by (cases v) (auto simp: small_object_def)
    from serde m'(2) have j: "json_law X v" "length (json_to_string X v) \<le> object_size m'" by (auto simp: serde_law_def m'(1))
    have q: "q = 0x00 # str_bytes (json_to_string X v)" and s: "length (str_bytes (json_to_string X v)) < MAX_FRAME"
      using j(2) m'(3) by (simp_all add: Inr q_def frame_ok_def STATUS_OK_def MAX_FRAME_def)
    have p: "json_from_slice X (str_bytes (json_to_string X v)) = Some v" using j(1) by (simp add: json_law_def)
    from rpc_served [OF c [unfolded talks_def] req' v h [unfolded q] s] Inr p that show thesis
      by (auto simp: talks_def)
  qed
qed

text \<open>The script on the relay itself, without the connection.\<close>

fun relay_script :: "ext \<Rightarrow> path \<Rightarrow> u64 \<Rightarrow> fabric_state \<Rightarrow> fsys \<Rightarrow> test_step list \<Rightarrow> bool" where
  "relay_script X dir now st fs [] \<longleftrightarrow> True"
| "relay_script X dir now st fs (Ask req ok # rest) \<longleftrightarrow> request_ok req \<and>
     (case run_verb X st req dir now fs of
        (st', fs', Ret (Inl e)) \<Rightarrow> length e \<le> 1000 \<and> (\<forall>body. ok 0x01 body) \<and> relay_script X dir now st' fs' rest
      | (st', fs', Ret (Inr v)) \<Rightarrow> small_object v \<and> ok 0x00 v \<and> relay_script X dir now st' fs' rest
      | (st', fs', Panic) \<Rightarrow> False)"
| "relay_script X dir now st fs (Look ok # rest) \<longleftrightarrow> ok fs \<and> relay_script X dir now st fs rest"
| "relay_script X dir now st fs (Sleep now' # rest) \<longleftrightarrow> relay_script X dir now' st fs rest"

lemma script_sound:
  assumes "serde_law X" "talks X dir now st fs c" "relay_script X dir now st fs t"
  shows "run_script X dir c t"
  using assms(2,3)
proof (induction t arbitrary: now st fs c)
  case (Cons x t)
  show ?case
  proof (cases x)
    case (Ask req ok)
    obtain st' fs' r where run: "run_verb X st req dir now fs = (st', fs', Ret r)"
      using Cons.prems(2) by (auto simp: Ask split: prod.splits run.splits)
    have r: "case r of Inl e \<Rightarrow> length e \<le> 1000 | Inr v \<Rightarrow> small_object v" and req: "request_ok req"
      and ok: "case r of Inl e \<Rightarrow> \<forall>body. ok 0x01 body | Inr v \<Rightarrow> ok 0x00 v" and rest: "relay_script X dir now st' fs' t"
      using Cons.prems(2) by (auto simp: Ask run split: sum.splits)
    obtain c' body where c': "rpc X c req = (c', Ret (case r of Inl _ \<Rightarrow> (0x01, body) | Inr v \<Rightarrow> (0x00, v)))"
      "talks X dir now st' fs' c'" using verb_step [OF assms(1) Cons.prems(1) req run r] .
    from Cons.IH [OF c'(2) rest] ok c'(1) show ?thesis by (cases r) (simp_all add: Ask)
  next
    case (Look ok)
    then show ?thesis using Cons by (auto simp: talks_def served_by_def)
  next
    case (Sleep now')
    then show ?thesis using Cons.IH [OF talks_later [OF Cons.prems(1)], of now'] Cons.prems(2) by simp
  qed
qed simp

section \<open>Steps with concrete requests\<close>

definition tok :: string where
  "tok = ''tok-1234567890abcdef''"

lemma tok_simps [simp]: "length tok = 20"
  by (simp add: tok_def)

text \<open>The clock of a test: after 1970 and far from the end of its range.\<close>

definition test_time :: "u64 \<Rightarrow> bool" where
  "test_time now \<longleftrightarrow> 1000 < now \<and> now < 2 ^ 60"

lemma add_le_add:
  assumes "test_time now" "a < 2 ^ 60" "b < 2 ^ 60"
  shows "now + a \<le> now + b \<longleftrightarrow> a \<le> b" "now + a < now + b \<longleftrightarrow> a < b" "now + a = now + b \<longleftrightarrow> a = b"
proof -
  have n: "unat now < 2 ^ 60" "unat a < 2 ^ 60" "unat b < 2 ^ 60"
    using assms by (simp_all add: test_time_def word_less_nat_alt)
  then have "unat (now + a) = unat now + unat a" "unat (now + b) = unat now + unat b"
    by (simp_all add: unat_word_ariths)
  then show "now + a \<le> now + b \<longleftrightarrow> a \<le> b" "now + a < now + b \<longleftrightarrow> a < b" "now + a = now + b \<longleftrightarrow> a = b"
    by (simp_all add: word_le_nat_alt word_less_nat_alt)
qed

lemma now_add:
  assumes "test_time now" "a < 2 ^ 60"
  shows "now + a \<le> now \<longleftrightarrow> a = 0" "now < now + a \<longleftrightarrow> 0 < a" "now \<le> now + a" "\<not> now + a < now" "now + a \<noteq> 0"
proof -
  show "now + a \<le> now \<longleftrightarrow> a = 0" "now < now + a \<longleftrightarrow> 0 < a" "now \<le> now + a" "\<not> now + a < now"
    using add_le_add [OF assms(1) assms(2), of 0] add_le_add [OF assms(1) _ assms(2), of 0]
    by (simp_all add: not_less)
  have "unat now < 2 ^ 60" "unat a < 2 ^ 60" "0 < unat now"
    using assms by (simp_all add: test_time_def word_less_nat_alt)
  then have "unat (now + a) \<noteq> 0" by (simp add: unat_word_ariths)
  then show "now + a \<noteq> 0" by auto
qed

lemma hex_facts:
  assumes "hex_law X"
  shows "hex_crate_decode X (hexs b) = Inr b" "hex_encode X b = hexs b" "to_lowercase u (hexs b) = hexs b"
  using assms to_lowercase_hex(1) [OF unhexs_hexs] by (simp_all add: hex_law_encode hex_law_decode unhexs_hexs)

abbreviation relay_state :: "fabric_config \<Rightarrow> rate_limiter \<Rightarrow> (string \<times> registration) list \<Rightarrow>
    (string \<times> queued list) list \<Rightarrow> u64 \<Rightarrow> fabric_state" where
  "relay_state cfg lim regs qs sw \<equiv> \<lparr>fab_cfg = cfg, fab_fput_limiter = lim, fab_reg = regs, fab_queues = qs, fab_last_sweep_sec = sw\<rparr>"

lemma cfg_simps [simp]:
  "fc_max_lease_sec fabric_cfg = 604800" "fc_max_regs fabric_cfg = 50000" "fc_max_per_handle fabric_cfg = 32"
  "fc_fput_rate fabric_cfg = 60" "fc_max_deadline_horizon_sec fabric_cfg = 604800"
  by (simp_all add: fabric_cfg_def fabric_config_default_def)

definition ptr :: "u64 \<Rightarrow> byte \<Rightarrow> bytes" where
  "ptr deadline tag = [1, 0] @ replicate 32 tag @ replicate 32 (0xA5 + tag) @ le_bytes 8 (unat deadline)"

lemma valid_pointer_ptr: "hex_law X \<Longrightarrow> valid_pointer X d t = hexs (ptr d t)"
  by (simp add: valid_pointer_def ptr_def hex_law_encode)

lemma ptr_facts [simp]:
  "length (ptr d t) = 74" "ptr d t ! 0 = 1" "ptr d t ! Suc 0 = 0" "pointer_deadline (ptr d t) = d"
  "ptr d t = ptr d' t' \<longleftrightarrow> d = d' \<and> t = t'"
proof -
  show "length (ptr d t) = 74" "ptr d t ! 0 = 1" "ptr d t ! Suc 0 = 0" by (simp_all add: ptr_def)
  show d: "pointer_deadline (ptr d t) = d" for d t by (simp add: pointer_deadline_def ptr_def u64_le_roundtrip)
  have "ptr d t ! 2 = t" for d t by (simp add: ptr_def nth_append)
  with d show "ptr d t = ptr d' t' \<longleftrightarrow> d = d' \<and> t = t'" by metis
qed

definition persisted :: "path \<Rightarrow> string \<Rightarrow> bytes \<Rightarrow> fsys \<Rightarrow> fsys" where
  "persisted dir cid raw fs = fst (persist_envelope dir cid raw fs)"

lemma persist_works: "fs_faults fs = no_faults \<Longrightarrow> persist_envelope dir cid raw fs = (persisted dir cid raw fs, Inr ())"
  by (simp add: persisted_def persist_envelope_def fs_write_def fs_rename_def no_faults_def Let_def)

lemma persisted_faults [simp]: "fs_faults (persisted dir cid raw fs) = fs_faults fs"
  unfolding persisted_def by (metis persist_keeps prod.collapse)

lemma persisted_lookup:
  "fs_faults fs = no_faults \<Longrightarrow> fs_lookup (persisted dir cid raw fs) = (fs_lookup fs)
    (fenv_tmp_path dir cid := None, fenv_path dir cid \<mapsto> \<lparr>f_data = raw, f_mtime = fs_now fs\<rparr>)"
  by (simp only: persist_ok [OF persist_works])

definition env_cid :: "ext \<Rightarrow> bytes \<Rightarrow> bytes \<Rightarrow> u64 \<Rightarrow> string" where
  "env_cid X hb p t = hexs (sha256 X (marshal_envelope \<lparr>e_handle = hb, e_pointer = p, e_received_at = t\<rparr>))"

lemma test_time_pos [simp]: "test_time now \<Longrightarrow> 0 < now"
  by (simp add: test_time_def word_less_nat_alt)

lemma json_fields:
  "get_str (json_freg h t l) ''handle'' = Some h" "get_str (json_freg h t l) ''token'' = Some t"
  "get_str (json_freg h t l) ''prev_token'' = None" "get_u64 (json_freg h t l) ''lease'' = Some l"
  "get_str (json_refresh h t u l) ''handle'' = Some h" "get_str (json_refresh h t u l) ''token'' = Some t"
  "get_str (json_refresh h t u l) ''prev_token'' = Some u" "get_u64 (json_refresh h t u l) ''lease'' = Some l"
  "get_str (json_fput h p d) ''handle'' = Some h" "get_str (json_fput h p d) ''pointer_hex'' = Some p"
  "get_str (json_fpop h t) ''handle'' = Some h" "get_str (json_fpop h t) ''token'' = Some t"
  "get_u64 (json_fpop h t) ''max'' = Some 8"
  by (simp_all add: json_freg_def json_refresh_def json_fput_def json_fpop_def)

lemma windows: "\<not> (60 :: u32) \<le> 1" "\<not> (60 :: u64) \<le> 1" "\<not> (600 :: u64) \<le> 1" "\<not> (600 :: u64) \<le> 2"
  by (simp_all add: word_le_nat_alt)

lemmas relay_eval = windows hex_facts add_le_add now_add Let_def run_freg_def run_fput_def run_fpop_def
  json_fields valid_pointer_ptr POINTER_LEN_def rl_allow_def rl_new_def
  persist_works env_cid_def [symmetric] fput_enqueue_def queue_of_def ct_eq_iff

lemma requests_ok:
  "length h + length t \<le> 1000 \<Longrightarrow> request_ok (json_freg h t l)"
  "length h + length t + length u \<le> 1000 \<Longrightarrow> request_ok (json_refresh h t u l)"
  "length h + length t \<le> 1000 \<Longrightarrow> request_ok (json_fput h t l)"
  "length h + length t \<le> 1000 \<Longrightarrow> request_ok (json_fpop h t)"
  by (simp_all add: request_ok_def small_object_def json_freg_def json_refresh_def json_fput_def json_fpop_def
      flat_object_def object_size_def)

lemma verbs:
  "run_verb X st (json_freg h t l) dir now fs = (case run_freg X st (json_freg h t l) (\<lambda>_. now) of (st', r) \<Rightarrow> (st', fs, Ret r))"
  "run_verb X st (json_refresh h t u l) dir now fs = (case run_freg X st (json_refresh h t u l) (\<lambda>_. now) of (st', r) \<Rightarrow> (st', fs, Ret r))"
  "run_verb X st (json_fput h t l) dir now fs = run_fput X st (json_fput h t l) dir local_ip (\<lambda>_. now) fs"
  "run_verb X st (json_fpop h t) dir now fs =
    (case run_fpop X st (json_fpop h t) dir local_ip (\<lambda>_. now) fs of (st', fs', r) \<Rightarrow> (st', fs', Ret r))"
  by (simp_all add: run_verb_def json_freg_def json_refresh_def json_fput_def json_fpop_def)

lemmas response_ok = small_object_def flat_object_def object_size_def

lemma open_empty: "fabric_open X dir cfg clk mk_temp_dir = (mk_temp_dir, relay_state cfg (rl_new (fc_fput_rate cfg)) [] [] 0)"
  by (simp add: fabric_open_def mk_temp_dir_def fs_read_dir_def no_faults_def List.map_filter_simps)

lemma server_talks:
  "fabric_open X dir cfg (\<lambda>_. now) fs = (fs', st) \<Longrightarrow> talks X dir now st fs' (fabric_server X dir cfg now fs)"
  by (simp add: talks_def served_by_def fabric_server_def)

lemma fresh_script:
  assumes "serde_law X" "relay_script X dir now (relay_state cfg (rl_new (fc_fput_rate cfg)) [] [] 0) mk_temp_dir t"
  shows "run_script X dir (fabric_server X dir cfg now mk_temp_dir) t"
  using script_sound [OF assms(1) server_talks [OF open_empty] assms(2)] .

lemma repeated:
  "hexs [b] = s \<Longrightarrow> concat (replicate n s) = hexs (replicate n b)"
  by (induction n) auto

definition freg_fput_fpop_roundtrip_and_dedupe :: "ext \<Rightarrow> path \<Rightarrow> u64 \<Rightarrow> bool" where
  "freg_fput_fpop_roundtrip_and_dedupe X dir now =
     (let c = fabric_server X dir fabric_cfg now mk_temp_dir;
          handle = concat (replicate 32 ''aa''); token = ''tok-1234567890abcdef'';
          ptr = valid_pointer X (now + 600) 1 in
      run_script X dir c
       [Ask (json_freg handle ''short'' 60) (\<lambda>st body. st = 0x01),
        Ask (json_freg handle token 60) (\<lambda>st body. st = 0x00 \<and> get_str body ''token'' = Some token),
        Ask (json_freg handle ''attacker-token-1234'' 60) (\<lambda>st body. st = 0x01),
        Ask (json_refresh handle token token 60) (\<lambda>st body. st = 0x00),
        Ask (json_fput handle ptr (now + 600)) (\<lambda>st body. st = 0x00),
        Ask (json_fput handle ptr (now + 900)) (\<lambda>st body. st = 0x00),
        Ask (json_fpop handle token) (\<lambda>st body. st = 0x00 \<and> pointers body = Some [String ptr]),
        Ask (json_fpop handle token) (\<lambda>st body. st = 0x00 \<and> pointers body = Some [])])"

lemma test_freg_fput_fpop_roundtrip_and_dedupe:
  assumes "serde_law X" "hex_law X" "test_time now"
  shows "freg_fput_fpop_roundtrip_and_dedupe X dir now"
proof -
  have aa: "concat (replicate 32 ''aa'') = hexs (replicate 32 0xAA)" by (rule repeated) code_simp
  show ?thesis
    unfolding freg_fput_fpop_roundtrip_and_dedupe_def Let_def aa
    by (rule fresh_script [OF assms(1)]) (use assms(2,3) in \<open>simp add: requests_ok verbs relay_eval response_ok pointers_def mk_temp_dir_faults\<close>)
qed

lemma default_simps [simp]:
  "fc_max_lease_sec fabric_config_default = 604800" "fc_max_regs fabric_config_default = 50000"
  "fc_max_per_handle fabric_config_default = 32" "fc_fput_rate fabric_config_default = 60"
  "fc_max_deadline_horizon_sec fabric_config_default = 604800"
  by (simp_all add: fabric_config_default_def)

definition hostile_frames_all_refused :: "ext \<Rightarrow> path \<Rightarrow> u64 \<Rightarrow> bool" where
  "hostile_frames_all_refused X dir now =
     (let c = fabric_server X dir fabric_cfg now mk_temp_dir;
          handle = concat (replicate 32 ''bb''); token = ''tok-1234567890abcdef''; future = now + 600;
          zero = hex_encode X ([1, 0] @ replicate 32 2 @ replicate 32 3 @ le_bytes 8 0) in
      run_script X dir c
       [Ask (json_freg handle token 60) (\<lambda>st body. st = 0x00),
        Ask (json_fpop handle ''wrong'') (\<lambda>st body. st = 0x01),
        Ask (json_fpop (concat (replicate 32 ''cc'')) ''wrong'') (\<lambda>st body. st = 0x01),
        Ask (json_fput (concat (replicate 32 ''dd'')) (valid_pointer X future 2) future) (\<lambda>st body. st = 0x01),
        Ask (json_fput handle ''00'' future) (\<lambda>st body. st = 0x01),
        Ask (json_fput handle (concat (replicate 74 ''01'')) future) (\<lambda>st body. st = 0x01),
        Ask (json_fput handle zero 0) (\<lambda>st body. st = 0x01),
        Ask (json_fput handle (valid_pointer X 1 4) 1) (\<lambda>st body. st = 0x01),
        Ask (json_freg ''zz'' ''t'' 60) (\<lambda>st body. st = 0x01),
        Ask (json_fpop handle token) (\<lambda>st body. st = 0x00 \<and> pointers body = Some [])])"

lemma bad_hex:
  assumes "hex_law X" "unhexs s = None"
  shows "(case hex_crate_decode X s of Inr b \<Rightarrow> length b = n | Inl e \<Rightarrow> False) = False"
  using assms hex_law_decode [OF assms(1), of s] by (auto split: sum.split)

lemma test_hostile_frames_all_refused:
  assumes "serde_law X" "hex_law X" "test_time now"
  shows "hostile_frames_all_refused X dir now"
proof -
  have h: "concat (replicate 32 ''bb'') = hexs (replicate 32 0xBB)" "concat (replicate 32 ''cc'') = hexs (replicate 32 0xCC)"
    "concat (replicate 32 ''dd'') = hexs (replicate 32 0xDD)" "concat (replicate 74 ''01'') = hexs (replicate 74 1)"
    by (rule repeated, code_simp)+
  let ?z = "[1, 0] @ replicate 32 2 @ replicate 32 3 @ le_bytes 8 0"
  have z: "hex_encode X ?z = hexs ?z" using assms(2) by (simp only: hex_facts)
  have zd: "length ?z = 74" "?z ! 0 = 1" "?z ! Suc 0 = 0" "pointer_deadline ?z = 0"
    by (simp_all add: pointer_deadline_def) (simp add: le_nat_inverse)
  have "unhexs ''zz'' = None" by code_simp
  note zz = bad_hex [OF assms(2) this]
  have one: "(1 :: u64) \<le> now" using assms(3) by (simp add: test_time_def word_less_nat_alt word_le_nat_alt)
  show ?thesis
    unfolding hostile_frames_all_refused_def Let_def h z
    by (rule fresh_script [OF assms(1)])
      (use assms(2,3) zd zz one in \<open>simp add: requests_ok verbs relay_eval response_ok pointers_def mk_temp_dir_faults del: append_Cons append_Nil\<close>)
qed

definition per_handle_cap_evicts_oldest :: "ext \<Rightarrow> path \<Rightarrow> u64 \<Rightarrow> bool" where
  "per_handle_cap_evicts_oldest X dir now =
     (let fcfg = fabric_config_default\<lparr>fc_enabled := True, fc_max_per_handle := 2\<rparr>;
          c = fabric_server X dir fcfg now mk_temp_dir;
          handle = concat (replicate 32 ''ee''); token = ''tok-1234567890abcdef''; future = now + 600;
          p1 = valid_pointer X future 1; p2 = valid_pointer X future 2; p3 = valid_pointer X future 3 in
      run_script X dir c
       ([Ask (json_freg handle token 60) (\<lambda>st body. True)] @
        map (\<lambda>p. Ask (json_fput handle p future) (\<lambda>st body. st = 0x00)) [p1, p2, p3] @
        [Ask (json_fpop handle token) (\<lambda>st body. st = 0x00 \<and> pointers body = Some [String p2, String p3])]))"

lemma test_per_handle_cap_evicts_oldest:
  assumes "serde_law X" "hex_law X" "test_time now"
  shows "per_handle_cap_evicts_oldest X dir now"
proof -
  have h: "concat (replicate 32 ''ee'') = hexs (replicate 32 0xEE)" by (rule repeated) code_simp
  show ?thesis
    unfolding per_handle_cap_evicts_oldest_def Let_def h
    by (rule fresh_script [OF assms(1)])
      (use assms(2,3) in \<open>simp add: requests_ok verbs relay_eval response_ok pointers_def mk_temp_dir_faults\<close>)
qed

definition freg_budget_full_refuses_without_eviction :: "ext \<Rightarrow> path \<Rightarrow> u64 \<Rightarrow> bool" where
  "freg_budget_full_refuses_without_eviction X dir now =
     (let fcfg = fabric_config_default\<lparr>fc_enabled := True, fc_max_regs := 2\<rparr>;
          c = fabric_server X dir fcfg now mk_temp_dir; tok = ''tok-1234567890abcdef'' in
      run_script X dir c
       (map (\<lambda>h. Ask (json_freg (concat (replicate 32 h)) tok 60) (\<lambda>st body. st = 0x00)) [''01'', ''02''] @
        [Ask (json_freg (concat (replicate 32 ''03'')) tok 60) (\<lambda>st body. st = 0x01)]))"

lemma test_freg_budget_full_refuses_without_eviction:
  assumes "serde_law X" "hex_law X" "test_time now"
  shows "freg_budget_full_refuses_without_eviction X dir now"
proof -
  have h: "concat (replicate 32 ''01'') = hexs (replicate 32 1)" "concat (replicate 32 ''02'') = hexs (replicate 32 2)"
    "concat (replicate 32 ''03'') = hexs (replicate 32 3)" by (rule repeated, code_simp)+
  show ?thesis
    unfolding freg_budget_full_refuses_without_eviction_def Let_def list.map append.simps h
    by (rule fresh_script [OF assms(1)])
      (use assms(2,3) in \<open>simp add: requests_ok verbs relay_eval response_ok\<close>)
qed

text \<open>The sleep of 1200 milliseconds: the clock in seconds has moved on.\<close>

definition freg_expired_slots_swept_on_next_freg :: "ext \<Rightarrow> path \<Rightarrow> u64 \<Rightarrow> bool" where
  "freg_expired_slots_swept_on_next_freg X dir now =
     (let fcfg = fabric_config_default\<lparr>fc_enabled := True, fc_max_regs := 1\<rparr>;
          c = fabric_server X dir fcfg now mk_temp_dir; tok = ''tok-1234567890abcdef'' in
      run_script X dir c
       [Ask (json_freg (concat (replicate 32 ''04'')) tok 1) (\<lambda>st body. st = 0x00),
        Sleep (now + 1),
        Ask (json_freg (concat (replicate 32 ''05'')) tok 60) (\<lambda>st body. st = 0x00)])"

lemma test_freg_expired_slots_swept_on_next_freg:
  assumes "serde_law X" "hex_law X" "test_time now"
  shows "freg_expired_slots_swept_on_next_freg X dir now"
proof -
  have h: "concat (replicate 32 ''04'') = hexs (replicate 32 4)" "concat (replicate 32 ''05'') = hexs (replicate 32 5)"
    by (rule repeated, code_simp)+
  have one: "min (1 :: u64) 604800 = 1" by (simp add: min_def)
  show ?thesis
    unfolding freg_expired_slots_swept_on_next_freg_def Let_def h
    by (rule fresh_script [OF assms(1)])
      (use assms(2,3) in \<open>simp add: requests_ok verbs relay_eval response_ok one\<close>)
qed

text \<open>The number of \<open>.fenv\<close> files in the directory.\<close>

definition fenvs :: "path \<Rightarrow> fsys \<Rightarrow> nat" where
  "fenvs dir fs =
     (case fs_read_dir dir fs of None \<Rightarrow> 0 | Some ns \<Rightarrow> length (filter (\<lambda>n. path_extension n = Some ''fenv'') ns))"

definition fput_dedupe_composts_superseded_envelope_file :: "ext \<Rightarrow> path \<Rightarrow> u64 \<Rightarrow> bool" where
  "fput_dedupe_composts_superseded_envelope_file X dir now =
     (let c = fabric_server X dir fabric_cfg now mk_temp_dir;
          handle = concat (replicate 32 ''06''); tok = ''tok-1234567890abcdef''; p = valid_pointer X (now + 600) 1 in
      run_script X dir c
       [Ask (json_freg handle tok 60) (\<lambda>st body. True),
        Ask (json_fput handle p (now + 600)) (\<lambda>st body. st = 0x00),
        Sleep (now + 1),
        Ask (json_fput handle p (now + 900)) (\<lambda>st body. st = 0x00),
        Look (\<lambda>fs. fenvs dir fs = 1),
        Ask (json_fpop handle tok) (\<lambda>st body. st = 0x00 \<and> map_option length (pointers body) = Some 1),
        Look (\<lambda>fs. fenvs dir fs = 0)])"

lemma persisted_files:
  "fs_faults fs = no_faults \<Longrightarrow> fs_files (persisted dir cid raw fs) =
     AList.update (fenv_path dir cid) \<lparr>f_data = raw, f_mtime = fs_now fs\<rparr> (AList.delete (fenv_tmp_path dir cid) (fs_files fs))"
  by (simp add: persisted_def persist_envelope_def fs_write_def fs_rename_def no_faults_def Let_def fs_put_def
      update_conv' delete_update_same)

lemma persisted_now [simp]: "fs_now (persisted dir cid raw fs) = fs_now fs"
  unfolding persisted_def by (metis persist_keeps prod.collapse)

lemma dropped_files: "fs_faults fs = no_faults \<Longrightarrow> fs_files (drop_envelope dir cid fs) = AList.delete (fenv_path dir cid) (fs_files fs)"
  by (simp add: drop_envelope_def fs_remove_def no_faults_def)

lemma env_cid_file:
  assumes "sha_law X"
  shows "entry_name dir (fenv_path dir (env_cid X h p t)) = Some (env_cid X h p t @ ''.fenv'')"
    "path_extension (env_cid X h p t @ ''.fenv'') = Some ''fenv''"
proof -
  have ne: "sha256 X b \<noteq> []" for b using sha_length [OF assms, of b] by auto
  note f = fenv_name [OF ne]
  show "path_extension (env_cid X h p t @ ''.fenv'') = Some ''fenv''" by (simp only: env_cid_def f)
  show "entry_name dir (fenv_path dir (env_cid X h p t)) = Some (env_cid X h p t @ ''.fenv'')"
    using f(3) hexs_no_slash by (simp add: env_cid_def entry_name_Some)
qed

lemmas disk_eval = persisted_files dropped_files env_cid_file fenvs_def fs_read_dir_def List.map_filter_simps

lemma test_fput_dedupe_composts_superseded_envelope_file:
  assumes "serde_law X" "hex_law X" "sha_law X" "test_time now"
    "env_cid X (replicate 32 6) (ptr (now + 600) 1) (now + 1) \<noteq> env_cid X (replicate 32 6) (ptr (now + 600) 1) now"
  shows "fput_dedupe_composts_superseded_envelope_file X dir now"
proof -
  have h: "concat (replicate 32 ''06'') = hexs (replicate 32 6)" by (rule repeated) code_simp
  have d: "flt_readdir no_faults d = False" for d by (simp add: no_faults_def)
  have m: "fs_files mk_temp_dir = []" "604801 + now = now + 604801" by (simp_all add: mk_temp_dir_def)
  show ?thesis
    unfolding fput_dedupe_composts_superseded_envelope_file_def Let_def h
    by (rule fresh_script [OF assms(1)])
      (use assms(2-) assms(5) [symmetric] in \<open>simp add: requests_ok verbs relay_eval response_ok pointers_def mk_temp_dir_faults disk_eval d m\<close>)
qed

definition handle_case_is_not_identity :: "ext \<Rightarrow> path \<Rightarrow> u64 \<Rightarrow> bool" where
  "handle_case_is_not_identity X dir now =
     (let c = fabric_server X dir fabric_cfg now mk_temp_dir;
          upper = concat (replicate 32 ''AB''); lower = concat (replicate 32 ''ab''); tok = ''tok-1234567890abcdef'' in
      run_script X dir c
       [Ask (json_freg upper tok 60) (\<lambda>st body. st = 0x00),
        Ask (json_fput lower (valid_pointer X (now + 600) 1) (now + 600)) (\<lambda>st body. st = 0x00),
        Ask (json_fpop upper tok) (\<lambda>st body. st = 0x00 \<and> map_option length (pointers body) = Some 1)])"

lemma test_handle_case_is_not_identity:
  assumes "serde_law X" "hex_law X" "test_time now"
  shows "handle_case_is_not_identity X dir now"
proof -
  define u where "u = concat (replicate 32 ''AB'')"
  have h: "concat (replicate 32 ''ab'') = hexs (replicate 32 0xAB)" by (rule repeated) code_simp
  have dec: "unhexs u = Some (replicate 32 0xAB)" unfolding u_def by code_simp
  have low: "map lower_char u = hexs (replicate 32 0xAB)" unfolding h [symmetric] u_def by code_simp
  have len: "length u = 64" using unhexs_length [OF dec] by simp
  have crate: "hex_crate_decode X u = Inr (replicate 32 0xAB)" using dec assms(2) by (simp add: hex_law_decode)
  have fold: "to_lowercase v u = hexs (replicate 32 0xAB)" for v using to_lowercase_hex(1) [OF dec] low by simp
  show ?thesis
    unfolding handle_case_is_not_identity_def Let_def h u_def [symmetric]
    by (rule fresh_script [OF assms(1)])
      (use assms(2,3) in \<open>simp add: requests_ok verbs relay_eval response_ok pointers_def mk_temp_dir_faults len crate fold\<close>)
qed

definition fpop_shares_fput_rate_window :: "ext \<Rightarrow> path \<Rightarrow> u64 \<Rightarrow> bool" where
  "fpop_shares_fput_rate_window X dir now =
     (let fcfg = fabric_config_default\<lparr>fc_enabled := True, fc_fput_rate := 2\<rparr>;
          c = fabric_server X dir fcfg now mk_temp_dir; req = json_fpop (concat (replicate 32 ''08'')) ''x'' in
      run_script X dir c (replicate 2 (Ask req (\<lambda>st body. st = 0x01)) @ [Ask req (\<lambda>st body. st = 0x01)]))"

lemma test_fpop_shares_fput_rate_window:
  assumes "serde_law X" "hex_law X" "test_time now"
  shows "fpop_shares_fput_rate_window X dir now"
proof -
  have h: "concat (replicate 32 ''08'') = hexs (replicate 32 8)" by (rule repeated) code_simp
  show ?thesis
    unfolding fpop_shares_fput_rate_window_def Let_def h
    by (rule fresh_script [OF assms(1)])
      (use assms(2,3) in \<open>simp add: numeral_2_eq_2 requests_ok verbs relay_eval response_ok\<close>)
qed

definition zero_salt_hkdf_matches_go :: "ext \<Rightarrow> bool" where
  "zero_salt_hkdf_matches_go X =
     (let ikm = replicate 32 7; prk = hkdf_prk X ikm; expct = hmac_sha256 X (replicate 32 0) ikm in prk = expct)"

lemma test_zero_salt_hkdf_matches_go: "zero_salt_hkdf_matches_go X"
  by (simp add: zero_salt_hkdf_matches_go_def hkdf_prk_def)

end
