(* ===== verification/Conformance_Restart.thy ===== *)
theory Conformance_Restart
  imports Conformance_Fabric
begin

text \<open>
  The unit tests of \<open>src/fabric.rs\<close> that write envelope files themselves or look into the
  relay's state: rebuilding from the directory, the deadline horizon, and the sweep.
\<close>

section \<open>Tests that write envelope files themselves\<close>

definition write_env :: "ext \<Rightarrow> path \<Rightarrow> string \<Rightarrow> string \<Rightarrow> u64 \<Rightarrow> fsys \<Rightarrow> (fsys \<times> string) run" where
  "write_env X dir handle_hex ptr_hex received fs =
     (case (hex_crate_decode X ptr_hex, hex_crate_decode X handle_hex) of
        (Inr pb, Inr hb) \<Rightarrow>
          if length pb = POINTER_LEN \<and> length hb = 32 then
            let raw = marshal_envelope \<lparr>e_handle = hb, e_pointer = pb, e_received_at = received\<rparr>;
                cid = hex_encode X (sha256 X raw) in
            Ret (fst (fs_write (file_path dir (cid @ ''.fenv'')) raw fs), cid)
          else Panic
      | _ \<Rightarrow> Panic)"

lemma env_cid_path: "file_path dir (env_cid X h p t @ ''.fenv'') = fenv_path dir (env_cid X h p t)"
  by (simp add: fenv_path_def file_path_def)

lemma write_env_works:
  assumes "hex_law X" "length hb = 32" "fs_faults fs = no_faults" "length p = 74"
  shows "write_env X dir (hexs hb) (hexs p) r fs =
    Ret (fs_put (fenv_path dir (env_cid X hb p r))
      (marshal_envelope \<lparr>e_handle = hb, e_pointer = p, e_received_at = r\<rparr>) fs, env_cid X hb p r)"
  using assms works_put(1) [OF assms(3)]
  by (simp add: write_env_def valid_pointer_ptr hex_facts POINTER_LEN_def Let_def env_cid_def [symmetric] env_cid_path)

lemma open_entry_env:
  assumes "hex_law X" "sha_law X" "length hb = 32" "fs_faults fs = no_faults"
    "length p = 74" "p ! 0 = 1" "p ! Suc 0 = 0"
    "fs_lookup fs (fenv_path dir (env_cid X hb p r)) =
       Some \<lparr>f_data = marshal_envelope \<lparr>e_handle = hb, e_pointer = p, e_received_at = r\<rparr>, f_mtime = m\<rparr>"
  shows "open_entry X dir cfg t1 t2 (env_cid X hb p r @ ''.fenv'') (fs, qs) =
    (let d = pointer_deadline p in
     if d \<le> t1 \<or> d > t2 + fc_max_deadline_horizon_sec cfg then (drop_envelope dir (env_cid X hb p r) fs, qs)
     else (fs, AList.update (hexs hb) (queue_of qs (hexs hb) @
       [\<lparr>q_pointer = p, q_env_cid_hex = env_cid X hb p r, q_deadline = d, q_received_at = r\<rparr>]) qs))"
proof -
  let ?e = "\<lparr>e_handle = hb, e_pointer = p, e_received_at = r\<rparr>"
  have "parse_envelope (marshal_envelope ?e) = Inr ?e"
    by (rule parse_marshal) (simp add: env_wf_def assms POINTER_LEN_def)
  moreover have "trim_end_matches ''.fenv'' (from_utf8_lossy (str_bytes (env_cid X hb p r @ ''.fenv''))) = env_cid X hb p r"
    using fenv_name(2) [of "sha256 X (marshal_envelope ?e)"] sha_length [OF assms(2), of "marshal_envelope ?e"]
    by (simp only: env_cid_def) (metis list.size(3) zero_neq_numeral)
  moreover have "fs_read (fenv_path dir (env_cid X hb p r)) fs = Inr (marshal_envelope ?e)"
    using assms(4,8) by (simp add: fs_read_def no_faults_def)
  ultimately show ?thesis
    by (simp add: open_entry_def env_cid_file [OF assms(2)] env_cid_path Let_def hex_facts [OF assms(1)] drop_envelope_def
        del: str_bytes_append)
qed

text \<open>Opening a directory of two envelope files.\<close>

lemma open_files:
  assumes "fs_faults fs = no_faults" "fs_files fs = map (\<lambda>(hb, p, r). (fenv_path dir (env_cid X hb p r), n hb p r)) es"
    "sha_law X"
  shows "fabric_open X dir cfg clk fs = (let (fs', qs) =
     open_loop X dir cfg clk 0 (map (\<lambda>(hb, p, r). env_cid X hb p r @ ''.fenv'') es) (fs, []) in
     (fs', relay_state cfg (rl_new (fc_fput_rate cfg)) [] (map (\<lambda>(h, q). (h, sort_key q_key q)) qs) 0))"
proof -
  have "List.map_filter (\<lambda>(p, f). entry_name dir p) (map (\<lambda>(hb, p, r). (fenv_path dir (env_cid X hb p r), n hb p r)) es) =
      map (\<lambda>(hb, p, r). env_cid X hb p r @ ''.fenv'') es"
    by (induction es) (auto simp: List.map_filter_simps env_cid_file [OF assms(3)])
  then have "fs_read_dir dir fs = Some (map (\<lambda>(hb, p, r). env_cid X hb p r @ ''.fenv'') es)"
    by (simp add: fs_read_dir_def assms(1,2)) (simp add: no_faults_def)
  then show ?thesis by (simp add: fabric_open_def)
qed

text \<open>A test over a run that may panic.\<close>

abbreviation no_panic :: "'a run \<Rightarrow> ('a \<Rightarrow> bool) \<Rightarrow> bool" where
  "no_panic r P \<equiv> (case r of Panic \<Rightarrow> False | Ret a \<Rightarrow> P a)"

definition expired_envelopes_compost_at_rebuild_and_drain :: "ext \<Rightarrow> path \<Rightarrow> path \<Rightarrow> u64 \<Rightarrow> bool" where
  "expired_envelopes_compost_at_rebuild_and_drain X dir dir_b now =
     (let handle_hex = concat (replicate 32 ''07'') in
      no_panic (write_env X dir handle_hex (valid_pointer X (now - 10) 1) now mk_temp_dir) (\<lambda>(fs1, _).
      no_panic (write_env X dir handle_hex (valid_pointer X (now + 600) 2) now fs1) (\<lambda>(fs2, _).
        (case fabric_open X dir fabric_cfg (\<lambda>_. now) fs2 of (fs3, st) \<Rightarrow>
          map_option length (map_of (fab_queues st) handle_hex) = Some 1 \<and> fenvs dir fs3 = 1))) \<and>
      (let c = fabric_server X dir_b fabric_cfg now mk_temp_dir;
           handle_b = concat (replicate 32 ''09''); tok = ''tok-1234567890abcdef''; p = valid_pointer X (now + 2) 3 in
       run_script X dir_b c
        [Ask (json_freg handle_b tok 60) (\<lambda>st body. True),
         Ask (json_fput handle_b p (now + 2)) (\<lambda>st body. st = 0x00),
         Sleep (now + 2),
         Ask (json_fpop handle_b tok) (\<lambda>st body. st = 0x00 \<and> map_option length (pointers body) = Some 0),
         Look (\<lambda>fs. fenvs dir_b fs = 0)]))"

lemma past: "test_time now \<Longrightarrow> a \<le> 1000 \<Longrightarrow> now - a \<le> now"
  by (rule word_sub_le) (simp add: test_time_def word_le_nat_alt word_less_nat_alt)

lemma fresh_disk [simp]: "fs_files mk_temp_dir = []" "fs_now mk_temp_dir = 0"
  by (simp_all add: mk_temp_dir_def)

lemma works_readdir [simp]: "flt_readdir no_faults d = False"
  by (simp add: no_faults_def)

text \<open>Two files in a new directory, opened.\<close>

lemma two_files:
  assumes "hex_law X" "env_cid X hb p1 r1 \<noteq> env_cid X hb p2 r2" "p1 = ptr d1 t1" "p2 = ptr d2 t2" "length hb = 32"
  obtains fs1 fs2 where "write_env X dir (hexs hb) (valid_pointer X d1 t1) r1 mk_temp_dir = Ret (fs1, env_cid X hb p1 r1)"
    "write_env X dir (hexs hb) (valid_pointer X d2 t2) r2 fs1 = Ret (fs2, env_cid X hb p2 r2)"
    "fs_faults fs2 = no_faults"
    "fs_files fs2 = map (\<lambda>(hb, p, r). (fenv_path dir (env_cid X hb p r),
       \<lparr>f_data = marshal_envelope \<lparr>e_handle = hb, e_pointer = p, e_received_at = r\<rparr>, f_mtime = 0\<rparr>)) [(hb, p1, r1), (hb, p2, r2)]"
proof -
  let ?m = "\<lambda>p r. marshal_envelope \<lparr>e_handle = hb, e_pointer = p, e_received_at = r\<rparr>"
  let ?fs1 = "fs_put (fenv_path dir (env_cid X hb p1 r1)) (?m p1 r1) mk_temp_dir"
  let ?fs2 = "fs_put (fenv_path dir (env_cid X hb p2 r2)) (?m p2 r2) ?fs1"
  show thesis
  proof (rule that)
    show "write_env X dir (hexs hb) (valid_pointer X d1 t1) r1 mk_temp_dir = Ret (?fs1, env_cid X hb p1 r1)"
      using assms by (simp add: valid_pointer_ptr write_env_works mk_temp_dir_faults)
    show "write_env X dir (hexs hb) (valid_pointer X d2 t2) r2 ?fs1 = Ret (?fs2, env_cid X hb p2 r2)"
      using assms by (simp add: valid_pointer_ptr write_env_works mk_temp_dir_faults)
    show "fs_files ?fs2 = map (\<lambda>(hb, p, r). (fenv_path dir (env_cid X hb p r), \<lparr>f_data = marshal_envelope
        \<lparr>e_handle = hb, e_pointer = p, e_received_at = r\<rparr>, f_mtime = 0\<rparr>)) [(hb, p1, r1), (hb, p2, r2)]"
      using assms(2) by (simp add: fs_put_def)
  qed (simp add: mk_temp_dir_faults)
qed

lemma test_expired_envelopes_compost_at_rebuild_and_drain:
  assumes "serde_law X" "hex_law X" "sha_law X" "test_time now"
    "env_cid X (replicate 32 7) (ptr (now - 10) 1) now \<noteq> env_cid X (replicate 32 7) (ptr (now + 600) 2) now"
  shows "expired_envelopes_compost_at_rebuild_and_drain X dir dir_b now"
proof -
  have h: "concat (replicate 32 ''07'') = hexs (replicate 32 7)" "concat (replicate 32 ''09'') = hexs (replicate 32 9)"
    by (rule repeated, code_simp)+
  let ?hb = "replicate 32 7 :: bytes" and ?p1 = "ptr (now - 10) 1" and ?p2 = "ptr (now + 600) 2"
  obtain fs1 fs2 where w: "write_env X dir (hexs ?hb) (valid_pointer X (now - 10) 1) now mk_temp_dir = Ret (fs1, env_cid X ?hb ?p1 now)"
    "write_env X dir (hexs ?hb) (valid_pointer X (now + 600) 2) now fs1 = Ret (fs2, env_cid X ?hb ?p2 now)"
    and f: "fs_faults fs2 = no_faults"
    and files: "fs_files fs2 = map (\<lambda>(hb, p, r). (fenv_path dir (env_cid X hb p r),
       \<lparr>f_data = marshal_envelope \<lparr>e_handle = hb, e_pointer = p, e_received_at = r\<rparr>, f_mtime = 0\<rparr>)) [(?hb, ?p1, now), (?hb, ?p2, now)]"
    using two_files [OF assms(2,5) refl refl, of dir] by auto
  have opn: "fabric_open X dir fabric_cfg (\<lambda>_. now) fs2 = (drop_envelope dir (env_cid X ?hb ?p1 now) fs2,
      relay_state fabric_cfg (rl_new 60) [] [(hexs ?hb, [\<lparr>q_pointer = ?p2, q_env_cid_hex = env_cid X ?hb ?p2 now,
        q_deadline = now + 600, q_received_at = now\<rparr>])] 0)"
    unfolding open_files [OF f files assms(3)]
    using assms past [OF assms(4), of 10]
    by (simp add: open_entry_env f files queue_of_def relay_eval drop_envelope_other)
  have "fenvs dir (drop_envelope dir (env_cid X ?hb ?p1 now) fs2) = 1"
    using assms(3,5) by (simp add: fenvs_def fs_read_dir_def dropped_files f files List.map_filter_simps env_cid_file)
  moreover have "run_script X dir_b (fabric_server X dir_b fabric_cfg now mk_temp_dir)
        [Ask (json_freg (hexs (replicate 32 9)) tok 60) (\<lambda>st body. True),
         Ask (json_fput (hexs (replicate 32 9)) (valid_pointer X (now + 2) 3) (now + 2)) (\<lambda>st body. st = 0x00),
         Sleep (now + 2),
         Ask (json_fpop (hexs (replicate 32 9)) tok) (\<lambda>st body. st = 0x00 \<and> map_option length (pointers body) = Some 0),
         Look (\<lambda>fs. fenvs dir_b fs = 0)]"
    by (rule fresh_script [OF assms(1)])
      (use assms(2,3,4) in \<open>simp add: requests_ok verbs relay_eval response_ok pointers_def mk_temp_dir_faults disk_eval\<close>)
  ultimately show ?thesis
    unfolding expired_envelopes_compost_at_rebuild_and_drain_def Let_def h tok_def [symmetric] by (simp add: w opn)
qed

definition fabric_state_rebuilds_from_disk :: "ext \<Rightarrow> path \<Rightarrow> u64 \<Rightarrow> bool" where
  "fabric_state_rebuilds_from_disk X dir now =
     (let handle_hex = concat (replicate 32 ''ff'');
          ptr_a = valid_pointer X (now + 600) 1; ptr_b = valid_pointer X (now + 600) 2 in
      no_panic (write_env X dir handle_hex ptr_a (1000 + 0) mk_temp_dir) (\<lambda>(fs1, _).
      no_panic (write_env X dir handle_hex ptr_b (1000 + 1) fs1) (\<lambda>(fs2, _).
        (case fabric_open X dir fabric_cfg (\<lambda>_. now) fs2 of (fs3, st) \<Rightarrow>
          (case map_of (fab_queues st) handle_hex of None \<Rightarrow> False
           | Some q \<Rightarrow> map (hex_encode X \<circ> q_pointer) q = [ptr_a, ptr_b])))))"

lemma test_fabric_state_rebuilds_from_disk:
  assumes "hex_law X" "sha_law X" "test_time now"
    "env_cid X (replicate 32 0xFF) (ptr (now + 600) 1) 1000 \<noteq> env_cid X (replicate 32 0xFF) (ptr (now + 600) 2) 1001"
  shows "fabric_state_rebuilds_from_disk X dir now"
proof -
  have h: "concat (replicate 32 ''ff'') = hexs (replicate 32 0xFF)" by (rule repeated) code_simp
  have r: "1000 + 0 = (1000 :: u64)" "1000 + 1 = (1001 :: u64)" by simp_all
  let ?hb = "replicate 32 0xFF :: bytes" and ?pa = "ptr (now + 600) 1" and ?pb = "ptr (now + 600) 2"
  obtain fs1 fs2 where w: "write_env X dir (hexs ?hb) (valid_pointer X (now + 600) 1) 1000 mk_temp_dir = Ret (fs1, env_cid X ?hb ?pa 1000)"
    "write_env X dir (hexs ?hb) (valid_pointer X (now + 600) 2) 1001 fs1 = Ret (fs2, env_cid X ?hb ?pb 1001)"
    and f: "fs_faults fs2 = no_faults"
    and files: "fs_files fs2 = map (\<lambda>(hb, p, r). (fenv_path dir (env_cid X hb p r),
       \<lparr>f_data = marshal_envelope \<lparr>e_handle = hb, e_pointer = p, e_received_at = r\<rparr>, f_mtime = 0\<rparr>)) [(?hb, ?pa, 1000), (?hb, ?pb, 1001)]"
    using two_files [OF assms(1,4) refl refl, of dir] by auto
  have opn: "fabric_open X dir fabric_cfg (\<lambda>_. now) fs2 = (fs2, relay_state fabric_cfg (rl_new 60) [] [(hexs ?hb,
      [\<lparr>q_pointer = ?pa, q_env_cid_hex = env_cid X ?hb ?pa 1000, q_deadline = now + 600, q_received_at = 1000\<rparr>,
       \<lparr>q_pointer = ?pb, q_env_cid_hex = env_cid X ?hb ?pb 1001, q_deadline = now + 600, q_received_at = 1001\<rparr>])] 0)"
    unfolding open_files [OF f files assms(2)]
    using assms by (simp add: open_entry_env f files queue_of_def relay_eval sort_key_def less_le)
  show ?thesis
    unfolding fabric_state_rebuilds_from_disk_def Let_def h r
    by (simp add: w opn) (simp add: hex_facts [OF assms(1)] valid_pointer_ptr [OF assms(1)])
qed

definition sat_sub :: "u64 \<Rightarrow> u64 \<Rightarrow> u64" where
  "sat_sub a b = word_of_nat (unat a - unat b)"

definition freg_sweep_is_time_gated :: "ext \<Rightarrow> path \<Rightarrow> u64 \<Rightarrow> bool" where
  "freg_sweep_is_time_gated X dir now =
     (case fabric_open X dir fabric_cfg (\<lambda>_. now) mk_temp_dir of (fs, st) \<Rightarrow>
      let h1 = concat (replicate 32 ''dd'');
          stale = \<lparr>reg_token = concat (replicate 20 ''t''), reg_expires = sat_sub now 10\<rparr>;
          st = st\<lparr>fab_reg := AList.update h1 stale (fab_reg st)\<rparr>;
          last = fab_last_sweep_sec st;
          st = (if now > last
                then st\<lparr>fab_reg := filter (\<lambda>(_, r). reg_expires r > now) (fab_reg st), fab_last_sweep_sec := now\<rparr>
                else st);
          sweep_after_first = fab_last_sweep_sec st in
      sweep_after_first = now \<and>
      (let st = st\<lparr>fab_reg := AList.update h1 stale (fab_reg st)\<rparr>; last = fab_last_sweep_sec st in
       last = now \<and>
       (case map_of (fab_reg st) h1 of None \<Rightarrow> False | Some r \<Rightarrow> reg_expires r \<le> now) \<and>
       \<not> (case map_of (fab_reg st) h1 of None \<Rightarrow> False | Some r \<Rightarrow> reg_expires r > now)))"

definition expired_registration_re_registrable_before_sweep :: "ext \<Rightarrow> path \<Rightarrow> u64 \<Rightarrow> bool" where
  "expired_registration_re_registrable_before_sweep X dir now =
     (case fabric_open X dir fabric_cfg (\<lambda>_. now) mk_temp_dir of (fs, st) \<Rightarrow>
      let h = concat (replicate 32 ''ff'');
          st = st\<lparr>fab_reg := AList.update h \<lparr>reg_token = ''old-owner-token-12345'', reg_expires = sat_sub now 5\<rparr> (fab_reg st)\<rparr>;
          live = (case map_of (fab_reg st) h of None \<Rightarrow> False | Some r \<Rightarrow> reg_expires r > now) in
      \<not> live)"

lemma sat_sub_le: "sat_sub now a \<le> now"
  by (simp add: sat_sub_def word_le_nat_alt unat_of_nat take_bit_eq_mod [symmetric])

lemma test_freg_sweep_is_time_gated: "test_time now \<Longrightarrow> freg_sweep_is_time_gated X dir now"
  by (simp add: freg_sweep_is_time_gated_def open_empty Let_def sat_sub_le not_less)

lemma test_expired_registration_re_registrable_before_sweep: "expired_registration_re_registrable_before_sweep X dir now"
  by (simp add: expired_registration_re_registrable_before_sweep_def open_empty Let_def sat_sub_le not_less)

definition fput_deadline_horizon_cap_refuses_immortal_envelope :: "ext \<Rightarrow> path \<Rightarrow> u64 \<Rightarrow> bool" where
  "fput_deadline_horizon_cap_refuses_immortal_envelope X dir now =
     (let c = fabric_server X dir fabric_cfg now mk_temp_dir;
          handle = concat (replicate 32 ''cc''); token = ''tok-1234567890abcdef'';
          leftover_deadline = now + 10 * 365 * 24 * 3600;
          leftover = hex_encode X ([1, 0] @ replicate 32 7 @ replicate 32 8 @ le_bytes 8 (unat leftover_deadline)) in
      run_script X dir c
       ([Ask (json_freg handle token 60) (\<lambda>st body. st = 0x00)] @
        map (\<lambda>dl. Ask (json_fput handle (valid_pointer X dl 1) dl) (\<lambda>st body. st = 0x01)) [0xFFFFFFFFFFFFFFFF, now + 365 * 24 * 3600] @
        [Ask (json_fput handle (valid_pointer X (now + 600) 2) (now + 600)) (\<lambda>st body. st = 0x00),
         Look (\<lambda>fs. no_panic (write_env X dir handle leftover now fs) (\<lambda>(fs1, cid).
           (case fabric_open X dir fabric_cfg (\<lambda>_. now) fs1 of (fs2, st) \<Rightarrow>
              list_all (\<lambda>(_, q). list_all (\<lambda>x. q_env_cid_hex x \<noteq> cid) q) (fab_queues st) \<and>
              fs_lookup fs2 (file_path dir (cid @ ''.fenv'')) = None)))]))"

lemma test_fput_deadline_horizon_cap_refuses_immortal_envelope:
  assumes "serde_law X" "hex_law X" "sha_law X" "test_time now"
    "env_cid X (replicate 32 0xCC) (ptr (now + 600) 2) now \<noteq>
     env_cid X (replicate 32 0xCC) ([1, 0] @ replicate 32 7 @ replicate 32 8 @ le_bytes 8 (unat (now + 315360000))) now"
  shows "fput_deadline_horizon_cap_refuses_immortal_envelope X dir now"
proof -
  have h: "concat (replicate 32 ''cc'') = hexs (replicate 32 0xCC)" by (rule repeated) code_simp
  have far: "\<not> (0xFFFFFFFFFFFFFFFF :: u64) \<le> now" "now + 604800 < (0xFFFFFFFFFFFFFFFF :: u64)"
    using assms(4) by (simp_all add: test_time_def word_less_nat_alt word_le_nat_alt unat_word_ariths)
  define p where "p = [1, 0] @ replicate 32 7 @ replicate 32 8 @ le_bytes 8 (unat (now + 315360000))"
  have p: "length p = 74" "p ! 0 = 1" "p ! Suc 0 = 0" "pointer_deadline p = now + 315360000"
    by (simp_all add: p_def pointer_deadline_def u64_le_roundtrip)
  let ?hb = "replicate 32 0xCC :: bytes" and ?q = "ptr (now + 600) 2"
  let ?m = "\<lambda>p. marshal_envelope \<lparr>e_handle = ?hb, e_pointer = p, e_received_at = now\<rparr>"
  let ?fs = "persisted dir (env_cid X ?hb ?q now) (?m ?q) mk_temp_dir"
  define fs1 where "fs1 = fs_put (fenv_path dir (env_cid X ?hb p now)) (?m p) ?fs"
  have ne: "env_cid X ?hb ?q now \<noteq> env_cid X ?hb p now" using assms(5) by (simp add: p_def)
  have f: "fs_faults fs1 = no_faults" by (simp add: fs1_def mk_temp_dir_faults)
  have files: "fs_files fs1 = map (\<lambda>(hb, p, r). (fenv_path dir (env_cid X hb p r), \<lparr>f_data = marshal_envelope
        \<lparr>e_handle = hb, e_pointer = p, e_received_at = r\<rparr>, f_mtime = 0\<rparr>)) [(?hb, ?q, now), (?hb, p, now)]"
    using ne by (simp add: fs1_def fs_put_def persisted_files mk_temp_dir_faults)
  have opn: "fabric_open X dir fabric_cfg (\<lambda>_. now) fs1 = (drop_envelope dir (env_cid X ?hb p now) fs1,
      relay_state fabric_cfg (rl_new 60) [] [(hexs ?hb, [\<lparr>q_pointer = ?q, q_env_cid_hex = env_cid X ?hb ?q now,
        q_deadline = now + 600, q_received_at = now\<rparr>])] 0)"
    unfolding open_files [OF f files assms(3)]
    using assms(2-4) p ne by (simp add: open_entry_env f files queue_of_def relay_eval)
  have gone: "fs_lookup (drop_envelope dir (env_cid X ?hb p now) fs1) (fenv_path dir (env_cid X ?hb p now)) = None"
    unfolding drop_envelope_def by (rule fs_remove_gone) (simp add: f, simp add: no_faults_def)
  have wr: "write_env X dir (hexs ?hb) (hexs p) now ?fs = Ret (fs1, env_cid X ?hb p now)"
    using assms(2) p(1) by (simp add: write_env_works mk_temp_dir_faults fs1_def)
  have look: "no_panic (write_env X dir (hexs ?hb) (hexs p) now ?fs) (\<lambda>(fs1, cid).
      (case fabric_open X dir fabric_cfg (\<lambda>_. now) fs1 of (fs2, st) \<Rightarrow>
        list_all (\<lambda>(_, q). list_all (\<lambda>x. q_env_cid_hex x \<noteq> cid) q) (fab_queues st) \<and>
        fs_lookup fs2 (file_path dir (cid @ ''.fenv'')) = None))"
    unfolding wr run.case prod.case opn using gone ne by (simp add: env_cid_path)
  have leftover: "hex_encode X ([1, 0] @ replicate 32 7 @ replicate 32 8 @ le_bytes 8 (unat (now + 10 * 365 * 24 * 3600))) = hexs p"
    by (simp add: hex_facts [OF assms(2)] p_def)
  show ?thesis
    unfolding fput_deadline_horizon_cap_refuses_immortal_envelope_def Let_def h leftover
    by (rule fresh_script [OF assms(1)])
      (use assms(2,4) far look in \<open>simp add: requests_ok verbs relay_eval response_ok mk_temp_dir_faults\<close>)
qed

section \<open>A node without the relay\<close>

definition fabric_disabled_without_flag :: "ext \<Rightarrow> path \<Rightarrow> u64 \<Rightarrow> bool" where
  "fabric_disabled_without_flag X dir now =
     (let c = \<lparr>s_in = [], s_out = [], s_broken = False,
            s_peer = \<lparr>nd_fs = mk_temp_dir, nd_limiter = rl_new 0, nd_fabric = None\<rparr>,
            s_react = node_reacts X dir local_ip serve_config_default (\<lambda>_. now)\<rparr> in
      run_script X dir c
       [Ask (Object [(''handle'', String ''00''), (''token'', String ''t''), (''verb'', String ''freg'')]) (\<lambda>st body. st = 0x01)])"

lemma test_fabric_disabled_without_flag:
  assumes "serde_law X"
  shows "fabric_disabled_without_flag X dir now"
proof -
  let ?m = "[(''handle'', String ''00''), (''token'', String ''t''), (''verb'', String ''freg'')]"
  let ?nd = "\<lparr>nd_fs = mk_temp_dir, nd_limiter = rl_new 0, nd_fabric = None\<rparr>"
  let ?c = "\<lparr>s_in = [], s_out = [], s_broken = False, s_peer = ?nd,
    s_react = node_reacts X dir local_ip serve_config_default (\<lambda>_. now)\<rparr>"
  have m: "flat_object ?m" "object_size ?m \<le> MAX_FRAME" by (simp_all add: flat_object_def object_size_def MAX_FRAME_def)
  have j: "json_law X (Object ?m)" "length (json_to_string X (Object ?m)) \<le> MAX_FRAME"
    using assms m(1) m(2) unfolding serde_law_def by (blast, blast intro: le_trans)
  have s: "served_by X dir local_ip serve_config_default (\<lambda>_. now) ?nd ?c" by (simp add: served_by_def)
  have h: "handle_verb X (conn []) (Object ?m) dir (nd_fabric ?nd) local_ip (\<lambda>_. now) (nd_fs ?nd) =
      (fst (write_frame (conn []) (0x01 # str_bytes ''501 fabric disabled'')), None, mk_temp_dir, Ret ())"
    by (simp add: handle_verb_def frame_err_def STATUS_ERR_def)
  have "length (str_bytes ''501 fabric disabled'') < MAX_FRAME" by (simp add: MAX_FRAME_def)
  from rpc_served [OF s j _ h this] obtain c' where "rpc X ?c (Object ?m) = (c', Ret (0x01,
      case json_from_slice X (str_bytes ''501 fabric disabled'') of None \<Rightarrow> Null | Some v \<Rightarrow> v))" by auto
  then show ?thesis by (simp add: fabric_disabled_without_flag_def Let_def)
qed

end
