(* ===== verification/Spec2Isabelle.thy ===== *)
theory Spec2Isabelle
  imports Wire_Props Store_Props Relay_Props Fabric_Props Server_Props Client_Props Cli_Props Converge_Props World_Props Node_Props Conformance_Peers Conformance_Restart
begin

text \<open>
  Verification development of spore-peer: a daemon that keeps a content-addressed store of
  bodies (\<open><sha256>.body\<close> files), serves it over TCP to other peers and to one-shot clients,
  converges with listed peers, and, when enabled, runs a relay (the fabric) that queues
  74-byte pointers for registered handles.

  The parts and how they interact.

  \<^item> The wire (\<open>src/src/p2p.rs\<close>). \<open>Cbor\<close> models the encoders, the payload builders and the
    decoder \<open>decode_message\<close> / \<open>decode_value\<close>; \<open>Framing\<close> models \<open>write_frame\<close>,
    \<open>read_frame\<close> and \<open>rpc2_call\<close> over a \<open>stream\<close> record (bytes to read, bytes written, the
    remote side as a reaction function). \<open>Cbor_Frames\<close> has the facts about appended bytes
    and the oracle of the fuzz target \<open>src/fuzz/fuzz_targets/fuzz_p2p_decode.rs\<close>,
    \<open>Wire_Sizes\<close> the sizes and the decoded values of every payload, \<open>Cbor_Typed\<close> the
    well-typedness of what the decoder builds, \<open>Nesting\<close> its depth and the exact limit on
    what the encoder \<open>json_to_cbor\<close> writes.
  \<^item> The store (\<open>src/src/spore_peer.rs\<close>). \<open>Filesystem\<close> is the model of \<open>std::fs\<close>: paths to
    contents and times, with a record of faults that says which call the system refuses.
    \<open>Hold\<close> models \<open>store_bytes\<close>, \<open>store_body\<close>, \<open>hex_decode\<close>, \<open>serve_body\<close>, \<open>frame_ok\<close>,
    \<open>frame_err\<close>, \<open>chain_view\<close> and \<open>parse_fetch_response\<close>; \<open>Policy\<close> models the rate limiter,
    \<open>ct_eq\<close> and \<open>enforce_write_policy\<close>. \<open>Chain_Facts\<close> and \<open>Quota\<close> hold lemmas.
  \<^item> The relay (\<open>src/src/fabric.rs\<close>). \<open>Envelope\<close> models HMAC, HKDF, the handle and token
    derivations and the envelope codec; \<open>Fabric\<close> models the state, \<open>open\<close>, the three verbs
    and both wire faces, \<open>Relay\<close> the step relation over verbs, restarts and a disk that may
    begin or cease to refuse calls. The facts are in
    \<open>Fabric_Registry\<close>, \<open>Fabric_Index\<close> (queue entries and envelope files), \<open>Fabric_Verbs\<close>
    (one case rule per verb), \<open>Fabric_Restart\<close>, \<open>Fabric_Wire\<close>, and \<open>Fabric_Spec\<close>, which
    states the mailbox specification and the simulation. \<open>Fabric_Threads\<close> cuts the verbs at
    the points where a thread holds no lock (\<open>fput_step\<close>, \<open>fpop_step\<close>), interleaves the
    pieces of all requests in progress, with crashes, and simulates the mailbox again.
  \<^item> The node. \<open>Server\<close> models \<open>handle_rpc2\<close>, the dispatch of one frame and the loop of
    \<open>handle_client\<close> over a record of disk, limiter and relay; \<open>Server_Facts\<close> has the case
    rules and the invariant; \<open>Hold_Threads\<close> cuts the push handler at the limiter, the quota
    check and every file operation (\<open>push_step\<close>; an open file follows a rename) and
    interleaves pushes; \<open>Node_Threads\<close> interleaves pushes and relay verbs on one directory,
    with crashes, and refines mailbox and store together; \<open>Daemon\<close> models \<open>write_pidfile\<close>, the shutdown handlers,
    \<open>serve\<close> with its accept loop and drain, and the step relation \<open>node_step\<close> of the requests of
    all connections, restarts and the disk.
  \<^item> The clients. \<open>Client\<close> models \<open>fetch\<close>, \<open>fabric_pub\<close>, \<open>sync_stream\<close>, \<open>push_stream\<close> and
    their wrappers, \<open>Peers\<close> the list of peers and the convergence loop, \<open>Cli\<close> the option
    loops and \<open>main\<close>. \<open>Client_Facts\<close>, \<open>Text_Facts\<close> and \<open>Peers_Facts\<close> hold lemmas;
    \<open>Honest\<close> composes clients and server: a stream whose remote side is a node of this model;
    \<open>Converge\<close> composes pull and push over one connection; \<open>World\<close> puts a node behind every
    address and composes the passes over all peers, each pass meeting the nodes as the one
    before left them.
  \<^item> The unit tests. \<open>Conformance_Wire\<close>, \<open>Conformance_Store\<close>, \<open>Conformance_Policy\<close>,
    \<open>Conformance_Peers\<close>, \<open>Conformance_Fabric\<close> and \<open>Conformance_Restart\<close> hold tests of the
    repository as definitions, each with a lemma \<open>test_...\<close> that the model passes it. A relay
    test is a script (\<open>run_script\<close>) of requests over one connection to a node of the model.
  \<^item> \<open>Prelude\<close> has the types, the outcome type \<open>run\<close> (a value or a panic), the collections of
    simplification rules and the lemmas on lists and words; \<open>Rust_Std\<close> and \<open>Rust_Text\<close> model
    the standard library where the code uses it (UTF-8, integer parsing, \<open>trim\<close>, \<open>lines\<close>).

  Third-party code. The crates sha2, hex and serde_json are the parameter \<open>ext\<close> of
  \<open>Externals\<close>; their documented behaviour is stated there (\<open>hex_law\<close>, \<open>sha_law\<close>) and, for
  one property, as \<open>json_law\<close>; the relay tests print and parse many objects and assume it
  for all of them (\<open>serde_law\<close> in \<open>Conformance_Fabric\<close>). \<open>demo_ext\<close> is a concrete instance for the witnesses. Where a
  property about the relay's files depends on SHA-256 keeping envelopes apart, it says so
  (\<open>no_collision\<close>, and \<open>collision_free\<close> for a frame): the envelope that this request writes,
  and no other, must not get by its digest the name of a file of the directory that holds
  different bytes. A second put of the same bytes, or any put on a disk with other envelopes,
  meets it unless SHA-256 collides on these very inputs; the witnesses put on a disk that
  already has an envelope.

  What the properties show. \<open>Wire_Props\<close>: no input makes the decoder panic, decoded values
  are well typed, nesting is capped, payloads and frames round trip.
  \<open>Store_Props\<close>: storing is content addressing with every disk outcome, the chain view is
  an ordered index, the limiter keeps its cap. \<open>Relay_Props\<close>:
  registrations cannot be taken over, what freg and fput admit, delivery, the invariant between queues
  and files, refinement of a mailbox per handle, restarts. \<open>Node_Props\<close>: all threads of a node together,
  with crashes: nothing is invented or misrouted, the relay is the mailbox until a crash, and
  every reported push is served when no write is in progress. \<open>Thread_Props\<close> and
  \<open>Push_Props\<close>: the cut requests are the requests (\<open>pieces_sequential\<close>, a lemma that ties the
  two models together), and the schedules \<open>fput_race\<close> (an
  accepted pointer that a restart loses), \<open>push_race\<close> (a stored id with an empty file) and
  \<open>quota_race\<close> (two pushes beyond the cap). \<open>Fabric_Props\<close>: codec and
  derivations, the two faces, and what an rpc2 client decodes. \<open>Server_Props\<close>: the node's
  invariant over all requests, one answer per request, panics, the end of a connection,
  the quota over requests served one after another, pushes and Peer.Chain. \<open>Client_Props\<close>: a pull from a node converges, a pull from
  any peer is safe, fetch, and the peers list. \<open>Converge_Props\<close>: client and peer hold the
  union of their bodies after a pass over one connection. \<open>World_Props\<close>: two passes of the
  sync loop bring the client and all reachable peers to the union of their bodies, the
  transfers reported add up to the bodies that were missing anywhere, and a third pass moves
  nothing; every address is a node of its own, and the union is within the 2000 bodies
  that a pull or a push handles. \<open>Cli_Props\<close>: the drain and the
  exit status of every command, that of a panic in the main thread included (\<open>exit_status\<close>).

  Interfaces. Each is a locale, interpreted on the model's own definitions in the theory of
  the component that provides it: \<open>invariant_system\<close> (\<open>relay_system\<close> in \<open>Relay\<close>,
  \<open>node_system\<close> in \<open>Daemon\<close>, \<open>calm\<close> in \<open>Node_Threads\<close>), \<open>refinement\<close>, which is one (\<open>mailboxes\<close> in \<open>Fabric_Spec\<close>,
  \<open>boxes\<close> in \<open>Fabric_Threads\<close>, \<open>pushes\<close> in \<open>Hold_Threads\<close>, \<open>nodes\<close> in \<open>Node_Threads\<close>),
  \<open>strict_codec\<close> (\<open>envelopes\<close> in \<open>Envelope\<close>) and \<open>content_store\<close> (\<open>bodies\<close> in
  \<open>Store_Interface\<close>), all four stated in \<open>Interfaces\<close>; \<open>framed\<close> (\<open>tcp\<close>, both in \<open>Framing\<close>);
  \<open>rate_gate\<close> (\<open>rl\<close>, both in \<open>Policy\<close>).

  Conventions. Integers are words of the source's width, so overflow wraps as in a release
  build (a debug build would panic where the model wraps). Rust strings are byte strings.
  Time is an argument: \<open>clk i\<close> is the \<open>i\<close>-th reading of the clock within one request. A
  panic ends the connection's thread, not the process. Loops that may run forever
  (\<open>handle_client\<close>, \<open>sync_passes\<close>, \<open>drain_wait\<close>, the HKDF loop) are partial functions to
  an option, and what ends them is proved apart. Fuel occurs only in \<open>job_run\<close> and
  \<open>push_run\<close>, which run the pieces of one request alone: 5 pieces for fput, 3 for fpop, 1 for
  freg and 7 for a push are enough, as \<open>pieces_sequential\<close> proves. In
  \<open>node_step\<close> each request takes effect as a whole; the interleaving inside the handlers that
  change the disk is the subject of \<open>Fabric_Threads\<close>, \<open>Hold_Threads\<close> and \<open>Node_Threads\<close>.

  Granularity. What the model does in one step and the code in several system calls: a frame
  is written whole or, on a broken connection, not at all (\<open>write_frame\<close> of the code writes
  length and payload and flushes); in the threads, the walk of the directory that sums the
  bodies, \<open>stat\<close> with \<open>create_dir_all\<close> before a push, a \<open>write\<close> of a whole body to an open
  file, the creation and writing of an envelope of 115 bytes under its temporary name, and
  the removals that fput and fpop do while they hold the lock on the queues: another thread's
  rename of an envelope between two of them has the effect it has before or after them all,
  a crash between two of them, which leaves some of the files, is not covered. Two places differ in form only: the field \<open>fabric\<close> of the code's
  \<open>ServeConfig\<close>, an \<open>Option<Arc<..>>\<close> to shared state, is the field \<open>nd_fabric\<close> of the node, and
  \<open>DirEntry::metadata\<close>, which unlike \<open>metadata\<close> does not follow symbolic links, is read as
  \<open>metadata\<close> in a file system without links.

  Not modelled. Messages on stderr; signals outside the accept loop (before the handlers are
  installed, and during the drain, where they change nothing); socket options and timeouts;
  the Unicode tables of \<open>to_lowercase\<close> (a parameter); directories as objects; the tests
  that read the vector file of another repository, the tests of \<open>spore_peer.rs\<close> that run over a
  real socket, the integration test binary and the benchmarks.

  Dead code. The wrappers \<open>freg\<close>, \<open>fput\<close> and \<open>fpop\<close> of \<open>fabric.rs\<close> are not called
  (\<open>handle_verb\<close> replies with \<open>run_freg\<close>, \<open>run_fput\<close> and \<open>run_fpop\<close> itself) and have no
  definition.

  What remains. After a crash the store may keep a body file that was empty or being written
  (\<open>push_race\<close>); which ones is not tracked. The sync client writes to the final path
  directly and is not cut into pieces; reads (Peer.Chain, \<open>store_bytes\<close>) take one step.
\<close>

end
